(* ===== verification/Prelude.thy ===== *)
theory Prelude
  imports Complex_Main "HOL-Library.AList" "HOL-Library.Multiset"
begin

text \<open>
  Shared vocabulary of the development.  JavaScript's \<open>Map\<close> is modelled with its
  iteration order (insertion order; overwriting keeps the position, delete and set moves a
  key to the end) as an association list over the library's \<open>AList\<close> operations.  The
  theory also holds the values the code reads from untyped messages, the numbers of the
  language with \<open>NaN\<close> and the infinities, truthiness of strings, and the collections of
  hints the components share.
\<close>

named_theorems op_defs "unfolding equations of the operations of a component"
named_theorems inv_rules "preservation rules of component invariants"
named_theorems frame_simps "what an operation leaves alone"

type_synonym ms = real

section \<open>JavaScript maps\<close>

type_synonym ('k, 'v) jsmap = "('k \<times> 'v) list"

abbreviation jm_get :: "('k, 'v) jsmap \<Rightarrow> 'k \<Rightarrow> 'v option" where
  "jm_get m k \<equiv> map_of m k"

abbreviation jm_set :: "('k, 'v) jsmap \<Rightarrow> 'k \<Rightarrow> 'v \<Rightarrow> ('k, 'v) jsmap" where
  "jm_set m k v \<equiv> AList.update k v m"

abbreviation jm_delete :: "('k, 'v) jsmap \<Rightarrow> 'k \<Rightarrow> ('k, 'v) jsmap" where
  "jm_delete m k \<equiv> AList.delete k m"

abbreviation jm_keys :: "('k, 'v) jsmap \<Rightarrow> 'k list" where
  "jm_keys m \<equiv> map fst m"

abbreviation jm_values :: "('k, 'v) jsmap \<Rightarrow> 'v list" where
  "jm_values m \<equiv> map snd m"

abbreviation jm_ok :: "('k, 'v) jsmap \<Rightarrow> bool" where
  "jm_ok m \<equiv> distinct (map fst m)"

definition jm_has :: "('k, 'v) jsmap \<Rightarrow> 'k \<Rightarrow> bool" where
  "jm_has m k = (map_of m k \<noteq> None)"

lemma jm_get_set [simp]: "map_of (AList.update k v m) k' = (if k' = k then Some v else map_of m k')"
  by (simp add: update_conv')

lemma jm_get_delete [simp]: "map_of (AList.delete k m) k' = (if k' = k then None else map_of m k')"
  by (simp add: delete_conv')

lemma jm_ok_set [simp, intro]: "jm_ok m \<Longrightarrow> jm_ok (AList.update k v m)"
  by (rule distinct_update)

lemma jm_ok_delete [simp, intro]: "jm_ok m \<Longrightarrow> jm_ok (AList.delete k m)"
  by (rule distinct_delete)

lemma jm_has_iff: "jm_has m k \<longleftrightarrow> (\<exists>v. map_of m k = Some v)"
  by (simp add: jm_has_def)

lemma jm_has_set [simp]: "jm_has (AList.update k v m) k' \<longleftrightarrow> k' = k \<or> jm_has m k'"
  by (simp add: jm_has_def)

lemma jm_has_delete [simp]: "jm_has (AList.delete k m) k' \<longleftrightarrow> k' \<noteq> k \<and> jm_has m k'"
  by (simp add: jm_has_def)

lemma jm_in_set_iff: "jm_ok m \<Longrightarrow> (k, v) \<in> set m \<longleftrightarrow> map_of m k = Some v"
  by simp

lemma jm_length_set:
  "length (AList.update k v m) = (if jm_has m k then length m else Suc (length m))"
proof -
  have "length (map fst (AList.update k v m)) = (if k \<in> set (map fst m) then length m else Suc (length m))"
    by (simp add: update_keys)
  then show ?thesis
    by (simp add: jm_has_def map_of_eq_None_iff)
qed

lemma jm_length_delete_le: "length (AList.delete k m) \<le> length m"
  by (simp add: AList.delete_eq)

lemma jm_length_delete_less: "jm_has m k \<Longrightarrow> length (AList.delete k m) < length m"
proof -
  assume "jm_has m k"
  then obtain v where "(k, v) \<in> set m"
    by (auto simp: jm_has_iff dest: map_of_SomeD)
  then show ?thesis
    unfolding AList.delete_eq by (rule length_filter_less) simp
qed

text \<open>
  The laws of \<open>Map\<close> that the components rely on, stated as an interface: lookup after an
  update and after a deletion, and the uniqueness of the keys.
\<close>

locale keyed_store =
  fixes look :: "'m \<Rightarrow> 'k \<Rightarrow> 'v option"
    and put :: "'m \<Rightarrow> 'k \<Rightarrow> 'v \<Rightarrow> 'm"
    and drop_key :: "'m \<Rightarrow> 'k \<Rightarrow> 'm"
    and wf :: "'m \<Rightarrow> bool"
  assumes look_put: "wf m \<Longrightarrow> look (put m k v) k' = (if k' = k then Some v else look m k')"
    and look_drop: "wf m \<Longrightarrow> look (drop_key m k) k' = (if k' = k then None else look m k')"
    and wf_put: "wf m \<Longrightarrow> wf (put m k v)"
    and wf_drop: "wf m \<Longrightarrow> wf (drop_key m k)"
begin

lemma put_keeps_other: "wf m \<Longrightarrow> k' \<noteq> k \<Longrightarrow> look (put m k v) k' = look m k'"
  by (simp add: look_put)

lemma put_fresh_cases:
  assumes "wf m" and "look (put m k v) k' = Some w"
  shows "(k' = k \<and> w = v) \<or> (k' \<noteq> k \<and> look m k' = Some w)"
  using assms by (auto simp: look_put split: if_splits)

lemma drop_cases:
  assumes "wf m" and "look (drop_key m k) k' = Some w"
  shows "k' \<noteq> k \<and> look m k' = Some w"
  using assms by (auto simp: look_drop split: if_splits)

lemma drop_list_look:
  assumes "wf m"
  shows "wf (foldl drop_key m ks) \<and>
    look (foldl drop_key m ks) k' = (if k' \<in> set ks then None else look m k')"
  using assms by (induction ks arbitrary: m) (auto simp: look_drop wf_drop)

end

interpretation jsmap: keyed_store "\<lambda>m :: ('k, 'v) jsmap. map_of m" "\<lambda>m k v. AList.update k v m"
    "\<lambda>m k. AList.delete k m" "\<lambda>m. distinct (map fst m)"
  by unfold_locales (auto simp: distinct_update)

section \<open>Strings\<close>

text \<open>A string used as a condition: \<open>null\<close>, \<open>undefined\<close> and the empty string are falsy.\<close>

definition truthy :: "string option \<Rightarrow> bool" where
  "truthy s = (case s of None \<Rightarrow> False | Some x \<Rightarrow> x \<noteq> [])"

lemma truthy_simps [simp]: "truthy None = False" "truthy (Some x) = (x \<noteq> [])"
  by (simp_all add: truthy_def)

lemma truthyE: "truthy s \<Longrightarrow> (\<And>x. s = Some x \<Longrightarrow> x \<noteq> [] \<Longrightarrow> P) \<Longrightarrow> P"
  by (cases s) auto

text \<open>
  \<open>String.prototype.trim\<close>: the white space among the code units 0 to 255 (tab, line feed,
  vertical tab, form feed, carriage return, space, no-break space).
\<close>

definition js_space :: "char \<Rightarrow> bool" where
  "js_space c = (of_char c \<in> {9::nat, 10, 11, 12, 13, 32, 160})"

definition js_trim :: "string \<Rightarrow> string" where
  "js_trim s = rev (dropWhile js_space (rev (dropWhile js_space s)))"

lemma js_trim_Nil [simp]: "js_trim [] = []"
  by (simp add: js_trim_def)

lemma js_trim_nonempty: "js_trim s \<noteq> [] \<Longrightarrow> s \<noteq> []"
  by auto

lemma js_trim_blank_iff: "js_trim s = [] \<longleftrightarrow> list_all js_space s"
proof
  assume "js_trim s = []"
  then have "list_all js_space (dropWhile js_space s)"
    by (auto simp: js_trim_def dropWhile_eq_Nil_conv list_all_iff dest: set_dropWhileD)
  then have "dropWhile js_space s = []"
    by (metis hd_dropWhile hd_in_set list_all_iff)
  then show "list_all js_space s"
    by (simp add: dropWhile_eq_Nil_conv list_all_iff)
next
  assume "list_all js_space s"
  then have "dropWhile js_space s = []"
    by (simp add: dropWhile_eq_Nil_conv list_all_iff)
  then show "js_trim s = []"
    by (metis dropWhile.simps(1) js_trim_def rev.simps(1))
qed

section \<open>Numbers\<close>

text \<open>
  A number of the language: finite, or one of the three special values.  The finite values
  are real numbers, so rounding is not modelled; every test the code makes for \<open>NaN\<close> and
  the infinities is.
\<close>

datatype jsnum = Fin real | PosInf | NegInf | NaN

fun js_le :: "jsnum \<Rightarrow> jsnum \<Rightarrow> bool" where
  "js_le NaN _ = False"
| "js_le _ NaN = False"
| "js_le NegInf _ = True"
| "js_le _ PosInf = True"
| "js_le (Fin a) (Fin b) = (a \<le> b)"
| "js_le _ _ = False"

fun js_lt :: "jsnum \<Rightarrow> jsnum \<Rightarrow> bool" where
  "js_lt NaN _ = False"
| "js_lt _ NaN = False"
| "js_lt (Fin a) (Fin b) = (a < b)"
| "js_lt NegInf NegInf = False"
| "js_lt NegInf _ = True"
| "js_lt PosInf _ = False"
| "js_lt (Fin a) PosInf = True"
| "js_lt (Fin a) NegInf = False"

definition isNaN :: "jsnum \<Rightarrow> bool" where
  "isNaN x = (x = NaN)"

definition isFinite :: "jsnum \<Rightarrow> bool" where
  "isFinite x = (case x of Fin _ \<Rightarrow> True | _ \<Rightarrow> False)"

lemma isFinite_iff: "isFinite x \<longleftrightarrow> (\<exists>r. x = Fin r)"
  by (cases x) (auto simp: isFinite_def)

lemma isFinite_Fin [simp]: "isFinite (Fin r)" "\<not> isFinite PosInf" "\<not> isFinite NegInf" "\<not> isFinite NaN"
  by (simp_all add: isFinite_def)

lemma js_lt_le: "js_lt x y \<Longrightarrow> js_le x y"
  by (cases x; cases y) auto

lemma js_not_lt: "x \<noteq> NaN \<Longrightarrow> y \<noteq> NaN \<Longrightarrow> \<not> js_lt x y \<longleftrightarrow> js_le y x"
  by (cases x; cases y) auto

lemma js_finite_between:
  "js_le (Fin a) x \<Longrightarrow> js_le x (Fin b) \<Longrightarrow> \<exists>r. x = Fin r \<and> a \<le> r \<and> r \<le> b"
  by (cases x) auto

section \<open>Untyped values\<close>

text \<open>The value of a parsed message: what \<open>typeof\<close> and property access can tell apart.\<close>

datatype jsval =
    JUndefined
  | JNull
  | JBool bool
  | JNum jsnum
  | JStr string
  | JObj "(string \<times> jsval) list"

fun js_truthy :: "jsval \<Rightarrow> bool" where
  "js_truthy JUndefined = False"
| "js_truthy JNull = False"
| "js_truthy (JBool b) = b"
| "js_truthy (JNum x) = (x \<noteq> NaN \<and> x \<noteq> Fin 0)"
| "js_truthy (JStr s) = (s \<noteq> [])"
| "js_truthy (JObj _) = True"

text \<open>Property access \<open>v.f\<close>, and \<open>v?.f\<close>, on a value that is not \<open>null\<close>.\<close>

fun js_field :: "jsval \<Rightarrow> string \<Rightarrow> jsval" where
  "js_field (JObj fs) f = (case map_of fs f of None \<Rightarrow> JUndefined | Some v \<Rightarrow> v)"
| "js_field _ f = JUndefined"

fun js_string :: "jsval \<Rightarrow> string option" where
  "js_string (JStr s) = Some s"
| "js_string _ = None"

section \<open>Lists\<close>

text \<open>The last \<open>n\<close> elements: \<open>slice(-n)\<close>, and what a buffer that shifts keeps.\<close>

definition last_n :: "nat \<Rightarrow> 'a list \<Rightarrow> 'a list" where
  "last_n n xs = drop (length xs - n) xs"

lemma length_last_n [simp]: "length (last_n n xs) = min n (length xs)"
  by (simp add: last_n_def)

lemma last_n_all: "length xs \<le> n \<Longrightarrow> last_n n xs = xs"
  by (simp add: last_n_def)

lemma last_n_last_n: "last_n m (last_n n xs) = last_n (min m n) xs"
proof (cases "n \<le> length xs")
  case True
  then have "n - m + (length xs - n) = length xs - min m n"
    by (auto simp: min_def)
  with True show ?thesis by (simp add: last_n_def)
next
  case False
  then show ?thesis by (auto simp: last_n_def min_def)
qed

lemma last_n_snoc:
  assumes "0 < n"
  shows "last_n n (xs @ [x]) =
    (if length (last_n n xs) \<ge> n then tl (last_n n xs) else last_n n xs) @ [x]"
proof (cases "n \<le> length xs")
  case True
  then have "Suc (length xs) - n = Suc (length xs - n)"
    by simp
  with True assms show ?thesis
    by (simp add: last_n_def drop_Suc tl_drop)
next
  case False
  then show ?thesis
    by (simp add: last_n_def)
qed

end
