(* ===== verification/Validation.thy ===== *)
theory Validation
  imports Prelude
begin

text \<open>
  The input checks of \<open>src/utils/validation.ts\<close>: geographic points and bounds read
  from untyped messages, and the clamp on timing values.  A point or a region that passes its
  check is given as a record of finite numbers (the type guards \<open>point is GeoPoint\<close>
  and \<open>bounds is GeoBounds\<close>).
\<close>

record GeoPoint =
  lat :: real
  lng :: real

record GeoBounds =
  minLat :: real
  maxLat :: real
  minLng :: real
  maxLng :: real

fun is_object :: "jsval \<Rightarrow> bool" where
  "is_object (JObj _) = True"
| "is_object JNull = True"
| "is_object _ = False"

definition isValidGeoPoint :: "jsval \<Rightarrow> bool" where
  "isValidGeoPoint point =
    (if \<not> js_truthy point \<or> \<not> is_object point then False
     else (case (js_field point ''lat'', js_field point ''lng'') of
        (JNum la, JNum lo) \<Rightarrow>
          \<not> isNaN la \<and> \<not> isNaN lo \<and> isFinite la \<and> isFinite lo \<and>
          js_le (Fin (-90)) la \<and> js_le la (Fin 90) \<and>
          js_le (Fin (-180)) lo \<and> js_le lo (Fin 180)
      | _ \<Rightarrow> False))"

definition isValidGeoBounds :: "jsval \<Rightarrow> bool" where
  "isValidGeoBounds bounds =
    (if \<not> js_truthy bounds \<or> \<not> is_object bounds then False
     else (case (js_field bounds ''minLat'', js_field bounds ''maxLat'',
                 js_field bounds ''minLng'', js_field bounds ''maxLng'') of
        (JNum a, JNum b, JNum c, JNum d) \<Rightarrow>
          list_all isFinite [a, b, c, d] \<and>
          js_le (Fin (-90)) a \<and> js_le b (Fin 90) \<and>
          js_le (Fin (-180)) c \<and> js_le d (Fin 180) \<and>
          js_lt a b \<and> js_lt c d
      | _ \<Rightarrow> False))"

definition clampTimeout :: "jsval \<Rightarrow> real \<Rightarrow> real \<Rightarrow> real \<Rightarrow> real" where
  "clampTimeout timeout defaultMs minMs maxMs =
    (case timeout of
       JNum (Fin t) \<Rightarrow> if t \<le> 0 then defaultMs else min (max t minMs) maxMs
     | _ \<Rightarrow> defaultMs)"

text \<open>The call \<open>clampTimeout(x)\<close> with the default arguments.\<close>

definition clampTimeout_default :: "jsval \<Rightarrow> real" where
  "clampTimeout_default timeout = clampTimeout timeout 15000 1000 60000"

text \<open>What the type guards give the code after a successful check.\<close>

definition geo_point_of :: "jsval \<Rightarrow> GeoPoint option" where
  "geo_point_of v =
    (if isValidGeoPoint v then
       (case (js_field v ''lat'', js_field v ''lng'') of
          (JNum (Fin a), JNum (Fin b)) \<Rightarrow> Some \<lparr>lat = a, lng = b\<rparr>
        | _ \<Rightarrow> None)
     else None)"

definition geo_bounds_of :: "jsval \<Rightarrow> GeoBounds option" where
  "geo_bounds_of v =
    (if isValidGeoBounds v then
       (case (js_field v ''minLat'', js_field v ''maxLat'', js_field v ''minLng'', js_field v ''maxLng'') of
          (JNum (Fin a), JNum (Fin b), JNum (Fin c), JNum (Fin d)) \<Rightarrow>
            Some \<lparr>minLat = a, maxLat = b, minLng = c, maxLng = d\<rparr>
        | _ \<Rightarrow> None)
     else None)"

definition on_earth :: "real \<Rightarrow> real \<Rightarrow> bool" where
  "on_earth a b = (-90 \<le> a \<and> a \<le> 90 \<and> -180 \<le> b \<and> b \<le> 180)"

definition bounds_ok :: "GeoBounds \<Rightarrow> bool" where
  "bounds_ok b = (minLat b < maxLat b \<and> minLng b < maxLng b \<and>
     -90 \<le> minLat b \<and> maxLat b \<le> 90 \<and> -180 \<le> minLng b \<and> maxLng b \<le> 180)"

lemma isValidGeoPoint_iff:
  "isValidGeoPoint v \<longleftrightarrow>
    (\<exists>fs a b. v = JObj fs \<and> map_of fs ''lat'' = Some (JNum (Fin a)) \<and>
      map_of fs ''lng'' = Some (JNum (Fin b)) \<and> on_earth a b)"
  by (cases v)
    (auto simp: isValidGeoPoint_def on_earth_def isNaN_def isFinite_iff split: jsval.splits option.splits)

lemma isValidGeoBounds_iff:
  "isValidGeoBounds v \<longleftrightarrow>
    (\<exists>fs b. v = JObj fs \<and> bounds_ok b \<and>
      map_of fs ''minLat'' = Some (JNum (Fin (minLat b))) \<and>
      map_of fs ''maxLat'' = Some (JNum (Fin (maxLat b))) \<and>
      map_of fs ''minLng'' = Some (JNum (Fin (minLng b))) \<and>
      map_of fs ''maxLng'' = Some (JNum (Fin (maxLng b))))"
  (is "_ \<longleftrightarrow> ?R")
proof
  assume "isValidGeoBounds v"
  then obtain fs a b c d where v: "v = JObj fs"
    and m: "map_of fs ''minLat'' = Some (JNum (Fin a))" "map_of fs ''maxLat'' = Some (JNum (Fin b))"
      "map_of fs ''minLng'' = Some (JNum (Fin c))" "map_of fs ''maxLng'' = Some (JNum (Fin d))"
    and r: "-90 \<le> a" "b \<le> 90" "-180 \<le> c" "d \<le> 180" "a < b" "c < d"
    by (cases v) (auto simp: isValidGeoBounds_def isFinite_iff split: jsval.splits option.splits)
  have "bounds_ok \<lparr>minLat = a, maxLat = b, minLng = c, maxLng = d\<rparr>"
    using r by (simp add: bounds_ok_def)
  with v m show ?R
    by (intro exI [of _ fs] exI [of _ "\<lparr>minLat = a, maxLat = b, minLng = c, maxLng = d\<rparr>"]) simp
next
  assume ?R
  then show "isValidGeoBounds v"
    by (auto simp: isValidGeoBounds_def bounds_ok_def)
qed

lemma geo_point_of_Some:
  "geo_point_of v = Some p \<Longrightarrow> isValidGeoPoint v \<and> on_earth (lat p) (lng p)"
  by (auto simp: geo_point_of_def isValidGeoPoint_iff split: if_splits)

lemma geo_point_of_eq_None [simp]: "geo_point_of v = None \<longleftrightarrow> \<not> isValidGeoPoint v"
  by (auto simp: geo_point_of_def isValidGeoPoint_iff)

lemma geo_bounds_of_Some:
  "geo_bounds_of v = Some b \<Longrightarrow> isValidGeoBounds v \<and> bounds_ok b"
  by (auto simp: geo_bounds_of_def isValidGeoBounds_iff bounds_ok_def split: if_splits)

lemma geo_bounds_of_eq_None [simp]: "geo_bounds_of v = None \<longleftrightarrow> \<not> isValidGeoBounds v"
  by (auto simp: geo_bounds_of_def isValidGeoBounds_iff)

lemma clampTimeout_range:
  "minMs \<le> defaultMs \<Longrightarrow> defaultMs \<le> maxMs \<Longrightarrow>
    minMs \<le> clampTimeout v defaultMs minMs maxMs \<and> clampTimeout v defaultMs minMs maxMs \<le> maxMs"
  by (auto simp: clampTimeout_def split: jsval.splits jsnum.splits)

lemma clampTimeout_idem:
  "0 < minMs \<Longrightarrow> minMs \<le> t \<Longrightarrow> t \<le> maxMs \<Longrightarrow> clampTimeout (JNum (Fin t)) defaultMs minMs maxMs = t"
  by (simp add: clampTimeout_def)

lemma clampTimeout_default_range: "1000 \<le> clampTimeout_default v \<and> clampTimeout_default v \<le> 60000"
  unfolding clampTimeout_default_def by (rule clampTimeout_range) simp_all

text \<open>
  Every timing value a client can send, of any type, is turned into a timeout between one
  second and one minute; a number already in that range is kept, any number that is positive
  but outside is moved to the nearer end, and everything else becomes fifteen seconds.
\<close>

theorem clampTimeout_sanitises:
  "1000 \<le> clampTimeout_default v \<and> clampTimeout_default v \<le> 60000 \<and>
   clampTimeout_default v =
     (case v of JNum (Fin t) \<Rightarrow>
        if t \<le> 0 then 15000 else if t < 1000 then 1000 else if 60000 < t then 60000 else t
      | _ \<Rightarrow> 15000)"
  using clampTimeout_default_range [of v]
  by (auto simp: clampTimeout_default_def clampTimeout_def split: jsval.splits jsnum.splits)

end
