(* ===== verification/TripStateMachine.thy ===== *)
theory TripStateMachine
  imports Validation
begin

text \<open>
  The trip life cycle of \<open>src/core/trip_state_machine.ts\<close>: the transition matrix,
  the four indices the machine keeps beside the trips, and every operation of the class.  A
  \<open>Trip\<close> object is shared by reference in the code; here the map \<open>trips\<close> is the
  store of those objects, keyed by the trip's identifier, and a mutation of the object is an
  update at its key.  The clock (\<open>now\<close>) and the random identifier (\<open>uuid\<close>) are
  arguments.  A result \<open>{success: false, error}\<close> is an \<open>Inl\<close>; the trip that some
  error results carry besides is the unchanged trip of the state.  The callback
  \<open>onTransition\<close> fires exactly when a transition returns an event.
\<close>

section \<open>Data\<close>

datatype TripStatus =
    Requested | Matching | Matched | En_route | Arrived | In_progress | Completed | Cancelled

datatype ActorRole = Rider | Driver | System

record Trip =
  t_id :: string
  t_requestId :: string
  t_riderId :: string
  t_driverId :: "string option"
  t_status :: TripStatus
  t_pickup :: GeoPoint
  t_dropoff :: GeoPoint
  t_createdAt :: ms
  t_matchedAt :: "ms option"
  t_arrivedAt :: "ms option"
  t_startedAt :: "ms option"
  t_completedAt :: "ms option"
  t_cancelledAt :: "ms option"
  t_cancellationReason :: "string option"
  t_cancelledBy :: "ActorRole option"

record StateTransitionEvent =
  e_tripId :: string
  e_requestId :: string
  e_fromStatus :: TripStatus
  e_toStatus :: TripStatus
  e_triggeredBy :: ActorRole
  e_timestamp :: ms
  e_reason :: "string option"
  e_payload :: jsval

datatype tsm_error =
    RequestIdOfAnotherRider
  | ExistingTripNotFound
  | InvalidCoordinates
  | RiderHasActiveTrip string
  | TripNotFound string
  | InvalidTransition TripStatus TripStatus
  | OnlyDriverCanMark TripStatus
  | DriverCannotCancelUnassigned
  | NoValidDriverId
  | DriverHasActiveTrip string

record TSM =
  trips :: "(string, Trip) jsmap"
  requestToTrip :: "(string, string) jsmap"
  activeRiderTrips :: "(string, string) jsmap"
  activeDriverTrips :: "(string, string) jsmap"
  auditEvents :: "StateTransitionEvent list"
  notices :: "(StateTransitionEvent \<times> Trip) list"

definition tsm_new :: TSM where
  "tsm_new = \<lparr>trips = [], requestToTrip = [], activeRiderTrips = [],
     activeDriverTrips = [], auditEvents = [], notices = []\<rparr>"

definition maxAuditBufferSize :: nat where "maxAuditBufferSize = 2000"

definition maxTrips :: nat where "maxTrips = 10000"

fun ALLOWED_TRANSITIONS :: "TripStatus \<Rightarrow> TripStatus list" where
  "ALLOWED_TRANSITIONS Requested = [Matching, Cancelled]"
| "ALLOWED_TRANSITIONS Matching = [Matched, Cancelled]"
| "ALLOWED_TRANSITIONS Matched = [En_route, Arrived, Cancelled]"
| "ALLOWED_TRANSITIONS En_route = [Arrived, Matching, Cancelled]"
| "ALLOWED_TRANSITIONS Arrived = [In_progress, Matching, Cancelled]"
| "ALLOWED_TRANSITIONS In_progress = [Completed]"
| "ALLOWED_TRANSITIONS Completed = []"
| "ALLOWED_TRANSITIONS Cancelled = []"

definition terminal :: "TripStatus \<Rightarrow> bool" where
  "terminal st = (st = Completed \<or> st = Cancelled)"

section \<open>Operations\<close>

definition recordEvent :: "TSM \<Rightarrow> StateTransitionEvent \<Rightarrow> TSM" where
  "recordEvent s ev =
    s\<lparr>auditEvents :=
       (if length (auditEvents s) \<ge> maxAuditBufferSize then tl (auditEvents s) else auditEvents s)
       @ [ev]\<rparr>"

text \<open>The calls of \<open>onTransition\<close>, with the trip as it is then.\<close>

definition notifyTransition :: "TSM \<Rightarrow> StateTransitionEvent \<Rightarrow> Trip \<Rightarrow> TSM" where
  "notifyTransition s ev trip = s\<lparr>notices := notices s @ [(ev, trip)]\<rparr>"

definition clearActiveIndices :: "TSM \<Rightarrow> Trip \<Rightarrow> TSM" where
  "clearActiveIndices s trip =
    (let s1 = s\<lparr>activeRiderTrips := jm_delete (activeRiderTrips s) (t_riderId trip)\<rparr>
     in case t_driverId trip of
          Some d \<Rightarrow>
            (if truthy (t_driverId trip)
             then s1\<lparr>activeDriverTrips := jm_delete (activeDriverTrips s1) d\<rparr> else s1)
        | None \<Rightarrow> s1)"

text \<open>Evicts the oldest trip in a terminal status once the store is at capacity.\<close>

definition evictOldestTerminal :: "TSM \<Rightarrow> TSM" where
  "evictOldestTerminal s =
    (if length (trips s) \<ge> maxTrips then
       (case find (\<lambda>(k, t). t_status t = Completed \<or> t_status t = Cancelled) (trips s) of
          Some (k, t) \<Rightarrow>
            s\<lparr>trips := jm_delete (trips s) k,
              requestToTrip := jm_delete (requestToTrip s) (t_requestId t)\<rparr>
        | None \<Rightarrow> s)
     else s)"

definition newTrip ::
    "ms \<Rightarrow> string \<Rightarrow> string \<Rightarrow> string \<Rightarrow> GeoPoint \<Rightarrow> GeoPoint \<Rightarrow> Trip" where
  "newTrip now uuid reqId riderId pickup dropoff =
    \<lparr>t_id = ''trip_'' @ uuid, t_requestId = reqId, t_riderId = riderId, t_driverId = None,
     t_status = Requested, t_pickup = pickup, t_dropoff = dropoff, t_createdAt = now,
     t_matchedAt = None, t_arrivedAt = None, t_startedAt = None, t_completedAt = None,
     t_cancelledAt = None, t_cancellationReason = None, t_cancelledBy = None\<rparr>"

definition createdEvent :: "Trip \<Rightarrow> StateTransitionEvent" where
  "createdEvent trip =
    \<lparr>e_tripId = t_id trip, e_requestId = t_requestId trip, e_fromStatus = Requested,
     e_toStatus = Requested, e_triggeredBy = Rider, e_timestamp = t_createdAt trip,
     e_reason = None, e_payload = JUndefined\<rparr>"

definition createTrip ::
    "TSM \<Rightarrow> ms \<Rightarrow> string \<Rightarrow> string \<Rightarrow> string \<Rightarrow> jsval \<Rightarrow> jsval \<Rightarrow> (tsm_error + Trip) \<times> TSM" where
  "createTrip s now uuid reqId riderId pickup dropoff =
    (let existingTripId = jm_get (requestToTrip s) reqId in
     if truthy existingTripId then
       (case jm_get (trips s) (the existingTripId) of
          Some existingTrip \<Rightarrow>
            if t_riderId existingTrip \<noteq> riderId then (Inl RequestIdOfAnotherRider, s)
            else (Inr existingTrip, s)
        | None \<Rightarrow> (Inl ExistingTripNotFound, s))
     else
       (case (geo_point_of pickup, geo_point_of dropoff) of
          (Some pk, Some dr) \<Rightarrow>
            if jm_has (activeRiderTrips s) riderId then (Inl (RiderHasActiveTrip riderId), s)
            else
              (let trip = newTrip now uuid reqId riderId pk dr;
                   s1 = evictOldestTerminal s;
                   s2 = s1\<lparr>trips := jm_set (trips s1) (t_id trip) trip,
                          requestToTrip := jm_set (requestToTrip s1) reqId (t_id trip),
                          activeRiderTrips := jm_set (activeRiderTrips s1) riderId (t_id trip)\<rparr>
               in (Inr trip, recordEvent s2 (createdEvent trip)))
        | _ \<Rightarrow> (Inl InvalidCoordinates, s)))"

text \<open>The \<open>switch\<close> on the target status: milestones and index updates.\<close>

fun milestone ::
    "TSM \<Rightarrow> ms \<Rightarrow> Trip \<Rightarrow> TripStatus \<Rightarrow> ActorRole \<Rightarrow> string option \<Rightarrow> jsval \<Rightarrow> tsm_error + (Trip \<times> TSM)" where
  "milestone s now trip Matching by reason payload =
    (let (trip1, s1) =
       (case t_driverId trip of
          Some d \<Rightarrow>
            (if truthy (t_driverId trip)
             then (trip\<lparr>t_driverId := None\<rparr>,
                   s\<lparr>activeDriverTrips := jm_delete (activeDriverTrips s) d\<rparr>)
             else (trip, s))
        | None \<Rightarrow> (trip, s))
     in Inr (trip1\<lparr>t_matchedAt := None, t_arrivedAt := None\<rparr>, s1))"
| "milestone s now trip Matched by reason payload =
    (case js_field payload ''driverId'' of
       JStr newDriverId \<Rightarrow>
         if js_trim newDriverId = [] then Inl NoValidDriverId
         else
           (let existingActiveTrip = jm_get (activeDriverTrips s) newDriverId in
            if truthy existingActiveTrip \<and> existingActiveTrip \<noteq> Some (t_id trip)
            then Inl (DriverHasActiveTrip newDriverId)
            else Inr (trip\<lparr>t_matchedAt := Some now, t_driverId := Some newDriverId\<rparr>,
                      s\<lparr>activeDriverTrips := jm_set (activeDriverTrips s) newDriverId (t_id trip)\<rparr>))
     | _ \<Rightarrow> Inl NoValidDriverId)"
| "milestone s now trip Arrived by reason payload = Inr (trip\<lparr>t_arrivedAt := Some now\<rparr>, s)"
| "milestone s now trip In_progress by reason payload = Inr (trip\<lparr>t_startedAt := Some now\<rparr>, s)"
| "milestone s now trip Completed by reason payload =
    (let trip1 = trip\<lparr>t_completedAt := Some now\<rparr> in Inr (trip1, clearActiveIndices s trip1))"
| "milestone s now trip Cancelled by reason payload =
    (let trip1 = trip\<lparr>t_cancelledAt := Some now,
                     t_cancellationReason := (if truthy reason then reason else None),
                     t_cancelledBy := Some by\<rparr>
     in Inr (trip1, clearActiveIndices s trip1))"
| "milestone s now trip _ by reason payload = Inr (trip, s)"

definition transition ::
    "TSM \<Rightarrow> ms \<Rightarrow> string \<Rightarrow> TripStatus \<Rightarrow> ActorRole \<Rightarrow> string option \<Rightarrow> jsval \<Rightarrow>
     (tsm_error + (Trip \<times> StateTransitionEvent option)) \<times> TSM" where
  "transition s now tid target by reason payload =
    (case jm_get (trips s) tid of
       None \<Rightarrow> (Inl (TripNotFound tid), s)
     | Some trip \<Rightarrow>
         let current = t_status trip in
         if current = target then (Inr (trip, None), s)
         else if target \<notin> set (ALLOWED_TRANSITIONS current)
           then (Inl (InvalidTransition current target), s)
         else if target = Arrived \<and> by \<noteq> Driver then (Inl (OnlyDriverCanMark Arrived), s)
         else if target = In_progress \<and> by \<noteq> Driver then (Inl (OnlyDriverCanMark In_progress), s)
         else if target = Completed \<and> by \<noteq> Driver then (Inl (OnlyDriverCanMark Completed), s)
         else if target = Cancelled \<and> (current = Requested \<or> current = Matching) \<and> by = Driver
           then (Inl DriverCannotCancelUnassigned, s)
         else
           (case milestone s now trip target by reason payload of
              Inl e \<Rightarrow> (Inl e, s)
            | Inr (trip1, s1) \<Rightarrow>
                let trip2 = trip1\<lparr>t_status := target\<rparr>;
                    s2 = s1\<lparr>trips := jm_set (trips s1) tid trip2\<rparr>;
                    ev = \<lparr>e_tripId = t_id trip2, e_requestId = t_requestId trip2,
                          e_fromStatus = current, e_toStatus = target, e_triggeredBy = by,
                          e_timestamp = now, e_reason = reason, e_payload = payload\<rparr>
                in (Inr (trip2, Some ev), notifyTransition (recordEvent s2 ev) ev trip2)))"

definition startMatching where
  "startMatching s now tid = transition s now tid Matching System None JUndefined"

definition setMatched where
  "setMatched s now tid dId =
    transition s now tid Matched System None (JObj [(''driverId'', JStr dId)])"

definition driverEnRoute where
  "driverEnRoute s now tid = transition s now tid En_route Driver None JUndefined"

definition driverArrived where
  "driverArrived s now tid = transition s now tid Arrived Driver None JUndefined"

definition startTrip where
  "startTrip s now tid = transition s now tid In_progress Driver None JUndefined"

definition tsm_completeTrip where
  "tsm_completeTrip s now tid = transition s now tid Completed Driver None JUndefined"

definition cancelTrip where
  "cancelTrip s now tid by reason = transition s now tid Cancelled by reason JUndefined"

definition rematchTrip where
  "rematchTrip s now tid reason = transition s now tid Matching System reason JUndefined"

definition getTrip :: "TSM \<Rightarrow> string \<Rightarrow> Trip option" where
  "getTrip s tid = jm_get (trips s) tid"

definition lookup_via :: "(string, string) jsmap \<Rightarrow> TSM \<Rightarrow> string \<Rightarrow> Trip option" where
  "lookup_via m s k =
    (let tid = jm_get m k in if \<not> truthy tid then None else jm_get (trips s) (the tid))"

definition getTripByRequestId :: "TSM \<Rightarrow> string \<Rightarrow> Trip option" where
  "getTripByRequestId s r = lookup_via (requestToTrip s) s r"

definition getActiveTripForRider :: "TSM \<Rightarrow> string \<Rightarrow> Trip option" where
  "getActiveTripForRider s r = lookup_via (activeRiderTrips s) s r"

definition getActiveTripForDriver :: "TSM \<Rightarrow> string \<Rightarrow> Trip option" where
  "getActiveTripForDriver s d = lookup_via (activeDriverTrips s) s d"

definition getActiveTrips :: "TSM \<Rightarrow> Trip list" where
  "getActiveTrips s = List.map_filter (\<lambda>tid. jm_get (trips s) tid) (jm_values (activeRiderTrips s))"

definition getAuditEvents :: "TSM \<Rightarrow> StateTransitionEvent list" where
  "getAuditEvents s = auditEvents s"

definition getRecentAuditEvents :: "TSM \<Rightarrow> nat \<Rightarrow> StateTransitionEvent list" where
  "getRecentAuditEvents s n = (if n = 0 then auditEvents s else last_n n (auditEvents s))"

end
