(* ===== verification/TripInvariants.thy ===== *)
theory TripInvariants
  imports TripStateMachine
begin

text \<open>
  What the trip state machine keeps: the four indices agree with the trips (\<open>tsm_inv\<close>),
  the audit buffer is the recent end of the full history, and the store stays within its
  capacity as long as it can.  Preservation is proved once for each of the four ways a
  transition touches the indices and then for every operation.
\<close>

section \<open>The life cycle order\<close>

text \<open>The position of a status in the life cycle; \<open>Cancelled\<close> comes last.\<close>

fun status_rank :: "TripStatus \<Rightarrow> nat" where
  "status_rank Requested = 0"
| "status_rank Matching = 1"
| "status_rank Matched = 2"
| "status_rank En_route = 3"
| "status_rank Arrived = 4"
| "status_rank In_progress = 5"
| "status_rank Completed = 6"
| "status_rank Cancelled = 7"

lemma status_rank_inj: "status_rank a = status_rank b \<Longrightarrow> a = b"
  by (cases a; cases b) simp_all

instantiation TripStatus :: linorder
begin

definition less_eq_TripStatus :: "TripStatus \<Rightarrow> TripStatus \<Rightarrow> bool" where
  "less_eq_TripStatus a b = (status_rank a \<le> status_rank b)"

definition less_TripStatus :: "TripStatus \<Rightarrow> TripStatus \<Rightarrow> bool" where
  "less_TripStatus a b = (status_rank a < status_rank b)"

instance
  by standard
    (auto simp: less_eq_TripStatus_def less_TripStatus_def intro: status_rank_inj)

end

lemma allowed_progress:
  "b \<in> set (ALLOWED_TRANSITIONS a) \<Longrightarrow> a < b \<or> (b = Matching \<and> (a = En_route \<or> a = Arrived))"
  by (cases a) (auto simp: less_TripStatus_def)

lemma terminal_iff: "terminal st \<longleftrightarrow> ALLOWED_TRANSITIONS st = []"
  by (cases st) (simp_all add: terminal_def)

section \<open>The index invariant\<close>

definition active :: "Trip \<Rightarrow> bool" where
  "active t = (\<not> terminal (t_status t))"

definition driver_ok :: "Trip \<Rightarrow> bool" where
  "driver_ok t =
    (case t_status t of
       Requested \<Rightarrow> t_driverId t = None
     | Matching \<Rightarrow> t_driverId t = None
     | Cancelled \<Rightarrow> (\<forall>d. t_driverId t = Some d \<longrightarrow> js_trim d \<noteq> [])
     | _ \<Rightarrow> (\<exists>d. t_driverId t = Some d \<and> js_trim d \<noteq> []))"

definition trips_ok :: "TSM \<Rightarrow> bool" where
  "trips_ok s =
    (jm_ok (trips s) \<and> jm_ok (requestToTrip s) \<and> jm_ok (activeRiderTrips s) \<and>
     jm_ok (activeDriverTrips s) \<and>
     (\<forall>k t. jm_get (trips s) k = Some t \<longrightarrow>
        t_id t = k \<and> k \<noteq> [] \<and> driver_ok t \<and> jm_get (requestToTrip s) (t_requestId t) = Some k) \<and>
     (\<forall>r k. jm_get (requestToTrip s) r = Some k \<longrightarrow>
        (\<exists>t. jm_get (trips s) k = Some t \<and> t_requestId t = r)))"

definition rider_index :: "TSM \<Rightarrow> bool" where
  "rider_index s =
    (\<forall>r k. jm_get (activeRiderTrips s) r = Some k \<longleftrightarrow>
       (\<exists>t. jm_get (trips s) k = Some t \<and> t_riderId t = r \<and> active t))"

definition driver_index :: "TSM \<Rightarrow> bool" where
  "driver_index s =
    (\<forall>d k. jm_get (activeDriverTrips s) d = Some k \<longleftrightarrow>
       (\<exists>t. jm_get (trips s) k = Some t \<and> t_driverId t = Some d \<and> active t))"

definition tsm_inv :: "TSM \<Rightarrow> bool" where
  "tsm_inv s = (trips_ok s \<and> rider_index s \<and> driver_index s \<and>
     length (auditEvents s) \<le> maxAuditBufferSize)"

lemma trips_okI:
  assumes "jm_ok (trips s)" "jm_ok (requestToTrip s)" "jm_ok (activeRiderTrips s)" "jm_ok (activeDriverTrips s)"
    and "\<And>k t. jm_get (trips s) k = Some t \<Longrightarrow>
        t_id t = k \<and> k \<noteq> [] \<and> driver_ok t \<and> jm_get (requestToTrip s) (t_requestId t) = Some k"
    and "\<And>r k. jm_get (requestToTrip s) r = Some k \<Longrightarrow>
        \<exists>t. jm_get (trips s) k = Some t \<and> t_requestId t = r"
  shows "trips_ok s"
  using assms unfolding trips_ok_def by blast

lemma tsm_inv_new: "tsm_inv tsm_new"
  by (simp add: tsm_inv_def trips_ok_def rider_index_def driver_index_def tsm_new_def
      maxAuditBufferSize_def)

lemma tsm_invD:
  assumes "tsm_inv s" and "jm_get (trips s) k = Some t"
  shows "t_id t = k" "k \<noteq> []" "driver_ok t" "jm_get (requestToTrip s) (t_requestId t) = Some k"
  using assms by (auto simp: tsm_inv_def trips_ok_def)

lemma tsm_inv_requestD:
  assumes "tsm_inv s" and "jm_get (requestToTrip s) r = Some k"
  shows "k \<noteq> [] \<and> (\<exists>t. jm_get (trips s) k = Some t \<and> t_requestId t = r \<and> t_id t = k)"
  using assms unfolding tsm_inv_def trips_ok_def by metis

lemma rider_indexD:
  "tsm_inv s \<Longrightarrow> jm_get (activeRiderTrips s) r = Some k \<longleftrightarrow>
     (\<exists>t. jm_get (trips s) k = Some t \<and> t_riderId t = r \<and> active t)"
  by (simp add: tsm_inv_def rider_index_def)

lemma driver_indexD:
  "tsm_inv s \<Longrightarrow> jm_get (activeDriverTrips s) d = Some k \<longleftrightarrow>
     (\<exists>t. jm_get (trips s) k = Some t \<and> t_driverId t = Some d \<and> active t)"
  by (simp add: tsm_inv_def driver_index_def)

lemma tsm_inv_recordEvent [simp]: "tsm_inv (recordEvent s ev) \<longleftrightarrow> trips_ok s \<and> rider_index s \<and>
    driver_index s \<and> length (auditEvents (recordEvent s ev)) \<le> maxAuditBufferSize"
  by (simp add: tsm_inv_def recordEvent_def trips_ok_def rider_index_def driver_index_def)

lemma tsm_inv_notify [simp]: "tsm_inv (notifyTransition s ev t) \<longleftrightarrow> tsm_inv s"
  by (simp add: tsm_inv_def notifyTransition_def trips_ok_def rider_index_def driver_index_def)

lemma notify_fields [simp]:
  "trips (notifyTransition s ev t) = trips s"
  "requestToTrip (notifyTransition s ev t) = requestToTrip s"
  "activeRiderTrips (notifyTransition s ev t) = activeRiderTrips s"
  "activeDriverTrips (notifyTransition s ev t) = activeDriverTrips s"
  "auditEvents (notifyTransition s ev t) = auditEvents s"
  by (simp_all add: notifyTransition_def)

lemma recordEvent_length:
  "length (auditEvents s) \<le> maxAuditBufferSize \<Longrightarrow>
    length (auditEvents (recordEvent s ev)) \<le> maxAuditBufferSize"
  by (auto simp: recordEvent_def maxAuditBufferSize_def)

lemma recordEvent_fields [simp]:
  "trips (recordEvent s ev) = trips s"
  "requestToTrip (recordEvent s ev) = requestToTrip s"
  "activeRiderTrips (recordEvent s ev) = activeRiderTrips s"
  "activeDriverTrips (recordEvent s ev) = activeDriverTrips s"
  by (simp_all add: recordEvent_def)

lemma clearActiveIndices_eq:
  assumes "driver_ok t"
  shows "clearActiveIndices s t =
    s\<lparr>activeRiderTrips := jm_delete (activeRiderTrips s) (t_riderId t),
      activeDriverTrips := (case t_driverId t of None \<Rightarrow> activeDriverTrips s
                            | Some d \<Rightarrow> jm_delete (activeDriverTrips s) d)\<rparr>"
proof (cases "t_driverId t")
  case (Some d)
  with assms have "d \<noteq> []"
    by (auto simp: driver_ok_def split: TripStatus.splits dest: js_trim_nonempty)
  with Some show ?thesis
    by (simp add: clearActiveIndices_def)
qed (simp add: clearActiveIndices_def)

section \<open>The four kinds of update\<close>

text \<open>
  A transition rewrites the trip at one key and leaves identifiers alone.  In each lemma \<open>t\<close>
  is the trip before and \<open>t'\<close> the trip after.
\<close>

definition same_ids :: "Trip \<Rightarrow> Trip \<Rightarrow> bool" where
  "same_ids t t' = (t_id t' = t_id t \<and> t_requestId t' = t_requestId t \<and> t_riderId t' = t_riderId t)"

lemma trips_ok_update:
  assumes "trips_ok s" and "jm_get (trips s) k = Some t" and "same_ids t t'" and "driver_ok t'"
    and "jm_ok R" and "jm_ok D"
  shows "trips_ok (s\<lparr>trips := jm_set (trips s) k t', activeRiderTrips := R, activeDriverTrips := D\<rparr>)"
proof -
  have old: "\<And>k t. jm_get (trips s) k = Some t \<Longrightarrow>
      t_id t = k \<and> k \<noteq> [] \<and> driver_ok t \<and> jm_get (requestToTrip s) (t_requestId t) = Some k"
    and req: "\<And>r k. jm_get (requestToTrip s) r = Some k \<Longrightarrow>
      \<exists>t. jm_get (trips s) k = Some t \<and> t_requestId t = r"
    using assms(1) unfolding trips_ok_def by blast+
  have "\<exists>u. (if k' = k then Some t' else jm_get (trips s) k') = Some u \<and> t_requestId u = r"
    if "jm_get (requestToTrip s) r = Some k'" for r k'
    using req [OF that] assms(2,3) by (auto simp: same_ids_def)
  then show ?thesis
    using assms old [OF assms(2)] old unfolding trips_ok_def same_ids_def by simp
qed

lemma index_update_keep:
  assumes "tsm_inv s" and "jm_get (trips s) k = Some t" and "same_ids t t'"
    and "t_driverId t' = t_driverId t" and "active t" and "active t'"
  shows "rider_index (s\<lparr>trips := jm_set (trips s) k t'\<rparr>)"
    and "driver_index (s\<lparr>trips := jm_set (trips s) k t'\<rparr>)"
  using assms by (auto simp: rider_index_def driver_index_def tsm_inv_def same_ids_def)

lemma index_update_terminal:
  assumes inv: "tsm_inv s" and k: "jm_get (trips s) k = Some t" and ids: "same_ids t t'"
    and d: "t_driverId t' = t_driverId t" and act: "active t" "\<not> active t'"
  shows "rider_index (s\<lparr>trips := jm_set (trips s) k t',
      activeRiderTrips := jm_delete (activeRiderTrips s) (t_riderId t), activeDriverTrips := D\<rparr>)"
    and "driver_index (s\<lparr>trips := jm_set (trips s) k t', activeRiderTrips := R,
      activeDriverTrips := (case t_driverId t of None \<Rightarrow> activeDriverTrips s
                            | Some x \<Rightarrow> jm_delete (activeDriverTrips s) x)\<rparr>)"
proof -
  have R: "jm_get (activeRiderTrips s) (t_riderId t) = Some k"
    using rider_indexD [OF inv] k act by blast
  show "rider_index (s\<lparr>trips := jm_set (trips s) k t',
      activeRiderTrips := jm_delete (activeRiderTrips s) (t_riderId t), activeDriverTrips := D\<rparr>)"
    unfolding rider_index_def
  proof (intro allI)
    fix r k'
    show "(jm_get (activeRiderTrips (s\<lparr>trips := jm_set (trips s) k t',
          activeRiderTrips := jm_delete (activeRiderTrips s) (t_riderId t), activeDriverTrips := D\<rparr>)) r = Some k') =
        (\<exists>u. jm_get (trips (s\<lparr>trips := jm_set (trips s) k t',
          activeRiderTrips := jm_delete (activeRiderTrips s) (t_riderId t), activeDriverTrips := D\<rparr>)) k' = Some u \<and>
          t_riderId u = r \<and> active u)"
      using rider_indexD [OF inv, of r k'] R k ids act by (auto simp: same_ids_def)
  qed
  show "driver_index (s\<lparr>trips := jm_set (trips s) k t', activeRiderTrips := R,
      activeDriverTrips := (case t_driverId t of None \<Rightarrow> activeDriverTrips s
                            | Some x \<Rightarrow> jm_delete (activeDriverTrips s) x)\<rparr>)"
  proof (cases "t_driverId t")
    case None
    then show ?thesis
      unfolding driver_index_def using driver_indexD [OF inv] k d act(2)
      by (auto split: if_splits)
  next
    case (Some x)
    then have D: "jm_get (activeDriverTrips s) x = Some k"
      using driver_indexD [OF inv] k act by blast
    show ?thesis
      unfolding driver_index_def
    proof (intro allI)
      fix y k'
      show "(jm_get (activeDriverTrips (s\<lparr>trips := jm_set (trips s) k t', activeRiderTrips := R,
          activeDriverTrips := (case t_driverId t of None \<Rightarrow> activeDriverTrips s
                            | Some x \<Rightarrow> jm_delete (activeDriverTrips s) x)\<rparr>)) y = Some k') =
        (\<exists>u. jm_get (trips (s\<lparr>trips := jm_set (trips s) k t', activeRiderTrips := R,
          activeDriverTrips := (case t_driverId t of None \<Rightarrow> activeDriverTrips s
                            | Some x \<Rightarrow> jm_delete (activeDriverTrips s) x)\<rparr>)) k' = Some u \<and>
          t_driverId u = Some y \<and> active u)"
        using driver_indexD [OF inv, of y k'] D k d Some act by auto
    qed
  qed
qed

lemma index_update_unassign:
  assumes inv: "tsm_inv s" and k: "jm_get (trips s) k = Some t" and ids: "same_ids t t'"
    and d: "t_driverId t' = None" and act: "active t" "active t'"
  shows "rider_index (s\<lparr>trips := jm_set (trips s) k t', activeDriverTrips := D\<rparr>)"
    and "driver_index (s\<lparr>trips := jm_set (trips s) k t',
      activeDriverTrips := (case t_driverId t of None \<Rightarrow> activeDriverTrips s
                            | Some x \<Rightarrow> jm_delete (activeDriverTrips s) x)\<rparr>)"
proof -
  show "rider_index (s\<lparr>trips := jm_set (trips s) k t', activeDriverTrips := D\<rparr>)"
    unfolding rider_index_def using rider_indexD [OF inv] k ids act
    by (auto simp: same_ids_def)
  show "driver_index (s\<lparr>trips := jm_set (trips s) k t',
      activeDriverTrips := (case t_driverId t of None \<Rightarrow> activeDriverTrips s
                            | Some x \<Rightarrow> jm_delete (activeDriverTrips s) x)\<rparr>)"
  proof (cases "t_driverId t")
    case None
    then show ?thesis
      unfolding driver_index_def using driver_indexD [OF inv] k d
      by (auto split: if_splits)
  next
    case (Some x)
    then have D: "jm_get (activeDriverTrips s) x = Some k"
      using driver_indexD [OF inv] k act by blast
    show ?thesis
      unfolding driver_index_def
    proof (intro allI)
      fix y k'
      show "(jm_get (activeDriverTrips (s\<lparr>trips := jm_set (trips s) k t',
          activeDriverTrips := (case t_driverId t of None \<Rightarrow> activeDriverTrips s
                            | Some x \<Rightarrow> jm_delete (activeDriverTrips s) x)\<rparr>)) y = Some k') =
        (\<exists>u. jm_get (trips (s\<lparr>trips := jm_set (trips s) k t',
          activeDriverTrips := (case t_driverId t of None \<Rightarrow> activeDriverTrips s
                            | Some x \<Rightarrow> jm_delete (activeDriverTrips s) x)\<rparr>)) k' = Some u \<and>
          t_driverId u = Some y \<and> active u)"
        using driver_indexD [OF inv, of y k'] D k d Some by auto
    qed
  qed
qed

lemma index_update_assign:
  assumes inv: "tsm_inv s" and k: "jm_get (trips s) k = Some t" and ids: "same_ids t t'"
    and d: "t_driverId t = None" "t_driverId t' = Some x" and act: "active t" "active t'"
    and free: "jm_get (activeDriverTrips s) x = None \<or> jm_get (activeDriverTrips s) x = Some k"
  shows "rider_index (s\<lparr>trips := jm_set (trips s) k t', activeDriverTrips := D\<rparr>)"
    and "driver_index (s\<lparr>trips := jm_set (trips s) k t',
      activeDriverTrips := jm_set (activeDriverTrips s) x k\<rparr>)"
proof -
  show "rider_index (s\<lparr>trips := jm_set (trips s) k t', activeDriverTrips := D\<rparr>)"
    unfolding rider_index_def using rider_indexD [OF inv] k ids act
    by (auto simp: same_ids_def)
  have none: "jm_get (activeDriverTrips s) x = None"
    using free driver_indexD [OF inv, of x k] k d by auto
  show "driver_index (s\<lparr>trips := jm_set (trips s) k t',
      activeDriverTrips := jm_set (activeDriverTrips s) x k\<rparr>)"
    unfolding driver_index_def
  proof (intro allI)
    fix y k'
    show "(jm_get (activeDriverTrips (s\<lparr>trips := jm_set (trips s) k t',
        activeDriverTrips := jm_set (activeDriverTrips s) x k\<rparr>)) y = Some k') =
      (\<exists>u. jm_get (trips (s\<lparr>trips := jm_set (trips s) k t',
        activeDriverTrips := jm_set (activeDriverTrips s) x k\<rparr>)) k' = Some u \<and>
        t_driverId u = Some y \<and> active u)"
      using driver_indexD [OF inv, of y k'] none k d act by auto
  qed
qed

section \<open>Every operation keeps the invariant\<close>

lemma driver_ok_nonempty: "driver_ok t \<Longrightarrow> t_driverId t = Some d \<Longrightarrow> d \<noteq> []"
  by (auto simp: driver_ok_def split: TripStatus.splits dest: js_trim_nonempty)

lemma driver_ok_cong: "t_status t' = t_status t \<Longrightarrow> t_driverId t' = t_driverId t \<Longrightarrow> driver_ok t' = driver_ok t"
  by (cases "t_status t") (simp_all add: driver_ok_def)

lemma allowed_active: "target \<in> set (ALLOWED_TRANSITIONS (t_status t)) \<Longrightarrow> active t"
  by (auto simp: active_def terminal_def)

lemma tsm_inv_update:
  assumes "tsm_inv s" and "jm_get (trips s) k = Some t" and "same_ids t t'" and "driver_ok t'"
    and "jm_ok R" and "jm_ok D"
    and "rider_index (s\<lparr>trips := jm_set (trips s) k t', activeRiderTrips := R, activeDriverTrips := D\<rparr>)"
    and "driver_index (s\<lparr>trips := jm_set (trips s) k t', activeRiderTrips := R, activeDriverTrips := D\<rparr>)"
  shows "tsm_inv (s\<lparr>trips := jm_set (trips s) k t', activeRiderTrips := R, activeDriverTrips := D\<rparr>)"
  using assms trips_ok_update [of s k t t' R D] by (simp add: tsm_inv_def)

lemma trips_update_last:
  "s\<lparr>trips := T, activeDriverTrips := D\<rparr> = s\<lparr>activeDriverTrips := D, trips := T\<rparr>"
  "s\<lparr>trips := T, activeRiderTrips := R\<rparr> = s\<lparr>activeRiderTrips := R, trips := T\<rparr>"
  by simp_all

lemma tsm_inv_maps_ok:
  "tsm_inv s \<Longrightarrow> jm_ok (trips s) \<and> jm_ok (requestToTrip s) \<and> jm_ok (activeRiderTrips s) \<and> jm_ok (activeDriverTrips s)"
  by (simp add: tsm_inv_def trips_ok_def)

lemma tsm_inv_keep:
  assumes "tsm_inv s" "jm_get (trips s) k = Some t" "same_ids t t'" "driver_ok t'"
    "t_driverId t' = t_driverId t" "active t" "active t'"
  shows "tsm_inv (s\<lparr>trips := jm_set (trips s) k t'\<rparr>)"
  using tsm_inv_update [of s k t t' "activeRiderTrips s" "activeDriverTrips s"]
    index_update_keep [OF assms(1,2,3,5,6,7)] assms tsm_inv_maps_ok [OF assms(1)] by simp

lemma tsm_inv_unassign:
  assumes "tsm_inv s" "jm_get (trips s) k = Some t" "same_ids t t'" "driver_ok t'"
    "t_driverId t' = None" "active t" "active t'"
  shows "tsm_inv (s\<lparr>activeDriverTrips := (case t_driverId t of None \<Rightarrow> activeDriverTrips s
                            | Some x \<Rightarrow> jm_delete (activeDriverTrips s) x),
      trips := jm_set (trips s) k t'\<rparr>)"
  using tsm_inv_update [of s k t t' "activeRiderTrips s"
      "case t_driverId t of None \<Rightarrow> activeDriverTrips s | Some x \<Rightarrow> jm_delete (activeDriverTrips s) x"]
    index_update_unassign [OF assms(1,2,3,5,6,7)] assms tsm_inv_maps_ok [OF assms(1)]
  by (auto simp: trips_update_last split: option.splits)

lemma tsm_inv_assign:
  assumes "tsm_inv s" "jm_get (trips s) k = Some t" "same_ids t t'" "driver_ok t'"
    "t_driverId t = None" "t_driverId t' = Some x" "active t" "active t'"
    "jm_get (activeDriverTrips s) x = None \<or> jm_get (activeDriverTrips s) x = Some k"
  shows "tsm_inv (s\<lparr>activeDriverTrips := jm_set (activeDriverTrips s) x k,
      trips := jm_set (trips s) k t'\<rparr>)"
  using tsm_inv_update [of s k t t' "activeRiderTrips s" "jm_set (activeDriverTrips s) x k"]
    index_update_assign [OF assms(1,2,3,5,6,7,8,9)] assms tsm_inv_maps_ok [OF assms(1)]
  by (simp add: trips_update_last)

lemma tsm_inv_terminal:
  assumes "tsm_inv s" "jm_get (trips s) k = Some t" "same_ids t t'" "driver_ok t'"
    "t_driverId t' = t_driverId t" "active t" "\<not> active t'"
  shows "tsm_inv (s\<lparr>activeRiderTrips := jm_delete (activeRiderTrips s) (t_riderId t),
      activeDriverTrips := (case t_driverId t of None \<Rightarrow> activeDriverTrips s
                            | Some x \<Rightarrow> jm_delete (activeDriverTrips s) x),
      trips := jm_set (trips s) k t'\<rparr>)"
  using tsm_inv_update [of s k t t' "jm_delete (activeRiderTrips s) (t_riderId t)"
      "case t_driverId t of None \<Rightarrow> activeDriverTrips s | Some x \<Rightarrow> jm_delete (activeDriverTrips s) x"]
    index_update_terminal [OF assms(1,2,3,5,6,7)] assms tsm_inv_maps_ok [OF assms(1)]
  by (auto simp: trips_update_last split: option.splits)

text \<open>The effect of the \<open>switch\<close>, target by target.\<close>

lemma milestone_frame:
  assumes "milestone s now t target by reason payload = Inr (t1, s1)"
  shows "trips s1 = trips s \<and> requestToTrip s1 = requestToTrip s \<and> auditEvents s1 = auditEvents s \<and>
    same_ids t t1 \<and> t_status t1 = t_status t \<and> t_createdAt t1 = t_createdAt t"
  using assms
  by (cases target)
    (auto simp: same_ids_def clearActiveIndices_def Let_def split: option.splits if_splits jsval.splits)

lemma milestone_inv:
  assumes inv: "tsm_inv s" and k: "jm_get (trips s) k = Some t"
    and al: "target \<in> set (ALLOWED_TRANSITIONS (t_status t))"
    and m: "milestone s now t target by reason payload = Inr (t1, s1)"
  shows "tsm_inv (s1\<lparr>trips := jm_set (trips s1) k (t1\<lparr>t_status := target\<rparr>)\<rparr>)"
proof -
  note tk = tsm_invD [OF inv k]
  have act: "active t" by (rule allowed_active [OF al])
  have ne: "\<And>d. t_driverId t = Some d \<Longrightarrow> d \<noteq> []"
    using driver_ok_nonempty tk(3) by blast
  note simps = same_ids_def active_def terminal_def driver_ok_def
  show ?thesis
  proof (cases target)
    case Matching
    with m ne have "t1 = t\<lparr>t_driverId := None, t_matchedAt := None, t_arrivedAt := None\<rparr>"
      "s1 = s\<lparr>activeDriverTrips := (case t_driverId t of None \<Rightarrow> activeDriverTrips s
                            | Some x \<Rightarrow> jm_delete (activeDriverTrips s) x)\<rparr>"
      by (auto split: option.splits)
    then show ?thesis
      using tsm_inv_unassign [OF inv k, of "t1\<lparr>t_status := target\<rparr>"] act Matching
      by (simp add: simps)
  next
    case Matched
    with al have none: "t_driverId t = None"
      using tk(3) by (cases "t_status t") (auto simp: driver_ok_def)
    from m Matched obtain d where d: "js_trim d \<noteq> []"
      and free: "\<not> (truthy (jm_get (activeDriverTrips s) d) \<and> jm_get (activeDriverTrips s) d \<noteq> Some (t_id t))"
      and t1: "t1 = t\<lparr>t_matchedAt := Some now, t_driverId := Some d\<rparr>"
      and s1: "s1 = s\<lparr>activeDriverTrips := jm_set (activeDriverTrips s) d (t_id t)\<rparr>"
      by (auto simp: Let_def split: jsval.splits if_splits)
    have "jm_get (activeDriverTrips s) d = None \<or> jm_get (activeDriverTrips s) d = Some k"
      using free tk(1) driver_indexD [OF inv, of d] tsm_invD(2) [OF inv]
      by (cases "jm_get (activeDriverTrips s) d") auto
    then show ?thesis
      using tsm_inv_assign [OF inv k, of "t1\<lparr>t_status := target\<rparr>" d] act Matched none t1 s1 d tk(1)
      by (simp add: simps)
  next
    case Completed
    with al have "\<exists>d. t_driverId t = Some d \<and> js_trim d \<noteq> []"
      using tk(3) by (cases "t_status t") (auto simp: driver_ok_def)
    moreover have "driver_ok (t\<lparr>t_completedAt := Some now\<rparr>)"
      using tk(3) by (subst driver_ok_cong [of _ t]) simp_all
    ultimately show ?thesis
      using tsm_inv_terminal [OF inv k, of "t1\<lparr>t_status := target\<rparr>"] act Completed m
      by (auto simp: Let_def clearActiveIndices_eq simps)
  next
    case Cancelled
    have "driver_ok (t\<lparr>t_cancelledAt := Some now,
                     t_cancellationReason := (if truthy reason then reason else None),
                     t_cancelledBy := Some by\<rparr>)"
      using tk(3) by (subst driver_ok_cong [of _ t]) simp_all
    moreover have "\<forall>d. t_driverId t = Some d \<longrightarrow> js_trim d \<noteq> []"
      using tk(3) by (auto simp: driver_ok_def split: TripStatus.splits)
    ultimately show ?thesis
      using tsm_inv_terminal [OF inv k, of "t1\<lparr>t_status := target\<rparr>"] act Cancelled m
      by (auto simp: Let_def clearActiveIndices_eq simps)
  next
    case Requested
    with al show ?thesis by (cases "t_status t") simp_all
  next
    case En_route
    with al have "\<exists>d. t_driverId t = Some d \<and> js_trim d \<noteq> []"
      using tk(3) by (cases "t_status t") (auto simp: driver_ok_def)
    then show ?thesis
      using tsm_inv_keep [OF inv k, of "t1\<lparr>t_status := target\<rparr>"] act En_route m by (simp add: simps)
  next
    case Arrived
    with al have "\<exists>d. t_driverId t = Some d \<and> js_trim d \<noteq> []"
      using tk(3) by (cases "t_status t") (auto simp: driver_ok_def)
    then show ?thesis
      using tsm_inv_keep [OF inv k, of "t1\<lparr>t_status := target\<rparr>"] act Arrived m by (auto simp add: simps)
  next
    case In_progress
    with al have "\<exists>d. t_driverId t = Some d \<and> js_trim d \<noteq> []"
      using tk(3) by (cases "t_status t") (auto simp: driver_ok_def)
    then show ?thesis
      using tsm_inv_keep [OF inv k, of "t1\<lparr>t_status := target\<rparr>"] act In_progress m by (auto simp add: simps)
  qed
qed

text \<open>The cases of a transition, with what each one returns and leaves behind.\<close>

definition role_guard :: "TripStatus \<Rightarrow> TripStatus \<Rightarrow> ActorRole \<Rightarrow> bool" where
  "role_guard current target by =
    ((target \<in> {Arrived, In_progress, Completed} \<longrightarrow> by = Driver) \<and>
     (target = Cancelled \<and> current \<in> {Requested, Matching} \<longrightarrow> by \<noteq> Driver))"

lemma transition_cases:
  assumes "transition s now tid target by reason payload = (r, s')"
  obtains (error) e where "r = Inl e" "s' = s"
  | (noop) t where "jm_get (trips s) tid = Some t" "t_status t = target" "r = Inr (t, None)" "s' = s"
  | (step) t t1 s1 ev where "jm_get (trips s) tid = Some t"
      "target \<in> set (ALLOWED_TRANSITIONS (t_status t))" "role_guard (t_status t) target by"
      "milestone s now t target by reason payload = Inr (t1, s1)"
      "r = Inr (t1\<lparr>t_status := target\<rparr>, Some ev)"
      "e_tripId ev = t_id t1" "e_fromStatus ev = t_status t" "e_toStatus ev = target"
      "e_triggeredBy ev = by" "e_timestamp ev = now"
      "s' = notifyTransition (recordEvent (s1\<lparr>trips := jm_set (trips s1) tid (t1\<lparr>t_status := target\<rparr>)\<rparr>) ev) ev (t1\<lparr>t_status := target\<rparr>)"
proof (cases "jm_get (trips s) tid")
  case None
  then show thesis
    using assms by (intro error [of "TripNotFound tid"]) (simp_all add: transition_def)
next
  case (Some t)
  show thesis
  proof (cases "t_status t = target")
    case True
    with Some show thesis
      using assms by (intro noop [of t]) (simp_all add: transition_def Let_def)
  next
    case False
    show thesis
    proof (cases "target \<in> set (ALLOWED_TRANSITIONS (t_status t)) \<and> role_guard (t_status t) target by")
      case False
      with Some assms \<open>t_status t \<noteq> target\<close> have "\<exists>e. r = Inl e \<and> s' = s"
        by (auto simp: transition_def Let_def role_guard_def split: if_splits)
      then show thesis using error by blast
    next
      case True
      then have "(target = Arrived \<and> by \<noteq> Driver) = False" "(target = In_progress \<and> by \<noteq> Driver) = False"
        "(target = Completed \<and> by \<noteq> Driver) = False"
        "(target = Cancelled \<and> (t_status t = Requested \<or> t_status t = Matching) \<and> by = Driver) = False"
        by (auto simp: role_guard_def)
      then have tr: "(r, s') = (case milestone s now t target by reason payload of
          Inl e \<Rightarrow> (Inl e, s)
        | Inr (trip1, s1) \<Rightarrow>
            let trip2 = trip1\<lparr>t_status := target\<rparr>;
                s2 = s1\<lparr>trips := jm_set (trips s1) tid trip2\<rparr>;
                ev = \<lparr>e_tripId = t_id trip2, e_requestId = t_requestId trip2,
                      e_fromStatus = t_status t, e_toStatus = target, e_triggeredBy = by,
                      e_timestamp = now, e_reason = reason, e_payload = payload\<rparr>
            in (Inr (trip2, Some ev), notifyTransition (recordEvent s2 ev) ev trip2))"
        using True Some assms \<open>t_status t \<noteq> target\<close>
        by (simp add: transition_def Let_def del: milestone.simps split: if_splits)
      show thesis
      proof (cases "milestone s now t target by reason payload")
        case (Inl e)
        with tr show thesis by (intro error [of e]) simp_all
      next
        case (Inr p)
        obtain t1 s1 where p: "p = (t1, s1)" by (cases p)
        with tr Inr True Some show thesis
          by (intro step [of t t1 s1]) (simp_all add: Let_def)
      qed
    qed
  qed
qed

lemma transition_inv [inv_rules]:
  assumes "tsm_inv s" and "transition s now tid target by reason payload = (r, s')"
  shows "tsm_inv s'"
  using assms(2)
proof (cases rule: transition_cases)
  case (step t t1 s1 ev)
  have "tsm_inv (s1\<lparr>trips := jm_set (trips s1) tid (t1\<lparr>t_status := target\<rparr>)\<rparr>)"
    using milestone_inv [OF assms(1) step(1,2,4)] .
  with step(11) show ?thesis
    by (simp add: recordEvent_length) (simp add: tsm_inv_def recordEvent_length)
qed (use assms(1) in simp_all)

subsection \<open>Creating a trip\<close>

lemma find_terminal:
  assumes "find (\<lambda>(k, t). t_status t = Completed \<or> t_status t = Cancelled) m = Some (k, t)" and "jm_ok m"
  shows "jm_get m k = Some t \<and> \<not> active t"
proof -
  obtain i where "i < length m" "m ! i = (k, t)" "t_status t = Completed \<or> t_status t = Cancelled"
    using assms(1) by (auto simp: find_Some_iff)
  then show ?thesis
    using assms(2) nth_mem [of i m] by (auto simp: active_def terminal_def)
qed

lemma find_terminal_None:
  assumes "find (\<lambda>(k, t). t_status t = Completed \<or> t_status t = Cancelled) m = None" and "jm_get m k = Some t"
  shows "active t"
  using assms by (auto simp: find_None_iff active_def terminal_def dest: map_of_SomeD)

lemma evict_cases:
  assumes "tsm_inv s"
  obtains (keep) "evictOldestTerminal s = s"
      "length (trips s) < maxTrips \<or> (\<forall>k t. jm_get (trips s) k = Some t \<longrightarrow> active t)"
  | (evict) k t where "jm_get (trips s) k = Some t" "\<not> active t" "maxTrips \<le> length (trips s)"
      "evictOldestTerminal s = s\<lparr>trips := jm_delete (trips s) k,
         requestToTrip := jm_delete (requestToTrip s) (t_requestId t)\<rparr>"
proof (cases "length (trips s) \<ge> maxTrips")
  case False
  then show thesis
    by (intro keep) (simp_all add: evictOldestTerminal_def)
next
  case True
  show thesis
  proof (cases "find (\<lambda>(k, t). t_status t = Completed \<or> t_status t = Cancelled) (trips s)")
    case None
    then show thesis
      using find_terminal_None [OF None] True
      by (intro keep) (auto simp: evictOldestTerminal_def)
  next
    case (Some p)
    obtain k t where p: "p = (k, t)" by (cases p)
    then have "jm_get (trips s) k = Some t \<and> \<not> active t"
      using find_terminal [of "trips s" k t] Some tsm_inv_maps_ok [OF assms] by simp
    with True Some p show thesis
      by (intro evict [of k t]) (simp_all add: evictOldestTerminal_def)
  qed
qed

lemma evict_inv:
  assumes inv: "tsm_inv s"
  shows "tsm_inv (evictOldestTerminal s)"
  using inv
proof (cases rule: evict_cases)
  case (evict k t)
  note tk = tsm_invD [OF inv evict(1)]
  let ?s = "s\<lparr>trips := jm_delete (trips s) k, requestToTrip := jm_delete (requestToTrip s) (t_requestId t)\<rparr>"
  have same: "k' = k" if "jm_get (trips s) k' = Some u" "t_requestId u = t_requestId t" for k' u
    using tsm_invD(4) [OF inv that(1)] that(2) tk(4) by simp
  have "trips_ok ?s"
  proof (rule trips_okI)
    fix k' u
    assume "jm_get (trips ?s) k' = Some u"
    then have "k' \<noteq> k" and u: "jm_get (trips s) k' = Some u"
      by (auto split: if_splits)
    with same [OF u] tsm_invD [OF inv u]
    show "t_id u = k' \<and> k' \<noteq> [] \<and> driver_ok u \<and> jm_get (requestToTrip ?s) (t_requestId u) = Some k'"
      by auto
  next
    fix r k'
    assume "jm_get (requestToTrip ?s) r = Some k'"
    then have r: "r \<noteq> t_requestId t" and "jm_get (requestToTrip s) r = Some k'"
      by (auto split: if_splits)
    with tsm_inv_requestD [OF inv] obtain u where u: "jm_get (trips s) k' = Some u" "t_requestId u = r"
      by blast
    with r evict(1) have "k' \<noteq> k"
      by auto
    with u show "\<exists>u. jm_get (trips ?s) k' = Some u \<and> t_requestId u = r"
      by simp
  qed (use tsm_inv_maps_ok [OF inv] in simp_all)
  moreover have "rider_index ?s"
    unfolding rider_index_def using rider_indexD [OF inv] evict(1,2) by auto
  moreover have "driver_index ?s"
    unfolding driver_index_def using driver_indexD [OF inv] evict(1,2) by auto
  ultimately show ?thesis
    using inv evict(4) by (simp add: tsm_inv_def)
qed (use inv in simp)

lemma evict_get:
  assumes "tsm_inv s"
  shows "jm_get (trips (evictOldestTerminal s)) k \<in> {None, jm_get (trips s) k}"
    and "jm_get (trips s) k = Some t \<Longrightarrow> active t \<Longrightarrow> jm_get (trips (evictOldestTerminal s)) k = Some t"
    and "jm_get (requestToTrip (evictOldestTerminal s)) r \<in> {None, jm_get (requestToTrip s) r}"
  using assms by (cases rule: evict_cases; auto)+

lemma createTrip_cases:
  assumes "tsm_inv s" and "createTrip s now uuid reqId riderId pickup dropoff = (r, s')"
  obtains (error) e where "r = Inl e" "s' = s"
  | (replay) t where "r = Inr t" "s' = s" "jm_get (requestToTrip s) reqId = Some (t_id t)"
      "jm_get (trips s) (t_id t) = Some t" "t_riderId t = riderId" "t_requestId t = reqId"
  | (fresh) pk dr trip s1 where "r = Inr trip" "jm_get (requestToTrip s) reqId = None"
      "geo_point_of pickup = Some pk" "geo_point_of dropoff = Some dr"
      "jm_get (activeRiderTrips s) riderId = None"
      "trip = newTrip now uuid reqId riderId pk dr" "s1 = evictOldestTerminal s"
      "s' = recordEvent (s1\<lparr>trips := jm_set (trips s1) (t_id trip) trip,
                requestToTrip := jm_set (requestToTrip s1) reqId (t_id trip),
                activeRiderTrips := jm_set (activeRiderTrips s1) riderId (t_id trip)\<rparr>) (createdEvent trip)"
proof (cases "jm_get (requestToTrip s) reqId")
  case (Some k)
  with tsm_inv_requestD [OF assms(1)] obtain t
    where "k \<noteq> []" "jm_get (trips s) k = Some t" "t_requestId t = reqId" "t_id t = k"
    by blast
  then show thesis
    using Some assms(2) error replay
    by (cases "t_riderId t = riderId") (auto simp: createTrip_def Let_def)
next
  case None
  show thesis
  proof (cases "\<exists>pk dr. geo_point_of pickup = Some pk \<and> geo_point_of dropoff = Some dr \<and>
      \<not> jm_has (activeRiderTrips s) riderId")
    case False
    then have "\<exists>e. r = Inl e \<and> s' = s"
      using None assms(2)
      by (cases "geo_point_of pickup"; cases "geo_point_of dropoff") (auto simp: createTrip_def)
    then show thesis using error by blast
  next
    case True
    then obtain pk dr where "geo_point_of pickup = Some pk" "geo_point_of dropoff = Some dr"
        "\<not> jm_has (activeRiderTrips s) riderId"
      by blast
    then show thesis
      using None assms(2)
      by (intro fresh [of "newTrip now uuid reqId riderId pk dr" pk dr "evictOldestTerminal s"])
        (auto simp: createTrip_def Let_def jm_has_def)
  qed
qed

lemma createTrip_inv [inv_rules]:
  assumes inv: "tsm_inv s" and new: "jm_get (trips s) (''trip_'' @ uuid) = None"
    and c: "createTrip s now uuid reqId riderId pickup dropoff = (r, s')"
  shows "tsm_inv s'"
  using inv c
proof (cases rule: createTrip_cases)
  case (fresh pk dr trip s1)
  have inv1: "tsm_inv s1" using evict_inv [OF inv] fresh(7) by simp
  let ?k = "''trip_'' @ uuid"
  have tr: "t_id trip = ?k" "t_requestId trip = reqId" "t_riderId trip = riderId"
    "t_driverId trip = None" "t_status trip = Requested"
    using fresh(6) by (simp_all add: newTrip_def)
  have new1: "jm_get (trips s1) ?k = None"
    using evict_get(1) [OF inv, of ?k] new fresh(7) by simp
  have req1: "jm_get (requestToTrip s1) reqId = None"
    using evict_get(3) [OF inv, of reqId] fresh(2,7) by simp
  have act1: "activeRiderTrips s1 = activeRiderTrips s"
    using inv fresh(7) by (cases rule: evict_cases) auto
  let ?s = "s1\<lparr>trips := jm_set (trips s1) (t_id trip) trip,
                requestToTrip := jm_set (requestToTrip s1) reqId (t_id trip),
                activeRiderTrips := jm_set (activeRiderTrips s1) riderId (t_id trip)\<rparr>"
  have noreq: "t_requestId u \<noteq> reqId" if "jm_get (trips s1) k = Some u" for k u
    using tsm_invD(4) [OF inv1 that] req1 by auto
  have nokey: "jm_get (requestToTrip s1) x \<noteq> Some ?k" for x
    using tsm_inv_requestD [OF inv1, of x ?k] new1 by auto
  have "trips_ok ?s"
  proof (rule trips_okI)
    fix k u
    assume u: "jm_get (trips ?s) k = Some u"
    show "t_id u = k \<and> k \<noteq> [] \<and> driver_ok u \<and> jm_get (requestToTrip ?s) (t_requestId u) = Some k"
    proof (cases "k = ?k")
      case True
      with u tr show ?thesis by (auto simp: driver_ok_def)
    next
      case False
      with u tr have u1: "jm_get (trips s1) k = Some u" by simp
      with False show ?thesis
        using tsm_invD [OF inv1 u1] noreq [OF u1] tr by simp
    qed
  next
    fix r k
    assume r: "jm_get (requestToTrip ?s) r = Some k"
    show "\<exists>u. jm_get (trips ?s) k = Some u \<and> t_requestId u = r"
    proof (cases "r = reqId")
      case True
      with r tr show ?thesis by auto
    next
      case False
      with r have r1: "jm_get (requestToTrip s1) r = Some k" by simp
      with nokey have "k \<noteq> ?k" by auto
      with r1 show ?thesis
        using tsm_inv_requestD [OF inv1 r1] tr by auto
    qed
  qed (use tsm_inv_maps_ok [OF inv1] in simp_all)
  moreover have "rider_index ?s"
    unfolding rider_index_def
    using rider_indexD [OF inv1, of riderId] rider_indexD [OF inv1] new1 act1 fresh(5) tr
    by (auto simp: active_def terminal_def split: if_splits)
  moreover have "driver_index ?s"
    unfolding driver_index_def
    using driver_indexD [OF inv1] new1 tr by auto
  moreover have "length (auditEvents ?s) \<le> maxAuditBufferSize"
    using inv1 by (simp add: tsm_inv_def)
  ultimately show ?thesis
    using fresh(8) recordEvent_length [of ?s] by simp
qed (use inv in simp_all)

text \<open>No two active trips of a rider, nor of a driver.\<close>

lemma active_trips_distinct:
  assumes inv: "tsm_inv s" and "jm_get (trips s) k1 = Some t1" and "jm_get (trips s) k2 = Some t2"
    and "active t1" and "active t2"
    and "t_riderId t1 = t_riderId t2 \<or> (t_driverId t1 = t_driverId t2 \<and> t_driverId t1 \<noteq> None)"
  shows "k1 = k2"
proof -
  have rider: "jm_get (activeRiderTrips s) (t_riderId t1) = Some k1"
    "jm_get (activeRiderTrips s) (t_riderId t2) = Some k2"
    using assms(2-5) by (simp_all add: rider_indexD [OF inv])
  have driver: "jm_get (activeDriverTrips s) d = Some k1" if "t_driverId t1 = Some d" for d
    using assms(2,4) that by (simp add: driver_indexD [OF inv])
  have driver': "jm_get (activeDriverTrips s) d = Some k2" if "t_driverId t2 = Some d" for d
    using assms(3,5) that by (simp add: driver_indexD [OF inv])
  from assms(6) rider driver driver' show ?thesis by fastforce
qed

end
