(* ===== verification/TripRuns.thy ===== *)
theory TripRuns
  imports TripInvariants
begin

text \<open>
  Runs of the trip state machine, the invariant of a run, and one concrete run.  A run carries
  the list of all events recorded so far (the machine itself keeps only the most recent ones).
\<close>

section \<open>Runs\<close>

definition recorded_by_create ::
    "TSM \<Rightarrow> string \<Rightarrow> tsm_error + Trip \<Rightarrow> StateTransitionEvent list" where
  "recorded_by_create s reqId r =
    (case r of
       Inr t \<Rightarrow> if jm_get (requestToTrip s) reqId = None then [createdEvent t] else []
     | Inl _ \<Rightarrow> [])"

definition recorded_by_transition ::
    "tsm_error + (Trip \<times> StateTransitionEvent option) \<Rightarrow> StateTransitionEvent list" where
  "recorded_by_transition r =
    (case r of Inr (_, Some ev) \<Rightarrow> [ev] | _ \<Rightarrow> [])"

text \<open>
  Any sequence of calls from the empty machine.  The only assumption is that a random
  identifier never repeats.
\<close>

inductive tsm_run :: "StateTransitionEvent list \<Rightarrow> TSM \<Rightarrow> bool" where
  start: "tsm_run [] tsm_new"
| create: "tsm_run h s \<Longrightarrow> ''trip_'' @ uuid \<notin> e_tripId ` set h \<Longrightarrow>
     createTrip s now uuid reqId riderId pickup dropoff = (r, s') \<Longrightarrow>
     tsm_run (h @ recorded_by_create s reqId r) s'"
| move: "tsm_run h s \<Longrightarrow> transition s now tid target by reason payload = (r, s') \<Longrightarrow>
     tsm_run (h @ recorded_by_transition r) s'"

text \<open>A walk through the transition matrix, with the role checks of every step.\<close>

fun walk :: "TripStatus \<Rightarrow> StateTransitionEvent list \<Rightarrow> TripStatus option" where
  "walk st [] = Some st"
| "walk st (e # es) =
    (if e_fromStatus e = st \<and> e_toStatus e \<in> set (ALLOWED_TRANSITIONS st) \<and>
        role_guard st (e_toStatus e) (e_triggeredBy e)
     then walk (e_toStatus e) es else None)"

lemma walk_append: "walk st (xs @ ys) = Option.bind (walk st xs) (\<lambda>st'. walk st' ys)"
  by (induction xs arbitrary: st) auto

definition trip_log :: "string \<Rightarrow> StateTransitionEvent list \<Rightarrow> StateTransitionEvent list" where
  "trip_log k h = filter (\<lambda>e. e_tripId e = k) h"

definition log_ok :: "StateTransitionEvent list \<Rightarrow> Trip option \<Rightarrow> bool" where
  "log_ok es stored =
    (case es of
       [] \<Rightarrow> stored = None
     | c # es' \<Rightarrow>
         e_fromStatus c = Requested \<and> e_toStatus c = Requested \<and>
         (case walk Requested es' of
            None \<Rightarrow> False
          | Some st \<Rightarrow> (case stored of None \<Rightarrow> terminal st | Some t \<Rightarrow> t_status t = st)))"

lemma trip_log_append [simp]: "trip_log k (h @ h') = trip_log k h @ trip_log k h'"
  by (simp add: trip_log_def)

lemma log_ok_evict: "log_ok es (Some t) \<Longrightarrow> terminal (t_status t) \<Longrightarrow> log_ok es None"
  by (auto simp: log_ok_def split: list.splits option.splits)

lemma log_ok_step:
  assumes "log_ok es (Some t)" and "e_fromStatus ev = t_status t"
    and "e_toStatus ev \<in> set (ALLOWED_TRANSITIONS (t_status t))"
    and "role_guard (t_status t) (e_toStatus ev) (e_triggeredBy ev)"
    and "t_status t' = e_toStatus ev"
  shows "log_ok (es @ [ev]) (Some t')"
  using assms by (auto simp: log_ok_def walk_append split: list.splits option.splits)

lemma recordEvent_last_n:
  "auditEvents s = last_n maxAuditBufferSize h \<Longrightarrow>
    auditEvents (recordEvent s ev) = last_n maxAuditBufferSize (h @ [ev])"
  by (subst last_n_snoc) (simp_all add: recordEvent_def maxAuditBufferSize_def)

lemma evict_auditEvents [simp]: "auditEvents (evictOldestTerminal s) = auditEvents s"
  by (simp add: evictOldestTerminal_def split: option.splits)

definition run_inv :: "StateTransitionEvent list \<Rightarrow> TSM \<Rightarrow> bool" where
  "run_inv h s = (tsm_inv s \<and> auditEvents s = last_n maxAuditBufferSize h \<and>
     (\<forall>k. log_ok (trip_log k h) (jm_get (trips s) k)))"

lemma run_inv_fresh:
  assumes "run_inv h s" and "k \<notin> e_tripId ` set h"
  shows "jm_get (trips s) k = None" and "trip_log k h = []"
proof -
  show empty: "trip_log k h = []"
    using assms(2) by (auto simp: trip_log_def filter_empty_conv)
  have "log_ok (trip_log k h) (jm_get (trips s) k)"
    using assms(1) by (simp add: run_inv_def)
  with empty show "jm_get (trips s) k = None"
    by (simp add: log_ok_def)
qed

lemma run_inv_create:
  assumes R: "run_inv h s" and new: "''trip_'' @ uuid \<notin> e_tripId ` set h"
    and c: "createTrip s now uuid reqId riderId pickup dropoff = (r, s')"
  shows "run_inv (h @ recorded_by_create s reqId r) s'"
proof -
  have inv: "tsm_inv s" and audit: "auditEvents s = last_n maxAuditBufferSize h"
    and logs: "\<And>k. log_ok (trip_log k h) (jm_get (trips s) k)"
    using R by (auto simp: run_inv_def)
  note none = run_inv_fresh [OF R new]
  have inv': "tsm_inv s'"
    by (rule createTrip_inv [OF inv none(1) c])
  from inv c show ?thesis
  proof (cases rule: createTrip_cases)
    case (fresh pk dr trip s1)
    let ?k = "''trip_'' @ uuid"
    have rec: "recorded_by_create s reqId r = [createdEvent trip]"
      using fresh by (simp add: recorded_by_create_def)
    have tr: "t_id trip = ?k" "t_status trip = Requested" "e_tripId (createdEvent trip) = ?k"
      using fresh(6) by (simp_all add: newTrip_def createdEvent_def)
    have "log_ok (trip_log k (h @ [createdEvent trip])) (jm_get (trips s') k)" for k
    proof (cases "k = ?k")
      case True
      with none(2) tr fresh(8) show ?thesis
        by (simp add: trip_log_def log_ok_def) (simp add: createdEvent_def)
    next
      case False
      then have "jm_get (trips s') k = jm_get (trips s1) k"
        and "trip_log k (h @ [createdEvent trip]) = trip_log k h"
        using fresh(8) tr by (simp_all add: trip_log_def)
      moreover have "log_ok (trip_log k h) (jm_get (trips s1) k)"
        using inv
      proof (cases rule: evict_cases)
        case (evict k' t)
        with logs [of k'] have "log_ok (trip_log k' h) None"
          by (auto intro: log_ok_evict simp: active_def)
        with evict logs [of k] fresh(7) show ?thesis by simp
      qed (use logs fresh(7) in simp)
      ultimately show ?thesis by simp
    qed
    moreover have "auditEvents s' = last_n maxAuditBufferSize (h @ [createdEvent trip])"
      unfolding fresh(8) by (rule recordEvent_last_n) (simp add: fresh(7) audit)
    ultimately show ?thesis
      using inv' rec by (simp add: run_inv_def)
  qed (use R in \<open>simp_all add: recorded_by_create_def\<close>)
qed

lemma run_inv_move:
  assumes R: "run_inv h s" and t: "transition s now tid target by reason payload = (r, s')"
  shows "run_inv (h @ recorded_by_transition r) s'"
proof -
  have inv: "tsm_inv s" and audit: "auditEvents s = last_n maxAuditBufferSize h"
    and logs: "\<And>k. log_ok (trip_log k h) (jm_get (trips s) k)"
    using R by (auto simp: run_inv_def)
  have inv': "tsm_inv s'"
    by (rule transition_inv [OF inv t])
  from t show ?thesis
  proof (cases rule: transition_cases)
    case (step tr t1 s1 ev)
    note fr = milestone_frame [OF step(4)]
    note tk = tsm_invD [OF inv step(1)]
    have rec: "recorded_by_transition r = [ev]"
      using step(5) by (simp add: recorded_by_transition_def)
    have evk: "e_tripId ev = tid"
      using step(6) fr tk(1) by (simp add: same_ids_def)
    have "log_ok (trip_log k (h @ [ev])) (jm_get (trips s') k)" for k
    proof (cases "k = tid")
      case True
      then have "log_ok (trip_log k h @ [ev]) (Some (t1\<lparr>t_status := target\<rparr>))"
        using logs [of tid] step by (intro log_ok_step [of _ tr]) simp_all
      with True evk step(11) show ?thesis by (simp add: trip_log_def)
    next
      case False
      with evk step(11) fr logs [of k] show ?thesis by (simp add: trip_log_def)
    qed
    moreover have "auditEvents s' = last_n maxAuditBufferSize (h @ [ev])"
      unfolding step(11) notify_fields by (rule recordEvent_last_n) (simp add: fr audit)
    ultimately show ?thesis
      using inv' rec by (simp add: run_inv_def)
  qed (use R in \<open>simp_all add: recorded_by_transition_def\<close>)
qed

lemma tsm_run_inv: "tsm_run h s \<Longrightarrow> run_inv h s"
proof (induction rule: tsm_run.induct)
  case start
  then show ?case
    by (simp add: run_inv_def tsm_inv_new trip_log_def log_ok_def) (simp add: tsm_new_def last_n_def)
qed (blast intro: run_inv_create run_inv_move)+

lemma tsm_run_tsm_inv: "tsm_run h s \<Longrightarrow> tsm_inv s"
  using tsm_run_inv by (simp add: run_inv_def)

section \<open>A concrete run\<close>

text \<open>One rider's trip from the request to the moment the passenger is on board.\<close>

definition demo_point :: jsval where
  "demo_point = JObj [(''lat'', JNum (Fin 13)), (''lng'', JNum (Fin 77.6))]"

definition demo_created :: TSM where
  "demo_created = snd (createTrip tsm_new 0 ''u1'' ''r1'' ''ann'' demo_point demo_point)"

definition demo_matching :: TSM where
  "demo_matching = snd (startMatching demo_created 1 ''trip_u1'')"

definition demo_matched :: TSM where
  "demo_matched = snd (setMatched demo_matching 2 ''trip_u1'' ''d1'')"

definition demo_arrived :: TSM where
  "demo_arrived = snd (driverArrived demo_matched 3 ''trip_u1'')"

definition demo_onboard :: TSM where
  "demo_onboard = snd (startTrip demo_arrived 4 ''trip_u1'')"

lemma tsm_run_createTrip:
  "tsm_run h s \<Longrightarrow> ''trip_'' @ uuid \<notin> e_tripId ` set h \<Longrightarrow>
    \<exists>h'. tsm_run h' (snd (createTrip s now uuid reqId riderId pickup dropoff))"
  by (metis prod.collapse tsm_run.create)

lemma tsm_run_transition:
  "\<exists>h. tsm_run h s \<Longrightarrow> \<exists>h'. tsm_run h' (snd (transition s now tid target by reason payload))"
  by (metis prod.collapse tsm_run.move)

lemma demo_runs:
  "\<exists>h. tsm_run h demo_created" "\<exists>h. tsm_run h demo_matching" "\<exists>h. tsm_run h demo_matched"
  "\<exists>h. tsm_run h demo_arrived" "\<exists>h. tsm_run h demo_onboard"
proof -
  show c: "\<exists>h. tsm_run h demo_created"
    unfolding demo_created_def by (rule tsm_run_createTrip [OF tsm_run.start]) simp
  show m: "\<exists>h. tsm_run h demo_matching"
    unfolding demo_matching_def startMatching_def by (rule tsm_run_transition [OF c])
  show d: "\<exists>h. tsm_run h demo_matched"
    unfolding demo_matched_def setMatched_def by (rule tsm_run_transition [OF m])
  show a: "\<exists>h. tsm_run h demo_arrived"
    unfolding demo_arrived_def driverArrived_def by (rule tsm_run_transition [OF d])
  show "\<exists>h. tsm_run h demo_onboard"
    unfolding demo_onboard_def startTrip_def by (rule tsm_run_transition [OF a])
qed

end
