(* ===== verification/TripProperties.thy ===== *)
theory TripProperties
  imports TripRuns
begin

text \<open>
  What holds of the trip state machine in every run from the empty machine: exclusive assignment,
  the exact conditions under which a transition takes effect, the meaning of the audit log,
  idempotent creation and bounded storage.
\<close>

text \<open>
  C2. In every run a rider has at most one active trip, and a driver is assigned to at most one
  active trip: two stored trips that are both active and share the rider, or share a driver, are
  the same trip.
\<close>

theorem no_double_booking:
  assumes "tsm_run h s" and "jm_get (trips s) k1 = Some t1" and "jm_get (trips s) k2 = Some t2"
    and "active t1" and "active t2"
    and "t_riderId t1 = t_riderId t2 \<or> (t_driverId t1 = t_driverId t2 \<and> t_driverId t1 \<noteq> None)"
  shows "k1 = k2"
  using active_trips_distinct [OF tsm_run_tsm_inv [OF assms(1)] assms(2-6)] .

lemma demo_matched_trip:
  "\<exists>t. jm_get (trips demo_matched) ''trip_u1'' = Some t \<and> t_driverId t = Some ''d1'' \<and> t_status t = Matched"
proof -
  have "map_option (\<lambda>t. (t_driverId t, t_status t)) (jm_get (trips demo_matched) ''trip_u1'')
      = Some (Some ''d1'', Matched)"
    by code_simp
  then show ?thesis by auto
qed

theorem no_double_booking_witness:
  "\<exists>h. tsm_run h demo_matched \<and> \<not> (\<exists>k t. k \<noteq> ''trip_u1'' \<and>
     jm_get (trips demo_matched) k = Some t \<and> active t \<and> t_driverId t = Some ''d1'')"
proof -
  obtain h t where h: "tsm_run h demo_matched" and t: "jm_get (trips demo_matched) ''trip_u1'' = Some t"
      "t_driverId t = Some ''d1''" "t_status t = Matched"
    using demo_runs(3) demo_matched_trip by blast
  from t(3) have "active t" by (simp add: active_def terminal_def)
  with no_double_booking [OF h _ t(1)] h t(2) show ?thesis by fastforce
qed

lemma stored_trip:
  assumes inv: "tsm_inv s" and t: "getTrip s k = Some t"
  shows "t_id t = k \<and> k \<noteq> [] \<and> getTripByRequestId s (t_requestId t) = Some t \<and> driver_ok t"
  using tsm_invD [OF inv t [unfolded getTrip_def]] t by (simp add: getTripByRequestId_def lookup_via_def getTrip_def Let_def)

lemma stored_at:
  assumes "tsm_inv s"
  shows "(\<exists>k. k \<noteq> [] \<and> getTrip s k = Some t \<and> P) \<longleftrightarrow> getTrip s (t_id t) = Some t \<and> P"
  using stored_trip [OF assms] by auto

lemma via_Some: "lookup_via m s q = Some t \<longleftrightarrow> (\<exists>k. k \<noteq> [] \<and> jm_get m q = Some k \<and> getTrip s k = Some t)"
  by (cases "jm_get m q") (auto simp: lookup_via_def getTrip_def Let_def)

lemma request_lookup:
  assumes inv: "tsm_inv s" and t: "getTripByRequestId s q = Some t"
  shows "t_requestId t = q \<and> getTrip s (t_id t) = Some t"
proof -
  obtain k where k: "jm_get (requestToTrip s) q = Some k" "getTrip s k = Some t"
    using t by (auto simp: getTripByRequestId_def via_Some)
  then show ?thesis using tsm_inv_requestD [OF inv k(1)] by (auto simp: getTrip_def)
qed

lemma rider_lookup:
  assumes inv: "tsm_inv s"
  shows "getActiveTripForRider s r = Some t \<longleftrightarrow> getTrip s (t_id t) = Some t \<and> t_riderId t = r \<and> active t"
proof -
  have idx: "jm_get (activeRiderTrips s) r = Some k \<longleftrightarrow> (\<exists>t. getTrip s k = Some t \<and> t_riderId t = r \<and> active t)" for k
    using inv unfolding tsm_inv_def rider_index_def getTrip_def by blast
  show ?thesis
    unfolding getActiveTripForRider_def via_Some idx stored_at [OF inv, symmetric] by auto
qed

lemma driver_lookup:
  assumes inv: "tsm_inv s"
  shows "getActiveTripForDriver s d = Some t \<longleftrightarrow> getTrip s (t_id t) = Some t \<and> t_driverId t = Some d \<and> active t"
proof -
  have idx: "jm_get (activeDriverTrips s) d = Some k \<longleftrightarrow> (\<exists>t. getTrip s k = Some t \<and> t_driverId t = Some d \<and> active t)" for k
    using inv unfolding tsm_inv_def driver_index_def getTrip_def by blast
  show ?thesis
    unfolding getActiveTripForDriver_def via_Some idx stored_at [OF inv, symmetric] by auto
qed

lemma active_list:
  assumes inv: "tsm_inv s"
  shows "set (getActiveTrips s) = {t. getTrip s (t_id t) = Some t \<and> active t}"
proof -
  have "jm_ok (activeRiderTrips s)" using inv by (simp add: tsm_inv_def trips_ok_def)
  then have vals: "k \<in> set (jm_values (activeRiderTrips s)) \<longleftrightarrow> (\<exists>r. jm_get (activeRiderTrips s) r = Some k)" for k
    by (auto simp: image_iff Bex_def jm_in_set_iff [symmetric])
  have idx: "jm_get (activeRiderTrips s) r = Some k \<longleftrightarrow> (\<exists>t. getTrip s k = Some t \<and> t_riderId t = r \<and> active t)" for r k
    using inv unfolding tsm_inv_def rider_index_def getTrip_def by blast
  have mem: "t \<in> set (List.map_filter f xs) \<longleftrightarrow> (\<exists>k\<in>set xs. f k = Some t)" for f :: "string \<Rightarrow> Trip option" and xs t
    by (induction xs) (auto simp: List.map_filter_simps split: option.split)
  have "t \<in> set (getActiveTrips s) \<longleftrightarrow> (\<exists>k. (\<exists>r. jm_get (activeRiderTrips s) r = Some k) \<and> getTrip s k = Some t)" for t
    by (simp only: getActiveTrips_def mem Bex_def vals getTrip_def)
  then have "t \<in> set (getActiveTrips s) \<longleftrightarrow> (\<exists>k. k \<noteq> [] \<and> getTrip s k = Some t \<and> active t)" for t
    unfolding idx using stored_trip [OF inv, of _ t] by fastforce
  then show ?thesis unfolding stored_at [OF inv] by blast
qed

text \<open>
  C18. The trips are well typed and every lookup finds what it should, in every run.  A trip is stored
  under its identifier and found by its request; it has no driver before the match and one from the
  match on; it is the active trip of its rider exactly as long as it is active, and of its driver
  exactly as long as it is active and has that driver; the lookups find nothing else, and the list of
  active trips holds the active trips, all of them and nothing else.
\<close>

theorem trips_well_typed:
  assumes "tsm_run h s"
  shows "(\<forall>k t. getTrip s k = Some t \<longrightarrow> t_id t = k \<and> k \<noteq> [] \<and> getTripByRequestId s (t_requestId t) = Some t \<and>
      (if t_status t \<in> {Requested, Matching} then t_driverId t = None
       else t_status t = Cancelled \<or> (\<exists>d. t_driverId t = Some d \<and> js_trim d \<noteq> []))) \<and>
    (\<forall>q t. getTripByRequestId s q = Some t \<longrightarrow> t_requestId t = q \<and> getTrip s (t_id t) = Some t) \<and>
    (\<forall>r t. getActiveTripForRider s r = Some t \<longleftrightarrow> getTrip s (t_id t) = Some t \<and> t_riderId t = r \<and> active t) \<and>
    (\<forall>d t. getActiveTripForDriver s d = Some t \<longleftrightarrow> getTrip s (t_id t) = Some t \<and> t_driverId t = Some d \<and> active t) \<and>
    set (getActiveTrips s) = {t. getTrip s (t_id t) = Some t \<and> active t}"
proof -
  note inv = tsm_run_tsm_inv [OF assms]
  have stored: "t_id t = k \<and> k \<noteq> [] \<and> getTripByRequestId s (t_requestId t) = Some t \<and>
      (if t_status t \<in> {Requested, Matching} then t_driverId t = None
       else t_status t = Cancelled \<or> (\<exists>d. t_driverId t = Some d \<and> js_trim d \<noteq> []))" if "getTrip s k = Some t" for k t
    using stored_trip [OF inv that] by (cases "t_status t") (simp_all add: driver_ok_def)
  have request: "t_requestId t = q \<and> getTrip s (t_id t) = Some t" if "getTripByRequestId s q = Some t" for q t
    by (rule request_lookup [OF inv that])
  note rider = rider_lookup [OF inv] and driver = driver_lookup [OF inv] and all = active_list [OF inv]
  show ?thesis using stored request rider driver all by simp
qed

theorem trips_well_typed_witness:
  "\<exists>t. getActiveTripForDriver demo_matched ''d1'' = Some t \<and> getActiveTripForRider demo_matched (t_riderId t) = Some t \<and>
     t \<in> set (getActiveTrips demo_matched) \<and> getActiveTripForDriver demo_matched ''d2'' \<noteq> Some t"
proof -
  obtain h t where h: "tsm_run h demo_matched" and t: "getTrip demo_matched ''trip_u1'' = Some t"
      "t_driverId t = Some ''d1''" "t_status t = Matched"
    using demo_runs(3) demo_matched_trip unfolding getTrip_def by blast
  from t(3) have "active t" by (simp add: active_def terminal_def)
  with trips_well_typed [OF h] t have "getActiveTripForDriver demo_matched ''d1'' = Some t \<and>
      getActiveTripForRider demo_matched (t_riderId t) = Some t \<and> t \<in> set (getActiveTrips demo_matched) \<and>
      getActiveTripForDriver demo_matched ''d2'' \<noteq> Some t" by auto
  then show ?thesis by blast
qed

text \<open>
  C13. Once the passenger is on board nobody can cancel the trip or move it anywhere but to
  completion, and only the driver can complete it: every other call on that trip is an error
  that leaves the machine unchanged (asking for the current status is a no-op that succeeds).
\<close>

theorem onboard_guard:
  assumes "jm_get (trips s) tid = Some t" and "t_status t = In_progress"
    and "transition s now tid target by reason payload = (r, s')"
  shows "case r of
      Inl e \<Rightarrow> s' = s \<and> target \<noteq> In_progress \<and> \<not> (target = Completed \<and> by = Driver)
    | Inr (t', None) \<Rightarrow> s' = s \<and> target = In_progress
    | Inr (t', Some ev) \<Rightarrow> target = Completed \<and> by = Driver \<and> t_status t' = Completed \<and>
        jm_get (trips s') tid = Some t'"
  using assms(3)
proof (cases rule: transition_cases)
  case (error e)
  have "\<not> (target = Completed \<and> by = Driver)"
  proof
    assume "target = Completed \<and> by = Driver"
    with assms error show False
      by (simp add: transition_def Let_def clearActiveIndices_def)
  qed
  moreover have "target \<noteq> In_progress"
    using assms error by (auto simp: transition_def Let_def)
  ultimately show ?thesis
    using error by simp
next
  case (noop u)
  with assms show ?thesis by simp
next
  case (step u t1 s1 ev)
  with assms show ?thesis by (auto simp: role_guard_def)
qed

theorem onboard_guard_witness:
  "fst (cancelTrip demo_onboard 5 ''trip_u1'' Rider None) = Inl (InvalidTransition In_progress Cancelled) \<and>
   snd (cancelTrip demo_onboard 5 ''trip_u1'' Rider None) = demo_onboard"
proof -
  obtain t where t: "jm_get (trips demo_onboard) ''trip_u1'' = Some t" "t_status t = In_progress"
  proof -
    have "map_option t_status (jm_get (trips demo_onboard) ''trip_u1'') = Some In_progress"
      by code_simp
    then show thesis using that by auto
  qed
  have r: "fst (cancelTrip demo_onboard 5 ''trip_u1'' Rider None) = Inl (InvalidTransition In_progress Cancelled)"
    by code_simp
  obtain r s' where tr: "transition demo_onboard 5 ''trip_u1'' Cancelled Rider None JUndefined = (r, s')"
    by (cases "transition demo_onboard 5 ''trip_u1'' Cancelled Rider None JUndefined")
  from onboard_guard [OF t tr] r tr show ?thesis
    by (simp add: cancelTrip_def)
qed

lemma milestone_other_succeeds:
  "target \<noteq> Matched \<Longrightarrow> \<exists>t1 s1. milestone s now t target by reason payload = Inr (t1, s1)"
  by (cases target) (auto simp: Let_def split: option.splits)

lemma driver_free_iff:
  assumes inv: "tsm_inv s" and k: "jm_get (trips s) tid = Some t" and none: "t_driverId t = None"
  shows "(truthy (jm_get (activeDriverTrips s) d) \<and> jm_get (activeDriverTrips s) d \<noteq> Some tid)
    \<longleftrightarrow> (\<exists>k' t'. jm_get (trips s) k' = Some t' \<and> t_driverId t' = Some d \<and> active t')"
proof (cases "jm_get (activeDriverTrips s) d")
  case None
  then show ?thesis using driver_indexD [OF inv, of d] by auto
next
  case (Some k')
  then obtain t' where t': "jm_get (trips s) k' = Some t'" "t_driverId t' = Some d" "active t'"
    using driver_indexD [OF inv, of d k'] by auto
  with k none have "k' \<noteq> tid" by auto
  with Some t' tsm_invD(2) [OF inv t'(1)] show ?thesis by auto
qed

lemma milestone_Matched_succeeds_iff:
  assumes inv: "tsm_inv s" and k: "jm_get (trips s) tid = Some t" and none: "t_driverId t = None"
  shows "(\<exists>t1 s1. milestone s now t Matched by reason payload = Inr (t1, s1)) \<longleftrightarrow>
    (\<exists>d. js_field payload ''driverId'' = JStr d \<and> js_trim d \<noteq> [] \<and>
      \<not> (\<exists>k' t'. jm_get (trips s) k' = Some t' \<and> t_driverId t' = Some d \<and> active t'))"
  unfolding driver_free_iff [OF inv k none, symmetric]
  using tsm_invD(1) [OF inv k] by (cases "js_field payload ''driverId''") (auto simp: Let_def)

lemma transition_fires_iff:
  assumes k: "jm_get (trips s) tid = Some t" and ne: "t_status t \<noteq> target"
  shows "(\<exists>t' ev. fst (transition s now tid target by reason payload) = Inr (t', Some ev)) \<longleftrightarrow>
    target \<in> set (ALLOWED_TRANSITIONS (t_status t)) \<and> role_guard (t_status t) target by \<and>
    (\<exists>t1 s1. milestone s now t target by reason payload = Inr (t1, s1))"
  using k ne
  by (cases "milestone s now t target by reason payload")
    (auto simp: transition_def Let_def role_guard_def simp del: milestone.simps)

lemma allowed_Matched_unassigned:
  "driver_ok t \<Longrightarrow> Matched \<in> set (ALLOWED_TRANSITIONS (t_status t)) \<Longrightarrow> t_driverId t = None"
  by (cases "t_status t") (auto simp: driver_ok_def)

text \<open>
  A transition to another status takes effect exactly when the matrix allows it, the actor
  has the role it needs, and, for an assignment, the payload names a driver (not blank) who is
  on no other active trip.
\<close>

theorem transition_succeeds_iff:
  assumes run: "tsm_run h s" and k: "jm_get (trips s) tid = Some t" and ne: "t_status t \<noteq> target"
  shows "(\<exists>t' ev. fst (transition s now tid target by reason payload) = Inr (t', Some ev)) \<longleftrightarrow>
    target \<in> set (ALLOWED_TRANSITIONS (t_status t)) \<and> role_guard (t_status t) target by \<and>
    (if target = Matched
     then \<exists>d. js_field payload ''driverId'' = JStr d \<and> js_trim d \<noteq> [] \<and>
       \<not> (\<exists>k' t'. jm_get (trips s) k' = Some t' \<and> t_driverId t' = Some d \<and> active t')
     else True)"
proof -
  note inv = tsm_run_tsm_inv [OF run]
  show ?thesis
  proof (cases "target = Matched")
    case True
    show ?thesis
      unfolding transition_fires_iff [OF k ne] unfolding True
      using allowed_Matched_unassigned [OF tsm_invD(3) [OF inv k]]
      by (simp del: milestone.simps add: milestone_Matched_succeeds_iff [OF inv k] cong: conj_cong)
  next
    case False
    then show ?thesis
      unfolding transition_fires_iff [OF k ne] using milestone_other_succeeds by auto
  qed
qed

theorem transition_succeeds_iff_witness:
  "\<exists>t' ev. fst (transition demo_matching 2 ''trip_u1'' Matched System None
     (JObj [(''driverId'', JStr ''d1'')])) = Inr (t', Some ev)"
proof -
  obtain h where run: "tsm_run h demo_matching" using demo_runs(2) by blast
  obtain t where t: "jm_get (trips demo_matching) ''trip_u1'' = Some t" "t_status t = Matching"
  proof -
    have "map_option t_status (jm_get (trips demo_matching) ''trip_u1'') = Some Matching"
      by code_simp
    then show thesis using that by auto
  qed
  have none: "jm_get (activeDriverTrips demo_matching) ''d1'' = None" by code_simp
  have "\<not> (\<exists>k' t'. jm_get (trips demo_matching) k' = Some t' \<and> t_driverId t' = Some ''d1'' \<and> active t')"
    using driver_indexD [OF tsm_run_tsm_inv [OF run], of "''d1''"] none by auto
  moreover have "js_trim ''d1'' \<noteq> []" by code_simp
  ultimately show ?thesis
    using transition_succeeds_iff [OF run t(1), of Matched 2 System None "JObj [(''driverId'', JStr ''d1'')]"] t(2)
    by (simp add: role_guard_def)
qed

lemma recorded_log_is_walk:
  assumes "tsm_run h s" and "jm_get (trips s) k = Some t"
  obtains c es where "trip_log k h = c # es" "e_fromStatus c = Requested" "e_toStatus c = Requested"
    "walk Requested es = Some (t_status t)"
proof -
  have "log_ok (trip_log k h) (Some t)"
    using tsm_run_inv [OF assms(1)] assms(2) by (metis run_inv_def)
  then show thesis
    using that by (auto simp: log_ok_def split: list.splits option.splits)
qed

lemma audit_buffer_split:
  assumes "tsm_run h s"
  obtains old where "h = old @ getAuditEvents s" "length (getAuditEvents s) < 2000 \<Longrightarrow> old = []"
    "length (getAuditEvents s) \<le> 2000"
proof (rule that [of "take (length h - 2000) h"])
  have a: "getAuditEvents s = last_n 2000 h"
    using tsm_run_inv [OF assms] by (simp add: getAuditEvents_def run_inv_def maxAuditBufferSize_def)
  then show "h = take (length h - 2000) h @ getAuditEvents s"
    by (simp add: last_n_def)
  from a show "length (getAuditEvents s) < 2000 \<Longrightarrow> take (length h - 2000) h = []"
    and "length (getAuditEvents s) \<le> 2000"
    by auto
qed

lemma walk_resumes:
  "walk st (xs @ ys) = Some st' \<Longrightarrow> \<exists>mid. walk mid ys = Some st'"
  by (auto simp: walk_append bind_eq_Some_conv)

text \<open>
  C16. The audit buffer tells the truth: what \<open>getAuditEvents\<close> shows of a stored trip is the end of
  a log that starts with the trip's creation and walks through the transition matrix, every step
  made by an actor with the right role, to the status the trip has now; as long as the buffer has
  not filled up (it never holds more than 2000 events), it shows the whole of this log, the creation
  included; and what it shows after the creation is itself such a walk, from some status on.
\<close>

theorem audit_log_is_walk:
  assumes "tsm_run h s" and "jm_get (trips s) k = Some t"
  shows "\<exists>c es older mid. e_tripId c = k \<and> e_fromStatus c = Requested \<and> e_toStatus c = Requested \<and>
    walk Requested es = Some (t_status t) \<and> c # es = older @ trip_log k (getAuditEvents s) \<and>
    (if length (getAuditEvents s) < 2000 then older = [] else length (getAuditEvents s) = 2000) \<and>
    (if older = [] then trip_log k (getAuditEvents s) = c # es
     else walk mid (trip_log k (getAuditEvents s)) = Some (t_status t))"
proof -
  obtain c es where c: "trip_log k h = c # es" "e_fromStatus c = Requested" "e_toStatus c = Requested"
    and es: "walk Requested es = Some (t_status t)"
    by (rule recorded_log_is_walk [OF assms])
  obtain old where old: "h = old @ getAuditEvents s" "length (getAuditEvents s) < 2000 \<Longrightarrow> old = []"
      "length (getAuditEvents s) \<le> 2000"
    by (rule audit_buffer_split [OF assms(1)]) blast
  let ?shown = "trip_log k (getAuditEvents s)" and ?older = "trip_log k old"
  have eq: "c # es = ?older @ ?shown"
    using old(1) c(1) by (metis trip_log_append)
  have "c \<in> set (trip_log k h)" using c(1) by simp
  then have id: "e_tripId c = k" by (simp add: trip_log_def)
  have whole: "if length (getAuditEvents s) < 2000 then ?older = [] else length (getAuditEvents s) = 2000"
    using old(2,3) by (simp add: trip_log_def)
  have "\<exists>mid. if ?older = [] then ?shown = c # es else walk mid ?shown = Some (t_status t)"
  proof (cases ?older)
    case (Cons c' passed)
    with eq es walk_resumes [of Requested passed ?shown] show ?thesis by simp
  qed (use eq in simp)
  with c(2,3) id es eq whole show ?thesis by blast
qed

theorem audit_log_is_walk_witness:
  "map (\<lambda>e. (e_fromStatus e, e_toStatus e)) (trip_log ''trip_u1'' (getAuditEvents demo_matched)) =
     [(Requested, Requested), (Requested, Matching), (Matching, Matched)] \<and>
   (\<exists>c es. trip_log ''trip_u1'' (getAuditEvents demo_matched) = c # es \<and> walk Requested es = Some Matched)"
proof -
  obtain h t where h: "tsm_run h demo_matched" and t: "jm_get (trips demo_matched) ''trip_u1'' = Some t"
      "t_status t = Matched"
    using demo_runs(3) demo_matched_trip by blast
  have "map (\<lambda>e. (e_fromStatus e, e_toStatus e)) (trip_log ''trip_u1'' (getAuditEvents demo_matched)) =
      [(Requested, Requested), (Requested, Matching), (Matching, Matched)]"
    by code_simp
  moreover have "length (getAuditEvents demo_matched) = 3" by code_simp
  with audit_log_is_walk [OF h t(1)] t(2)
  have "\<exists>c es. trip_log ''trip_u1'' (getAuditEvents demo_matched) = c # es \<and> walk Requested es = Some Matched"
    by auto
  ultimately show ?thesis by blast
qed

text \<open>
  The bounded audit buffer always holds the most recent 2000 events ever recorded, in
  order, so \<open>getRecentAuditEvents\<close> returns the true recent history for every count up
  to 2000 (a count of 0 returns the whole buffer, since \<open>slice(-0)\<close> does).
\<close>

theorem audit_buffer_recent:
  assumes "tsm_run h s"
  shows "getAuditEvents s = last_n 2000 h \<and> getRecentAuditEvents s n =
      (if n = 0 then last_n 2000 h else if n \<le> 2000 then last_n n h else last_n 2000 h)"
proof -
  have a: "getAuditEvents s = last_n 2000 h"
    using tsm_run_inv [OF assms] by (simp add: getAuditEvents_def run_inv_def maxAuditBufferSize_def)
  have "last_n n (last_n 2000 h) = last_n (min n 2000) h"
    by (rule last_n_last_n)
  then show ?thesis
    using a by (auto simp: getRecentAuditEvents_def getAuditEvents_def min_def)
qed

theorem audit_buffer_recent_witness:
  "\<exists>h. tsm_run h demo_matched \<and> getRecentAuditEvents demo_matched 1 = last_n 1 h"
proof -
  obtain h where h: "tsm_run h demo_matched" using demo_runs(3) by blast
  with audit_buffer_recent [OF h, of 1] show ?thesis by auto
qed

text \<open>
  Creation is idempotent: after a successful request, sending the same request identifier
  again returns the same trip and changes nothing, whatever coordinates the retry carries;
  the identifier is refused to any other rider.
\<close>

theorem create_idempotent:
  assumes run: "tsm_run h s" and new: "''trip_'' @ uuid \<notin> e_tripId ` set h"
    and c: "createTrip s now uuid reqId riderId pickup dropoff = (Inr t, s1)"
  shows "createTrip s1 now2 uuid2 reqId riderId pickup2 dropoff2 = (Inr t, s1) \<and>
    (if riderId2 = riderId then True
     else createTrip s1 now2 uuid2 reqId riderId2 pickup2 dropoff2 = (Inl RequestIdOfAnotherRider, s1))"
proof -
  note R = tsm_run_inv [OF run]
  have inv: "tsm_inv s" using R by (simp add: run_inv_def)
  have "jm_get (requestToTrip s1) reqId = Some (t_id t) \<and> jm_get (trips s1) (t_id t) = Some t \<and>
      t_riderId t = riderId \<and> t_id t \<noteq> []"
    using inv c
  proof (cases rule: createTrip_cases)
    case (replay u)
    with tsm_invD(2) [OF inv, of "t_id t" t] show ?thesis by simp
  qed (simp_all add: newTrip_def)
  then show ?thesis
    by (simp add: createTrip_def Let_def)
qed

theorem create_idempotent_witness:
  "\<exists>t. createTrip demo_created 9 ''u2'' ''r1'' ''ann'' JNull JNull = (Inr t, demo_created) \<and>
     createTrip demo_created 9 ''u2'' ''r1'' ''bob'' JNull JNull = (Inl RequestIdOfAnotherRider, demo_created)"
proof -
  obtain t where t: "createTrip tsm_new 0 ''u1'' ''r1'' ''ann'' demo_point demo_point = (Inr t, demo_created)"
  proof -
    have "isl (fst (createTrip tsm_new 0 ''u1'' ''r1'' ''ann'' demo_point demo_point)) = False"
      by code_simp
    then obtain t where "fst (createTrip tsm_new 0 ''u1'' ''r1'' ''ann'' demo_point demo_point) = Inr t"
      by (metis sum.collapse(2))
    then show thesis
      using that [of t] by (simp add: demo_created_def prod_eq_iff)
  qed
  from create_idempotent [OF tsm_run.start _ t, of 9 "''u2''" JNull JNull "''bob''"] show ?thesis
    by auto
qed

text \<open>
  The store of trips is bounded: creating a trip never pushes it past 10000 entries (or past
  the size it already has) unless every stored trip is still active, and it never evicts an
  active trip.
\<close>

theorem store_bounded:
  assumes run: "tsm_run h s" and new: "''trip_'' @ uuid \<notin> e_tripId ` set h"
    and c: "createTrip s now uuid reqId riderId pickup dropoff = (r, s')"
  shows "(length (trips s') \<le> max 10000 (length (trips s)) \<or>
      (\<nexists>k t. jm_get (trips s) k = Some t \<and> \<not> active t)) \<and>
    (\<nexists>k t. jm_get (trips s) k = Some t \<and> active t \<and> jm_get (trips s') k \<noteq> Some t)"
proof -
  note R = tsm_run_inv [OF run]
  have inv: "tsm_inv s" using R by (simp add: run_inv_def)
  note none = run_inv_fresh(1) [OF R new]
  from inv c show ?thesis
  proof (cases rule: createTrip_cases)
    case (fresh pk dr trip s1)
    have k: "t_id trip = ''trip_'' @ uuid" using fresh(6) by (simp add: newTrip_def)
    have len: "length (trips s') = Suc (length (trips s1))"
      using fresh(8) k none evict_get(1) [OF inv, of "t_id trip"] fresh(7)
      by (auto simp: jm_length_set jm_has_def)
    have "length (trips s') \<le> max 10000 (length (trips s)) \<or>
        (\<nexists>k t. jm_get (trips s) k = Some t \<and> \<not> active t)"
      using inv
    proof (cases rule: evict_cases)
      case keep
      with len fresh(7) show ?thesis by (auto simp: maxTrips_def)
    next
      case (evict k' t)
      with jm_length_delete_less [of "trips s" k'] len fresh(7) show ?thesis
        by (auto simp: jm_has_def)
    qed
    moreover have "jm_get (trips s') k' = Some t" if "jm_get (trips s) k' = Some t" "active t" for k' t
      using evict_get(2) [OF inv that] fresh(7,8) k none that(1) by auto
    ultimately show ?thesis by blast
  qed auto
qed

theorem store_bounded_witness:
  "\<exists>t. jm_get (trips demo_created) ''trip_u1'' = Some t \<and> active t \<and>
     jm_get (trips (snd (createTrip demo_created 1 ''u2'' ''r2'' ''bob'' demo_point demo_point))) ''trip_u1'' = Some t"
proof -
  obtain r where r: "createTrip tsm_new 0 ''u1'' ''r1'' ''ann'' demo_point demo_point = (r, demo_created)"
    unfolding demo_created_def by (metis prod.collapse)
  let ?h = "recorded_by_create tsm_new ''r1'' r"
  have run: "tsm_run ?h demo_created"
    using tsm_run.create [OF tsm_run.start _ r] by simp
  have "map e_tripId (recorded_by_create tsm_new ''r1''
      (fst (createTrip tsm_new 0 ''u1'' ''r1'' ''ann'' demo_point demo_point))) = [''trip_u1'']"
    by code_simp
  then have "e_tripId ` set ?h = {''trip_u1''}"
    using r by (metis fst_conv list.set_map list.simps(15) empty_set)
  then have new: "''trip_'' @ ''u2'' \<notin> e_tripId ` set ?h" by simp
  have "map_option (\<lambda>t. terminal (t_status t)) (jm_get (trips demo_created) ''trip_u1'') = Some False"
    by code_simp
  then obtain t where t: "jm_get (trips demo_created) ''trip_u1'' = Some t" "active t"
    by (auto simp: active_def)
  obtain q s' where c: "createTrip demo_created 1 ''u2'' ''r2'' ''bob'' demo_point demo_point = (q, s')"
    by (cases "createTrip demo_created 1 ''u2'' ''r2'' ''bob'' demo_point demo_point")
  from store_bounded [OF run new c] c t show ?thesis by fastforce
qed

end
