(* ===== verification/Geo.thy ===== *)
theory Geo
  imports Validation
begin

text \<open>
  The geometry of \<open>src/spatial/quadtree.ts\<close> over the real numbers: the haversine
  distance and the distance from a point to a box that the search uses as its bound.  The
  distance is a monotone function of the haversine term, which gives the soundness of the bound
  for boxes whose longitudes contain the query's and for boxes on the equator's side of the
  query; for other boxes the value is not a lower bound, and two concrete boxes show it.
\<close>

definition EARTH_RADIUS_METERS :: real where
  "EARTH_RADIUS_METERS = 6371000"

definition toRad :: "real \<Rightarrow> real" where
  "toRad deg = deg * pi / 180"

text \<open>\<open>Math.atan2\<close>, the case of negative zeros aside.\<close>

definition js_atan2 :: "real \<Rightarrow> real \<Rightarrow> real" where
  "js_atan2 y x =
    (if x > 0 then arctan (y / x)
     else if x = 0 then (if y > 0 then pi / 2 else if y < 0 then - pi / 2 else 0)
     else if y \<ge> 0 then arctan (y / x) + pi else arctan (y / x) - pi)"

definition hav_term :: "real \<Rightarrow> real \<Rightarrow> real \<Rightarrow> real \<Rightarrow> real" where
  "hav_term lat1 lng1 lat2 lng2 =
    (let dLat = toRad (lat2 - lat1); dLng = toRad (lng2 - lng1) in
     sin (dLat / 2) * sin (dLat / 2) +
     cos (toRad lat1) * cos (toRad lat2) * sin (dLng / 2) * sin (dLng / 2))"

definition haversineDistance :: "real \<Rightarrow> real \<Rightarrow> real \<Rightarrow> real \<Rightarrow> real" where
  "haversineDistance lat1 lng1 lat2 lng2 =
    (let a = hav_term lat1 lng1 lat2 lng2;
         c = 2 * js_atan2 (sqrt a) (sqrt (1 - a))
     in EARTH_RADIUS_METERS * c)"

definition minDistanceToBox :: "real \<Rightarrow> real \<Rightarrow> GeoBounds \<Rightarrow> real" where
  "minDistanceToBox la lo bounds =
    (let closestLat = max (minLat bounds) (min la (maxLat bounds));
         closestLng = max (minLng bounds) (min lo (maxLng bounds))
     in haversineDistance la lo closestLat closestLng)"

definition in_box :: "GeoBounds \<Rightarrow> real \<Rightarrow> real \<Rightarrow> bool" where
  "in_box b la lo = (minLat b \<le> la \<and> la \<le> maxLat b \<and> minLng b \<le> lo \<and> lo \<le> maxLng b)"

section \<open>The haversine term\<close>

text \<open>The cosine of the central angle of two points, their inner product on the unit sphere.\<close>

definition central_cos :: "real \<Rightarrow> real \<Rightarrow> real \<Rightarrow> real \<Rightarrow> real" where
  "central_cos lat1 lng1 lat2 lng2 =
    sin (toRad lat1) * sin (toRad lat2) +
    cos (toRad lat1) * cos (toRad lat2) * cos (toRad (lng2 - lng1))"

lemma sin_half_sq: "sin (x / 2) * sin (x / 2) = (1 - cos x) / 2" for x :: real
  using cos_double_sin [of "x / 2"] by (simp add: power2_eq_square)

lemma toRad_diff: "toRad (a - b) = toRad a - toRad b"
  by (simp add: toRad_def left_diff_distrib diff_divide_distrib)

lemma hav_term_eq: "hav_term p q r s = (1 - central_cos p q r s) / 2"
proof -
  have "hav_term p q r s = (1 - cos (toRad r - toRad p)) / 2 +
      cos (toRad p) * cos (toRad r) * ((1 - cos (toRad (s - q))) / 2)"
    unfolding hav_term_def Let_def toRad_diff mult.assoc sin_half_sq ..
  then show ?thesis
    by (simp add: central_cos_def cos_diff field_simps)
qed

lemma central_cos_bounds: "\<bar>central_cos p q r s\<bar> \<le> 1"
proof -
  define a b c d e where "a = sin (toRad p)" and "b = cos (toRad p)" and "c = sin (toRad r)"
    and "d = cos (toRad r)" and "e = cos (toRad (s - q))"
  have ab: "a\<^sup>2 + b\<^sup>2 = 1" and cd: "c\<^sup>2 + d\<^sup>2 = 1"
    by (simp_all add: a_def b_def c_def d_def)
  have "\<bar>a * c\<bar> \<le> (a\<^sup>2 + c\<^sup>2) / 2"
    using sum_squares_bound [of "\<bar>a\<bar>" "\<bar>c\<bar>"] by (simp add: abs_mult field_simps)
  moreover have "\<bar>b * d\<bar> \<le> (b\<^sup>2 + d\<^sup>2) / 2"
    using sum_squares_bound [of "\<bar>b\<bar>" "\<bar>d\<bar>"] by (simp add: abs_mult field_simps)
  moreover have "\<bar>b * d * e\<bar> \<le> \<bar>b * d\<bar>"
    using abs_cos_le_one [of "toRad (s - q)"] by (simp add: abs_mult e_def mult_left_le)
  ultimately have "\<bar>a * c\<bar> + \<bar>b * d * e\<bar> \<le> 1"
    using ab cd unfolding add_divide_distrib by linarith
  then show ?thesis
    using abs_triangle_ineq [of "a * c" "b * d * e"]
    by (simp add: central_cos_def a_def b_def c_def d_def e_def)
qed

lemma hav_term_range: "0 \<le> hav_term p q r s" "hav_term p q r s \<le> 1"
  using central_cos_bounds [of p q r s] by (simp_all add: hav_term_eq)

lemma atan2_arcsin:
  assumes "0 \<le> a" "a \<le> 1"
  shows "js_atan2 (sqrt a) (sqrt (1 - a)) = arcsin (sqrt a)"
proof (cases "a = 1")
  case False
  define t where "t = arcsin (sqrt a)"
  have r: "0 \<le> sqrt a" "sqrt a < 1" using assms False by simp_all
  have m: "-1 < sqrt a" using r(1) by linarith
  have st: "sin t = sqrt a" and ct: "cos t = sqrt (1 - a)"
    using r m assms by (simp_all add: t_def cos_arcsin)
  have "- (pi / 2) < t" "t < pi / 2"
    using r m arcsin_lt_bounded [of "sqrt a"] by (simp_all add: t_def)
  then have "arctan (tan t) = t" by (rule arctan_tan)
  then show ?thesis
    using st ct assms False by (simp add: js_atan2_def tan_def t_def)
qed (simp add: js_atan2_def)

lemma haversine_arcsin:
  "haversineDistance p q r s = 2 * EARTH_RADIUS_METERS * arcsin (sqrt (hav_term p q r s))"
  by (simp add: haversineDistance_def Let_def atan2_arcsin hav_term_range)

text \<open>The distance is a monotone function of the term, so comparing cosines compares distances.\<close>

lemma hav_sqrt_range: "0 \<le> sqrt (hav_term p q r s)" "- 1 \<le> sqrt (hav_term p q r s)"
    "sqrt (hav_term p q r s) \<le> 1"
proof -
  show "0 \<le> sqrt (hav_term p q r s)" "sqrt (hav_term p q r s) \<le> 1"
    using hav_term_range [of p q r s] by simp_all
  then show "- 1 \<le> sqrt (hav_term p q r s)" by linarith
qed

lemma haversine_mono:
  assumes "central_cos p' q' r' s' \<le> central_cos p q r s"
  shows "haversineDistance p q r s \<le> haversineDistance p' q' r' s'"
proof -
  have "sqrt (hav_term p q r s) \<le> sqrt (hav_term p' q' r' s')"
    using assms by (simp add: hav_term_eq)
  then have "arcsin (sqrt (hav_term p q r s)) \<le> arcsin (sqrt (hav_term p' q' r' s'))"
    using hav_sqrt_range by (intro arcsin_le_arcsin)
  then show ?thesis by (simp add: haversine_arcsin EARTH_RADIUS_METERS_def)
qed

lemma haversine_strict_mono:
  assumes "central_cos p' q' r' s' < central_cos p q r s"
  shows "haversineDistance p q r s < haversineDistance p' q' r' s'"
proof -
  have "sqrt (hav_term p q r s) < sqrt (hav_term p' q' r' s')"
    using assms by (simp add: hav_term_eq)
  then have "arcsin (sqrt (hav_term p q r s)) < arcsin (sqrt (hav_term p' q' r' s'))"
    using hav_sqrt_range by (intro arcsin_less_arcsin)
  then show ?thesis by (simp add: haversine_arcsin EARTH_RADIUS_METERS_def)
qed

lemma haversine_nonneg [simp]: "0 \<le> haversineDistance p q r s"
proof -
  have "arcsin 0 \<le> arcsin (sqrt (hav_term p q r s))"
    using hav_sqrt_range [of p q r s] by (intro arcsin_le_arcsin) auto
  then show ?thesis by (simp add: haversine_arcsin EARTH_RADIUS_METERS_def)
qed

lemma haversine_le_half_circle: "haversineDistance p q r s \<le> pi * EARTH_RADIUS_METERS"
proof -
  have "arcsin (sqrt (hav_term p q r s)) \<le> pi / 2"
    using hav_sqrt_range [of p q r s] by (intro arcsin_ubound)
  then show ?thesis by (simp add: haversine_arcsin EARTH_RADIUS_METERS_def)
qed

lemma haversine_commute: "haversineDistance p q r s = haversineDistance r s p q"
proof -
  have "cos (toRad (s - q)) = cos (toRad (q - s))"
    by (metis cos_minus minus_diff_eq toRad_diff)
  then have "central_cos p q r s = central_cos r s p q"
    by (simp add: central_cos_def)
  then show ?thesis by (metis antisym haversine_mono order_refl)
qed

lemma haversine_same [simp]: "haversineDistance p q p q = 0"
  by (simp add: haversine_arcsin hav_term_def toRad_def)

lemma minDistanceToBox_nonneg [simp]: "0 \<le> minDistanceToBox la lo b"
  by (simp add: minDistanceToBox_def Let_def)

lemma minDistanceToBox_inside: "in_box b la lo \<Longrightarrow> minDistanceToBox la lo b = 0"
  by (simp add: minDistanceToBox_def Let_def in_box_def min_absorb1 max_absorb2)

section \<open>When the bound is sound\<close>

lemma toRad_mono: "a \<le> b \<Longrightarrow> toRad a \<le> toRad b"
  by (simp add: toRad_def)

lemma toRad_lat: "\<bar>a\<bar> \<le> 90 \<Longrightarrow> \<bar>toRad a\<bar> \<le> pi / 2"
  by (simp add: toRad_def abs_mult)

lemma cos_lat_nonneg: "\<bar>a\<bar> \<le> 90 \<Longrightarrow> 0 \<le> cos (toRad a)"
  using toRad_lat [of a] by (intro cos_ge_zero) auto

text \<open>Two points are at least as far apart as their latitudes.\<close>

lemma central_cos_latitude:
  assumes "\<bar>la\<bar> \<le> 90" and "\<bar>a\<bar> \<le> 90"
  shows "central_cos la lo a x \<le> cos (toRad la - toRad a)"
proof -
  have "cos (toRad la) * cos (toRad a) * cos (toRad (x - lo)) \<le> cos (toRad la) * cos (toRad a)"
    using cos_lat_nonneg assms by (intro mult_left_le) simp_all
  then show ?thesis
    by (simp add: central_cos_def cos_diff)
qed

lemma cos_abs_mono: "\<bar>x\<bar> \<le> \<bar>y\<bar> \<Longrightarrow> \<bar>y\<bar> \<le> pi \<Longrightarrow> cos y \<le> cos x" for x y :: real
  using cos_monotone_0_pi_le [of "\<bar>x\<bar>" "\<bar>y\<bar>"] by simp

definition lng_band :: "real \<Rightarrow> GeoBounds \<Rightarrow> bool" where
  "lng_band lo b = (minLng b \<le> lo \<and> lo \<le> maxLng b)"

lemma lat_box_on_earth: "bounds_ok b \<Longrightarrow> in_box b a x \<Longrightarrow> \<bar>a\<bar> \<le> 90"
  by (auto simp: bounds_ok_def in_box_def)

lemma min_dist_band:
  assumes b: "bounds_ok b" and q: "\<bar>la\<bar> \<le> 90" and band: "lng_band lo b" and p: "in_box b a x"
  shows "minDistanceToBox la lo b \<le> haversineDistance la lo a x"
proof -
  let ?c = "max (minLat b) (min la (maxLat b))"
  have a: "\<bar>a\<bar> \<le> 90" using lat_box_on_earth [OF b p] .
  have "\<bar>la - ?c\<bar> \<le> \<bar>la - a\<bar>" using p by (auto simp: in_box_def)
  then have "\<bar>toRad la - toRad ?c\<bar> \<le> \<bar>toRad la - toRad a\<bar>"
    by (simp add: toRad_diff [symmetric]) (simp add: toRad_def abs_mult)
  moreover have "\<bar>toRad la - toRad a\<bar> \<le> pi"
    using toRad_lat [OF q] toRad_lat [OF a] by linarith
  ultimately have "cos (toRad la - toRad a) \<le> cos (toRad la - toRad ?c)"
    by (rule cos_abs_mono)
  moreover have "central_cos la lo ?c lo = cos (toRad la - toRad ?c)"
    by (simp add: central_cos_def cos_diff toRad_def)
  moreover have "minDistanceToBox la lo b = haversineDistance la lo ?c lo"
    using band by (simp add: minDistanceToBox_def lng_band_def min_absorb1 max_absorb2)
  ultimately show ?thesis
    using central_cos_latitude [OF q a, of lo x] by (simp add: haversine_mono)
qed

text \<open>
  Towards the equator: a box whose latitudes lie between the opposite pole and the query's, on
  the same side of the sphere.  Moving a point of the box poleward, to the edge nearest to the
  query's latitude, never moves it away from the query.
\<close>

lemma poleward_closer:
  fixes \<phi> m f k :: real
  assumes "0 \<le> \<phi>" "\<phi> \<le> pi / 2" "m \<le> \<phi>" "f \<le> m" "- (pi / 2) \<le> f" "0 \<le> k" "k \<le> 1"
  shows "sin \<phi> * sin f + cos \<phi> * cos f * k \<le> sin \<phi> * sin m + cos \<phi> * cos m * k"
proof -
  have s: "0 \<le> sin \<phi>" "0 \<le> cos \<phi>"
    using assms by (auto intro: sin_ge_zero cos_ge_zero)
  show ?thesis
  proof (cases "cos f \<le> cos m")
    case True
    have "sin f \<le> sin m"
      using assms by (intro sin_monotone_2pi_le) auto
    with True s assms(6) show ?thesis
      by (intro add_mono mult_left_mono mult_right_mono) auto
  next
    case False
    then have "cos \<phi> * (cos f - cos m) * k \<le> cos \<phi> * (cos f - cos m)"
      using s assms(7) by (intro mult_left_le) auto
    moreover have "cos (\<phi> - f) \<le> cos (\<phi> - m)"
      using assms by (intro cos_monotone_0_pi_le) auto
    ultimately show ?thesis
      by (simp add: cos_diff algebra_simps)
  qed
qed

definition equatorward :: "real \<Rightarrow> real \<Rightarrow> GeoBounds \<Rightarrow> bool" where
  "equatorward la lo b =
    (((0 \<le> la \<and> maxLat b \<le> la) \<or> (la \<le> 0 \<and> la \<le> minLat b)) \<and>
     lo - 90 \<le> minLng b \<and> maxLng b \<le> lo + 90)"

lemma min_dist_north:
  assumes b: "bounds_ok b" and q: "la \<le> 90" and n: "0 \<le> la" "maxLat b \<le> la"
    and w: "lo - 90 \<le> minLng b" "maxLng b \<le> lo + 90" and p: "in_box b a x"
  shows "minDistanceToBox la lo b \<le> haversineDistance la lo a x"
proof -
  let ?c = "max (minLng b) (min lo (maxLng b))"
  let ?k = "cos (toRad (x - lo))" and ?kc = "cos (toRad (?c - lo))"
  have a: "\<bar>a\<bar> \<le> 90" "a \<le> maxLat b" "minLat b < maxLat b"
    using lat_box_on_earth [OF b p] p b by (auto simp: in_box_def bounds_ok_def)
  have "\<bar>?c - lo\<bar> \<le> \<bar>x - lo\<bar>" "\<bar>x - lo\<bar> \<le> 90"
    using p w by (auto simp: in_box_def)
  then have r: "\<bar>toRad (?c - lo)\<bar> \<le> \<bar>toRad (x - lo)\<bar>" "\<bar>toRad (x - lo)\<bar> \<le> pi / 2"
    using toRad_lat by (simp_all add: toRad_def abs_mult)
  have k: "0 \<le> ?k" "?k \<le> ?kc" "?kc \<le> 1"
    using r cos_ge_zero [of "toRad (x - lo)"] cos_abs_mono [OF r(1)] by auto
  have "central_cos la lo a x \<le> sin (toRad la) * sin (toRad (maxLat b)) + cos (toRad la) * cos (toRad (maxLat b)) * ?k"
    unfolding central_cos_def using n q a toRad_lat [of la] toRad_lat [of a] k
    by (intro poleward_closer) (auto intro: toRad_mono simp: toRad_def)
  also have "\<dots> \<le> central_cos la lo (maxLat b) ?c"
    unfolding central_cos_def using k cos_lat_nonneg [of la] cos_lat_nonneg [of "maxLat b"] q n a
    by (intro add_left_mono mult_left_mono mult_nonneg_nonneg) auto
  finally have "haversineDistance la lo (maxLat b) ?c \<le> haversineDistance la lo a x"
    by (rule haversine_mono)
  then show ?thesis
    using n a by (simp add: minDistanceToBox_def Let_def min_absorb2 max_absorb2)
qed

definition mirror :: "GeoBounds \<Rightarrow> GeoBounds" where
  "mirror b = b\<lparr>minLat := - maxLat b, maxLat := - minLat b\<rparr>"

lemma haversine_mirror: "haversineDistance (- p) q (- r) s = haversineDistance p q r s"
proof -
  have "central_cos (- p) q (- r) s = central_cos p q r s"
    by (simp add: central_cos_def toRad_def)
  then show ?thesis by (simp add: haversine_arcsin hav_term_eq)
qed

lemma min_dist_mirror:
  assumes "bounds_ok b"
  shows "minDistanceToBox (- la) lo (mirror b) = minDistanceToBox la lo b"
proof -
  have "max (- maxLat b) (min (- la) (- minLat b)) = - max (minLat b) (min la (maxLat b))"
    using assms by (auto simp: bounds_ok_def max_def min_def)
  then show ?thesis
    by (simp add: minDistanceToBox_def mirror_def haversine_mirror Let_def)
qed

lemma min_dist_equatorward:
  assumes b: "bounds_ok b" and q: "\<bar>la\<bar> \<le> 90" and e: "equatorward la lo b" and p: "in_box b a x"
  shows "minDistanceToBox la lo b \<le> haversineDistance la lo a x"
proof (cases "0 \<le> la \<and> maxLat b \<le> la")
  case True
  then show ?thesis using min_dist_north [OF b] q e p by (auto simp: equatorward_def)
next
  case False
  have "bounds_ok (mirror b)" "in_box (mirror b) (- a) x"
    using b p by (auto simp: bounds_ok_def mirror_def in_box_def)
  then have "minDistanceToBox (- la) lo (mirror b) \<le> haversineDistance (- la) lo (- a) x"
    using False e q by (intro min_dist_north) (auto simp: equatorward_def mirror_def)
  then show ?thesis by (simp add: min_dist_mirror [OF b] haversine_mirror)
qed

text \<open>The boxes whose bound is proved sound for a query.\<close>

definition sound_box :: "real \<Rightarrow> real \<Rightarrow> GeoBounds \<Rightarrow> bool" where
  "sound_box la lo b = (lng_band lo b \<or> equatorward la lo b)"

lemma sound_box_bound:
  assumes "bounds_ok b" and "\<bar>la\<bar> \<le> 90" and "sound_box la lo b" and "in_box b a x"
  shows "minDistanceToBox la lo b \<le> haversineDistance la lo a x"
  using assms min_dist_band min_dist_equatorward by (auto simp: sound_box_def)

section \<open>Properties\<close>

text \<open>
  C32. The bound of the search is a lower bound on the distance to every point of the box when
  the box spans the query's longitude, or lies on the equator's side of the query within 90
  degrees of longitude; it is 0 for a query inside the box.
\<close>

theorem minDistanceToBox_lower_bound:
  assumes "bounds_ok b" and "on_earth la lo" and "sound_box la lo b" and "in_box b a x"
  shows "0 \<le> minDistanceToBox la lo b \<and>
    minDistanceToBox la lo b \<le> haversineDistance la lo a x \<and>
    (if in_box b la lo then minDistanceToBox la lo b = 0 else True)"
  using sound_box_bound [OF assms(1) _ assms(3,4)] assms(2) minDistanceToBox_inside
  by (auto simp: on_earth_def)

theorem minDistanceToBox_lower_bound_witness:
  "minDistanceToBox 0 10 \<lparr>minLat = 1, maxLat = 2, minLng = 5, maxLng = 15\<rparr> \<le> haversineDistance 0 10 2 6"
  using minDistanceToBox_lower_bound [of "\<lparr>minLat = 1, maxLat = 2, minLng = 5, maxLng = 15\<rparr>" 0 10 2 6]
  by (simp add: bounds_ok_def on_earth_def sound_box_def lng_band_def in_box_def)

text \<open>
  The bound is not the minimum distance in general: for the query at 45 degrees north and
  the box of the eastern quarter from the equator to the pole it exceeds the distance to the
  pole, which is in the box; and for a query on the antimeridian it is half the circumference of
  the Earth although the box contains a point at distance 0 (the same meridian, written -180).
\<close>

theorem minDistanceToBox_not_minimum:
  "(let b = \<lparr>minLat = 0, maxLat = 90, minLng = 90, maxLng = 180\<rparr> in
     bounds_ok b \<and> on_earth 45 0 \<and> in_box b 90 90 \<and>
     haversineDistance 45 0 90 90 < minDistanceToBox 45 0 b) \<and>
   (let b = \<lparr>minLat = -90, maxLat = 90, minLng = -180, maxLng = 0\<rparr> in
     bounds_ok b \<and> on_earth 0 180 \<and> in_box b 0 (-180) \<and>
     haversineDistance 0 180 0 (-180) = 0 \<and> minDistanceToBox 0 180 b = pi * EARTH_RADIUS_METERS)"
proof -
  have rad: "toRad 45 = pi / 4" "toRad 90 = pi / 2" "toRad 0 = 0" "toRad (-180) = - pi" "toRad (-360) = - (2 * pi)"
    by (simp_all add: toRad_def)
  have "central_cos 45 0 45 90 < central_cos 45 0 90 90"
    using real_sqrt_gt_1_iff [of 2] by (simp add: central_cos_def rad sin_45 cos_45)
  then have "haversineDistance 45 0 90 90 < haversineDistance 45 0 45 90"
    by (rule haversine_strict_mono)
  moreover have "haversineDistance 0 180 0 (-180) = 0"
    using central_cos_def [of 0 180 0 "-180"] by (simp add: rad haversine_arcsin hav_term_eq)
  moreover have "haversineDistance 0 180 0 0 = pi * EARTH_RADIUS_METERS"
    using central_cos_def [of 0 180 0 0] by (simp add: rad haversine_arcsin hav_term_eq)
  ultimately show ?thesis
    by (simp add: Let_def bounds_ok_def on_earth_def in_box_def minDistanceToBox_def)
qed

end
