(* ===== verification/MinHeap.thy ===== *)
theory MinHeap
  imports Prelude
begin

text \<open>
  The binary heap of \<open>src/utils/min_heap.ts\<close>: the array, the two sifting loops and
  \<open>push\<close>, \<open>pop\<close> and \<open>peek\<close>, over a comparison function as JavaScript has
  it (negative, zero or positive).  What the client of the heap relies on is the interface
  \<open>prio_queue\<close>; every comparison function that orders its arguments (\<open>comparator\<close>)
  gives it.
\<close>

section \<open>Operations\<close>

definition swap_at :: "'a list \<Rightarrow> nat \<Rightarrow> nat \<Rightarrow> 'a list" where
  "swap_at h i j = h[i := h ! j, j := h ! i]"

function bubbleUp :: "('a \<Rightarrow> 'a \<Rightarrow> real) \<Rightarrow> 'a list \<Rightarrow> nat \<Rightarrow> 'a list" where
  "bubbleUp cmp h index =
    (if index > 0 then
       let parent = (index - 1) div 2 in
       if cmp (h ! index) (h ! parent) \<ge> 0 then h
       else bubbleUp cmp (swap_at h index parent) parent
     else h)"
  by pat_completeness auto
termination by (relation "measure (\<lambda>(cmp, h, i). i)") auto

declare bubbleUp.simps [simp del]

text \<open>The index of the smallest of a node and its children, as the loop finds it.\<close>

definition smallest_child :: "('a \<Rightarrow> 'a \<Rightarrow> real) \<Rightarrow> 'a list \<Rightarrow> nat \<Rightarrow> nat" where
  "smallest_child cmp h index =
    (let left = index * 2 + 1; right = index * 2 + 2;
         s1 = (if left < length h \<and> cmp (h ! left) (h ! index) < 0 then left else index)
     in if right < length h \<and> cmp (h ! right) (h ! s1) < 0 then right else s1)"

lemma smallest_child_cases:
  "smallest_child cmp h i = i \<or>
    (i < smallest_child cmp h i \<and> smallest_child cmp h i < length h \<and>
     smallest_child cmp h i \<in> {i * 2 + 1, i * 2 + 2})"
  by (simp add: smallest_child_def Let_def)

lemma length_swap_at [simp]: "length (swap_at h i j) = length h"
  by (simp add: swap_at_def)

function bubbleDown :: "('a \<Rightarrow> 'a \<Rightarrow> real) \<Rightarrow> 'a list \<Rightarrow> nat \<Rightarrow> 'a list" where
  "bubbleDown cmp h index =
    (let smallest = smallest_child cmp h index in
     if smallest = index then h
     else bubbleDown cmp (swap_at h index smallest) smallest)"
  by pat_completeness auto
termination
proof (relation "measure (\<lambda>(cmp, h, i). length h - i)", goal_cases)
  case (2 cmp h i s)
  with smallest_child_cases [of cmp h i] show ?case by auto
qed simp

declare bubbleDown.simps [simp del]

definition heap_size :: "'a list \<Rightarrow> nat" where
  "heap_size h = length h"

definition peek :: "'a list \<Rightarrow> 'a option" where
  "peek h = (if h = [] then None else Some (h ! 0))"

definition push :: "('a \<Rightarrow> 'a \<Rightarrow> real) \<Rightarrow> 'a list \<Rightarrow> 'a \<Rightarrow> 'a list" where
  "push cmp h v = (let h1 = h @ [v] in bubbleUp cmp h1 (length h1 - 1))"

definition pop :: "('a \<Rightarrow> 'a \<Rightarrow> real) \<Rightarrow> 'a list \<Rightarrow> 'a option \<times> 'a list" where
  "pop cmp h =
    (if length h = 0 then (None, h)
     else if length h = 1 then (Some (last h), butlast h)
     else
       let root = h ! 0;
           h1 = (butlast h)[0 := last h]
       in (Some root, bubbleDown cmp h1 0))"

section \<open>The heap order\<close>

definition parent_of :: "nat \<Rightarrow> nat" where
  "parent_of i = (i - 1) div 2"

definition heap_ok :: "('a \<Rightarrow> 'a \<Rightarrow> real) \<Rightarrow> 'a list \<Rightarrow> bool" where
  "heap_ok cmp h = (\<forall>i<length h. 0 < i \<longrightarrow> cmp (h ! parent_of i) (h ! i) \<le> 0)"

lemma parent_less: "0 < i \<Longrightarrow> parent_of i < i"
  by (auto simp: parent_of_def)

lemma parent_children: "0 < j \<Longrightarrow> parent_of j = i \<longleftrightarrow> j = i * 2 + 1 \<or> j = i * 2 + 2"
  by (auto simp: parent_of_def)

lemma nth_swap_at:
  "i < length h \<Longrightarrow> j < length h \<Longrightarrow> n < length h \<Longrightarrow>
    swap_at h i j ! n = (if n = j then h ! i else if n = i then h ! j else h ! n)"
  by (simp add: swap_at_def nth_list_update)

lemma mset_swap_at [simp]: "i < length h \<Longrightarrow> j < length h \<Longrightarrow> mset (swap_at h i j) = mset h"
  unfolding swap_at_def by (rule mset_swap)

lemma mset_bubbleUp: "i < length h \<Longrightarrow> mset (bubbleUp cmp h i) = mset h"
proof (induction cmp h i rule: bubbleUp.induct)
  case (1 cmp h i)
  show ?case
  proof (cases "0 < i \<and> \<not> cmp (h ! i) (h ! ((i - 1) div 2)) \<ge> 0")
    case True
    with 1 have "mset (bubbleUp cmp (swap_at h i ((i - 1) div 2)) ((i - 1) div 2)) = mset h"
      by simp
    with True show ?thesis by (subst bubbleUp.simps) (simp add: Let_def)
  qed (subst bubbleUp.simps, auto simp: Let_def)
qed

lemma mset_bubbleDown: "i < length h \<Longrightarrow> mset (bubbleDown cmp h i) = mset h"
proof (induction cmp h i rule: bubbleDown.induct)
  case (1 cmp h i)
  show ?case
  proof (cases "smallest_child cmp h i = i")
    case False
    with smallest_child_cases [of cmp h i] 1 show ?thesis
      by (subst bubbleDown.simps) (simp add: Let_def)
  qed (subst bubbleDown.simps, simp)
qed

text \<open>
  A comparison function in the sense of \<open>Array.prototype.sort\<close>: opposite signs when the
  arguments are exchanged, and transitive.
\<close>

locale comparator =
  fixes cmp :: "'a \<Rightarrow> 'a \<Rightarrow> real"
  assumes cmp_flip: "cmp a b \<le> 0 \<longleftrightarrow> cmp b a \<ge> 0"
    and cmp_trans: "cmp a b \<le> 0 \<Longrightarrow> cmp b c \<le> 0 \<Longrightarrow> cmp a c \<le> 0"
begin

lemma cmp_refl: "cmp a a \<le> 0"
  using cmp_flip [of a a] by linarith

lemma less_flip: "cmp a b < 0 \<Longrightarrow> cmp a b \<le> 0 \<and> \<not> cmp b a \<le> 0"
  using cmp_flip [of b a] by linarith

lemma not_less: "\<not> cmp a b < 0 \<Longrightarrow> cmp b a \<le> 0"
  using cmp_flip [of b a] by linarith

text \<open>The heap order except between the element at \<open>i\<close> and its parent.\<close>

definition up_hole :: "'a list \<Rightarrow> nat \<Rightarrow> bool" where
  "up_hole h i =
    ((\<forall>j<length h. 0 < j \<longrightarrow> j \<noteq> i \<longrightarrow> cmp (h ! parent_of j) (h ! j) \<le> 0) \<and>
     (\<forall>j<length h. 0 < j \<longrightarrow> 0 < i \<longrightarrow> parent_of j = i \<longrightarrow> cmp (h ! parent_of i) (h ! j) \<le> 0))"

lemma up_holeD:
  assumes "up_hole h i" and "j < length h" and "0 < j"
  shows "j \<noteq> i \<Longrightarrow> cmp (h ! parent_of j) (h ! j) \<le> 0"
    and "0 < i \<Longrightarrow> parent_of j = i \<Longrightarrow> cmp (h ! parent_of i) (h ! j) \<le> 0"
  using assms by (auto simp: up_hole_def)

lemma up_hole_step:
  assumes hole: "up_hole h i" and i: "0 < i" "i < length h"
    and less: "cmp (h ! i) (h ! parent_of i) < 0"
  shows "up_hole (swap_at h i (parent_of i)) (parent_of i)"
proof -
  let ?p = "parent_of i" and ?h = "swap_at h i (parent_of i)"
  have p: "?p < i" "?p < length h" using parent_less [OF i(1)] i by simp_all
  note nth = nth_swap_at [OF i(2) p(2)]
  note le = less_flip [OF less, THEN conjunct1]
  have "cmp (?h ! parent_of j) (?h ! j) \<le> 0" if j: "j < length h" "0 < j" "j \<noteq> ?p" for j
  proof -
    have pj: "parent_of j < j" "parent_of j < length h" using parent_less [OF j(2)] j by simp_all
    consider "j = i" | "j \<noteq> i" "parent_of j = i" | "j \<noteq> i" "parent_of j = ?p" | "j \<noteq> i" "parent_of j \<noteq> i" "parent_of j \<noteq> ?p"
      by blast
    then show ?thesis
    proof cases
      case 1
      with le p j nth show ?thesis by simp
    next
      case 2
      with up_holeD(2) [OF hole j(1,2) i(1)] j pj p nth show ?thesis by simp
    next
      case 3
      with up_holeD(1) [OF hole j(1,2)] have "cmp (h ! ?p) (h ! j) \<le> 0" by simp
      with 3 cmp_trans [OF le] j pj p nth show ?thesis by simp
    next
      case 4
      with up_holeD(1) [OF hole j(1,2)] j pj p nth show ?thesis by simp
    qed
  qed
  moreover have "cmp (?h ! parent_of ?p) (?h ! j) \<le> 0"
    if j: "j < length h" "0 < j" "0 < ?p" "parent_of j = ?p" for j
  proof -
    have pp: "parent_of ?p < ?p" using parent_less [OF j(3)] .
    have up: "cmp (h ! parent_of ?p) (h ! ?p) \<le> 0"
      using up_holeD(1) [OF hole p(2) j(3)] p by simp
    show ?thesis
    proof (cases "j = i")
      case True
      with up pp p i nth show ?thesis by simp
    next
      case False
      then have "cmp (h ! ?p) (h ! j) \<le> 0" using up_holeD(1) [OF hole j(1,2)] j(4) by simp
      moreover have "j \<noteq> ?p" using j(4) parent_less [OF j(2)] by auto
      ultimately show ?thesis using cmp_trans [OF up] False pp p i j nth by simp
    qed
  qed
  ultimately show ?thesis by (simp add: up_hole_def)
qed

lemma up_hole_done:
  assumes "up_hole h i" and "i = 0 \<or> cmp (h ! parent_of i) (h ! i) \<le> 0"
  shows "heap_ok cmp h"
  using assms by (auto simp: up_hole_def heap_ok_def)

lemma bubbleUp_heap: "up_hole h i \<Longrightarrow> i < length h \<Longrightarrow> heap_ok cmp (bubbleUp cmp h i)"
proof (induction i arbitrary: h rule: less_induct)
  case (less i)
  show ?case
  proof (cases "0 < i \<and> cmp (h ! i) (h ! parent_of i) < 0")
    case True
    then have "heap_ok cmp (bubbleUp cmp (swap_at h i (parent_of i)) (parent_of i))"
      using less.IH [of "parent_of i" "swap_at h i (parent_of i)"] less.prems parent_less [of i]
        up_hole_step by simp
    with True show ?thesis by (subst bubbleUp.simps) (simp add: parent_of_def Let_def)
  next
    case False
    then have "i = 0 \<or> cmp (h ! parent_of i) (h ! i) \<le> 0" using not_less by auto
    then have "heap_ok cmp h" by (rule up_hole_done [OF less.prems(1)])
    with False show ?thesis by (subst bubbleUp.simps) (auto simp: parent_of_def Let_def)
  qed
qed

text \<open>The heap order except between the element at \<open>i\<close> and its children.\<close>

definition down_hole :: "'a list \<Rightarrow> nat \<Rightarrow> bool" where
  "down_hole h i =
    ((\<forall>j<length h. 0 < j \<longrightarrow> parent_of j \<noteq> i \<longrightarrow> cmp (h ! parent_of j) (h ! j) \<le> 0) \<and>
     (\<forall>j<length h. 0 < j \<longrightarrow> 0 < i \<longrightarrow> parent_of j = i \<longrightarrow> cmp (h ! parent_of i) (h ! j) \<le> 0))"

lemma down_holeD:
  assumes "down_hole h i" and "j < length h" and "0 < j"
  shows "parent_of j \<noteq> i \<Longrightarrow> cmp (h ! parent_of j) (h ! j) \<le> 0"
    and "0 < i \<Longrightarrow> parent_of j = i \<Longrightarrow> cmp (h ! parent_of i) (h ! j) \<le> 0"
  using assms by (auto simp: down_hole_def)

lemma smallest_child_le:
  assumes "j = i \<or> (0 < j \<and> parent_of j = i \<and> j < length h)"
  shows "cmp (h ! smallest_child cmp h i) (h ! j) \<le> 0"
proof -
  let ?s1 = "if i * 2 + 1 < length h \<and> cmp (h ! (i * 2 + 1)) (h ! i) < 0 then i * 2 + 1 else i"
  have s1: "cmp (h ! ?s1) (h ! i) \<le> 0" "i * 2 + 1 < length h \<Longrightarrow> cmp (h ! ?s1) (h ! (i * 2 + 1)) \<le> 0"
    using less_flip not_less cmp_refl by auto
  have s: "cmp (h ! smallest_child cmp h i) (h ! ?s1) \<le> 0"
    "i * 2 + 2 < length h \<Longrightarrow> cmp (h ! smallest_child cmp h i) (h ! (i * 2 + 2)) \<le> 0"
    using less_flip not_less cmp_refl by (auto simp: smallest_child_def Let_def)
  from assms consider "j = i" | "j = i * 2 + 1" "j < length h" | "j = i * 2 + 2" "j < length h"
    using parent_children by blast
  then show ?thesis
    by cases (use cmp_trans [OF s(1)] s1 s(2) in blast)+
qed

lemma smallest_child_parent:
  "smallest_child cmp h i \<noteq> i \<Longrightarrow> smallest_child cmp h i < length h \<and> 0 < smallest_child cmp h i \<and>
    parent_of (smallest_child cmp h i) = i"
  using smallest_child_cases [of cmp h i] parent_children [of "smallest_child cmp h i" i] by auto

lemma down_hole_step:
  assumes hole: "down_hole h i" and s: "s = smallest_child cmp h i" "s \<noteq> i"
  shows "down_hole (swap_at h i s) s"
proof -
  have sp: "s < length h" "0 < s" "parent_of s = i" using smallest_child_parent s by auto
  then have si: "i < s" "i < length h" using parent_less [of s] by auto
  note nth = nth_swap_at [OF si(2) sp(1)]
  have "cmp (swap_at h i s ! parent_of j) (swap_at h i s ! j) \<le> 0"
    if j: "j < length h" "0 < j" "parent_of j \<noteq> s" for j
  proof -
    have pj: "parent_of j < j" "parent_of j < length h" using parent_less [OF j(2)] j by simp_all
    consider "j = i" | "j = s" | "j \<noteq> i" "j \<noteq> s" "parent_of j = i" | "j \<noteq> i" "j \<noteq> s" "parent_of j \<noteq> i"
      by blast
    then show ?thesis
    proof cases
      case 1
      then have "cmp (h ! parent_of i) (h ! s) \<le> 0" using down_holeD(2) [OF hole sp(1,2)] j sp by simp
      with 1 j pj si nth show ?thesis by simp
    next
      case 2
      have "cmp (h ! s) (h ! i) \<le> 0" using smallest_child_le [of i i h] s by simp
      with 2 sp si nth show ?thesis by simp
    next
      case 3
      have "cmp (h ! s) (h ! j) \<le> 0" using smallest_child_le [of j i h] s 3 j by simp
      with 3 j pj nth show ?thesis by simp
    next
      case 4
      with down_holeD(1) [OF hole j(1,2)] j pj nth show ?thesis by simp
    qed
  qed
  moreover have "cmp (swap_at h i s ! parent_of s) (swap_at h i s ! j) \<le> 0"
    if j: "j < length h" "0 < j" "parent_of j = s" for j
  proof -
    have "s < j" using j parent_less by auto
    moreover have "cmp (h ! s) (h ! j) \<le> 0" using down_holeD(1) [OF hole j(1,2)] j s by simp
    ultimately show ?thesis using sp si j nth by simp
  qed
  ultimately show ?thesis by (simp add: down_hole_def)
qed

lemma bubbleDown_heap: "down_hole h i \<Longrightarrow> heap_ok cmp (bubbleDown cmp h i)"
proof (induction "length h - i" arbitrary: h i rule: less_induct)
  case less
  show ?case
  proof (cases "smallest_child cmp h i = i")
    case True
    then have "heap_ok cmp h"
      using less.prems smallest_child_le [of _ i h] by (auto simp: down_hole_def heap_ok_def)
    with True show ?thesis by (subst bubbleDown.simps) simp
  next
    case False
    let ?s = "smallest_child cmp h i"
    have "length (swap_at h i ?s) - ?s < length h - i"
      using smallest_child_cases [of cmp h i] False by auto
    then have "heap_ok cmp (bubbleDown cmp (swap_at h i ?s) ?s)"
      using less.hyps down_hole_step [OF less.prems refl False] by blast
    with False show ?thesis by (subst bubbleDown.simps) (simp add: Let_def)
  qed
qed

lemma heap_root_min:
  assumes "heap_ok cmp h" and "i < length h"
  shows "cmp (h ! 0) (h ! i) \<le> 0"
  using assms(2)
proof (induction i rule: less_induct)
  case (less i)
  show ?case
  proof (cases "i = 0")
    case False
    then have "cmp (h ! 0) (h ! parent_of i) \<le> 0" "cmp (h ! parent_of i) (h ! i) \<le> 0"
      using less parent_less [of i] assms(1) by (auto simp: heap_ok_def)
    then show ?thesis by (rule cmp_trans)
  qed (simp add: cmp_refl)
qed

lemma push_heap: "heap_ok cmp h \<Longrightarrow> heap_ok cmp (push cmp h v)"
proof -
  assume h: "heap_ok cmp h"
  have "up_hole (h @ [v]) (length h)"
    unfolding up_hole_def
  proof (intro conjI allI impI)
    fix j assume j: "j < length (h @ [v])" "0 < j" "j \<noteq> length h"
    then have "parent_of j < length h" using parent_less [of j] by simp
    with h j show "cmp ((h @ [v]) ! parent_of j) ((h @ [v]) ! j) \<le> 0"
      by (simp add: heap_ok_def nth_append)
  next
    fix j assume "j < length (h @ [v])" "0 < j" "0 < length h" "parent_of j = length h"
    then show "cmp ((h @ [v]) ! parent_of (length h)) ((h @ [v]) ! j) \<le> 0"
      using parent_less [of j] by simp
  qed
  then show ?thesis
    by (simp add: push_def bubbleUp_heap)
qed

lemma pop_heap:
  assumes "heap_ok cmp h" and "pop cmp h = (r, h')"
  shows "heap_ok cmp h'"
proof -
  consider "length h = 0" | "length h = 1" | "1 < length h" by linarith
  then show ?thesis
  proof cases
    case 3
    let ?h = "(butlast h)[0 := last h]"
    have "cmp (?h ! parent_of j) (?h ! j) \<le> 0" if j: "j < length ?h" "0 < j" "parent_of j \<noteq> 0" for j
      using assms(1) j parent_less [OF j(2)] by (simp add: heap_ok_def nth_butlast)
    then have "down_hole ?h 0" by (simp add: down_hole_def)
    then have "heap_ok cmp (bubbleDown cmp ?h 0)" by (rule bubbleDown_heap)
    with 3 assms(2) show ?thesis by (auto simp: pop_def Let_def split: if_splits)
  qed (use assms in \<open>auto simp: pop_def heap_ok_def\<close>)
qed

lemma pop_min: "heap_ok cmp h \<Longrightarrow> pop cmp h = (Some m, h') \<Longrightarrow> x \<in> set h \<Longrightarrow> cmp m x \<le> 0"
proof -
  assume h: "heap_ok cmp h" "pop cmp h = (Some m, h')" "x \<in> set h"
  then have "m = h ! 0"
    by (cases h rule: rev_cases) (auto simp: pop_def Let_def split: if_splits)
  with h show ?thesis by (metis heap_root_min in_set_conv_nth)
qed

end

lemma push_mset [simp]: "mset (push cmp h v) = add_mset v (mset h)"
  by (simp add: push_def mset_bubbleUp)

lemma push_length [simp]: "length (push cmp h v) = Suc (length h)"
  using push_mset [of cmp h v] by (metis size_add_mset size_mset)

lemma push_set [simp]: "set (push cmp h v) = insert v (set h)"
  by (metis push_mset set_mset_add_mset_insert set_mset_mset)

lemma pop_None: "pop cmp h = (None, h') \<longleftrightarrow> h = [] \<and> h' = []"
  by (auto simp: pop_def Let_def)

lemma pop_mset: "pop cmp h = (Some m, h') \<Longrightarrow> mset h = add_mset m (mset h')"
proof (cases h)
  case (Cons a hs)
  assume p: "pop cmp h = (Some m, h')"
  show ?thesis
  proof (cases hs rule: rev_cases)
    case Nil
    with p Cons show ?thesis by (auto simp: pop_def)
  next
    case (snoc ys y)
    with p Cons mset_bubbleDown [of 0 "y # ys" cmp] show ?thesis
      by (auto simp: pop_def Let_def)
  qed
qed (simp add: pop_def)

lemma pop_length: "pop cmp h = (Some m, h') \<Longrightarrow> length h = Suc (length h')"
  using pop_mset by (metis size_add_mset size_mset)

section \<open>The interface\<close>

text \<open>
  What the nearest neighbour search needs of its queue: the elements are a multiset,
  \<open>pop\<close> fails only on the empty queue and removes an element that is before all others.
\<close>

locale prio_queue =
  fixes ins :: "'q \<Rightarrow> 'a \<Rightarrow> 'q" and del_min :: "'q \<Rightarrow> 'a option \<times> 'q" and empty :: 'q
    and elems :: "'q \<Rightarrow> 'a multiset" and wf :: "'q \<Rightarrow> bool" and before :: "'a \<Rightarrow> 'a \<Rightarrow> bool"
  assumes empty: "wf empty \<and> elems empty = {#}"
    and ins: "wf q \<Longrightarrow> wf (ins q a) \<and> elems (ins q a) = add_mset a (elems q)"
    and del_None: "wf q \<Longrightarrow> fst (del_min q) = None \<longleftrightarrow> elems q = {#}"
    and del_Some: "wf q \<Longrightarrow> del_min q = (Some m, q') \<Longrightarrow>
        wf q' \<and> elems q = add_mset m (elems q') \<and> (\<forall>x\<in>#elems q. before m x)"
begin

lemma ins_all: "wf q \<Longrightarrow> wf (foldl ins q xs) \<and> elems (foldl ins q xs) = elems q + mset xs"
  by (induction xs arbitrary: q) (auto simp: ins)

text \<open>Taking out every element gives them in order.\<close>

fun drain :: "nat \<Rightarrow> 'q \<Rightarrow> 'a list" where
  "drain 0 q = []"
| "drain (Suc n) q = (case del_min q of (None, _) \<Rightarrow> [] | (Some m, q') \<Rightarrow> m # drain n q')"

lemma drain_sorted:
  "wf q \<Longrightarrow> size (elems q) \<le> n \<Longrightarrow> mset (drain n q) = elems q \<and> sorted_wrt before (drain n q)"
proof (induction n arbitrary: q)
  case (Suc n)
  show ?case
  proof (cases "del_min q")
    case (Pair r q')
    show ?thesis
    proof (cases r)
      case None
      with Pair del_None [OF Suc.prems(1)] show ?thesis by simp
    next
      case (Some m)
      with Pair have d: "del_min q = (Some m, q')" by simp
      note D = del_Some [OF Suc.prems(1) d]
      then have "mset (drain n q') = elems q' \<and> sorted_wrt before (drain n q')"
        using Suc.IH Suc.prems(2) by simp
      with D d show ?thesis by (auto simp flip: set_mset_mset)
    qed
  qed
qed simp

end

sublocale comparator \<subseteq> pq: prio_queue "push cmp" "pop cmp" "[]" mset "heap_ok cmp" "\<lambda>a b. cmp a b \<le> 0"
proof
  fix q m q'
  assume "heap_ok cmp q" "pop cmp q = (Some m, q')"
  then show "heap_ok cmp q' \<and> mset q = add_mset m (mset q') \<and> (\<forall>x\<in>#mset q. cmp m x \<le> 0)"
    using pop_heap pop_mset pop_min by (metis set_mset_mset)
next
  fix q :: "'a list" and a
  assume "heap_ok cmp q"
  then show "heap_ok cmp (push cmp q a) \<and> mset (push cmp q a) = add_mset a (mset q)"
    by (simp add: push_heap)
qed (auto simp: heap_ok_def pop_def Let_def)

section \<open>Heap sort\<close>

text \<open>All elements pushed in the order of the list and popped until the heap is empty.\<close>

fun pop_all :: "('a \<Rightarrow> 'a \<Rightarrow> real) \<Rightarrow> nat \<Rightarrow> 'a list \<Rightarrow> 'a list" where
  "pop_all cmp 0 h = []"
| "pop_all cmp (Suc n) h = (case pop cmp h of (None, _) \<Rightarrow> [] | (Some m, h') \<Rightarrow> m # pop_all cmp n h')"

context comparator
begin

lemma pop_all_drain: "pop_all cmp n h = pq.drain n h"
  by (induction n arbitrary: h) (auto split: option.splits prod.splits)

lemma pop_all_sorts:
  "mset (pop_all cmp (length xs) (foldl (push cmp) [] xs)) = mset xs \<and>
   sorted_wrt (\<lambda>a b. cmp a b \<le> 0) (pop_all cmp (length xs) (foldl (push cmp) [] xs))"
proof -
  have h: "heap_ok cmp (foldl (push cmp) [] xs)" "mset (foldl (push cmp) [] xs) = mset xs"
    using pq.ins_all [of "[]" xs] pq.empty by simp_all
  then have "size (mset (foldl (push cmp) [] xs)) \<le> length xs" by simp
  with pq.drain_sorted [OF h(1)] h(2) show ?thesis by (simp add: pop_all_drain)
qed

end

text \<open>The comparison by a numeric key that every use of the heap has.\<close>

definition by_key :: "('a \<Rightarrow> real) \<Rightarrow> 'a \<Rightarrow> 'a \<Rightarrow> real" where
  "by_key key a b = key a - key b"

interpretation key_heap: comparator "by_key key"
  by unfold_locales (auto simp: by_key_def)

text \<open>
  C30. The heap is a correct priority queue for every comparison function that orders its
  arguments: push adds one element, pop on a non-empty heap removes an element that is not
  after any other and leaves a heap with the rest, and pushing a list and popping everything
  sorts it.
\<close>

theorem heap_is_priority_queue:
  assumes "comparator cmp"
  shows "mset (pop_all cmp (length xs) (foldl (push cmp) [] xs)) = mset xs \<and>
    sorted_wrt (\<lambda>a b. cmp a b \<le> 0) (pop_all cmp (length xs) (foldl (push cmp) [] xs)) \<and>
    (if heap_ok cmp h \<and> h \<noteq> []
     then \<exists>m h'. pop cmp h = (Some m, h') \<and> heap_ok cmp h' \<and> mset h = add_mset m (mset h') \<and>
       (\<forall>x\<in>set h. cmp m x \<le> 0)
     else True)"
proof -
  have "\<exists>m h'. pop cmp h = (Some m, h')" if "h \<noteq> []"
    using that pop_None [of cmp h] by (cases "pop cmp h") (metis option.exhaust_sel surj_pair fst_conv option.collapse)
  then show ?thesis
    using comparator.pop_all_sorts [OF assms, of xs] comparator.pop_heap [OF assms, of h]
      comparator.pop_min [OF assms, of h] pop_mset [of cmp h]
    by fastforce
qed

theorem heap_is_priority_queue_witness:
  "sorted_wrt (\<lambda>a b. by_key (\<lambda>x. x) a b \<le> 0)
     (pop_all (by_key (\<lambda>x. x)) (length [3::real, 1, 2]) (foldl (push (by_key (\<lambda>x. x))) [] [3, 1, 2]))"
  using heap_is_priority_queue [of "by_key (\<lambda>x. x)" "[3::real, 1, 2]", OF key_heap.comparator_axioms] by blast

end
