(* ===== verification/QuadTree.thy ===== *)
theory QuadTree
  imports Geo MinHeap
begin

text \<open>
  The spatial index of \<open>src/spatial/quadtree.ts\<close>: nodes, the insertion with its
  subdivision, removal with the upward collapse, and the two paths of an update.  A
  \<open>QuadTreeNode\<close> reference is the path from the root to the node, so
  \<open>driverLeaves\<close> maps a driver to a path, the parent of a node is \<open>butlast\<close> of
  its path and its depth is the path's length.  A divided node holds no points of its own.  The
  \<open>Point\<close> object that \<open>driverMap\<close> and a leaf share is written at both places
  when it is mutated.
\<close>

section \<open>Data\<close>

record Point =
  p_id :: string
  p_lat :: real
  p_lng :: real

datatype Quadrant = NW | NE | SW | SE

type_synonym path = "Quadrant list"

datatype QuadTreeNode =
    Leaf GeoBounds "Point list"
  | Divided GeoBounds QuadTreeNode QuadTreeNode QuadTreeNode QuadTreeNode

fun node_bounds :: "QuadTreeNode \<Rightarrow> GeoBounds" where
  "node_bounds (Leaf b _) = b"
| "node_bounds (Divided b _ _ _ _) = b"

fun isDivided :: "QuadTreeNode \<Rightarrow> bool" where
  "isDivided (Leaf _ _) = False"
| "isDivided (Divided _ _ _ _ _) = True"

fun node_points :: "QuadTreeNode \<Rightarrow> Point list" where
  "node_points (Leaf _ ps) = ps"
| "node_points (Divided _ _ _ _ _) = []"

record QuadTree =
  root :: QuadTreeNode
  capacity :: nat
  maxDepth :: nat
  driverMap :: "(string, Point) jsmap"
  driverLeaves :: "(string, path) jsmap"

definition qt_new :: "GeoBounds \<Rightarrow> nat \<Rightarrow> nat \<Rightarrow> QuadTree" where
  "qt_new bounds cap depth =
    \<lparr>root = Leaf bounds [], capacity = cap, maxDepth = depth, driverMap = [], driverLeaves = []\<rparr>"

section \<open>Subdivision\<close>

fun child_bounds :: "GeoBounds \<Rightarrow> Quadrant \<Rightarrow> GeoBounds" where
  "child_bounds b NW = \<lparr>minLat = (minLat b + maxLat b) / 2, maxLat = maxLat b,
      minLng = minLng b, maxLng = (minLng b + maxLng b) / 2\<rparr>"
| "child_bounds b NE = \<lparr>minLat = (minLat b + maxLat b) / 2, maxLat = maxLat b,
      minLng = (minLng b + maxLng b) / 2, maxLng = maxLng b\<rparr>"
| "child_bounds b SW = \<lparr>minLat = minLat b, maxLat = (minLat b + maxLat b) / 2,
      minLng = minLng b, maxLng = (minLng b + maxLng b) / 2\<rparr>"
| "child_bounds b SE = \<lparr>minLat = minLat b, maxLat = (minLat b + maxLat b) / 2,
      minLng = (minLng b + maxLng b) / 2, maxLng = maxLng b\<rparr>"

definition subdivide :: "GeoBounds \<Rightarrow> QuadTreeNode" where
  "subdivide b = Divided b (Leaf (child_bounds b NW) []) (Leaf (child_bounds b NE) [])
     (Leaf (child_bounds b SW) []) (Leaf (child_bounds b SE) [])"

fun child :: "QuadTreeNode \<Rightarrow> Quadrant \<Rightarrow> QuadTreeNode" where
  "child (Divided _ nw ne sw se) NW = nw"
| "child (Divided _ nw ne sw se) NE = ne"
| "child (Divided _ nw ne sw se) SW = sw"
| "child (Divided _ nw ne sw se) SE = se"
| "child (Leaf b ps) _ = Leaf b ps"

fun set_child :: "QuadTreeNode \<Rightarrow> Quadrant \<Rightarrow> QuadTreeNode \<Rightarrow> QuadTreeNode" where
  "set_child (Divided b nw ne sw se) NW n = Divided b n ne sw se"
| "set_child (Divided b nw ne sw se) NE n = Divided b nw n sw se"
| "set_child (Divided b nw ne sw se) SW n = Divided b nw ne n se"
| "set_child (Divided b nw ne sw se) SE n = Divided b nw ne sw n"
| "set_child (Leaf b ps) _ n = Leaf b ps"

definition contains :: "GeoBounds \<Rightarrow> jsnum \<Rightarrow> jsnum \<Rightarrow> bool" where
  "contains b la lo = (js_le (Fin (minLat b)) la \<and> js_le la (Fin (maxLat b)) \<and>
     js_le (Fin (minLng b)) lo \<and> js_le lo (Fin (maxLng b)))"

definition targetChild :: "GeoBounds \<Rightarrow> Point \<Rightarrow> Quadrant" where
  "targetChild b p =
    (let midLat = (minLat b + maxLat b) / 2; midLng = (minLng b + maxLng b) / 2 in
     if p_lat p \<ge> midLat then (if p_lng p < midLng then NW else NE)
     else (if p_lng p < midLng then SW else SE))"

section \<open>Insertion\<close>

type_synonym leaves = "(string, path) jsmap"

lemma size_child: "isDivided n \<Longrightarrow> size (child n q) < size n"
  by (cases n; cases q) auto

text \<open>
  \<open>_insertNode\<close> with \<open>_insertChild\<close> written at its two call sites.  The result is the node
  after the call, the leaf that took the point, and \<open>driverLeaves\<close> with the new leaves of the
  points a subdivision has pushed down.
\<close>

function insertNode ::
    "nat \<Rightarrow> nat \<Rightarrow> path \<Rightarrow> QuadTreeNode \<Rightarrow> Point \<Rightarrow> leaves \<Rightarrow> QuadTreeNode \<times> path option \<times> leaves" where
  "insertNode cap depthMax path node p L =
    (if \<not> contains (node_bounds node) (Fin (p_lat p)) (Fin (p_lng p)) then (node, None, L)
     else if \<not> isDivided node \<and> (length (node_points node) < cap \<or> length path \<ge> depthMax)
       then (Leaf (node_bounds node) (node_points node @ [p]), Some path, L)
     else
       let (node1, L1) =
         (if \<not> isDivided node then
            foldl (\<lambda>(n, M) x.
                let q = targetChild (node_bounds n) x;
                    (c, r, M1) = insertNode cap depthMax (path @ [q]) (child n q) x M
                in (set_child n q c, case r of Some leaf \<Rightarrow> jm_set M1 (p_id x) leaf | None \<Rightarrow> M1))
              (subdivide (node_bounds node), L) (node_points node)
          else (node, L));
         q = targetChild (node_bounds node1) p;
         (c, r, L2) = insertNode cap depthMax (path @ [q]) (child node1 q) p L1
       in (set_child node1 q c, r, L2))"
  by pat_completeness auto
termination
  apply (relation "inv_image (less_than <*lex*> less_than)
      (\<lambda>(cap, md, path, node, p, L). (md - length path, size node))")
  subgoal by auto
  subgoal by (auto)
  subgoal for cap md path node p L
    using size_child [of node] by (auto split: if_splits)
  done

declare insertNode.simps [simp del]

definition insertChild ::
    "nat \<Rightarrow> nat \<Rightarrow> path \<Rightarrow> QuadTreeNode \<Rightarrow> Point \<Rightarrow> leaves \<Rightarrow> QuadTreeNode \<times> path option \<times> leaves" where
  "insertChild cap depthMax path node p L =
    (let q = targetChild (node_bounds node) p;
         (c, r, L1) = insertNode cap depthMax (path @ [q]) (child node q) p L
     in (set_child node q c, r, L1))"

text \<open>The body of \<open>_insertNode\<close> with its calls of \<open>_insertChild\<close>, as the code has it.\<close>

lemma insertNode_eq:
  "insertNode cap depthMax path node p L =
    (if \<not> contains (node_bounds node) (Fin (p_lat p)) (Fin (p_lng p)) then (node, None, L)
     else if \<not> isDivided node \<and> (length (node_points node) < cap \<or> length path \<ge> depthMax)
       then (Leaf (node_bounds node) (node_points node @ [p]), Some path, L)
     else
       let (node1, L1) =
         (if \<not> isDivided node then
            foldl (\<lambda>(n, M) x. case insertChild cap depthMax path n x M of (n1, r, M1) \<Rightarrow>
                (n1, case r of Some leaf \<Rightarrow> jm_set M1 (p_id x) leaf | None \<Rightarrow> M1))
              (subdivide (node_bounds node), L) (node_points node)
          else (node, L))
       in insertChild cap depthMax path node1 p L1)"
  by (subst insertNode.simps) (simp add: insertChild_def Let_def split_def cong: option.case_cong)

section \<open>Nodes by path\<close>

fun node_at :: "QuadTreeNode \<Rightarrow> path \<Rightarrow> QuadTreeNode option" where
  "node_at n [] = Some n"
| "node_at (Leaf _ _) (q # qs) = None"
| "node_at (Divided b nw ne sw se) (q # qs) = node_at (child (Divided b nw ne sw se) q) qs"

fun replace_at :: "QuadTreeNode \<Rightarrow> path \<Rightarrow> QuadTreeNode \<Rightarrow> QuadTreeNode" where
  "replace_at n [] m = m"
| "replace_at (Leaf b ps) (q # qs) m = Leaf b ps"
| "replace_at (Divided b nw ne sw se) (q # qs) m =
    set_child (Divided b nw ne sw se) q (replace_at (child (Divided b nw ne sw se) q) qs m)"

section \<open>Removal\<close>

text \<open>
  \<open>tryCollapse\<close>: four undivided children with few enough points become one leaf, and then the
  parent is tried.
\<close>

function tryCollapse :: "nat \<Rightarrow> QuadTreeNode \<Rightarrow> path \<Rightarrow> leaves \<Rightarrow> QuadTreeNode \<times> leaves" where
  "tryCollapse cap rt path L =
    (case node_at rt path of
       Some (Divided b (Leaf _ nw) (Leaf _ ne) (Leaf _ sw) (Leaf _ se)) \<Rightarrow>
         let totalPoints = length nw + length ne + length sw + length se in
         if totalPoints \<le> cap then
           let allPoints = nw @ ne @ sw @ se;
               rt1 = replace_at rt path (Leaf b allPoints);
               L1 = foldl (\<lambda>M p. jm_set M (p_id p) path) L allPoints
           in if path = [] then (rt1, L1) else tryCollapse cap rt1 (butlast path) L1
         else (rt, L)
     | _ \<Rightarrow> (rt, L))"
  by pat_completeness auto
termination
  by (relation "measure (\<lambda>(cap, rt, path, L). length path)") auto

declare tryCollapse.simps [simp del]

fun remove_first :: "('a \<Rightarrow> bool) \<Rightarrow> 'a list \<Rightarrow> 'a list option" where
  "remove_first P [] = None"
| "remove_first P (x # xs) = (if P x then Some xs else map_option (Cons x) (remove_first P xs))"

definition qt_remove :: "QuadTree \<Rightarrow> string \<Rightarrow> bool \<times> QuadTree" where
  "qt_remove t i =
    (case jm_get (driverLeaves t) i of
       None \<Rightarrow> (False, t)
     | Some leaf \<Rightarrow>
         (case node_at (root t) leaf of
            Some (Leaf b ps) \<Rightarrow>
              (case remove_first (\<lambda>p. p_id p = i) ps of
                 None \<Rightarrow> (False, t)
               | Some ps' \<Rightarrow>
                   let rt1 = replace_at (root t) leaf (Leaf b ps');
                       L1 = jm_delete (driverLeaves t) i;
                       (rt2, L2) = (if leaf = [] then (rt1, L1)
                                    else tryCollapse (capacity t) rt1 (butlast leaf) L1)
                   in (True, t\<lparr>root := rt2, driverMap := jm_delete (driverMap t) i, driverLeaves := L2\<rparr>))
          | _ \<Rightarrow> (False, t)))"

section \<open>Insertion and update\<close>

definition qt_insert :: "QuadTree \<Rightarrow> string \<Rightarrow> jsnum \<Rightarrow> jsnum \<Rightarrow> bool \<times> QuadTree" where
  "qt_insert t i la lo =
    (let t1 = (if jm_has (driverMap t) i then snd (qt_remove t i) else t) in
     case (la, lo) of
       (Fin a, Fin x) \<Rightarrow>
         let p = \<lparr>p_id = i, p_lat = a, p_lng = x\<rparr>;
             (rt, r, L) = insertNode (capacity t1) (maxDepth t1) [] (root t1) p (driverLeaves t1)
         in (case r of
               Some leaf \<Rightarrow> (True, t1\<lparr>root := rt, driverMap := jm_set (driverMap t1) i p,
                                     driverLeaves := jm_set L i leaf\<rparr>)
             | None \<Rightarrow> (False, t1\<lparr>root := rt, driverLeaves := L\<rparr>))
     | _ \<Rightarrow> (False, t1))"

definition move_point :: "string \<Rightarrow> real \<Rightarrow> real \<Rightarrow> Point \<Rightarrow> Point" where
  "move_point i a x p = (if p_id p = i then p\<lparr>p_lat := a, p_lng := x\<rparr> else p)"

definition qt_update :: "QuadTree \<Rightarrow> string \<Rightarrow> jsnum \<Rightarrow> jsnum \<Rightarrow> bool \<times> QuadTree" where
  "qt_update t i la lo =
    (case (jm_get (driverMap t) i, jm_get (driverLeaves t) i) of
       (Some point, Some leaf) \<Rightarrow>
         (case (node_at (root t) leaf, la, lo) of
            (Some n, Fin a, Fin x) \<Rightarrow>
              if contains (node_bounds n) la lo then
                (True, t\<lparr>root := replace_at (root t) leaf
                             (Leaf (node_bounds n) (map (move_point i a x) (node_points n))),
                         driverMap := jm_set (driverMap t) i (point\<lparr>p_lat := a, p_lng := x\<rparr>)\<rparr>)
              else qt_insert (snd (qt_remove t i)) i la lo
          | _ \<Rightarrow> qt_insert (snd (qt_remove t i)) i la lo)
     | _ \<Rightarrow> (False, t))"

definition qt_size :: "QuadTree \<Rightarrow> nat" where
  "qt_size t = length (driverMap t)"

end
