(* ===== verification/QuadTreeInv.thy ===== *)
theory QuadTreeInv
  imports QuadTree
begin

text \<open>
  What the spatial index keeps: every leaf's points lie in its box, the boxes are the quadrants
  of their parents, every driver is stored once, and \<open>driverMap\<close> and
  \<open>driverLeaves\<close> agree with the tree.  From it follow the laws of the index as a map from
  drivers to positions.
\<close>

section \<open>Well-formed trees\<close>

fun pts :: "QuadTreeNode \<Rightarrow> Point list" where
  "pts (Leaf b ps) = ps"
| "pts (Divided b nw ne sw se) = pts nw @ pts ne @ pts sw @ pts se"

abbreviation ids :: "QuadTreeNode \<Rightarrow> string list" where
  "ids n \<equiv> map p_id (pts n)"

fun node_ok :: "QuadTreeNode \<Rightarrow> bool" where
  "node_ok (Leaf b ps) = (bounds_ok b \<and> (\<forall>p\<in>set ps. in_box b (p_lat p) (p_lng p)))"
| "node_ok (Divided b nw ne sw se) =
    (bounds_ok b \<and> node_bounds nw = child_bounds b NW \<and> node_bounds ne = child_bounds b NE \<and>
     node_bounds sw = child_bounds b SW \<and> node_bounds se = child_bounds b SE \<and>
     node_ok nw \<and> node_ok ne \<and> node_ok sw \<and> node_ok se)"

text \<open>The cached leaf of every point is the leaf that holds it.\<close>

fun agree :: "path \<Rightarrow> QuadTreeNode \<Rightarrow> leaves \<Rightarrow> bool" where
  "agree path (Leaf b ps) L = (\<forall>p\<in>set ps. jm_get L (p_id p) = Some path)"
| "agree path (Divided b nw ne sw se) L =
    (agree (path @ [NW]) nw L \<and> agree (path @ [NE]) ne L \<and> agree (path @ [SW]) sw L \<and> agree (path @ [SE]) se L)"

lemma contains_Fin [simp]: "contains b (Fin a) (Fin x) \<longleftrightarrow> in_box b a x"
  by (simp add: contains_def in_box_def)

lemma bounds_ok_child: "bounds_ok b \<Longrightarrow> bounds_ok (child_bounds b q)"
  by (cases q) (auto simp: bounds_ok_def)

lemma in_child_in_box: "bounds_ok b \<Longrightarrow> in_box (child_bounds b q) a x \<Longrightarrow> in_box b a x"
  by (cases q) (auto simp: bounds_ok_def in_box_def)

lemma target_in_box:
  "in_box b (p_lat p) (p_lng p) \<Longrightarrow> in_box (child_bounds b (targetChild b p)) (p_lat p) (p_lng p)"
  by (auto simp: targetChild_def in_box_def Let_def)

lemma node_ok_bounds: "node_ok n \<Longrightarrow> bounds_ok (node_bounds n)"
  by (cases n) auto

lemma node_ok_in_box: "node_ok n \<Longrightarrow> p \<in> set (pts n) \<Longrightarrow> in_box (node_bounds n) (p_lat p) (p_lng p)"
proof (induction n)
  case (Divided b nw ne sw se)
  then show ?case
    using in_child_in_box [of b NW] in_child_in_box [of b NE] in_child_in_box [of b SW]
      in_child_in_box [of b SE] by auto
qed auto

lemma agree_cong:
  "(\<And>p. p \<in> set (pts n) \<Longrightarrow> jm_get L' (p_id p) = jm_get L (p_id p)) \<Longrightarrow>
    agree path n L' \<longleftrightarrow> agree path n L"
  by (induction n arbitrary: path) auto

lemma agree_leaf:
  "agree path n L \<Longrightarrow> p \<in> set (pts n) \<Longrightarrow>
    \<exists>\<pi> b ps. jm_get L (p_id p) = Some (path @ \<pi>) \<and> node_at n \<pi> = Some (Leaf b ps) \<and> p \<in> set ps"
proof (induction n arbitrary: path)
  case (Divided b nw ne sw se)
  have step: "\<exists>\<pi> b' ps. jm_get L (p_id p) = Some (path @ \<pi>) \<and>
      node_at (Divided b nw ne sw se) \<pi> = Some (Leaf b' ps) \<and> p \<in> set ps"
    if "jm_get L (p_id p) = Some ((path @ [q]) @ \<pi>) \<and>
      node_at (child (Divided b nw ne sw se) q) \<pi> = Some (Leaf b' ps) \<and> p \<in> set ps" for q \<pi> b' ps
    using that by (intro exI [of _ "q # \<pi>"]) auto
  from Divided.prems(2) consider "p \<in> set (pts nw)" | "p \<in> set (pts ne)" | "p \<in> set (pts sw)" | "p \<in> set (pts se)"
    by auto
  then show ?case
  proof cases
    case 1
    with Divided.IH(1) [of "path @ [NW]"] Divided.prems step [of NW] show ?thesis by auto
  next
    case 2
    with Divided.IH(2) [of "path @ [NE]"] Divided.prems step [of NE] show ?thesis by auto
  next
    case 3
    with Divided.IH(3) [of "path @ [SW]"] Divided.prems step [of SW] show ?thesis by auto
  next
    case 4
    with Divided.IH(4) [of "path @ [SE]"] Divided.prems step [of SE] show ?thesis by auto
  qed
qed auto

section \<open>Children\<close>

lemma all_Quadrant: "(\<forall>q. P q) \<longleftrightarrow> P NW \<and> P NE \<and> P SW \<and> P SE"
  by (metis Quadrant.exhaust)

lemma ex_Quadrant: "(\<exists>q. P q) \<longleftrightarrow> P NW \<or> P NE \<or> P SW \<or> P SE"
  by (metis Quadrant.exhaust)

lemma child_set_child: "isDivided n \<Longrightarrow> child (set_child n q c) q' = (if q' = q then c else child n q')"
  by (cases n; cases q; cases q') auto

lemma set_child_frame [simp]:
  "isDivided (set_child n q c) = isDivided n" "node_bounds (set_child n q c) = node_bounds n"
  by (cases n; cases q; simp)+

lemma node_ok_child: "isDivided n \<Longrightarrow> node_ok n \<Longrightarrow>
    node_ok (child n q) \<and> node_bounds (child n q) = child_bounds (node_bounds n) q"
  by (cases n; cases q) auto

lemma node_ok_set_child:
  "isDivided n \<Longrightarrow> node_ok n \<Longrightarrow> node_ok c \<Longrightarrow> node_bounds c = child_bounds (node_bounds n) q \<Longrightarrow>
    node_ok (set_child n q c)"
  by (cases n; cases q) auto

lemma pts_set_child:
  "isDivided n \<Longrightarrow> mset (pts (set_child n q c)) + mset (pts (child n q)) = mset (pts n) + mset (pts c)"
  by (cases n; cases q) auto

lemma pts_child: "isDivided n \<Longrightarrow> p \<in> set (pts n) \<longleftrightarrow> (\<exists>q. p \<in> set (pts (child n q)))"
  by (cases n) (simp_all add: ex_Quadrant)

lemma ids_child_disjoint:
  "isDivided n \<Longrightarrow> distinct (ids n) \<Longrightarrow> q \<noteq> q' \<Longrightarrow> p \<in> set (pts (child n q)) \<Longrightarrow> p_id p \<notin> set (ids (child n q'))"
  by (cases n; cases q; cases q') auto

lemma distinct_ids_child: "isDivided n \<Longrightarrow> distinct (ids n) \<Longrightarrow> distinct (ids (child n q))"
  by (cases n; cases q) auto

lemma agree_child: "isDivided n \<Longrightarrow> agree path n L \<longleftrightarrow> (\<forall>q. agree (path @ [q]) (child n q) L)"
  by (cases n) (simp_all add: all_Quadrant)

lemma distinct_ids_mset:
  "mset (pts n') = mset (pts n) \<Longrightarrow> distinct (ids n') \<longleftrightarrow> distinct (ids n)"
  by (metis mset_eq_imp_distinct_iff mset_map)

lemma distinct_ids_add:
  "mset (pts n') = add_mset p (mset (pts n)) \<Longrightarrow> distinct (ids n') \<longleftrightarrow> p_id p \<notin> set (ids n) \<and> distinct (ids n)"
proof -
  assume "mset (pts n') = add_mset p (mset (pts n))"
  then have "mset (ids n') = mset (p_id p # ids n)" by simp
  then show ?thesis using mset_eq_imp_distinct_iff by fastforce
qed

lemma pts_add_set: "mset (pts n') = add_mset p (mset (pts n)) \<Longrightarrow> set (pts n') = insert p (set (pts n))"
  by (metis set_mset_add_mset_insert set_mset_mset)

section \<open>Insertion\<close>

text \<open>What a call of \<open>insertNode\<close> that succeeds does.\<close>

definition inserts :: "path \<Rightarrow> QuadTreeNode \<Rightarrow> Point \<Rightarrow> leaves \<Rightarrow> QuadTreeNode \<times> path option \<times> leaves \<Rightarrow> bool" where
  "inserts path n p L res =
    (case res of (n', r, L') \<Rightarrow>
      node_ok n' \<and> node_bounds n' = node_bounds n \<and> mset (pts n') = add_mset p (mset (pts n)) \<and>
      (\<forall>i. i \<notin> set (ids n) \<longrightarrow> jm_get L' i = jm_get L i) \<and> (jm_ok L \<longrightarrow> jm_ok L') \<and>
      (\<exists>leaf. r = Some leaf \<and> (agree path n L \<longrightarrow> agree path n' (jm_set L' (p_id p) leaf))))"

lemma inserts_child:
  assumes n: "isDivided n" "node_ok n" "distinct (ids n)" and p: "p_id p \<notin> set (ids n)"
    and c: "inserts (path @ [q]) (child n q) p L (c, r, L')"
  shows "inserts path n p L (set_child n q c, r, L') \<and> isDivided (set_child n q c)"
proof -
  have C: "node_ok c" "node_bounds c = child_bounds (node_bounds n) q"
    "mset (pts c) = add_mset p (mset (pts (child n q)))"
    "\<And>i. i \<notin> set (ids (child n q)) \<Longrightarrow> jm_get L' i = jm_get L i" "jm_ok L \<Longrightarrow> jm_ok L'"
    using c node_ok_child [OF n(1,2)] by (auto simp: inserts_def)
  obtain leaf where leaf: "r = Some leaf"
    "agree (path @ [q]) (child n q) L \<Longrightarrow> agree (path @ [q]) c (jm_set L' (p_id p) leaf)"
    using c by (auto simp: inserts_def)
  have m: "mset (pts (set_child n q c)) = add_mset p (mset (pts n))"
    using pts_set_child [OF n(1), of q c] C(3) by simp
  have frame: "jm_get L' i = jm_get L i" if "i \<notin> set (ids n)" for i
    using C(4) that pts_child [OF n(1)] by fastforce
  have "agree path (set_child n q c) (jm_set L' (p_id p) leaf)" if a: "agree path n L"
  proof -
    have "agree (path @ [q']) (child (set_child n q c) q') (jm_set L' (p_id p) leaf)" for q'
    proof (cases "q' = q")
      case True
      with a leaf(2) agree_child [OF n(1)] show ?thesis by (simp add: child_set_child [OF n(1)])
    next
      case False
      have "jm_get (jm_set L' (p_id p) leaf) (p_id x) = jm_get L (p_id x)" if x: "x \<in> set (pts (child n q'))" for x
      proof -
        have "x \<in> set (pts n)" using x pts_child [OF n(1)] by blast
        with p have "p_id x \<noteq> p_id p" by (metis imageI list.set_map)
        then show ?thesis using C(4) ids_child_disjoint [OF n(1,3) False x] by simp
      qed
      then show ?thesis
        using False a agree_child [OF n(1)] agree_cong [of "child n q'" "jm_set L' (p_id p) leaf" L]
        by (simp add: child_set_child [OF n(1)])
    qed
    then show ?thesis using n(1) by (simp add: agree_child)
  qed
  with leaf(1) m frame C node_ok_set_child [OF n(1,2) C(1,2)] n(1) show ?thesis
    by (simp add: inserts_def)
qed

text \<open>The points that a subdivision pushes down, one after the other.\<close>

lemma inserts_fold:
  fixes step :: "Point \<Rightarrow> QuadTreeNode \<Rightarrow> leaves \<Rightarrow> QuadTreeNode \<times> path option \<times> leaves"
  assumes step: "\<And>x n M. x \<in> set xs \<Longrightarrow> isDivided n \<Longrightarrow> node_ok n \<Longrightarrow> node_bounds n = b \<Longrightarrow>
      distinct (ids n) \<Longrightarrow> p_id x \<notin> set (ids n) \<Longrightarrow>
      inserts path n x M (step x n M) \<and> isDivided (fst (step x n M))"
    and n: "isDivided n" "node_ok n" "node_bounds n = b" "distinct (ids n)" "agree path n M"
    and xs: "distinct (map p_id xs)" "set (map p_id xs) \<inter> set (ids n) = {}"
    and f: "foldl (\<lambda>(n, M) x. case step x n M of (n', r, M1) \<Rightarrow>
        (n', case r of Some leaf \<Rightarrow> jm_set M1 (p_id x) leaf | None \<Rightarrow> M1)) (n, M) xs = (n', M')"
  shows "isDivided n' \<and> node_ok n' \<and> node_bounds n' = b \<and> agree path n' M' \<and>
    mset (pts n') = mset (pts n) + mset xs \<and> (jm_ok M \<longrightarrow> jm_ok M') \<and>
    (\<forall>i. i \<notin> set (ids n) \<union> set (map p_id xs) \<longrightarrow> jm_get M' i = jm_get M i)"
  using assms
proof (induction xs arbitrary: n M)
  case (Cons x xs)
  obtain n1 r M1 where s: "step x n M = (n1, r, M1)" by (cases "step x n M")
  have I: "inserts path n x M (n1, r, M1)" "isDivided n1"
    using Cons.prems(1) [of x n M] Cons.prems(2-7) Cons.prems(8) s by auto
  then obtain leaf where leaf: "r = Some leaf" "agree path n1 (jm_set M1 (p_id x) leaf)"
    using Cons.prems(6) by (auto simp: inserts_def)
  have n1: "node_ok n1" "node_bounds n1 = b" "mset (pts n1) = add_mset x (mset (pts n))"
    "\<And>i. i \<notin> set (ids n) \<Longrightarrow> jm_get M1 i = jm_get M i" "jm_ok M \<Longrightarrow> jm_ok M1"
    using I(1) Cons.prems(4) by (auto simp: inserts_def)
  have d: "distinct (ids n1)" "set (map p_id xs) \<inter> set (ids n1) = {}"
    using distinct_ids_add [OF n1(3)] pts_add_set [OF n1(3)] Cons.prems(5,7,8) by auto
  have "isDivided n' \<and> node_ok n' \<and> node_bounds n' = b \<and> agree path n' M' \<and>
    mset (pts n') = mset (pts n1) + mset xs \<and> (jm_ok (jm_set M1 (p_id x) leaf) \<longrightarrow> jm_ok M') \<and>
    (\<forall>i. i \<notin> set (ids n1) \<union> set (map p_id xs) \<longrightarrow> jm_get M' i = jm_get (jm_set M1 (p_id x) leaf) i)"
    using Cons.IH [of n1 "jm_set M1 (p_id x) leaf"] Cons.prems(1,7,9) s leaf I(2) n1(1,2) d by simp
  then show ?case
    using n1(3-5) pts_add_set [OF n1(3)] by auto
qed simp

lemma insertNode_induct:
  assumes "\<And>path n p L. (\<And>path' n' p' L'. depthMax - length path' < depthMax - length path \<or>
      (depthMax - length path' \<le> depthMax - length path \<and> size n' < size n) \<Longrightarrow> P path' n' p' L') \<Longrightarrow> P path n p L"
  shows "P (path :: path) (n :: QuadTreeNode) (p :: Point) (L :: leaves)"
proof (induction "(depthMax - length path, size n)" arbitrary: path n p L
    rule: wf_induct_rule [OF wf_lex_prod [OF wf_less_than wf_less_than]])
  case (1 path n p L)
  show ?case
  proof (rule assms)
    fix path' :: path and n' :: QuadTreeNode and p' :: Point and L' :: leaves
    assume "depthMax - length path' < depthMax - length path \<or>
      (depthMax - length path' \<le> depthMax - length path \<and> size n' < size n)"
    then show "P path' n' p' L'" by (intro 1) auto
  qed
qed

lemma insertChild_inserts:
  assumes IH: "\<And>q L. inserts (path @ [q]) (child n q) p L (insertNode cap depthMax (path @ [q]) (child n q) p L)
      \<or> q \<noteq> targetChild (node_bounds n) p"
    and n: "isDivided n" "node_ok n" "distinct (ids n)" and p: "p_id p \<notin> set (ids n)"
  shows "inserts path n p L (insertChild cap depthMax path n p L) \<and> isDivided (fst (insertChild cap depthMax path n p L))"
proof -
  let ?q = "targetChild (node_bounds n) p"
  obtain c r L1 where c: "insertNode cap depthMax (path @ [?q]) (child n ?q) p L = (c, r, L1)"
    by (cases "insertNode cap depthMax (path @ [?q]) (child n ?q) p L")
  with IH [of ?q L] have "inserts (path @ [?q]) (child n ?q) p L (c, r, L1)" by simp
  from inserts_child [OF n p this] c show ?thesis by (simp add: insertChild_def)
qed

lemma insertNode_inserts:
  assumes "node_ok n" and "in_box (node_bounds n) (p_lat p) (p_lng p)"
    and "distinct (ids n)" and "p_id p \<notin> set (ids n)"
  shows "inserts path n p L (insertNode cap depthMax path n p L)"
  using assms
proof (induction path n p L rule: insertNode_induct [of depthMax])
  case (1 path n p L)
  note IH = 1(1) and n = 1(2) and p = 1(3) and d = 1(4) and new = 1(5)
  have child: "inserts path m x M (insertChild cap depthMax path m x M) \<and>
      isDivided (fst (insertChild cap depthMax path m x M))"
    if m: "isDivided m" "node_ok m" "node_bounds m = node_bounds n" "distinct (ids m)"
      and x: "p_id x \<notin> set (ids m)" "in_box (node_bounds n) (p_lat x) (p_lng x)"
      and less: "length path < depthMax \<or> m = n" for m x M
  proof (rule insertChild_inserts [OF _ m(1,2,4) x(1)])
    fix q L
    have "p_id x \<notin> set (ids (child m q))"
      using x(1) pts_child [OF m(1)] by auto
    moreover have "in_box (node_bounds (child m q)) (p_lat x) (p_lng x)" if "q = targetChild (node_bounds m) x"
      using node_ok_child [OF m(1,2)] target_in_box [OF x(2)] m(3) that by simp
    ultimately have "q = targetChild (node_bounds m) x \<Longrightarrow>
        inserts (path @ [q]) (child m q) x L (insertNode cap depthMax (path @ [q]) (child m q) x L)"
      using less size_child [OF m(1)] node_ok_child [OF m(1,2)] distinct_ids_child [OF m(1,4)]
      by (intro IH) auto
    then show "inserts (path @ [q]) (child m q) x L (insertNode cap depthMax (path @ [q]) (child m q) x L)
        \<or> q \<noteq> targetChild (node_bounds m) x"
      by blast
  qed
  show ?case
  proof (cases "isDivided n")
    case True
    then have "insertNode cap depthMax path n p L = insertChild cap depthMax path n p L"
      using p by (subst insertNode_eq) simp
    then show ?thesis using child [OF True n refl d new p] by simp
  next
    case False
    then obtain b ps where nb: "n = Leaf b ps" by (cases n) auto
    show ?thesis
    proof (cases "length ps < cap \<or> depthMax \<le> length path")
      case True
      then have "insertNode cap depthMax path n p L = (Leaf b (ps @ [p]), Some path, L)"
        using nb p by (subst insertNode_eq) simp
      then show ?thesis using nb n p new by (auto simp: inserts_def)
    next
      case deep: False
      obtain n1 L1 where f: "foldl (\<lambda>(n, M) x. case insertChild cap depthMax path n x M of (n', r, M1) \<Rightarrow>
          (n', case r of Some leaf \<Rightarrow> jm_set M1 (p_id x) leaf | None \<Rightarrow> M1)) (subdivide b, L) ps = (n1, L1)"
        by fastforce
      have sub: "isDivided (subdivide b)" "node_ok (subdivide b)" "node_bounds (subdivide b) = b"
        "ids (subdivide b) = []" "pts (subdivide b) = []" "agree path (subdivide b) L"
        using n nb by (simp_all add: subdivide_def bounds_ok_child del: child_bounds.simps)
      have F: "isDivided n1 \<and> node_ok n1 \<and> node_bounds n1 = b \<and> agree path n1 L1 \<and>
          mset (pts n1) = mset (pts (subdivide b)) + mset ps \<and> (jm_ok L \<longrightarrow> jm_ok L1) \<and>
          (\<forall>i. i \<notin> set (ids (subdivide b)) \<union> set (map p_id ps) \<longrightarrow> jm_get L1 i = jm_get L i)"
      proof (rule inserts_fold [where step = "\<lambda>x n M. insertChild cap depthMax path n x M", OF _ sub(1-3) _ sub(6) _ _ f])
        fix x m M assume "x \<in> set ps" "isDivided m" "node_ok m" "node_bounds m = b" "distinct (ids m)" "p_id x \<notin> set (ids m)"
        then show "inserts path m x M (insertChild cap depthMax path m x M) \<and>
            isDivided (fst (insertChild cap depthMax path m x M))"
          using child [of m x M] nb n deep by auto
      qed (use sub d nb in auto)
      have m: "mset (pts n1) = mset (pts n)" using F sub(5) nb by simp
      have d1: "distinct (ids n1)" "p_id p \<notin> set (ids n1)"
        using d distinct_ids_mset [OF m] new mset_eq_setD [OF m] by simp_all
      have "insertNode cap depthMax path n p L = insertChild cap depthMax path n1 p L1"
        using nb deep p f by (subst insertNode_eq) simp
      then have "inserts path n1 p L1 (insertNode cap depthMax path n p L)"
        using child [of n1 p L1] F d1 p nb deep by simp
      then show ?thesis
        using F m sub(4) nb mset_eq_setD [OF m] unfolding inserts_def by (auto split: prod.splits)
    qed
  qed
qed

section \<open>Replacing a node\<close>

lemma node_at_bounds_ok: "node_at n \<pi> = Some m \<Longrightarrow> node_ok n \<Longrightarrow> node_ok m"
proof (induction n \<pi> rule: node_at.induct)
  case (3 b nw ne sw se q qs)
  then show ?case using node_ok_child [of "Divided b nw ne sw se" q] by simp
qed auto

lemma node_at_pts: "node_at n \<pi> = Some m \<Longrightarrow> set (pts m) \<subseteq> set (pts n)"
proof (induction n \<pi> rule: node_at.induct)
  case (3 b nw ne sw se q qs)
  then show ?case using pts_child [of "Divided b nw ne sw se"] by fastforce
qed auto

lemma replace_at_ok:
  "node_at n \<pi> = Some m \<Longrightarrow> node_ok n \<Longrightarrow> node_ok m' \<Longrightarrow> node_bounds m' = node_bounds m \<Longrightarrow>
    node_ok (replace_at n \<pi> m') \<and> node_bounds (replace_at n \<pi> m') = node_bounds n"
proof (induction n \<pi> rule: node_at.induct)
  case (3 b nw ne sw se q qs)
  let ?n = "Divided b nw ne sw se"
  have c: "node_ok (child ?n q)" "node_bounds (child ?n q) = child_bounds b q"
    using node_ok_child [of ?n q] 3(3) by simp_all
  have "node_ok (replace_at (child ?n q) qs m') \<and>
      node_bounds (replace_at (child ?n q) qs m') = node_bounds (child ?n q)"
    using 3(1) [OF _ c(1) 3(4,5)] 3(2) by simp
  then show ?case
    using c(2) node_ok_set_child [of ?n "replace_at (child ?n q) qs m'" q] 3(3) set_child_frame(2) [of ?n q] by auto
qed auto

lemma replace_at_pts:
  "node_at n \<pi> = Some m \<Longrightarrow>
    mset (pts (replace_at n \<pi> m')) + mset (pts m) = mset (pts n) + mset (pts m')"
proof (induction n \<pi> rule: node_at.induct)
  case (3 b nw ne sw se q qs)
  let ?n = "Divided b nw ne sw se"
  let ?c = "replace_at (child ?n q) qs m'"
  have a: "mset (pts ?c) + mset (pts m) = mset (pts (child ?n q)) + mset (pts m')"
    using 3 by simp
  have b: "mset (pts (set_child ?n q ?c)) + mset (pts (child ?n q)) = mset (pts ?n) + mset (pts ?c)"
    using pts_set_child [of ?n q ?c] by simp
  have "mset (pts (set_child ?n q ?c)) + mset (pts m) = mset (pts ?n) + mset (pts m')"
  proof (rule multiset_eqI)
    fix x
    show "count (mset (pts (set_child ?n q ?c)) + mset (pts m)) x = count (mset (pts ?n) + mset (pts m')) x"
      using arg_cong [OF a, of "\<lambda>M. count M x"] arg_cong [OF b, of "\<lambda>M. count M x"]
      by (simp only: count_union)
  qed
  then show ?case by simp
qed auto

lemma replace_at_agree:
  "node_at n \<pi> = Some m \<Longrightarrow> agree path n L0 \<Longrightarrow> distinct (ids n) \<Longrightarrow> agree (path @ \<pi>) m' L \<Longrightarrow>
    (\<And>p. p \<in> set (pts n) \<Longrightarrow> p_id p \<notin> set (ids m) \<Longrightarrow> jm_get L (p_id p) = jm_get L0 (p_id p)) \<Longrightarrow>
    agree path (replace_at n \<pi> m') L"
proof (induction n \<pi> arbitrary: path rule: node_at.induct)
  case (3 b nw ne sw se q qs)
  let ?n = "Divided b nw ne sw se"
  let ?c = "replace_at (child ?n q) qs m'"
  have m: "node_at (child ?n q) qs = Some m" using 3(2) by simp
  have div: "isDivided ?n" by simp
  have sub: "p \<in> set (pts ?n)" if "p \<in> set (pts (child ?n q'))" for p q'
    using that pts_child [OF div] by blast
  have "agree (path @ [q]) ?c L"
    using 3(1) [OF m, of "path @ [q]"] 3(3-6) agree_child [OF div] distinct_ids_child [OF div] sub by simp
  moreover have "agree (path @ [q']) (child ?n q') L" if q: "q' \<noteq> q" for q'
  proof -
    have "p_id p \<notin> set (ids m)" if p: "p \<in> set (pts (child ?n q'))" for p
      using ids_child_disjoint [OF div 3(4) q p] node_at_pts [OF m] by auto
    then have "agree (path @ [q']) (child ?n q') L \<longleftrightarrow> agree (path @ [q']) (child ?n q') L0"
      using 3(6) sub by (intro agree_cong) auto
    then show ?thesis using 3(3) agree_child [OF div] by blast
  qed
  ultimately have "\<forall>q'. agree (path @ [q']) (child (set_child ?n q ?c) q') L"
    by (simp add: child_set_child)
  then show ?case by (simp add: agree_child)
qed auto

section \<open>Removal\<close>

lemma foldl_set_leaf:
  "jm_get (foldl (\<lambda>M p. jm_set M (p_id p) path) L ps) i = (if i \<in> set (map p_id ps) then Some path else jm_get L i)"
  by (induction ps arbitrary: L) auto

lemma foldl_set_leaf_ok: "jm_ok L \<Longrightarrow> jm_ok (foldl (\<lambda>M p. jm_set M (p_id p) path) L ps)"
  by (induction ps arbitrary: L) auto

lemma tryCollapse_cases:
  obtains (stop) "tryCollapse cap rt path L = (rt, L)"
  | (collapse) b bnw nw bne ne bsw sw bse se rt1 L1 where
      "node_at rt path = Some (Divided b (Leaf bnw nw) (Leaf bne ne) (Leaf bsw sw) (Leaf bse se))"
      "rt1 = replace_at rt path (Leaf b (nw @ ne @ sw @ se))"
      "L1 = foldl (\<lambda>M p. jm_set M (p_id p) path) L (nw @ ne @ sw @ se)"
      "tryCollapse cap rt path L = (if path = [] then (rt1, L1) else tryCollapse cap rt1 (butlast path) L1)"
proof (cases "\<exists>b bnw nw bne ne bsw sw bse se.
    node_at rt path = Some (Divided b (Leaf bnw nw) (Leaf bne ne) (Leaf bsw sw) (Leaf bse se)) \<and>
    length nw + length ne + length sw + length se \<le> cap")
  case True
  then obtain b bnw nw bne ne bsw sw bse se where
    n: "node_at rt path = Some (Divided b (Leaf bnw nw) (Leaf bne ne) (Leaf bsw sw) (Leaf bse se))"
    and le: "length nw + length ne + length sw + length se \<le> cap"
    by blast
  show thesis
    by (rule collapse [OF n refl refl]) (use n le in \<open>subst tryCollapse.simps, simp add: Let_def\<close>)
next
  case False
  have "tryCollapse cap rt path L = (rt, L)"
    using False by (subst tryCollapse.simps) (auto split: option.splits QuadTreeNode.splits)
  then show thesis by (rule stop)
qed

definition tree_ok :: "QuadTreeNode \<Rightarrow> leaves \<Rightarrow> bool" where
  "tree_ok rt L = (node_ok rt \<and> distinct (ids rt) \<and> agree [] rt L)"

text \<open>A reorganisation: the same points in a well-formed tree over the same region.\<close>

definition reorganised :: "QuadTreeNode \<Rightarrow> leaves \<Rightarrow> QuadTreeNode \<Rightarrow> leaves \<Rightarrow> bool" where
  "reorganised rt L rt' L' =
    (tree_ok rt' L' \<and> node_bounds rt' = node_bounds rt \<and> mset (pts rt') = mset (pts rt) \<and>
     (\<forall>i. i \<notin> set (ids rt) \<longrightarrow> jm_get L' i = jm_get L i) \<and> (jm_ok L \<longrightarrow> jm_ok L'))"

lemma reorganised_refl: "tree_ok rt L \<Longrightarrow> reorganised rt L rt L"
  by (simp add: reorganised_def)

lemma reorganised_trans:
  "reorganised a L b M \<Longrightarrow> reorganised b M c N \<Longrightarrow> reorganised a L c N"
  by (auto simp: reorganised_def dest!: mset_eq_setD)

lemma collapse_reorganised:
  assumes ok: "tree_ok rt L"
    and n: "node_at rt path = Some (Divided b (Leaf bnw nw) (Leaf bne ne) (Leaf bsw sw) (Leaf bse se))"
  shows "reorganised rt L (replace_at rt path (Leaf b (nw @ ne @ sw @ se)))
      (foldl (\<lambda>M p. jm_set M (p_id p) path) L (nw @ ne @ sw @ se))"
proof -
  let ?m = "Divided b (Leaf bnw nw) (Leaf bne ne) (Leaf bsw sw) (Leaf bse se)"
  let ?all = "nw @ ne @ sw @ se"
  let ?L = "foldl (\<lambda>M p. jm_set M (p_id p) path) L ?all"
  have rt: "node_ok rt" "distinct (ids rt)" "agree [] rt L" using ok by (simp_all add: tree_ok_def)
  have m: "node_ok ?m" using node_at_bounds_ok [OF n rt(1)] .
  have leaf: "node_ok (Leaf b ?all)"
    using node_ok_in_box [OF m] node_ok_bounds [OF m] by auto
  have p: "mset (pts (replace_at rt path (Leaf b ?all))) = mset (pts rt)"
    using replace_at_pts [OF n, of "Leaf b ?all"] by simp
  have ids: "i \<in> set (ids rt)" if "i \<in> set (map p_id ?all)" for i
    using node_at_pts [OF n] that by auto
  have "agree [] (replace_at rt path (Leaf b ?all)) ?L"
    by (rule replace_at_agree [OF n rt(3,2)]) (auto simp: foldl_set_leaf simp del: foldl_append)
  then show ?thesis
    using replace_at_ok [OF n rt(1) leaf] p distinct_ids_mset [OF p] rt(2) ids foldl_set_leaf_ok [of L path ?all]
    by (auto simp: reorganised_def tree_ok_def foldl_set_leaf simp del: foldl_append)
qed

lemma tryCollapse_reorganised:
  "tree_ok rt L \<Longrightarrow> tryCollapse cap rt path L = (rt', L') \<Longrightarrow> reorganised rt L rt' L'"
proof (induction "length path" arbitrary: path rt L rule: less_induct)
  case less
  show ?case
  proof (cases rule: tryCollapse_cases [of cap rt path L])
    case stop
    with less.prems show ?thesis by (simp add: reorganised_refl)
  next
    case (collapse b bnw nw bne ne bsw sw bse se rt1 L1)
    have r: "reorganised rt L rt1 L1"
      using collapse_reorganised [OF less.prems(1) collapse(1)] collapse(2,3) by simp
    then have ok: "tree_ok rt1 L1" by (simp add: reorganised_def)
    show ?thesis
    proof (cases "path = []")
      case True
      with r collapse(4) less.prems(2) show ?thesis by simp
    next
      case False
      then have "reorganised rt1 L1 rt' L'"
        using less.hyps [of "butlast path" rt1 L1] ok collapse(4) less.prems(2) by simp
      with r show ?thesis by (rule reorganised_trans)
    qed
  qed
qed

end
