(* ===== verification/QuadTreeMap.thy ===== *)
theory QuadTreeMap
  imports QuadTreeInv
begin

text \<open>
  The spatial index as a map from drivers to positions over a fixed region: the interface
  \<open>spatial_index\<close> that the driver registry and its mirrors rely on, and its
  interpretation on the quadtree.
\<close>

section \<open>The interface\<close>

datatype index_command = Insert string jsnum jsnum | Update string jsnum jsnum | Remove string

text \<open>What a command does to the abstract map.\<close>

fun in_region :: "GeoBounds \<Rightarrow> jsnum \<Rightarrow> jsnum \<Rightarrow> bool" where
  "in_region b (Fin a) (Fin x) = in_box b a x"
| "in_region b _ _ = False"

fun position_of :: "GeoBounds \<Rightarrow> jsnum \<Rightarrow> jsnum \<Rightarrow> (real \<times> real) option" where
  "position_of b (Fin a) (Fin x) = (if in_box b a x then Some (a, x) else None)"
| "position_of b _ _ = None"

lemma position_of_None [simp]: "position_of b la lo = None \<longleftrightarrow> \<not> in_region b la lo"
  by (cases "(b, la, lo)" rule: in_region.cases) auto

fun abstract_command :: "GeoBounds \<Rightarrow> index_command \<Rightarrow> (string \<rightharpoonup> real \<times> real) \<Rightarrow> (string \<rightharpoonup> real \<times> real)" where
  "abstract_command b (Insert i la lo) m = m(i := position_of b la lo)"
| "abstract_command b (Update i la lo) m = (if m i = None then m else m(i := position_of b la lo))"
| "abstract_command b (Remove i) m = m(i := None)"

text \<open>The command stays within the region.\<close>

fun inside :: "GeoBounds \<Rightarrow> index_command \<Rightarrow> bool" where
  "inside b (Insert i la lo) = in_region b la lo"
| "inside b (Update i la lo) = in_region b la lo"
| "inside b (Remove i) = True"

text \<open>
  What a mirror needs to provide: the registry only sends it positions within the region (and the
  native engine treats others in its own way).
\<close>

locale mirrored_index =
  fixes ins :: "'t \<Rightarrow> string \<Rightarrow> jsnum \<Rightarrow> jsnum \<Rightarrow> bool \<times> 't"
    and upd :: "'t \<Rightarrow> string \<Rightarrow> jsnum \<Rightarrow> jsnum \<Rightarrow> bool \<times> 't"
    and del :: "'t \<Rightarrow> string \<Rightarrow> bool \<times> 't"
    and pos :: "'t \<Rightarrow> string \<Rightarrow> (real \<times> real) option"
    and region :: "'t \<Rightarrow> GeoBounds"
    and wf :: "'t \<Rightarrow> bool"
  assumes ins_inside: "wf t \<Longrightarrow> in_region (region t) la lo \<Longrightarrow> ins t i la lo = (r, t') \<Longrightarrow>
      wf t' \<and> region t' = region t \<and> r \<and> pos t' = (pos t)(i := position_of (region t) la lo)"
    and upd_inside: "wf t \<Longrightarrow> in_region (region t) la lo \<Longrightarrow> upd t i la lo = (r, t') \<Longrightarrow>
      wf t' \<and> region t' = region t \<and> (r \<longleftrightarrow> pos t i \<noteq> None) \<and>
      pos t' = (if pos t i = None then pos t else (pos t)(i := position_of (region t) la lo))"
    and del_law: "wf t \<Longrightarrow> del t i = (r, t') \<Longrightarrow>
      wf t' \<and> region t' = region t \<and> (r \<longleftrightarrow> pos t i \<noteq> None) \<and> pos t' = (pos t)(i := None)"
begin

fun exec :: "'t \<Rightarrow> index_command \<Rightarrow> 't" where
  "exec t (Insert i la lo) = snd (ins t i la lo)"
| "exec t (Update i la lo) = snd (upd t i la lo)"
| "exec t (Remove i) = snd (del t i)"

lemma exec_inside: "wf t \<Longrightarrow> inside (region t) c \<Longrightarrow> wf (exec t c) \<and> region (exec t c) = region t \<and>
    pos (exec t c) = abstract_command (region t) c (pos t)"
proof (cases c)
  case (Insert i la lo)
  then show "wf t \<Longrightarrow> inside (region t) c \<Longrightarrow> ?thesis" using ins_inside [of t la lo i] by (cases "ins t i la lo") auto
next
  case (Update i la lo)
  then show "wf t \<Longrightarrow> inside (region t) c \<Longrightarrow> ?thesis" using upd_inside [of t la lo i] by (cases "upd t i la lo") auto
next
  case (Remove i)
  then show "wf t \<Longrightarrow> ?thesis" using del_law [of t i] by (cases "del t i") auto
qed

lemma exec_all_inside: "wf t \<Longrightarrow> list_all (inside (region t)) cs \<Longrightarrow>
    wf (foldl exec t cs) \<and> region (foldl exec t cs) = region t \<and>
    pos (foldl exec t cs) = foldl (\<lambda>m c. abstract_command (region t) c m) (pos t) cs"
  by (induction cs arbitrary: t) (simp_all add: exec_inside)

end

text \<open>The index of the registry also says what happens at other positions.\<close>

locale spatial_index = mirrored_index +
  assumes ins_outside: "wf t \<Longrightarrow> \<not> in_region (region t) la lo \<Longrightarrow> ins t i la lo = (r, t') \<Longrightarrow>
      wf t' \<and> region t' = region t \<and> \<not> r \<and> pos t' = (pos t)(i := None)"
    and upd_outside: "wf t \<Longrightarrow> \<not> in_region (region t) la lo \<Longrightarrow> upd t i la lo = (r, t') \<Longrightarrow>
      wf t' \<and> region t' = region t \<and> \<not> r \<and> pos t' = (pos t)(i := None)"
begin

lemma ins_law: "wf t \<Longrightarrow> ins t i la lo = (r, t') \<Longrightarrow>
    wf t' \<and> region t' = region t \<and> (r \<longleftrightarrow> in_region (region t) la lo) \<and>
    pos t' = (pos t)(i := position_of (region t) la lo)"
  using ins_inside [of t la lo i r t'] ins_outside [of t la lo i r t'] position_of_None [of "region t" la lo] by metis

lemma upd_law: "wf t \<Longrightarrow> upd t i la lo = (r, t') \<Longrightarrow>
    wf t' \<and> region t' = region t \<and> (r \<longleftrightarrow> pos t i \<noteq> None \<and> in_region (region t) la lo) \<and>
    pos t' = (if pos t i = None then pos t else (pos t)(i := position_of (region t) la lo))"
  using upd_inside [of t la lo i r t'] upd_outside [of t la lo i r t']
  by (cases "in_region (region t) la lo") (auto simp: fun_eq_iff position_of_None [THEN iffD2])

lemma exec_law: "wf t \<Longrightarrow> wf (exec t c) \<and> region (exec t c) = region t \<and>
    pos (exec t c) = abstract_command (region t) c (pos t)"
proof (cases c)
  case (Insert i la lo)
  then show "wf t \<Longrightarrow> ?thesis" using ins_law [of t i la lo] by (cases "ins t i la lo") auto
next
  case (Update i la lo)
  then show "wf t \<Longrightarrow> ?thesis" using upd_law [of t i la lo] by (cases "upd t i la lo") auto
next
  case (Remove i)
  then show "wf t \<Longrightarrow> ?thesis" using del_law [of t i] by (cases "del t i") auto
qed

lemma exec_all: "wf t \<Longrightarrow> wf (foldl exec t cs) \<and> region (foldl exec t cs) = region t \<and>
    pos (foldl exec t cs) = foldl (\<lambda>m c. abstract_command (region t) c m) (pos t) cs"
  by (induction cs arbitrary: t) (simp_all add: exec_law)

lemma exec_region: "wf t \<Longrightarrow> pos t i = Some (a, x) \<longrightarrow> in_box (region t) a x \<Longrightarrow>
    pos (exec t c) i = Some (a, x) \<longrightarrow> in_box (region t) a x"
  using exec_law [of t c]
  by (cases c; cases "(region t, case c of Insert _ la _ \<Rightarrow> la | Update _ la _ \<Rightarrow> la | _ \<Rightarrow> NaN,
      case c of Insert _ _ lo \<Rightarrow> lo | Update _ _ lo \<Rightarrow> lo | _ \<Rightarrow> NaN)" rule: position_of.cases)
    (auto split: if_splits)

end

section \<open>The invariant of the index\<close>

definition mapped :: "(string, Point) jsmap \<Rightarrow> QuadTreeNode \<Rightarrow> bool" where
  "mapped D n = (\<forall>i q. jm_get D i = Some q \<longleftrightarrow> q \<in> set (pts n) \<and> p_id q = i)"

definition cached :: "leaves \<Rightarrow> QuadTreeNode \<Rightarrow> bool" where
  "cached L n = (\<forall>i. jm_get L i \<noteq> None \<longleftrightarrow> i \<in> set (ids n))"

definition qt_inv :: "QuadTree \<Rightarrow> bool" where
  "qt_inv t = (tree_ok (root t) (driverLeaves t) \<and> jm_ok (driverMap t) \<and> jm_ok (driverLeaves t) \<and>
     mapped (driverMap t) (root t) \<and> cached (driverLeaves t) (root t))"

definition qt_pos :: "QuadTree \<Rightarrow> string \<Rightarrow> (real \<times> real) option" where
  "qt_pos t i = map_option (\<lambda>p. (p_lat p, p_lng p)) (jm_get (driverMap t) i)"

definition qt_region :: "QuadTree \<Rightarrow> GeoBounds" where
  "qt_region t = node_bounds (root t)"

lemma qt_inv_new: "bounds_ok b \<Longrightarrow> qt_inv (qt_new b cap d)"
  by (simp add: qt_inv_def qt_new_def tree_ok_def mapped_def cached_def)

lemma mapped_mset: "mset (pts n') = mset (pts n) \<Longrightarrow> mapped D n' \<longleftrightarrow> mapped D n"
  by (auto simp: mapped_def dest: mset_eq_setD)

lemma not_in_ids: "p_id p \<notin> set (ids n) \<longleftrightarrow> (\<forall>q\<in>set (pts n). p_id q \<noteq> p_id p)"
  unfolding list.set_map image_iff by metis

lemma mapped_add:
  "mapped D n \<Longrightarrow> mset (pts n') = add_mset p (mset (pts n)) \<Longrightarrow> p_id p \<notin> set (ids n) \<Longrightarrow>
    mapped (jm_set D (p_id p) p) n'"
  using pts_add_set [of n' p n] unfolding mapped_def not_in_ids by auto

lemma mapped_del:
  "mapped D n \<Longrightarrow> mset (pts n) = add_mset p (mset (pts n')) \<Longrightarrow> distinct (ids n) \<Longrightarrow>
    mapped (jm_delete D (p_id p)) n'"
  using pts_add_set [of n p n'] distinct_ids_add [of n p n'] unfolding mapped_def not_in_ids by auto

lemma mapped_unknown: "mapped D n \<Longrightarrow> jm_get D i = None \<longleftrightarrow> i \<notin> set (ids n)"
  unfolding mapped_def list.set_map image_iff by (metis not_Some_eq)

lemma reorganised_cached:
  assumes "reorganised rt L rt' L'" and "cached L rt"
  shows "cached L' rt'"
  unfolding cached_def
proof
  fix i
  have s: "set (pts rt') = set (pts rt)" using assms(1) by (auto simp: reorganised_def dest: mset_eq_setD)
  show "jm_get L' i \<noteq> None \<longleftrightarrow> i \<in> set (ids rt')"
  proof (cases "i \<in> set (ids rt)")
    case True
    then obtain p where "p \<in> set (pts rt')" "p_id p = i" using s by auto
    then show ?thesis using assms(1) agree_leaf [of "[]" rt' L' p] by (auto simp: reorganised_def tree_ok_def)
  next
    case False
    then show ?thesis using assms s by (auto simp: reorganised_def cached_def)
  qed
qed

lemma remove_first_cases:
  obtains (none) "remove_first P xs = None" "\<forall>x\<in>set xs. \<not> P x"
  | (found) x ys where "remove_first P xs = Some ys" "P x" "mset xs = add_mset x (mset ys)"
proof (induction xs arbitrary: thesis)
  case (Cons a xs)
  show ?case
  proof (cases "P a")
    case True
    then show ?thesis using Cons(3) [of xs a] by simp
  next
    case False
    show ?thesis
      by (rule Cons.IH) (use False Cons(2,3) in auto)
  qed
qed simp

lemma agree_at: "node_at n \<pi> = Some m \<Longrightarrow> agree path n L \<Longrightarrow> agree (path @ \<pi>) m L"
proof (induction n \<pi> arbitrary: path rule: node_at.induct)
  case (3 b nw ne sw se q qs)
  then show ?case using agree_child [of "Divided b nw ne sw se"] by fastforce
qed auto

lemma node_at_distinct: "node_at n \<pi> = Some m \<Longrightarrow> distinct (ids n) \<Longrightarrow> distinct (ids m)"
proof (induction n \<pi> rule: node_at.induct)
  case (3 b nw ne sw se q qs)
  then show ?case using distinct_ids_child [of "Divided b nw ne sw se" q] by simp
qed auto

text \<open>The leaf of a known driver, and the driver's point in it.\<close>

lemma known_leaf:
  assumes inv: "qt_inv t" and i: "jm_get (driverLeaves t) i = Some leaf"
  obtains p b ps where "p \<in> set (pts (root t))" "p_id p = i" "jm_get (driverMap t) i = Some p"
    "node_at (root t) leaf = Some (Leaf b ps)" "p \<in> set ps"
proof -
  have "i \<in> set (ids (root t))" using inv i by (auto simp: qt_inv_def cached_def)
  then obtain p where p: "p \<in> set (pts (root t))" "p_id p = i" by auto
  then show thesis
    using agree_leaf [of "[]" "root t" "driverLeaves t" p] inv i that
    by (auto simp: qt_inv_def tree_ok_def mapped_def)
qed

lemma unknown_leaf:
  "qt_inv t \<Longrightarrow> jm_get (driverLeaves t) i = None \<longleftrightarrow> jm_get (driverMap t) i = None"
  unfolding qt_inv_def cached_def by (metis mapped_unknown)

section \<open>Removal\<close>

lemma qt_remove_law:
  assumes inv: "qt_inv t" and r: "qt_remove t i = (r, t')"
  shows "qt_inv t' \<and> qt_region t' = qt_region t \<and> (r \<longleftrightarrow> qt_pos t i \<noteq> None) \<and>
    qt_pos t' = (qt_pos t)(i := None)"
proof (cases "jm_get (driverLeaves t) i")
  case None
  then have "\<not> r" "t' = t" "qt_pos t i = None"
    using r unknown_leaf [OF inv, of i] by (simp_all add: qt_remove_def qt_pos_def)
  then show ?thesis using inv by auto
next
  case (Some leaf)
  from inv Some obtain p b ps where p: "p \<in> set (pts (root t))" "p_id p = i" "jm_get (driverMap t) i = Some p"
    and n: "node_at (root t) leaf = Some (Leaf b ps)" "p \<in> set ps"
    by (rule known_leaf)
  have ok: "node_ok (root t)" "distinct (ids (root t))" "agree [] (root t) (driverLeaves t)"
    "mapped (driverMap t) (root t)" "cached (driverLeaves t) (root t)" "jm_ok (driverMap t)" "jm_ok (driverLeaves t)"
    using inv by (simp_all add: qt_inv_def tree_ok_def)
  obtain ps' where ps': "remove_first (\<lambda>p. p_id p = i) ps = Some ps'" "mset ps = add_mset p (mset ps')"
  proof (cases rule: remove_first_cases [of "\<lambda>p. p_id p = i" ps])
    case none
    then show ?thesis using n(2) p(2) by auto
  next
    case (found x ys)
    then have "x \<in> set (pts (root t))"
      using node_at_pts [OF n(1)] by (metis in_multiset_in_set pts.simps(1) subsetD union_single_eq_member)
    then have "x = p" using found(2) p ok(4) unfolding mapped_def by (metis option.inject)
    then show ?thesis using that found by simp
  qed
  define rt1 where "rt1 = replace_at (root t) leaf (Leaf b ps')"
  define L1 where "L1 = jm_delete (driverLeaves t) i"
  obtain rt2 L2 where col: "(if leaf = [] then (rt1, L1) else tryCollapse (capacity t) rt1 (butlast leaf) L1) = (rt2, L2)"
    by fastforce
  have m: "mset (pts (root t)) = add_mset p (mset (pts rt1))"
    using replace_at_pts [OF n(1), of "Leaf b ps'"] ps'(2) by (simp add: rt1_def)
  have d1: "distinct (ids rt1)" "i \<notin> set (ids rt1)"
    using distinct_ids_add [OF m] ok(2) p(2) by simp_all
  have "node_ok (Leaf b ps)" using node_at_bounds_ok [OF n(1) ok(1)] .
  then have l: "node_ok (Leaf b ps')"
    using ps'(2) by (metis mset_eq_setD node_ok.simps(1) set_mset_add_mset_insert set_mset_mset insert_iff)
  have n1: "node_ok rt1" "node_bounds rt1 = node_bounds (root t)"
    using replace_at_ok [OF n(1) ok(1) l] by (simp_all add: rt1_def)
  have dl: "distinct (ids (Leaf b ps))" using node_at_distinct [OF n(1) ok(2)] .
  have "i \<notin> set (ids (Leaf b ps'))"
    using distinct_ids_add [of "Leaf b ps" p "Leaf b ps'"] dl ps'(2) p(2) by simp
  moreover have "agree leaf (Leaf b ps) (driverLeaves t)" using agree_at [OF n(1) ok(3)] by simp
  ultimately have "agree leaf (Leaf b ps') L1"
    using ps'(2) mset_eq_setD [of ps "p # ps'"] by (auto simp: L1_def)
  moreover have "jm_get L1 (p_id q) = jm_get (driverLeaves t) (p_id q)" if "p_id q \<notin> set (ids (Leaf b ps))" for q
  proof -
    have "p_id q \<noteq> i" using that n(2) p(2) by (metis imageI list.set_map pts.simps(1))
    then show ?thesis by (simp add: L1_def)
  qed
  ultimately have "agree [] rt1 L1"
    unfolding rt1_def by (intro replace_at_agree [OF n(1) ok(3,2)]) simp_all
  with n1 d1 have tree: "tree_ok rt1 L1" by (simp add: tree_ok_def)
  have r2: "reorganised rt1 L1 rt2 L2"
    using col tryCollapse_reorganised [OF tree] reorganised_refl [OF tree] by (auto split: if_splits)
  have s: "set (ids (root t)) = insert i (set (ids rt1))" using pts_add_set [OF m] p(2) by simp
  have "cached L1 rt1"
    unfolding cached_def
  proof
    fix j
    have "jm_get (driverLeaves t) j \<noteq> None \<longleftrightarrow> j \<in> insert i (set (ids rt1))"
      using ok(5) unfolding cached_def s by blast
    moreover have "jm_get L1 j = (if j = i then None else jm_get (driverLeaves t) j)"
      by (simp add: L1_def)
    ultimately show "jm_get L1 j \<noteq> None \<longleftrightarrow> j \<in> set (ids rt1)"
      using d1(2) unfolding insert_iff by presburger
  qed
  then have c2: "cached L2 rt2" using reorganised_cached [OF r2] by simp
  have "mapped (jm_delete (driverMap t) i) rt1" using mapped_del [OF ok(4) m ok(2)] p(2) by simp
  then have "mapped (jm_delete (driverMap t) i) rt2" using r2 mapped_mset [of rt2 rt1] by (simp add: reorganised_def)
  moreover have "qt_remove t i = (True, t\<lparr>root := rt2, driverMap := jm_delete (driverMap t) i, driverLeaves := L2\<rparr>)"
    unfolding qt_remove_def Some option.case n(1) QuadTreeNode.case ps'(1) Let_def
      rt1_def [symmetric] L1_def [symmetric] col prod.case ..
  then have "r" "t' = t\<lparr>root := rt2, driverMap := jm_delete (driverMap t) i, driverLeaves := L2\<rparr>"
    using r by simp_all
  ultimately show ?thesis
    using r2 c2 n1 ok(6,7) p(3) jm_ok_delete [of "driverLeaves t" i, folded L1_def]
    by (simp add: qt_inv_def reorganised_def qt_region_def qt_pos_def fun_eq_iff)
qed

section \<open>Insertion\<close>

text \<open>A driver that is not in the index.\<close>

lemma insert_new:
  assumes inv: "qt_inv t" and new: "jm_get (driverMap t) i = None" and p: "p_id p = i"
    and ins: "insertNode (capacity t) (maxDepth t) [] (root t) p (driverLeaves t) = (rt, r, L)"
  shows "if in_box (qt_region t) (p_lat p) (p_lng p)
    then \<exists>leaf. r = Some leaf \<and> node_bounds rt = node_bounds (root t) \<and>
      qt_inv (t\<lparr>root := rt, driverMap := jm_set (driverMap t) i p, driverLeaves := jm_set L i leaf\<rparr>)
    else r = None \<and> rt = root t \<and> L = driverLeaves t"
proof (cases "in_box (qt_region t) (p_lat p) (p_lng p)")
  case False
  then show ?thesis
    using ins by (subst (asm) insertNode_eq) (simp add: qt_region_def)
next
  case True
  have ok: "tree_ok (root t) (driverLeaves t)" "jm_ok (driverMap t)" "jm_ok (driverLeaves t)"
    "mapped (driverMap t) (root t)" "cached (driverLeaves t) (root t)"
    using inv by (simp_all add: qt_inv_def)
  have nid: "p_id p \<notin> set (ids (root t))" using mapped_unknown [OF ok(4)] new p by simp
  have "inserts [] (root t) p (driverLeaves t) (rt, r, L)"
    using insertNode_inserts [of "root t" p "[]" "driverLeaves t" "capacity t" "maxDepth t"]
      True nid ok(1) ins by (simp add: tree_ok_def qt_region_def)
  then obtain leaf where I: "node_ok rt" "node_bounds rt = node_bounds (root t)"
      "mset (pts rt) = add_mset p (mset (pts (root t)))"
      "\<And>j. j \<notin> set (ids (root t)) \<Longrightarrow> jm_get L j = jm_get (driverLeaves t) j" "jm_ok L"
      "r = Some leaf" "agree [] rt (jm_set L i leaf)"
    using ok p by (auto simp: inserts_def tree_ok_def)
  have tree: "tree_ok rt (jm_set L i leaf)"
    using I distinct_ids_add [OF I(3)] nid ok(1) by (simp add: tree_ok_def)
  have "cached (jm_set L i leaf) rt"
    unfolding cached_def
  proof
    fix j
    show "jm_get (jm_set L i leaf) j \<noteq> None \<longleftrightarrow> j \<in> set (ids rt)"
    proof (cases "j \<in> set (ids rt)")
      case True
      then obtain q where "q \<in> set (pts rt)" "p_id q = j" by auto
      with True agree_leaf [OF I(7)] show ?thesis by fastforce
    next
      case False
      then have "j \<noteq> i" "j \<notin> set (ids (root t))" using pts_add_set [OF I(3)] p by auto
      with False I(4) ok(5) show ?thesis by (simp add: cached_def)
    qed
  qed
  moreover have "mapped (jm_set (driverMap t) i p) rt" using mapped_add [OF ok(4) I(3) nid] p by simp
  ultimately show ?thesis using True I tree ok by (simp add: qt_inv_def)
qed

lemma qt_insert_law:
  assumes inv: "qt_inv t" and r: "qt_insert t i la lo = (r, t')"
  shows "qt_inv t' \<and> qt_region t' = qt_region t \<and> (r \<longleftrightarrow> in_region (qt_region t) la lo) \<and>
    qt_pos t' = (qt_pos t)(i := position_of (qt_region t) la lo)"
proof -
  define t1 where "t1 = (if jm_has (driverMap t) i then snd (qt_remove t i) else t)"
  have t1: "qt_inv t1" "qt_region t1 = qt_region t" "qt_pos t1 = (qt_pos t)(i := None)"
    using inv qt_remove_law [OF inv, of i "fst (qt_remove t i)" "snd (qt_remove t i)"]
    by (auto simp: t1_def jm_has_def qt_pos_def)
  have new: "jm_get (driverMap t1) i = None"
    using fun_cong [OF t1(3), of i] by (simp add: qt_pos_def)
  show ?thesis
  proof (cases "(qt_region t, la, lo)" rule: position_of.cases)
    case (1 b a x)
    let ?p = "\<lparr>p_id = i, p_lat = a, p_lng = x\<rparr>"
    obtain rt q L where ins: "insertNode (capacity t1) (maxDepth t1) [] (root t1) ?p (driverLeaves t1) = (rt, q, L)"
      by (cases "insertNode (capacity t1) (maxDepth t1) [] (root t1) ?p (driverLeaves t1)")
    have res: "(r, t') = (case q of
        Some leaf \<Rightarrow> (True, t1\<lparr>root := rt, driverMap := jm_set (driverMap t1) i ?p, driverLeaves := jm_set L i leaf\<rparr>)
      | None \<Rightarrow> (False, t1\<lparr>root := rt, driverLeaves := L\<rparr>))"
      using r 1 ins by (simp add: qt_insert_def t1_def [symmetric] Let_def)
    have N: "if in_box (qt_region t) a x
        then \<exists>leaf. q = Some leaf \<and> node_bounds rt = node_bounds (root t1) \<and>
          qt_inv (t1\<lparr>root := rt, driverMap := jm_set (driverMap t1) i ?p, driverLeaves := jm_set L i leaf\<rparr>)
        else q = None \<and> rt = root t1 \<and> L = driverLeaves t1"
      using insert_new [OF t1(1) new _ ins] t1(2) by simp
    show ?thesis
    proof (cases "in_box (qt_region t) a x")
      case True
      with N res 1 t1(2) fun_cong [OF t1(3)] show ?thesis
        by (auto simp: qt_region_def qt_pos_def fun_eq_iff)
    next
      case False
      with N res 1 t1 show ?thesis by (auto simp: qt_region_def)
    qed
  qed (use r t1 in \<open>auto simp: qt_insert_def t1_def [symmetric] Let_def split: jsnum.splits\<close>)
qed

section \<open>Update\<close>

lemma move_other: "i \<notin> set (map p_id ps) \<Longrightarrow> map (move_point i a x) ps = ps"
  by (induction ps) (auto simp: move_point_def)

lemma move_one:
  "distinct (map p_id ps) \<Longrightarrow> p \<in> set ps \<Longrightarrow> p_id p = i \<Longrightarrow>
    \<exists>R. mset ps = add_mset p R \<and> mset (map (move_point i a x) ps) = add_mset (p\<lparr>p_lat := a, p_lng := x\<rparr>) R"
proof (induction ps)
  case (Cons y ps)
  show ?case
  proof (cases "y = p")
    case True
    with Cons.prems have "i \<notin> set (map p_id ps)" by auto
    then have "map (move_point i a x) ps = ps" by (rule move_other)
    moreover have "move_point i a x p = p\<lparr>p_lat := a, p_lng := x\<rparr>"
      using Cons.prems(3) by (simp add: move_point_def)
    ultimately have "mset (map (move_point i a x) (y # ps)) = add_mset (p\<lparr>p_lat := a, p_lng := x\<rparr>) (mset ps)"
      using True by (simp del: mset_map)
    with True show ?thesis by (intro exI [of _ "mset ps"]) (simp del: mset_map list.map)
  next
    case False
    with Cons.prems have "p \<in> set ps" "p_id y \<noteq> i" by auto
    with Cons show ?thesis by (auto simp: move_point_def)
  qed
qed simp

lemma move_ids [simp]: "map p_id (map (move_point i a x) ps) = map p_id ps"
  by (induction ps) (auto simp: move_point_def)

lemma fast_path:
  assumes inv: "qt_inv t" and p: "jm_get (driverMap t) i = Some p" and l: "jm_get (driverLeaves t) i = Some leaf"
    and n: "node_at (root t) leaf = Some (Leaf b ps)" and box: "in_box b a x"
  shows "qt_inv (t\<lparr>root := replace_at (root t) leaf (Leaf b (map (move_point i a x) ps)),
      driverMap := jm_set (driverMap t) i (p\<lparr>p_lat := a, p_lng := x\<rparr>)\<rparr>) \<and>
    node_bounds (replace_at (root t) leaf (Leaf b (map (move_point i a x) ps))) = node_bounds (root t) \<and>
    in_box (node_bounds (root t)) a x"
proof -
  let ?p = "p\<lparr>p_lat := a, p_lng := x\<rparr>"
  let ?m = "Leaf b (map (move_point i a x) ps)"
  have ok: "node_ok (root t)" "distinct (ids (root t))" "agree [] (root t) (driverLeaves t)"
    "mapped (driverMap t) (root t)" "cached (driverLeaves t) (root t)" "jm_ok (driverMap t)" "jm_ok (driverLeaves t)"
    using inv by (simp_all add: qt_inv_def tree_ok_def)
  have pid: "p_id p = i" using ok(4) p by (auto simp: mapped_def)
  have pin: "p \<in> set ps" using known_leaf [OF inv l] p n by auto
  have leafok: "node_ok (Leaf b ps)" using node_at_bounds_ok [OF n ok(1)] .
  then have m: "node_ok ?m" using box by (auto simp: move_point_def)
  obtain R where R: "mset ps = add_mset p R" "mset (map (move_point i a x) ps) = add_mset ?p R"
    using move_one [of ps p i a x] node_at_distinct [OF n ok(2)] pin pid by auto
  let ?rt = "replace_at (root t) leaf ?m"
  have rt: "node_ok ?rt" "node_bounds ?rt = node_bounds (root t)"
    using replace_at_ok [OF n ok(1) m] by simp_all
  have eq: "mset (pts ?rt) + mset ps = mset (pts (root t)) + mset (map (move_point i a x) ps)"
    using replace_at_pts [OF n, of ?m] by simp
  have "p \<in># mset (pts (root t))" using node_at_pts [OF n] pin by auto
  then obtain S where S: "mset (pts (root t)) = add_mset p S" by (metis mset_add)
  have "mset (pts ?rt) + add_mset p R = add_mset ?p S + add_mset p R"
    using eq unfolding R S by simp
  then have S': "mset (pts ?rt) = add_mset ?p S" by (rule add_right_imp_eq)
  have ids: "mset (ids ?rt) = mset (ids (root t))"
    using S S' by (simp add: pid)
  have d: "distinct (ids ?rt)" "set (ids ?rt) = set (ids (root t))"
    using ids ok(2) mset_eq_imp_distinct_iff mset_eq_setD by blast+
  have "agree leaf (Leaf b ps) (driverLeaves t)" using agree_at [OF n ok(3)] by simp
  then have "agree leaf ?m (driverLeaves t)" by (auto simp: move_point_def)
  then have ag: "agree [] ?rt (driverLeaves t)" using replace_at_agree [OF n ok(3,2), of ?m "driverLeaves t"] by simp
  have "\<forall>q\<in>#S. p_id q \<noteq> i"
  proof -
    obtain xs where xs: "mset xs = S" using ex_mset by blast
    then have "mset (ids (root t)) = mset (map p_id (p # xs))" using S by simp
    then have "distinct (map p_id (p # xs))" using ok(2) mset_eq_imp_distinct_iff by blast
    then have "\<forall>q\<in>set xs. p_id q \<noteq> p_id p" by (simp add: image_iff) metis
    then show ?thesis using pid xs by auto
  qed
  moreover have "set (pts ?rt) = insert ?p (set_mset S)" "set (pts (root t)) = insert p (set_mset S)"
    using S S' by (metis set_mset_add_mset_insert set_mset_mset)+
  ultimately have "mapped (jm_set (driverMap t) i ?p) ?rt"
    using ok(4) pid unfolding mapped_def by auto
  moreover have "in_box (node_bounds (root t)) a x"
  proof -
    have "?p \<in> set (pts ?rt)" using S' by (metis set_mset_mset union_single_eq_member)
    with node_ok_in_box [OF rt(1)] rt(2) show ?thesis by fastforce
  qed
  ultimately show ?thesis
    using rt d ag ok by (simp add: qt_inv_def tree_ok_def cached_def)
qed

lemma qt_update_law:
  assumes inv: "qt_inv t" and r: "qt_update t i la lo = (r, t')"
  shows "qt_inv t' \<and> qt_region t' = qt_region t \<and>
    (r \<longleftrightarrow> qt_pos t i \<noteq> None \<and> in_region (qt_region t) la lo) \<and>
    qt_pos t' = (if qt_pos t i = None then qt_pos t else (qt_pos t)(i := position_of (qt_region t) la lo))"
proof (cases "jm_get (driverLeaves t) i")
  case None
  then have "jm_get (driverMap t) i = None" using unknown_leaf [OF inv] by blast
  with r inv show ?thesis by (auto simp: qt_update_def qt_pos_def)
next
  case (Some leaf)
  from inv Some obtain p b ps where p: "jm_get (driverMap t) i = Some p"
    and n: "node_at (root t) leaf = Some (Leaf b ps)"
    by (rule known_leaf)
  have known: "qt_pos t i \<noteq> None" using p by (simp add: qt_pos_def)
  obtain q t1 where rm: "qt_remove t i = (q, t1)" by (cases "qt_remove t i")
  note R = qt_remove_law [OF inv rm]
  have slow: ?thesis if "qt_insert t1 i la lo = (r, t')"
    using qt_insert_law [OF _ that] R known by auto
  show ?thesis
  proof (cases "\<exists>a x. la = Fin a \<and> lo = Fin x \<and> in_box b a x")
    case False
    then have "qt_insert t1 i la lo = (r, t')"
      using r Some p n rm by (auto simp: qt_update_def split: jsnum.splits)
    then show ?thesis by (rule slow)
  next
    case True
    then obtain a x where ax: "la = Fin a" "lo = Fin x" "in_box b a x" by blast
    let ?rt = "replace_at (root t) leaf (Leaf b (map (move_point i a x) ps))"
    have res: "r" "t' = t\<lparr>root := ?rt, driverMap := jm_set (driverMap t) i (p\<lparr>p_lat := a, p_lng := x\<rparr>)\<rparr>"
      using r Some p n ax by (simp_all add: qt_update_def)
    have F: "qt_inv t'" "node_bounds ?rt = node_bounds (root t)" "in_box (node_bounds (root t)) a x"
      using fast_path [OF inv p Some n ax(3)] res(2) by simp_all
    show ?thesis
      using F res ax known by (auto simp: qt_region_def qt_pos_def fun_eq_iff)
  qed
qed

text \<open>The quadtree implements the interface.\<close>

interpretation qt: spatial_index qt_insert qt_update qt_remove qt_pos qt_region qt_inv
proof
  fix t t' i la lo r
  assume inv: "qt_inv t"
  have absent: "(qt_pos t)(i := None) = qt_pos t" if "qt_pos t i = None" using that by (simp add: fun_eq_iff)
  show "qt_remove t i = (r, t') \<Longrightarrow>
      qt_inv t' \<and> qt_region t' = qt_region t \<and> (r \<longleftrightarrow> qt_pos t i \<noteq> None) \<and> qt_pos t' = (qt_pos t)(i := None)"
    using qt_remove_law [OF inv] by blast
  show "qt_insert t i la lo = (r, t') \<Longrightarrow> in_region (qt_region t) la lo \<Longrightarrow>
      qt_inv t' \<and> qt_region t' = qt_region t \<and> r \<and> qt_pos t' = (qt_pos t)(i := position_of (qt_region t) la lo)"
    "qt_insert t i la lo = (r, t') \<Longrightarrow> \<not> in_region (qt_region t) la lo \<Longrightarrow>
      qt_inv t' \<and> qt_region t' = qt_region t \<and> \<not> r \<and> qt_pos t' = (qt_pos t)(i := None)"
    using qt_insert_law [OF inv] position_of_None [of "qt_region t" la lo] by metis+
  show "qt_update t i la lo = (r, t') \<Longrightarrow> in_region (qt_region t) la lo \<Longrightarrow>
      qt_inv t' \<and> qt_region t' = qt_region t \<and> (r \<longleftrightarrow> qt_pos t i \<noteq> None) \<and>
      qt_pos t' = (if qt_pos t i = None then qt_pos t else (qt_pos t)(i := position_of (qt_region t) la lo))"
    "qt_update t i la lo = (r, t') \<Longrightarrow> \<not> in_region (qt_region t) la lo \<Longrightarrow>
      qt_inv t' \<and> qt_region t' = qt_region t \<and> \<not> r \<and> qt_pos t' = (qt_pos t)(i := None)"
    using qt_update_law [OF inv] absent position_of_None [of "qt_region t" la lo] by metis+
qed

end
