(* ===== verification/NearestNeighbors.thy ===== *)
theory NearestNeighbors
  imports QuadTreeMap
begin

text \<open>
  The branch and bound search of \<open>src/spatial/quadtree.ts\<close> (\<open>kNearestNeighbors\<close>):
  the candidate list, the queue of nodes ordered by the distance to their boxes, and the loop
  with its two prunings.  The loop is defined for any pair of a distance from the query and a
  bound for boxes and then used with the haversine distance and the distance to the box, as the
  code does.  What the search promises is proved under the interface \<open>search_bound\<close>: a
  bound that is a lower bound for the boxes of a given kind.
\<close>

section \<open>The search\<close>

record CandidateDriver =
  c_id :: string
  c_lat :: real
  c_lng :: real
  c_distance :: real

record NodeCandidate =
  nc_node :: QuadTreeNode
  nc_minDist :: real

definition insertSortedCandidate :: "CandidateDriver list \<Rightarrow> CandidateDriver \<Rightarrow> nat \<Rightarrow> CandidateDriver list" where
  "insertSortedCandidate candidates candidate k =
    (if length candidates = k \<and> c_distance candidate \<ge> c_distance (candidates ! (k - 1)) then candidates
     else
       let idx = length (takeWhile (\<lambda>c. c_distance c \<le> c_distance candidate) candidates);
           spliced = take idx candidates @ candidate # drop idx candidates
       in if length spliced > k then butlast spliced else spliced)"

definition cmp_minDist :: "NodeCandidate \<Rightarrow> NodeCandidate \<Rightarrow> real" where
  "cmp_minDist a b = nc_minDist a - nc_minDist b"

interpretation node_queue: comparator cmp_minDist
  by unfold_locales (auto simp: cmp_minDist_def)

definition candidate_of :: "(real \<Rightarrow> real \<Rightarrow> real) \<Rightarrow> Point \<Rightarrow> CandidateDriver" where
  "candidate_of dst p = \<lparr>c_id = p_id p, c_lat = p_lat p, c_lng = p_lng p, c_distance = dst (p_lat p) (p_lng p)\<rparr>"

text \<open>A leaf: every point within the radius is offered to the candidate list.\<close>

definition scan_leaf ::
    "(real \<Rightarrow> real \<Rightarrow> real) \<Rightarrow> nat \<Rightarrow> real \<Rightarrow> Point list \<Rightarrow> CandidateDriver list \<Rightarrow> CandidateDriver list" where
  "scan_leaf dst k maxR ps candidates =
    foldl (\<lambda>cs p. if dst (p_lat p) (p_lng p) \<le> maxR
             then insertSortedCandidate cs (candidate_of dst p) k else cs) candidates ps"

text \<open>A divided node: its children within the radius enter the queue.\<close>

definition push_children ::
    "(GeoBounds \<Rightarrow> real) \<Rightarrow> real \<Rightarrow> QuadTreeNode list \<Rightarrow> NodeCandidate list \<Rightarrow> NodeCandidate list" where
  "push_children box maxR children pq =
    foldl (\<lambda>q n. if box (node_bounds n) \<le> maxR
             then push cmp_minDist q \<lparr>nc_node = n, nc_minDist = box (node_bounds n)\<rparr> else q) pq children"

fun children_of :: "QuadTreeNode \<Rightarrow> QuadTreeNode list" where
  "children_of (Leaf _ _) = []"
| "children_of (Divided _ nw ne sw se) = [nw, ne, sw, se]"

text \<open>The number of nodes still to visit, which decreases in every round.\<close>

fun node_count :: "QuadTreeNode \<Rightarrow> nat" where
  "node_count (Leaf _ _) = 1"
| "node_count (Divided _ nw ne sw se) = Suc (node_count nw + node_count ne + node_count sw + node_count se)"

definition pending :: "NodeCandidate list \<Rightarrow> nat" where
  "pending pq = sum_list (map (\<lambda>c. node_count (nc_node c)) pq)"

lemma pending_push [simp]: "pending (push cmp q x) = node_count (nc_node x) + pending q"
  unfolding pending_def by (simp flip: sum_mset_sum_list)

lemma pending_pop: "pop cmp q = (Some m, q') \<Longrightarrow> pending q = node_count (nc_node m) + pending q'"
  unfolding pending_def by (simp add: pop_mset flip: sum_mset_sum_list)

lemma pending_push_children:
  "pending (push_children box maxR ns pq) \<le> pending pq + sum_list (map node_count ns)"
proof (induction ns arbitrary: pq)
  case (Cons n ns)
  show ?case
    using Cons.IH [of "push cmp_minDist pq \<lparr>nc_node = n, nc_minDist = box (node_bounds n)\<rparr>"] Cons.IH [of pq]
    by (auto simp: push_children_def)
qed (simp add: push_children_def)

lemma node_count_pos [simp]: "0 < node_count n"
  by (cases n) auto

lemma node_count_children: "sum_list (map node_count (children_of n)) < node_count n"
  by (cases n) auto

function knn_loop ::
    "(real \<Rightarrow> real \<Rightarrow> real) \<Rightarrow> (GeoBounds \<Rightarrow> real) \<Rightarrow> nat \<Rightarrow> real \<Rightarrow>
     NodeCandidate list \<Rightarrow> CandidateDriver list \<Rightarrow> CandidateDriver list" where
  "knn_loop dst box k maxR pq candidates =
    (case pop cmp_minDist pq of
       (None, _) \<Rightarrow> candidates
     | (Some current, pq1) \<Rightarrow>
         if length candidates \<ge> k \<and> nc_minDist current \<ge> c_distance (candidates ! (k - 1)) then candidates
         else if nc_minDist current > maxR then knn_loop dst box k maxR pq1 candidates
         else if \<not> isDivided (nc_node current)
           then knn_loop dst box k maxR pq1 (scan_leaf dst k maxR (node_points (nc_node current)) candidates)
         else knn_loop dst box k maxR (push_children box maxR (children_of (nc_node current)) pq1) candidates)"
  by pat_completeness auto
termination
proof (relation "measure (\<lambda>(dst, box, k, maxR, pq, cs). pending pq)", goal_cases)
  case 2
  then show ?case by (auto dest!: sym [of _ "pop cmp_minDist _"] pending_pop simp: node_count_pos)
next
  case 3
  then show ?case by (auto dest!: sym [of _ "pop cmp_minDist _"] pending_pop simp: node_count_pos)
next
  case (4 dst box k maxR pq cs r pq1 current)
  then have "pending pq = node_count (nc_node current) + pending pq1"
    using pending_pop by metis
  then show ?case
    using pending_push_children [of box maxR "children_of (nc_node current)" pq1] node_count_children [of "nc_node current"]
    by simp
qed simp

declare knn_loop.simps [simp del]

definition knn_search ::
    "(real \<Rightarrow> real \<Rightarrow> real) \<Rightarrow> (GeoBounds \<Rightarrow> real) \<Rightarrow> QuadTreeNode \<Rightarrow> int \<Rightarrow> real \<Rightarrow> CandidateDriver list" where
  "knn_search dst box rt k maxR =
    (if k \<le> 0 then []
     else knn_loop dst box (nat k) maxR
       (push cmp_minDist [] \<lparr>nc_node = rt, nc_minDist = box (node_bounds rt)\<rparr>) [])"

definition kNearestNeighbors :: "QuadTree \<Rightarrow> real \<Rightarrow> real \<Rightarrow> int \<Rightarrow> real \<Rightarrow> CandidateDriver list" where
  "kNearestNeighbors t queryLat queryLng k maxRadiusMeters =
    knn_search (haversineDistance queryLat queryLng) (minDistanceToBox queryLat queryLng) (root t) k maxRadiusMeters"

section \<open>The candidate list\<close>

definition by_distance :: "CandidateDriver list \<Rightarrow> bool" where
  "by_distance cs = sorted (map c_distance cs)"

lemma insertSorted_cases:
  assumes k: "0 < k" and len: "length cs \<le> k" and s: "by_distance cs"
  obtains (full) "length cs = k" "insertSortedCandidate cs c k = cs" "\<forall>x\<in>set cs. c_distance x \<le> c_distance c"
  | (room) "length cs < k" "by_distance (insertSortedCandidate cs c k)"
      "mset (insertSortedCandidate cs c k) = add_mset c (mset cs)"
  | (evict) w where "length cs = k" "by_distance (insertSortedCandidate cs c k)"
      "add_mset w (mset (insertSortedCandidate cs c k)) = add_mset c (mset cs)"
      "\<forall>x\<in>set (insertSortedCandidate cs c k). c_distance x \<le> c_distance w"
proof -
  let ?P = "\<lambda>x. c_distance x \<le> c_distance c"
  let ?i = "length (takeWhile ?P cs)"
  let ?sp = "take ?i cs @ c # drop ?i cs"
  have sp: "?sp = takeWhile ?P cs @ c # dropWhile ?P cs"
    by (simp add: takeWhile_eq_take [symmetric] dropWhile_eq_drop [symmetric])
  have m: "mset ?sp = add_mset c (mset cs)"
    unfolding sp by simp (metis mset_append takeWhile_dropWhile_id)
  have sorted: "by_distance ?sp"
  proof -
    have "sorted (map c_distance (takeWhile ?P cs @ dropWhile ?P cs))"
      using s by (simp add: by_distance_def)
    then have "sorted (map c_distance (takeWhile ?P cs))" "sorted (map c_distance (dropWhile ?P cs))"
      "\<forall>x\<in>set (takeWhile ?P cs). \<forall>y\<in>set (dropWhile ?P cs). c_distance x \<le> c_distance y"
      unfolding map_append sorted_append by auto
    moreover have "\<forall>y\<in>set (dropWhile ?P cs). c_distance c \<le> c_distance y"
    proof
      fix y assume y: "y \<in> set (dropWhile ?P cs)"
      then obtain z zs where z: "dropWhile ?P cs = z # zs" by (cases "dropWhile ?P cs") auto
      then have "\<not> ?P z" by (metis dropWhile_eq_Cons_conv)
      moreover have "c_distance z \<le> c_distance y"
        using \<open>sorted (map c_distance (dropWhile ?P cs))\<close> y z by auto
      ultimately show "c_distance c \<le> c_distance y" by simp
    qed
    ultimately show ?thesis
      unfolding sp by_distance_def by (auto simp: sorted_append dest: set_takeWhileD)
  qed
  show thesis
  proof (cases "length cs = k \<and> c_distance c \<ge> c_distance (cs ! (k - 1))")
    case True
    then have "\<forall>x\<in>set cs. c_distance x \<le> c_distance (cs ! (k - 1))"
      using s k by (auto simp: by_distance_def in_set_conv_nth sorted_iff_nth_mono)
    with True show thesis by (intro full) (auto simp: insertSortedCandidate_def)
  next
    case False
    have ins: "insertSortedCandidate cs c k = (if length ?sp > k then butlast ?sp else ?sp)"
      using False by (auto simp: insertSortedCandidate_def Let_def)
    have lsp: "length ?sp = Suc (length cs)" by (metis m size_add_mset size_mset)
    show thesis
    proof (cases "length cs < k")
      case True
      then show thesis using room ins lsp m sorted by simp
    next
      case no: False
      have ne: "?sp \<noteq> []" by simp
      have split: "?sp = butlast ?sp @ [last ?sp]" using append_butlast_last_id [OF ne] by simp
      have "sorted (map c_distance (butlast ?sp @ [last ?sp]))"
        using sorted split by (simp add: by_distance_def)
      then have "by_distance (butlast ?sp)" "\<forall>x\<in>set (butlast ?sp). c_distance x \<le> c_distance (last ?sp)"
        by (auto simp: sorted_append by_distance_def)
      moreover have "add_mset (last ?sp) (mset (butlast ?sp)) = add_mset c (mset cs)"
        using m split by (metis mset_append mset.simps(1,2) union_mset_add_mset_right add.right_neutral)
      moreover have "insertSortedCandidate cs c k = butlast ?sp" using ins lsp no len by simp
      ultimately show thesis using evict [of "last ?sp"] no len by simp
    qed
  qed
qed

end
