(* ===== verification/NearestCorrect.thy ===== *)
theory NearestCorrect
  imports NearestNeighbors
begin

text \<open>
  What the nearest neighbour search returns.  Whatever the boxes: candidates that are indexed,
  within the radius, at most \<open>k\<close>, ordered by their distance.  For a driver whose
  enclosing boxes have a sound bound: it is never missed in favour of a farther one.  And where
  all boxes are sound: exactly the \<open>k\<close> smallest distances of a scan of all drivers.
\<close>

section \<open>Sound boxes\<close>

text \<open>A point reached from the node through boxes of the given kind only.\<close>

fun enclosed :: "(GeoBounds \<Rightarrow> bool) \<Rightarrow> Point \<Rightarrow> QuadTreeNode \<Rightarrow> bool" where
  "enclosed ok p (Leaf b ps) = (ok b \<and> p \<in> set ps)"
| "enclosed ok p (Divided b nw ne sw se) =
    (ok b \<and> (enclosed ok p nw \<or> enclosed ok p ne \<or> enclosed ok p sw \<or> enclosed ok p se))"

fun all_boxes :: "(GeoBounds \<Rightarrow> bool) \<Rightarrow> QuadTreeNode \<Rightarrow> bool" where
  "all_boxes ok (Leaf b ps) = ok b"
| "all_boxes ok (Divided b nw ne sw se) =
    (ok b \<and> all_boxes ok nw \<and> all_boxes ok ne \<and> all_boxes ok sw \<and> all_boxes ok se)"

lemma enclosed_all: "all_boxes ok n \<Longrightarrow> p \<in> set (pts n) \<Longrightarrow> enclosed ok p n"
  by (induction n) auto

lemma enclosed_pts: "enclosed ok p n \<Longrightarrow> ok (node_bounds n) \<and> p \<in> set (pts n)"
  by (induction n) auto

lemma enclosed_child: "enclosed ok p n \<Longrightarrow> isDivided n \<Longrightarrow> \<exists>c\<in>set (children_of n). enclosed ok p c"
  by (cases n) auto

lemma node_ok_children: "node_ok n \<Longrightarrow> c \<in> set (children_of n) \<Longrightarrow> node_ok c"
  by (cases n) auto

lemma pts_children: "isDivided n \<Longrightarrow> mset (pts n) = sum_list (map (\<lambda>c. mset (pts c)) (children_of n))"
  by (cases n) auto

section \<open>The candidate list under a scan\<close>

text \<open>A point is handled when it is a candidate, or the list is full of candidates as close.\<close>

definition handled :: "(real \<Rightarrow> real \<Rightarrow> real) \<Rightarrow> nat \<Rightarrow> Point \<Rightarrow> CandidateDriver list \<Rightarrow> bool" where
  "handled dst k p cs =
    (candidate_of dst p \<in> set cs \<or>
     (length cs = k \<and> (\<forall>c\<in>set cs. c_distance c \<le> dst (p_lat p) (p_lng p))))"

definition cands_ok :: "nat \<Rightarrow> CandidateDriver list \<Rightarrow> bool" where
  "cands_ok k cs = (by_distance cs \<and> length cs \<le> k)"

lemma insertSorted_ok:
  assumes "0 < k" and "cands_ok k cs"
  shows "cands_ok k (insertSortedCandidate cs c k) \<and> mset (insertSortedCandidate cs c k) \<subseteq># add_mset c (mset cs)"
proof -
  have cs: "length cs \<le> k" "by_distance cs" using assms(2) by (simp_all add: cands_ok_def)
  show ?thesis
  proof (cases rule: insertSorted_cases [OF assms(1) cs, of c, case_names full room evict])
    case full
    with cs show ?thesis by (simp add: cands_ok_def)
  next
    case room
    then have "length (insertSortedCandidate cs c k) = Suc (length cs)" by (metis size_add_mset size_mset)
    with room show ?thesis by (simp add: cands_ok_def)
  next
    case (evict w)
    then have "length (insertSortedCandidate cs c k) = length cs"
      by (metis nat.inject size_add_mset size_mset)
    moreover have "mset (insertSortedCandidate cs c k) \<subseteq># add_mset c (mset cs)"
      unfolding evict(3) [symmetric] by simp
    ultimately show ?thesis using evict cs by (simp add: cands_ok_def)
  qed
qed

lemma insertSorted_handled:
  assumes k: "0 < k" and cs: "cands_ok k cs"
  shows "handled dst k p (insertSortedCandidate cs (candidate_of dst p) k)"
    and "handled dst k q cs \<Longrightarrow> handled dst k q (insertSortedCandidate cs c k)"
proof -
  have d: "c_distance (candidate_of dst p) = dst (p_lat p) (p_lng p)" for p by (simp add: candidate_of_def)
  have cs': "length cs \<le> k" "by_distance cs" using cs by (simp_all add: cands_ok_def)
  show "handled dst k p (insertSortedCandidate cs (candidate_of dst p) k)"
  proof (cases rule: insertSorted_cases [OF k cs', of "candidate_of dst p", case_names full room evict])
    case full
    then show ?thesis by (simp add: handled_def d)
  next
    case room
    then show ?thesis unfolding handled_def by (metis set_mset_mset union_single_eq_member)
  next
    case (evict w)
    then have "length (insertSortedCandidate cs (candidate_of dst p) k) = k"
      by (metis nat.inject size_add_mset size_mset)
    moreover have "candidate_of dst p \<in># add_mset w (mset (insertSortedCandidate cs (candidate_of dst p) k))"
      using evict(3) by simp
    ultimately show ?thesis using evict(4) d by (auto simp: handled_def)
  qed
  show "handled dst k q (insertSortedCandidate cs c k)" if h: "handled dst k q cs"
  proof (cases rule: insertSorted_cases [OF k cs', of c, case_names full room evict])
    case full
    with h show ?thesis by simp
  next
    case room
    then have "set cs \<subseteq> set (insertSortedCandidate cs c k)"
      by (metis insert_subset set_mset_add_mset_insert set_mset_mset subset_insertI)
    with h room(1) show ?thesis by (auto simp: handled_def)
  next
    case (evict w)
    let ?r = "insertSortedCandidate cs c k"
    have len: "length ?r = k" using evict(1,3) by (metis nat.inject size_add_mset size_mset)
    have sets: "insert w (set ?r) = insert c (set cs)"
      using evict(3) by (metis set_mset_add_mset_insert set_mset_mset)
    from h show ?thesis unfolding handled_def
    proof
      assume "candidate_of dst q \<in> set cs"
      then have "candidate_of dst q = w \<or> candidate_of dst q \<in> set ?r" using sets by blast
      then show "candidate_of dst q \<in> set ?r \<or> (length ?r = k \<and> (\<forall>c\<in>set ?r. c_distance c \<le> dst (p_lat q) (p_lng q)))"
        using len evict(4) d [of q] by auto
    next
      assume full: "length cs = k \<and> (\<forall>c\<in>set cs. c_distance c \<le> dst (p_lat q) (p_lng q))"
      have "\<forall>x\<in>set ?r. c_distance x \<le> dst (p_lat q) (p_lng q)"
      proof
        fix x assume x: "x \<in> set ?r"
        show "c_distance x \<le> dst (p_lat q) (p_lng q)"
        proof (cases "x \<in> set cs")
          case False
          then have "x = c" using x sets by blast
          have "w \<noteq> c"
          proof
            assume "w = c"
            then have "mset ?r = mset cs" using evict(3) by simp
            then show False using x False mset_eq_setD by blast
          qed
          then have "c_distance w \<le> dst (p_lat q) (p_lng q)" using full sets by blast
          then show ?thesis using evict(4) x by force
        qed (use full in blast)
      qed
      with len show "candidate_of dst q \<in> set ?r \<or> (length ?r = k \<and> (\<forall>c\<in>set ?r. c_distance c \<le> dst (p_lat q) (p_lng q)))"
        by blast
    qed
  qed
qed

lemma scan_leaf_handled:
  assumes k: "0 < k"
  shows "cands_ok k cs \<Longrightarrow> cands_ok k (scan_leaf dst k r ps cs) \<and>
    (handled dst k q cs \<longrightarrow> handled dst k q (scan_leaf dst k r ps cs)) \<and>
    (p \<in> set ps \<and> dst (p_lat p) (p_lng p) \<le> r \<longrightarrow> handled dst k p (scan_leaf dst k r ps cs))"
proof (induction ps arbitrary: cs p q)
  case (Cons x ps)
  let ?cs = "if dst (p_lat x) (p_lng x) \<le> r then insertSortedCandidate cs (candidate_of dst x) k else cs"
  have ok: "cands_ok k ?cs" using Cons.prems insertSorted_ok [OF k] by simp
  have eq: "scan_leaf dst k r (x # ps) cs = scan_leaf dst k r ps ?cs" by (simp add: scan_leaf_def)
  have keep: "handled dst k q cs \<Longrightarrow> handled dst k q ?cs" for q
    using insertSorted_handled(2) [OF k Cons.prems] by simp
  have new: "dst (p_lat x) (p_lng x) \<le> r \<Longrightarrow> handled dst k x ?cs"
    using insertSorted_handled(1) [OF k Cons.prems] by simp
  show ?case
    unfolding eq using Cons.IH [OF ok] keep new by auto
qed (simp add: scan_leaf_def)

lemma scan_leaf_mset:
  assumes k: "0 < k"
  shows "cands_ok k cs \<Longrightarrow> mset (scan_leaf dst k r ps cs) \<subseteq>#
    mset cs + image_mset (candidate_of dst) (filter_mset (\<lambda>p. dst (p_lat p) (p_lng p) \<le> r) (mset ps))"
proof (induction ps arbitrary: cs)
  case (Cons x ps)
  show ?case
  proof (cases "dst (p_lat x) (p_lng x) \<le> r")
    case True
    let ?cs = "insertSortedCandidate cs (candidate_of dst x) k"
    note I = insertSorted_ok [OF k Cons.prems, of "candidate_of dst x"]
    have "mset (scan_leaf dst k r (x # ps) cs) \<subseteq># mset ?cs +
        image_mset (candidate_of dst) (filter_mset (\<lambda>p. dst (p_lat p) (p_lng p) \<le> r) (mset ps))"
      using Cons.IH [of ?cs] I True by (simp add: scan_leaf_def)
    also have "\<dots> \<subseteq># add_mset (candidate_of dst x) (mset cs) +
        image_mset (candidate_of dst) (filter_mset (\<lambda>p. dst (p_lat p) (p_lng p) \<le> r) (mset ps))"
      using I by (intro subset_mset.add_right_mono) blast
    finally show ?thesis using True by simp
  next
    case False
    then show ?thesis using Cons.IH [OF Cons.prems] by (simp add: scan_leaf_def)
  qed
qed (simp add: scan_leaf_def)

section \<open>The queue\<close>

definition queue_ok :: "(GeoBounds \<Rightarrow> real) \<Rightarrow> NodeCandidate list \<Rightarrow> bool" where
  "queue_ok box pq = (heap_ok cmp_minDist pq \<and>
     (\<forall>e\<in>set pq. nc_minDist e = box (node_bounds (nc_node e)) \<and> node_ok (nc_node e)))"

definition queued :: "NodeCandidate list \<Rightarrow> Point multiset" where
  "queued pq = (\<Sum>e\<in>#mset pq. mset (pts (nc_node e)))"

lemma queued_push [simp]: "queued (push cmp q x) = mset (pts (nc_node x)) + queued q"
  by (simp add: queued_def)

lemma queued_pop: "pop cmp q = (Some m, q') \<Longrightarrow> queued q = mset (pts (nc_node m)) + queued q'"
  by (simp add: queued_def pop_mset)

lemma queue_ok_push:
  "queue_ok box q \<Longrightarrow> node_ok n \<Longrightarrow> queue_ok box (push cmp_minDist q \<lparr>nc_node = n, nc_minDist = box (node_bounds n)\<rparr>)"
  by (simp add: queue_ok_def node_queue.push_heap)

lemma queue_ok_pop:
  assumes "queue_ok box q" and "pop cmp_minDist q = (Some m, q')"
  shows "queue_ok box q' \<and> nc_minDist m = box (node_bounds (nc_node m)) \<and> node_ok (nc_node m) \<and>
    set q = insert m (set q') \<and> (\<forall>e\<in>set q. nc_minDist m \<le> nc_minDist e)"
proof -
  have s: "set q = insert m (set q')"
    using pop_mset [OF assms(2)] by (metis set_mset_add_mset_insert set_mset_mset)
  have "heap_ok cmp_minDist q" using assms(1) by (simp add: queue_ok_def)
  note D = node_queue.pop_heap [OF this assms(2)] node_queue.pop_min [OF this assms(2)]
  have "\<forall>e\<in>set q. nc_minDist m \<le> nc_minDist e"
    using D(2) by (auto simp: cmp_minDist_def)
  with s D(1) assms(1) show ?thesis by (auto simp: queue_ok_def)
qed

lemma push_children_ok:
  "queue_ok box q \<Longrightarrow> \<forall>n\<in>set ns. node_ok n \<Longrightarrow> queue_ok box (push_children box r ns q)"
proof (induction ns arbitrary: q)
  case (Cons n ns)
  then show ?case using queue_ok_push [OF Cons.prems(1), of n] by (simp add: push_children_def)
qed (simp add: push_children_def)

lemma push_children_set:
  "set q \<subseteq> set (push_children box r ns q) \<and>
   (\<forall>n\<in>set ns. box (node_bounds n) \<le> r \<longrightarrow> (\<exists>e\<in>set (push_children box r ns q). nc_node e = n))"
proof (induction ns arbitrary: q)
  case (Cons n ns)
  let ?q = "if box (node_bounds n) \<le> r then push cmp_minDist q \<lparr>nc_node = n, nc_minDist = box (node_bounds n)\<rparr> else q"
  have eq: "push_children box r (n # ns) q = push_children box r ns ?q" by (simp add: push_children_def)
  have q: "set q \<subseteq> set ?q" by auto
  have n: "\<exists>e\<in>set ?q. nc_node e = n" if "box (node_bounds n) \<le> r"
    using that by (intro bexI [of _ "\<lparr>nc_node = n, nc_minDist = box (node_bounds n)\<rparr>"]) simp_all
  have IH: "set ?q \<subseteq> set (push_children box r ns ?q)"
    "\<forall>n\<in>set ns. box (node_bounds n) \<le> r \<longrightarrow> (\<exists>e\<in>set (push_children box r ns ?q). nc_node e = n)"
    using Cons.IH [of ?q] by blast+
  have "\<exists>e\<in>set (push_children box r ns ?q). nc_node e = n" if "box (node_bounds n) \<le> r"
    using n [OF that] IH(1) by blast
  with IH(2) have "\<forall>m\<in>set (n # ns). box (node_bounds m) \<le> r \<longrightarrow> (\<exists>e\<in>set (push_children box r ns ?q). nc_node e = m)"
    unfolding list.set(2) by blast
  with q IH(1) show ?case unfolding eq by blast
qed (simp add: push_children_def)

lemma push_children_queued:
  "queued (push_children box r ns q) \<subseteq># sum_list (map (\<lambda>n. mset (pts n)) ns) + queued q"
proof (induction ns arbitrary: q)
  case (Cons n ns)
  let ?x = "\<lparr>nc_node = n, nc_minDist = box (node_bounds n)\<rparr>"
  show ?case
  proof (cases "box (node_bounds n) \<le> r")
    case True
    then show ?thesis using Cons.IH [of "push cmp_minDist q ?x"] by (simp add: push_children_def ac_simps)
  next
    case False
    then have "queued (push_children box r (n # ns) q) \<subseteq># sum_list (map (\<lambda>n. mset (pts n)) ns) + queued q"
      using Cons.IH [of q] by (simp add: push_children_def)
    then show ?thesis by (rule subset_mset.order_trans) simp
  qed
qed (simp add: push_children_def)

section \<open>The loop\<close>

abbreviation near :: "(real \<Rightarrow> real \<Rightarrow> real) \<Rightarrow> real \<Rightarrow> Point multiset \<Rightarrow> CandidateDriver multiset" where
  "near dst r P \<equiv> image_mset (candidate_of dst) (filter_mset (\<lambda>p. dst (p_lat p) (p_lng p) \<le> r) P)"

lemma near_mono: "P \<subseteq># Q \<Longrightarrow> near dst r P \<subseteq># near dst r Q"
  by (intro image_mset_subseteq_mono multiset_filter_mono)

text \<open>The five ways a round goes.\<close>

definition prunes :: "nat \<Rightarrow> CandidateDriver list \<Rightarrow> NodeCandidate \<Rightarrow> bool" where
  "prunes k cs e = (length cs \<ge> k \<and> nc_minDist e \<ge> c_distance (cs ! (k - 1)))"

lemma knn_loop_round:
  assumes "pop cmp_minDist pq = (m, pq1)"
  shows "m = None \<Longrightarrow> knn_loop dst box k r pq cs = cs"
    and "m = Some e \<Longrightarrow> prunes k cs e \<Longrightarrow> knn_loop dst box k r pq cs = cs"
    and "m = Some e \<Longrightarrow> \<not> prunes k cs e \<Longrightarrow> nc_minDist e > r \<Longrightarrow>
      knn_loop dst box k r pq cs = knn_loop dst box k r pq1 cs"
    and "m = Some e \<Longrightarrow> \<not> prunes k cs e \<Longrightarrow> \<not> nc_minDist e > r \<Longrightarrow> \<not> isDivided (nc_node e) \<Longrightarrow>
      knn_loop dst box k r pq cs = knn_loop dst box k r pq1 (scan_leaf dst k r (node_points (nc_node e)) cs)"
    and "m = Some e \<Longrightarrow> \<not> prunes k cs e \<Longrightarrow> \<not> nc_minDist e > r \<Longrightarrow> isDivided (nc_node e) \<Longrightarrow>
      knn_loop dst box k r pq cs = knn_loop dst box k r (push_children box r (children_of (nc_node e)) pq1) cs"
  by (subst knn_loop.simps, simp only: assms prunes_def prod.case option.case if_True if_False simp_thms)+

lemma knn_loop_sound:
  assumes k: "0 < k"
  shows "cands_ok k cs \<Longrightarrow> mset cs + near dst r (queued pq) \<subseteq># X \<Longrightarrow>
    cands_ok k (knn_loop dst box k r pq cs) \<and> mset (knn_loop dst box k r pq cs) \<subseteq># X"
  using k
proof (induction dst box k r pq cs rule: knn_loop.induct)
  case (1 dst box k r pq cs)
  note k = 1(6) and cs = 1(4) and X = 1(5)
  have stop: "mset cs \<subseteq># X" using X by (metis mset_subset_eq_add_left subset_mset.order_trans)
  obtain m pq1 where pop: "pop cmp_minDist pq = (m, pq1)" by (cases "pop cmp_minDist pq")
  show ?case
  proof (cases m)
    case None
    with knn_loop_round(1) [OF pop] cs stop show ?thesis by simp
  next
    case (Some e)
    with pop have p: "pop cmp_minDist pq = (Some e, pq1)" by simp
    have q: "near dst r (queued pq) = near dst r (mset (pts (nc_node e))) + near dst r (queued pq1)"
      using queued_pop [OF p] by simp
    note round = knn_loop_round(2-5) [OF p, where e = e, OF refl]
    consider (break) "prunes k cs e"
      | (skip) "\<not> prunes k cs e" "nc_minDist e > r"
      | (leaf) "\<not> prunes k cs e" "\<not> nc_minDist e > r" "\<not> isDivided (nc_node e)"
      | (div) "\<not> prunes k cs e" "\<not> nc_minDist e > r" "isDivided (nc_node e)"
      by blast
    then show ?thesis
    proof cases
      case break
      with round(1) cs stop show ?thesis by simp
    next
      case skip
      have "mset cs + near dst r (queued pq1) \<subseteq># X"
        using X unfolding q by (metis (no_types, lifting) add.left_commute mset_subset_eq_add_right subset_mset.order_trans)
      with skip round(2) show ?thesis
        using 1(1) [OF p [symmetric] refl skip [unfolded prunes_def] cs _ k] by simp
    next
      case leaf
      obtain b ps where nd: "nc_node e = Leaf b ps" using leaf(3) by (cases "nc_node e") auto
      let ?cs = "scan_leaf dst k r ps cs"
      have "mset ?cs + near dst r (queued pq1) \<subseteq># mset cs + near dst r (mset ps) + near dst r (queued pq1)"
        using scan_leaf_mset [OF k cs] by (intro subset_mset.add_right_mono)
      also have "\<dots> = mset cs + near dst r (queued pq)"
        unfolding q nd pts.simps by (simp only: add.assoc)
      finally have "mset ?cs + near dst r (queued pq1) \<subseteq># X"
        using X by (rule subset_mset.order_trans)
      moreover have "cands_ok k ?cs" using scan_leaf_handled [OF k cs] by blast
      ultimately show ?thesis
        using 1(2) [OF p [symmetric] refl leaf [unfolded prunes_def] _ _ k] leaf round(3) nd by simp
    next
      case div
      have "queued (push_children box r (children_of (nc_node e)) pq1) \<subseteq># mset (pts (nc_node e)) + queued pq1"
        using push_children_queued [of box r "children_of (nc_node e)" pq1] pts_children [OF div(3)] by simp
      then have "near dst r (queued (push_children box r (children_of (nc_node e)) pq1)) \<subseteq># near dst r (queued pq)"
        using near_mono [of _ "mset (pts (nc_node e)) + queued pq1" dst r] q by simp
      then have "mset cs + near dst r (queued (push_children box r (children_of (nc_node e)) pq1)) \<subseteq># X"
        by (rule subset_mset.order_trans [OF subset_mset.add_left_mono X])
      then show ?thesis
        using 1(3) [OF p [symmetric] refl div(1,2) [unfolded prunes_def] _ cs _ k] div round(4) by simp
    qed
  qed
qed

section \<open>A bound that is sound\<close>

locale search_bound =
  fixes dst :: "real \<Rightarrow> real \<Rightarrow> real" and box :: "GeoBounds \<Rightarrow> real" and ok :: "GeoBounds \<Rightarrow> bool"
  assumes lower_bound: "bounds_ok b \<Longrightarrow> ok b \<Longrightarrow> in_box b a x \<Longrightarrow> box b \<le> dst a x"
begin

lemma enclosed_bound:
  assumes "enclosed ok p n" and "node_ok n"
  shows "box (node_bounds n) \<le> dst (p_lat p) (p_lng p)"
  using enclosed_pts [OF assms(1)] node_ok_bounds [OF assms(2)] node_ok_in_box [OF assms(2)]
  by (intro lower_bound) auto

lemma knn_loop_handles:
  assumes k: "0 < k" and d: "dst (p_lat p) (p_lng p) \<le> r"
  shows "cands_ok k cs \<Longrightarrow> queue_ok box pq \<Longrightarrow>
    handled dst k p cs \<or> (\<exists>e\<in>set pq. enclosed ok p (nc_node e)) \<Longrightarrow>
    handled dst k p (knn_loop dst box k r pq cs)"
proof (induction "pending pq" arbitrary: pq cs rule: less_induct)
  case less
  note IH = less(1) and cs = less(2) and Q = less(3) and H = less(4)
  obtain m pq1 where pop: "pop cmp_minDist pq = (m, pq1)" by (cases "pop cmp_minDist pq")
  show ?case
  proof (cases m)
    case None
    then have "pq = []" using pop pop_None [of cmp_minDist pq pq1] by simp
    with H knn_loop_round(1) [OF pop None] show ?thesis by simp
  next
    case (Some e)
    with pop have pe: "pop cmp_minDist pq = (Some e, pq1)" by simp
    note round = knn_loop_round(2-5) [OF pe, where e = e, OF refl]
    note E = queue_ok_pop [OF Q pe]
    then have e: "nc_minDist e = box (node_bounds (nc_node e))" "node_ok (nc_node e)"
      and sets: "set pq = insert e (set pq1)" and least: "\<forall>x\<in>set pq. nc_minDist e \<le> nc_minDist x"
      and Q1: "queue_ok box pq1"
      by blast+
    have bound: "nc_minDist x \<le> dst (p_lat p) (p_lng p)" if "x \<in> set pq" "enclosed ok p (nc_node x)" for x
      using Q that enclosed_bound [OF that(2)] by (auto simp: queue_ok_def)
    have pend: "pending pq = node_count (nc_node e) + pending pq1" using pending_pop [OF pe] .
    consider (break) "prunes k cs e"
      | (skip) "\<not> prunes k cs e" "nc_minDist e > r"
      | (leaf) "\<not> prunes k cs e" "\<not> nc_minDist e > r" "\<not> isDivided (nc_node e)"
      | (div) "\<not> prunes k cs e" "\<not> nc_minDist e > r" "isDivided (nc_node e)"
      by blast
    then show ?thesis
    proof cases
      case break
      have "handled dst k p cs" if x: "x \<in> set pq" "enclosed ok p (nc_node x)" for x
      proof -
        have "length cs = k" "\<forall>c\<in>set cs. c_distance c \<le> c_distance (cs ! (k - 1))"
          using break cs k by (auto simp: prunes_def cands_ok_def by_distance_def in_set_conv_nth sorted_iff_nth_mono)
        moreover have "c_distance (cs ! (k - 1)) \<le> dst (p_lat p) (p_lng p)"
          using break least bound [OF x] x(1) by (force simp: prunes_def)
        ultimately show ?thesis by (force simp: handled_def)
      qed
      with H round(1) break show ?thesis by auto
    next
      case skip
      have "\<not> enclosed ok p (nc_node e)" using bound [of e] sets d skip(2) by auto
      with H sets have "handled dst k p cs \<or> (\<exists>e\<in>set pq1. enclosed ok p (nc_node e))" by auto
      with IH [of pq1 cs] pend cs Q1 skip round(2) show ?thesis by simp
    next
      case leaf
      obtain b ps where nd: "nc_node e = Leaf b ps" using leaf(3) by (cases "nc_node e") auto
      let ?cs = "scan_leaf dst k r ps cs"
      have S: "cands_ok k ?cs" "handled dst k p cs \<Longrightarrow> handled dst k p ?cs" "p \<in> set ps \<Longrightarrow> handled dst k p ?cs"
        using scan_leaf_handled [OF k cs, of dst _ _ p] d by blast+
      have "handled dst k p ?cs \<or> (\<exists>e\<in>set pq1. enclosed ok p (nc_node e))"
        using H sets nd S(2,3) by auto
      with IH [of pq1 ?cs] pend S(1) Q1 leaf round(3) nd show ?thesis by simp
    next
      case div
      let ?q = "push_children box r (children_of (nc_node e)) pq1"
      have c: "\<forall>n\<in>set (children_of (nc_node e)). node_ok n" using node_ok_children [OF e(2)] by blast
      have "\<exists>x\<in>set ?q. enclosed ok p (nc_node x)" if en: "enclosed ok p (nc_node e)"
      proof -
        obtain n where n: "n \<in> set (children_of (nc_node e))" "enclosed ok p n"
          using enclosed_child [OF en div(3)] by blast
        then have "box (node_bounds n) \<le> r" using enclosed_bound [OF n(2)] c d by force
        with n push_children_set [of pq1 box r "children_of (nc_node e)"] show ?thesis by metis
      qed
      moreover have "set pq1 \<subseteq> set ?q" using push_children_set by blast
      ultimately have "handled dst k p cs \<or> (\<exists>x\<in>set ?q. enclosed ok p (nc_node x))"
        using H unfolding sets by (metis insertE subsetD)
      moreover have "pending ?q < pending pq"
        using pend pending_push_children [of box r "children_of (nc_node e)" pq1] node_count_children [of "nc_node e"]
        by simp
      ultimately show ?thesis
        using IH [of ?q cs] cs push_children_ok [OF Q1 c] div round(4) by simp
    qed
  qed
qed

lemma knn_search_handles:
  assumes "0 < k" and "dst (p_lat p) (p_lng p) \<le> r" and "node_ok n" and "enclosed ok p n"
  shows "handled dst (nat k) p (knn_search dst box n k r)"
proof -
  have "queue_ok box (push cmp_minDist [] \<lparr>nc_node = n, nc_minDist = box (node_bounds n)\<rparr>)"
    by (rule queue_ok_push) (simp_all add: queue_ok_def heap_ok_def assms)
  then show ?thesis
    using assms knn_loop_handles [of "nat k" p r "[]" "push cmp_minDist [] \<lparr>nc_node = n, nc_minDist = box (node_bounds n)\<rparr>"]
    by (simp add: knn_search_def cands_ok_def by_distance_def)
qed

end

section \<open>The whole search\<close>

lemma knn_search_sound:
  "cands_ok (nat k) (knn_search dst box n k r) \<and> mset (knn_search dst box n k r) \<subseteq># near dst r (mset (pts n))"
proof (cases "k \<le> 0")
  case True
  then show ?thesis by (simp add: knn_search_def cands_ok_def by_distance_def)
next
  case False
  then show ?thesis
    using knn_loop_sound [of "nat k" "[]" dst r "push cmp_minDist [] \<lparr>nc_node = n, nc_minDist = box (node_bounds n)\<rparr>"
        "near dst r (mset (pts n))" box]
    by (simp add: knn_search_def cands_ok_def by_distance_def queued_def)
qed

lemma candidate_of_inj: "candidate_of dst p = candidate_of dst q \<longleftrightarrow> p = q"
  by (auto simp: candidate_of_def)

lemma candidates_distinct:
  assumes "distinct (ids n)"
  shows "distinct (map c_id (knn_search dst box n k r))"
proof -
  have "mset (map c_id (knn_search dst box n k r)) \<subseteq># image_mset c_id (near dst r (mset (pts n)))"
    using image_mset_subseteq_mono [OF conjunct2 [OF knn_search_sound]] by simp
  also have "\<dots> = image_mset p_id (filter_mset (\<lambda>p. dst (p_lat p) (p_lng p) \<le> r) (mset (pts n)))"
    by (simp add: candidate_of_def image_mset.compositionality comp_def)
  also have "\<dots> \<subseteq># mset (ids n)"
    by (simp add: image_mset_subseteq_mono)
  finally obtain zs where "mset (ids n) = mset (map c_id (knn_search dst box n k r) @ zs)"
    by (metis ex_mset mset_append mset_subset_eq_exists_conv)
  then show ?thesis
    using assms mset_eq_imp_distinct_iff by (metis distinct_append)
qed

lemma take_of_sorted:
  fixes ds :: "real list"
  assumes "sorted ds" and "length ds \<le> k" and "mset ys = mset ds + mset zs"
    and "\<forall>z\<in>set zs. length ds = k \<and> (\<forall>d\<in>set ds. d \<le> z)"
  shows "ds = take k (sort ys)"
proof -
  have "sorted (ds @ sort zs)" using assms(1,4) by (auto simp: sorted_append)
  then have "sort ys = ds @ sort zs"
    using assms(3) by (intro properties_for_sort) simp_all
  moreover have "zs = [] \<or> length ds = k" using assms(4) by (cases zs) auto
  ultimately show ?thesis using assms(2) by auto
qed

context search_bound
begin

text \<open>The search against a scan of all points.\<close>

lemma knn_search_exact:
  assumes k: "0 < k" and n: "node_ok n" "distinct (ids n)" "all_boxes ok n"
  shows "map c_distance (knn_search dst box n k r) =
    take (nat k) (sort (filter (\<lambda>d. d \<le> r) (map (\<lambda>p. dst (p_lat p) (p_lng p)) (pts n))))"
proof -
  let ?res = "knn_search dst box n k r"
  let ?el = "filter (\<lambda>p. dst (p_lat p) (p_lng p) \<le> r) (pts n)"
  have S: "cands_ok (nat k) ?res" "mset ?res \<subseteq># mset (map (candidate_of dst) ?el)"
    using knn_search_sound [of k dst box n r] by simp_all
  then obtain cs where cs: "mset (map (candidate_of dst) ?el) = mset (?res @ cs)"
    by (metis ex_mset mset_append mset_subset_eq_exists_conv)
  have "distinct (map (candidate_of dst) ?el)"
    using n(2) by (auto simp: distinct_map inj_on_def candidate_of_inj)
  then have d: "distinct (?res @ cs)" using cs mset_eq_imp_distinct_iff by blast
  have full: "\<forall>z\<in>set (map c_distance cs). length (map c_distance ?res) = nat k \<and> (\<forall>x\<in>set (map c_distance ?res). x \<le> z)"
  proof
    fix z assume "z \<in> set (map c_distance cs)"
    then obtain c where c: "c \<in> set cs" "z = c_distance c" by auto
    then have "c \<in> set (map (candidate_of dst) ?el)" using mset_eq_setD [OF cs] by simp
    then obtain p where p: "c = candidate_of dst p" "p \<in> set (pts n)" "dst (p_lat p) (p_lng p) \<le> r" by auto
    have "handled dst (nat k) p ?res"
      using knn_search_handles [OF k p(3) n(1) enclosed_all [OF n(3) p(2)]] .
    moreover have "candidate_of dst p \<notin> set ?res" using d c(1) p(1) by auto
    ultimately show "length (map c_distance ?res) = nat k \<and> (\<forall>x\<in>set (map c_distance ?res). x \<le> z)"
      using c(2) p(1) by (auto simp: handled_def candidate_of_def)
  qed
  have m: "mset (filter (\<lambda>d. d \<le> r) (map (\<lambda>p. dst (p_lat p) (p_lng p)) (pts n))) =
      mset (map c_distance ?res) + mset (map c_distance cs)"
  proof -
    have "filter (\<lambda>d. d \<le> r) (map (\<lambda>p. dst (p_lat p) (p_lng p)) (pts n)) = map c_distance (map (candidate_of dst) ?el)"
      by (simp add: filter_map comp_def candidate_of_def)
    moreover have "mset (map c_distance (map (candidate_of dst) ?el)) = image_mset c_distance (mset (?res @ cs))"
      unfolding cs [symmetric] by (rule mset_map)
    ultimately show ?thesis by simp
  qed
  show ?thesis
    using S(1) by (intro take_of_sorted [OF _ _ m full]) (auto simp: cands_ok_def by_distance_def)
qed

end

section \<open>The haversine search\<close>

text \<open>The boxes of a query on Earth whose bound is sound.\<close>

interpretation geo_search: search_bound "haversineDistance la lo" "minDistanceToBox la lo"
    "\<lambda>b. on_earth la lo \<and> sound_box la lo b"
  by unfold_locales (auto simp: on_earth_def intro: sound_box_bound)

lemma driverMap_points:
  assumes "qt_inv t"
  shows "mset (jm_values (driverMap t)) = mset (pts (root t))"
proof -
  have D: "jm_ok (driverMap t)" "mapped (driverMap t) (root t)" "distinct (ids (root t))"
    using assms by (simp_all add: qt_inv_def tree_ok_def)
  have keys: "fst e = p_id (snd e)" if "e \<in> set (driverMap t)" for e
    using that map_of_is_SomeI [OF D(1), of "fst e" "snd e"] D(2) unfolding mapped_def
    by (metis prod.collapse)
  have "map p_id (jm_values (driverMap t)) = jm_keys (driverMap t)"
    using keys by (simp add: comp_def)
  then have "distinct (jm_values (driverMap t))" using D(1) by (metis distinct_map)
  moreover have "distinct (pts (root t))" using D(3) by (simp add: distinct_map)
  moreover have "set (jm_values (driverMap t)) = set (pts (root t))"
  proof (intro set_eqI iffI)
    fix p assume "p \<in> set (jm_values (driverMap t))"
    then obtain i where "jm_get (driverMap t) i = Some p" using D(1) by force
    then show "p \<in> set (pts (root t))" using D(2) by (simp add: mapped_def)
  next
    fix p assume "p \<in> set (pts (root t))"
    then have "jm_get (driverMap t) (p_id p) = Some p" using D(2) by (simp add: mapped_def)
    then show "p \<in> set (jm_values (driverMap t))" by (force dest: map_of_SomeD)
  qed
  ultimately show ?thesis using set_eq_iff_mset_eq_distinct by blast
qed

lemma knn_candidate:
  assumes inv: "qt_inv t" and c: "c \<in> set (kNearestNeighbors t la lo k r)"
  shows "qt_pos t (c_id c) = Some (c_lat c, c_lng c)" "c_distance c = haversineDistance la lo (c_lat c) (c_lng c)"
    "c_distance c \<le> r"
proof -
  have M: "mapped (driverMap t) (root t)" using inv by (simp add: qt_inv_def)
  have "mset (kNearestNeighbors t la lo k r) \<subseteq># near (haversineDistance la lo) r (mset (pts (root t)))"
    unfolding kNearestNeighbors_def using knn_search_sound by blast
  then have "c \<in># near (haversineDistance la lo) r (mset (pts (root t)))"
    using mset_subset_eqD c by (metis set_mset_mset)
  then obtain p where p: "c = candidate_of (haversineDistance la lo) p" "p \<in> set (pts (root t))"
      "haversineDistance la lo (p_lat p) (p_lng p) \<le> r" by auto
  then show "qt_pos t (c_id c) = Some (c_lat c, c_lng c)" "c_distance c = haversineDistance la lo (c_lat c) (c_lng c)"
    "c_distance c \<le> r"
    using M by (auto simp: candidate_of_def qt_pos_def mapped_def)
qed

lemma knn_list:
  assumes "qt_inv t"
  shows "sorted (map c_distance (kNearestNeighbors t la lo k r))" "length (kNearestNeighbors t la lo k r) \<le> nat k"
    "distinct (map c_id (kNearestNeighbors t la lo k r))"
proof -
  have "cands_ok (nat k) (kNearestNeighbors t la lo k r)"
    unfolding kNearestNeighbors_def using knn_search_sound by blast
  then show "sorted (map c_distance (kNearestNeighbors t la lo k r))" "length (kNearestNeighbors t la lo k r) \<le> nat k"
    by (simp_all add: cands_ok_def by_distance_def)
  show "distinct (map c_id (kNearestNeighbors t la lo k r))"
    unfolding kNearestNeighbors_def using assms by (intro candidates_distinct) (simp add: qt_inv_def tree_ok_def)
qed

section \<open>Properties\<close>

text \<open>
  Every query returns at most k candidates, all different, ordered by distance; each is a
  driver of the index at its indexed position, with its great circle distance from the query,
  which is within the radius.
\<close>

theorem knn_result_sound:
  assumes "qt_inv t"
  shows "let res = kNearestNeighbors t la lo k r in
    sorted (map c_distance res) \<and> length res \<le> nat k \<and> distinct (map c_id res) \<and>
    list_all (\<lambda>c. qt_pos t (c_id c) = Some (c_lat c, c_lng c) \<and>
      c_distance c = haversineDistance la lo (c_lat c) (c_lng c) \<and> c_distance c \<le> r) res"
  using knn_candidate [OF assms] knn_list [OF assms] by (simp add: list_all_iff Let_def)

definition demo_city :: GeoBounds where
  "demo_city = \<lparr>minLat = 12, maxLat = 14, minLng = 77, maxLng = 78\<rparr>"

definition demo_index :: QuadTree where
  "demo_index = snd (qt_insert (qt_new demo_city 8 7) ''d1'' (Fin 13) (Fin 77.5))"

lemma demo_index_inv: "qt_inv demo_index"
proof -
  have "qt_inv (qt_new demo_city 8 7)" by (rule qt_inv_new) (simp add: bounds_ok_def demo_city_def)
  then show ?thesis
    unfolding demo_index_def by (metis prod.collapse qt_insert_law)
qed

theorem knn_result_sound_witness:
  "sorted (map c_distance (kNearestNeighbors demo_index 13 77 4 10000)) \<and>
   length (kNearestNeighbors demo_index 13 77 4 10000) \<le> 4"
  using knn_result_sound [OF demo_index_inv, of 13 77 4 10000] by (simp add: Let_def)

text \<open>
  Where the bound is sound for the boxes on the way to a driver, the search never misses
  the driver in favour of a farther one: a driver within the radius is among the candidates
  unless there are k candidates that are at least as close.
\<close>

theorem knn_never_misses:
  assumes "qt_inv t" and "on_earth la lo" and "0 < k" and "jm_get (driverMap t) i = Some p"
    and "enclosed (sound_box la lo) p (root t)" and "haversineDistance la lo (p_lat p) (p_lng p) \<le> r"
  shows "let res = kNearestNeighbors t la lo k r in
    i \<in> c_id ` set res \<or>
    (length res = nat k \<and> list_all (\<lambda>c. c_distance c \<le> haversineDistance la lo (p_lat p) (p_lng p)) res)"
proof -
  have "mapped (driverMap t) (root t)" "node_ok (root t)"
    using assms(1) by (simp_all add: qt_inv_def tree_ok_def)
  then have pid: "p_id p = i" using assms(4) by (simp add: mapped_def)
  have enc: "enclosed (\<lambda>b. on_earth la lo \<and> sound_box la lo b) p n" if "enclosed (sound_box la lo) p n" for n
    using that assms(2) by (induction n) auto
  have "handled (haversineDistance la lo) (nat k) p (kNearestNeighbors t la lo k r)"
    unfolding kNearestNeighbors_def
    by (rule geo_search.knn_search_handles [OF assms(3,6) \<open>node_ok (root t)\<close> enc [OF assms(5)]])
  then show ?thesis
    using pid by (force simp: handled_def candidate_of_def list_all_iff Let_def)
qed

lemma demo_index_root:
  "root demo_index = Leaf demo_city [\<lparr>p_id = ''d1'', p_lat = 13, p_lng = 77.5\<rparr>]"
  "driverMap demo_index = [(''d1'', \<lparr>p_id = ''d1'', p_lat = 13, p_lng = 77.5\<rparr>)]"
  by code_simp+

theorem knn_never_misses_witness:
  "''d1'' \<in> c_id ` set (kNearestNeighbors demo_index 13 77.5 4 10000) \<or>
   length (kNearestNeighbors demo_index 13 77.5 4 10000) = 4"
proof -
  let ?p = "\<lparr>p_id = ''d1'', p_lat = 13, p_lng = 77.5\<rparr> :: Point"
  have "enclosed (sound_box 13 77.5) ?p (root demo_index)"
    by (simp add: demo_index_root sound_box_def lng_band_def demo_city_def)
  from knn_never_misses [OF demo_index_inv, of 13 "77.5" 4 "''d1''" ?p 10000, OF _ _ _ this] show ?thesis
    by (auto simp: demo_index_root on_earth_def Let_def)
qed

text \<open>
  C8. Where the bound is sound for every box of the index, the search is exact: the distances it
  returns are the k smallest among the distances of all indexed drivers within the radius, in
  order, as a scan of all drivers and a sort would give.
\<close>

theorem knn_exact:
  assumes "qt_inv t" and "on_earth la lo" and "0 < k" and "all_boxes (sound_box la lo) (root t)"
  shows "map c_distance (kNearestNeighbors t la lo k r) =
    take (nat k) (sort (filter (\<lambda>d. d \<le> r)
      (map (\<lambda>p. haversineDistance la lo (p_lat p) (p_lng p)) (jm_values (driverMap t)))))"
proof -
  have n: "node_ok (root t)" "distinct (ids (root t))"
    using assms(1) by (simp_all add: qt_inv_def tree_ok_def)
  have all: "all_boxes (\<lambda>b. on_earth la lo \<and> sound_box la lo b) n" if "all_boxes (sound_box la lo) n" for n
    using that assms(2) by (induction n) auto
  have "sort (filter (\<lambda>d. d \<le> r) (map (\<lambda>p. haversineDistance la lo (p_lat p) (p_lng p)) (jm_values (driverMap t)))) =
      sort (filter (\<lambda>d. d \<le> r) (map (\<lambda>p. haversineDistance la lo (p_lat p) (p_lng p)) (pts (root t))))"
    by (intro properties_for_sort)
      (simp_all only: mset_sort mset_filter mset_map driverMap_points [OF assms(1), unfolded mset_map] sorted_sort)
  then show ?thesis
    unfolding kNearestNeighbors_def
    using geo_search.knn_search_exact [OF assms(3) n all [OF assms(4)], of r] by simp
qed

theorem knn_exact_witness:
  "map c_distance (kNearestNeighbors demo_index 13 77.5 4 10000) = [0]"
proof -
  have "all_boxes (sound_box 13 77.5) (root demo_index)"
    by (simp add: demo_index_root sound_box_def lng_band_def demo_city_def)
  from knn_exact [OF demo_index_inv _ _ this, of 4 10000] show ?thesis
    by (simp add: demo_index_root on_earth_def)
qed

text \<open>
  The search can miss a driver at distance 0: an index of the whole Earth with two drivers
  that has been divided, and a query on the antimeridian.  The driver stands at the query's
  position, written with longitude -180, and the search within 10 km returns nothing.
\<close>

theorem knn_misses_across_antimeridian:
  "let t0 = qt_new \<lparr>minLat = -90, maxLat = 90, minLng = -180, maxLng = 180\<rparr> 1 7;
       t1 = snd (qt_insert t0 ''d1'' (Fin 0) (Fin (-180)));
       t2 = snd (qt_insert t1 ''d2'' (Fin (-45)) (Fin (-90)))
   in qt_pos t2 ''d1'' = Some (0, -180) \<and> haversineDistance 0 180 0 (-180) = 0 \<and>
     kNearestNeighbors t2 0 180 4 10000 = []"
proof -
  let ?t2 = "snd (qt_insert (snd (qt_insert (qt_new \<lparr>minLat = -90, maxLat = 90, minLng = -180, maxLng = 180\<rparr> 1 7)
      ''d1'' (Fin 0) (Fin (-180)))) ''d2'' (Fin (-45)) (Fin (-90)))"
  have rt: "root ?t2 = Divided \<lparr>minLat = -90, maxLat = 90, minLng = -180, maxLng = 180\<rparr>
     (Leaf \<lparr>minLat = 0, maxLat = 90, minLng = -180, maxLng = 0\<rparr> [\<lparr>p_id = ''d1'', p_lat = 0, p_lng = -180\<rparr>])
     (Leaf \<lparr>minLat = 0, maxLat = 90, minLng = 0, maxLng = 180\<rparr> [])
     (Leaf \<lparr>minLat = -90, maxLat = 0, minLng = -180, maxLng = 0\<rparr> [\<lparr>p_id = ''d2'', p_lat = -45, p_lng = -90\<rparr>])
     (Leaf \<lparr>minLat = -90, maxLat = 0, minLng = 0, maxLng = 180\<rparr> [])"
    by code_simp
  have pos: "qt_pos ?t2 ''d1'' = Some (0, -180)" by code_simp
  have rad: "toRad 0 = 0" "toRad (-180) = - pi" "toRad (-360) = - (2 * pi)" by (simp_all add: toRad_def)
  have same: "haversineDistance 0 180 0 (-180) = 0"
    using central_cos_def [of 0 180 0 "-180"] by (simp add: rad haversine_arcsin hav_term_eq)
  have far: "haversineDistance 0 180 0 0 = pi * 6371000"
    using central_cos_def [of 0 180 0 0] by (simp add: rad haversine_arcsin hav_term_eq EARTH_RADIUS_METERS_def)
  have big: "\<not> pi * 6371000 \<le> 10000" using pi_ge_two by linarith
  have "kNearestNeighbors ?t2 0 180 4 10000 = []"
    unfolding kNearestNeighbors_def rt knn_search_def
    by (simp add: push_def bubbleUp.simps minDistanceToBox_def far, subst knn_loop.simps,
      simp add: pop_def push_children_def far big minDistanceToBox_def push_def bubbleUp.simps cmp_minDist_def,
      (subst knn_loop.simps, simp add: pop_def bubbleDown.simps smallest_child_def scan_leaf_def)+)
  with pos same show ?thesis by (simp add: Let_def)
qed

end
