(* ===== verification/QuadTreeShape.thy ===== *)
theory QuadTreeShape
  imports QuadTreeMap
begin

text \<open>
  The shape of the spatial index: no node lies deeper than \<open>maxDepth\<close>, and a leaf above
  that depth holds at most \<open>capacity\<close> points.  Every operation keeps it.  The theory also
  states the properties of the index as a map.
\<close>

fun shape :: "nat \<Rightarrow> nat \<Rightarrow> nat \<Rightarrow> QuadTreeNode \<Rightarrow> bool" where
  "shape cap depthMax d (Leaf b ps) = (d \<le> depthMax \<and> (d < depthMax \<longrightarrow> length ps \<le> cap))"
| "shape cap depthMax d (Divided b nw ne sw se) =
    (d < depthMax \<and> shape cap depthMax (Suc d) nw \<and> shape cap depthMax (Suc d) ne \<and>
     shape cap depthMax (Suc d) sw \<and> shape cap depthMax (Suc d) se)"

lemma shape_child: "isDivided n \<Longrightarrow> shape cap D d n \<longleftrightarrow> d < D \<and> (\<forall>q. shape cap D (Suc d) (child n q))"
  by (cases n) (auto simp: all_Quadrant)

lemma shape_set_child:
  "isDivided n \<Longrightarrow> shape cap D d n \<Longrightarrow> shape cap D (Suc d) c \<Longrightarrow> shape cap D d (set_child n q c)"
  by (simp add: shape_child child_set_child)

lemma insertChild_shape:
  assumes "isDivided n" and "shape cap D (length path) n"
    and "\<And>q M. shape cap D (Suc (length path)) (fst (insertNode cap D (path @ [q]) (child n q) p M))"
  shows "isDivided (fst (insertChild cap D path n p L)) \<and> shape cap D (length path) (fst (insertChild cap D path n p L))"
  using assms by (auto simp: insertChild_def Let_def split_def intro: shape_set_child)

lemma insertNode_shape:
  "shape cap D (length path) n \<Longrightarrow> shape cap D (length path) (fst (insertNode cap D path n p L))"
proof (induction path n p L rule: insertNode_induct [of D])
  case (1 path n p L)
  note IH = 1(1) and n = 1(2)
  have child: "isDivided (fst (insertChild cap D path m x M)) \<and> shape cap D (length path) (fst (insertChild cap D path m x M))"
    if m: "isDivided m" "shape cap D (length path) m" for m x M
  proof (rule insertChild_shape [OF m])
    fix q M
    have "length path < D" "shape cap D (Suc (length path)) (child m q)" using m by (simp_all add: shape_child)
    moreover from this have "D - length (path @ [q]) < D - length path" by simp
    ultimately show "shape cap D (Suc (length path)) (fst (insertNode cap D (path @ [q]) (child m q) x M))"
      using IH [of "path @ [q]" "child m q" x M, OF disjI1] by simp
  qed
  show ?case
  proof (cases "isDivided n")
    case True
    then show ?thesis using child [OF True n] n by (subst insertNode_eq) simp
  next
    case False
    then obtain b ps where nb: "n = Leaf b ps" by (cases n) auto
    show ?thesis
    proof (cases "in_box b (p_lat p) (p_lng p) \<and> \<not> (length ps < cap \<or> D \<le> length path)")
      case True
      define f where "f = (\<lambda>(n, M) x. case insertChild cap D path n x M of (n1, r, M1) \<Rightarrow>
          (n1, case r of Some leaf \<Rightarrow> jm_set M1 (p_id x) leaf | None \<Rightarrow> M1))"
      have fold: "isDivided (fst (foldl f (m, M) xs)) \<and> shape cap D (length path) (fst (foldl f (m, M) xs))"
        if "isDivided m" "shape cap D (length path) m" for m M xs
        using that
      proof (induction xs arbitrary: m M)
        case (Cons x xs)
        obtain m1 M1 where s: "f (m, M) x = (m1, M1)" by (cases "f (m, M) x")
        then have "m1 = fst (insertChild cap D path m x M)" by (auto simp: f_def split: prod.splits)
        with child [OF Cons.prems, of x M] Cons.IH [of m1 M1] s show ?case by simp
      qed simp
      have "isDivided (subdivide b)" "shape cap D (length path) (subdivide b)"
        using True by (simp_all add: subdivide_def)
      note S = fold [OF this, of L ps]
      have "insertNode cap D path n p L = (case foldl f (subdivide b, L) ps of (n1, L1) \<Rightarrow> insertChild cap D path n1 p L1)"
        using True nb by (subst insertNode_eq) (simp add: f_def)
      then show ?thesis using S child by (simp add: split_def)
    next
      case False
      then show ?thesis using n nb by (subst insertNode_eq) auto
    qed
  qed
qed

lemma node_at_shape: "node_at n \<pi> = Some m \<Longrightarrow> shape cap D d n \<Longrightarrow> shape cap D (d + length \<pi>) m"
proof (induction n \<pi> arbitrary: d rule: node_at.induct)
  case (3 b nw ne sw se q qs)
  then show ?case using shape_child [of "Divided b nw ne sw se" cap D d] 3(1) [of "Suc d"] by simp
qed auto

lemma replace_at_shape:
  "node_at n \<pi> = Some m \<Longrightarrow> shape cap D d n \<Longrightarrow> shape cap D (d + length \<pi>) m' \<Longrightarrow> shape cap D d (replace_at n \<pi> m')"
proof (induction n \<pi> arbitrary: d rule: node_at.induct)
  case (3 b nw ne sw se q qs)
  then have "shape cap D (Suc d) (replace_at (child (Divided b nw ne sw se) q) qs m')"
    using shape_child [of "Divided b nw ne sw se" cap D d] by simp
  then show ?case using 3(3) shape_set_child [of "Divided b nw ne sw se"] by simp
qed auto

lemma tryCollapse_shape: "shape cap D 0 rt \<Longrightarrow> shape cap D 0 (fst (tryCollapse cap rt path L))"
proof (induction "length path" arbitrary: path rt L rule: less_induct)
  case less
  show ?case
  proof (cases "\<exists>b bnw nw bne ne bsw sw bse se.
      node_at rt path = Some (Divided b (Leaf bnw nw) (Leaf bne ne) (Leaf bsw sw) (Leaf bse se)) \<and>
      length nw + length ne + length sw + length se \<le> cap")
    case False
    have "tryCollapse cap rt path L = (rt, L)"
      using False by (subst tryCollapse.simps) (auto split: option.splits QuadTreeNode.splits)
    with less.prems show ?thesis by simp
  next
    case True
    then obtain b bnw nw bne ne bsw sw bse se where
      n: "node_at rt path = Some (Divided b (Leaf bnw nw) (Leaf bne ne) (Leaf bsw sw) (Leaf bse se))"
      and le: "length nw + length ne + length sw + length se \<le> cap" by blast
    define rt1 where "rt1 = replace_at rt path (Leaf b (nw @ ne @ sw @ se))"
    define L1 where "L1 = foldl (\<lambda>M p. jm_set M (p_id p) path) L (nw @ ne @ sw @ se)"
    have "shape cap D 0 rt1"
      unfolding rt1_def using replace_at_shape [OF n less.prems] node_at_shape [OF n less.prems] le by simp
    moreover have "tryCollapse cap rt path L = (if path = [] then (rt1, L1) else tryCollapse cap rt1 (butlast path) L1)"
      using n le by (subst tryCollapse.simps) (simp add: Let_def rt1_def L1_def)
    ultimately show ?thesis using less.hyps [of "butlast path" rt1 L1] by simp
  qed
qed

definition qt_shape :: "QuadTree \<Rightarrow> bool" where
  "qt_shape t = shape (capacity t) (maxDepth t) 0 (root t)"

lemma remove_first_length: "remove_first P xs = Some ys \<Longrightarrow> length ys \<le> length xs"
proof (induction xs arbitrary: ys)
  case (Cons x xs)
  then show ?case by (cases "P x"; cases "remove_first P xs") auto
qed simp

lemma qt_remove_frame [simp]:
  "capacity (snd (qt_remove t i)) = capacity t" "maxDepth (snd (qt_remove t i)) = maxDepth t"
  by (auto simp: qt_remove_def Let_def split: option.splits QuadTreeNode.splits prod.splits)

lemma qt_insert_frame [simp]:
  "capacity (snd (qt_insert t i la lo)) = capacity t" "maxDepth (snd (qt_insert t i la lo)) = maxDepth t"
  by (auto simp: qt_insert_def Let_def split: option.splits jsnum.splits prod.splits)

lemma qt_update_frame [simp]:
  "capacity (snd (qt_update t i la lo)) = capacity t" "maxDepth (snd (qt_update t i la lo)) = maxDepth t"
  by (auto simp: qt_update_def split: option.splits jsnum.splits)

lemma exec_frame: "capacity (foldl qt.exec t cs) = capacity t \<and> maxDepth (foldl qt.exec t cs) = maxDepth t"
proof (induction cs arbitrary: t)
  case (Cons c cs)
  then show ?case by (cases c) simp_all
qed simp

lemma qt_remove_shape: "qt_shape t \<Longrightarrow> qt_shape (snd (qt_remove t i))"
proof -
  assume s: "qt_shape t"
  show ?thesis
  proof (cases "\<exists>leaf b ps ps'. jm_get (driverLeaves t) i = Some leaf \<and> node_at (root t) leaf = Some (Leaf b ps) \<and>
      remove_first (\<lambda>p. p_id p = i) ps = Some ps'")
    case False
    then have "snd (qt_remove t i) = t"
      by (auto simp: qt_remove_def Let_def split: option.splits QuadTreeNode.splits prod.splits)
    with s show ?thesis by simp
  next
    case True
    then obtain leaf b ps ps' where l: "jm_get (driverLeaves t) i = Some leaf"
      and n: "node_at (root t) leaf = Some (Leaf b ps)" and ps': "remove_first (\<lambda>p. p_id p = i) ps = Some ps'"
      by blast
    define rt1 where "rt1 = replace_at (root t) leaf (Leaf b ps')"
    have "shape (capacity t) (maxDepth t) (length leaf) (Leaf b ps)"
      using node_at_shape [OF n] s by (fastforce simp: qt_shape_def)
    then have "shape (capacity t) (maxDepth t) 0 rt1"
      unfolding rt1_def using remove_first_length [OF ps'] s
      by (intro replace_at_shape [OF n]) (auto simp: qt_shape_def)
    then have "shape (capacity t) (maxDepth t) 0 (fst (if leaf = [] then (rt1, L) else tryCollapse (capacity t) rt1 (butlast leaf) L))" for L
      using tryCollapse_shape by simp
    moreover have "root (snd (qt_remove t i)) =
        fst (if leaf = [] then (rt1, jm_delete (driverLeaves t) i)
             else tryCollapse (capacity t) rt1 (butlast leaf) (jm_delete (driverLeaves t) i))"
      using l n ps' by (simp add: qt_remove_def rt1_def Let_def split_def)
    ultimately show ?thesis by (simp add: qt_shape_def)
  qed
qed

lemma qt_insert_shape: "qt_shape t \<Longrightarrow> qt_shape (snd (qt_insert t i la lo))"
proof -
  assume s: "qt_shape t"
  define t1 where "t1 = (if jm_has (driverMap t) i then snd (qt_remove t i) else t)"
  have t1: "shape (capacity t1) (maxDepth t1) 0 (root t1)"
    using s qt_remove_shape [OF s, of i] by (auto simp: t1_def qt_shape_def)
  then have "shape (capacity t1) (maxDepth t1) 0
      (fst (insertNode (capacity t1) (maxDepth t1) [] (root t1) p (driverLeaves t1)))" for p
    using insertNode_shape [of _ _ "[]"] by simp
  then show ?thesis
    using t1 by (auto simp: qt_insert_def t1_def [symmetric] Let_def qt_shape_def
        split: jsnum.splits option.splits prod.splits) (metis fst_conv)+
qed

lemma qt_update_shape: "qt_inv t \<Longrightarrow> qt_shape t \<Longrightarrow> qt_shape (snd (qt_update t i la lo))"
proof -
  assume inv: "qt_inv t" and s: "qt_shape t"
  show ?thesis
  proof (cases "jm_get (driverLeaves t) i")
    case None
    then show ?thesis using s unknown_leaf [OF inv, of i] by (simp add: qt_update_def)
  next
    case (Some leaf)
    from inv Some obtain p b ps where p: "jm_get (driverMap t) i = Some p"
      and n: "node_at (root t) leaf = Some (Leaf b ps)" by (rule known_leaf)
    have slow: "qt_shape (snd (qt_insert (snd (qt_remove t i)) i la lo))"
      using qt_insert_shape qt_remove_shape s by blast
    have "shape (capacity t) (maxDepth t) 0 (replace_at (root t) leaf (Leaf b (map (move_point i a x) ps)))" for a x
      using node_at_shape [OF n] s by (intro replace_at_shape [OF n]) (fastforce simp: qt_shape_def)+
    then show ?thesis
      using slow Some p n by (auto simp: qt_update_def qt_shape_def split: jsnum.splits)
  qed
qed

section \<open>Properties\<close>

text \<open>
  C7. The index refines a map: after any sequence of insertions, updates and removals the
  positions it reports are those of a plain map from drivers to positions (an insertion or update
  outside the region, or with a coordinate that is not finite, leaves the driver out), the tree is
  well formed and agrees with both driver tables, no node is deeper than maxDepth and every leaf
  above it holds at most capacity points.
\<close>

theorem index_refines_map:
  assumes "bounds_ok b"
  shows "let t = foldl qt.exec (qt_new b cap depth) cs in
    qt_pos t = foldl (\<lambda>m c. abstract_command b c m) (\<lambda>_. None) cs \<and> qt_inv t \<and> qt_shape t \<and>
    capacity t = cap \<and> maxDepth t = depth"
proof -
  have inv0: "qt_inv (qt_new b cap depth)" "qt_shape (qt_new b cap depth)"
    using qt_inv_new [OF assms] by (simp_all add: qt_shape_def qt_new_def)
  have "qt_shape (foldl qt.exec t cs)" if "qt_inv t" "qt_shape t" for t
    using that
  proof (induction cs arbitrary: t)
    case (Cons c cs)
    have "qt_inv (qt.exec t c)" using qt.exec_law [OF Cons.prems(1)] by blast
    moreover have "qt_shape (qt.exec t c)"
      using Cons.prems qt_insert_shape qt_update_shape qt_remove_shape by (cases c) simp_all
    ultimately show ?case using Cons.IH by simp
  qed simp
  moreover have "qt_region (qt_new b cap depth) = b" "qt_pos (qt_new b cap depth) = (\<lambda>_. None)"
    by (simp_all add: qt_region_def qt_new_def qt_pos_def fun_eq_iff)
  ultimately show ?thesis
    using qt.exec_all [OF inv0(1), of cs] inv0 exec_frame [of "qt_new b cap depth" cs]
    by (simp add: Let_def qt_new_def)
qed

theorem index_refines_map_witness:
  "qt_pos (foldl qt.exec (qt_new \<lparr>minLat = 0, maxLat = 10, minLng = 0, maxLng = 10\<rparr> 1 3)
     [Insert ''a'' (Fin 1) (Fin 1), Insert ''b'' (Fin 2) (Fin 9), Update ''a'' (Fin 11) (Fin 1)]) =
   [''b'' \<mapsto> (2, 9)]"
  using index_refines_map [of "\<lparr>minLat = 0, maxLat = 10, minLng = 0, maxLng = 10\<rparr>" 1 3
      "[Insert ''a'' (Fin 1) (Fin 1), Insert ''b'' (Fin 2) (Fin 9), Update ''a'' (Fin 11) (Fin 1)]"]
  by (auto simp: Let_def bounds_ok_def in_box_def fun_eq_iff)

end
