(* ===== verification/DriverRegistry.thy ===== *)
theory DriverRegistry
  imports NearestCorrect QuadTreeShape
begin

text \<open>
  The driver registry of \<open>src/core/driver_registry.ts\<close> without a shared lock service:
  the table of drivers, their reservations (\<open>lockToken\<close>), and the spatial index that holds
  the drivers a search may find.  The methods declared \<open>async\<close> do not wait for anything in
  this mode, so each is one step.  A driver record is shared by reference in the code; here the
  map \<open>drivers\<close> is the store of the records.  The calls made to the secondary index (the
  mirror), when one is attached, are collected in \<open>mirrorLog\<close>; the latency metrics that
  \<open>findNearbyCandidates\<close> reports are left out.
\<close>

section \<open>Data\<close>

datatype DriverStatus = Available | Busy | Offline

record LockToken =
  lt_requestId :: string
  lt_expiresAt :: ms

record DriverRecord =
  d_id :: string
  d_lat :: jsnum
  d_lng :: jsnum
  d_status :: DriverStatus
  d_lockToken :: "LockToken option"
  d_lastSeen :: ms

record DriverRegistry =
  drivers :: "(string, DriverRecord) jsmap"
  spatialIndex :: QuadTree
  mirrorLog :: "index_command list"

definition registry_new :: "QuadTree \<Rightarrow> DriverRegistry" where
  "registry_new index = \<lparr>drivers = [], spatialIndex = index, mirrorLog = []\<rparr>"

section \<open>The spatial index and its mirror\<close>

definition idxInsert :: "DriverRegistry \<Rightarrow> string \<Rightarrow> jsnum \<Rightarrow> jsnum \<Rightarrow> bool \<times> DriverRegistry" where
  "idxInsert r i la lo =
    (let (ok, t) = qt_insert (spatialIndex r) i la lo
     in (ok, r\<lparr>spatialIndex := t,
               mirrorLog := (if ok then mirrorLog r @ [Insert i la lo] else mirrorLog r)\<rparr>))"

definition idxUpdate :: "DriverRegistry \<Rightarrow> string \<Rightarrow> jsnum \<Rightarrow> jsnum \<Rightarrow> bool \<times> DriverRegistry" where
  "idxUpdate r i la lo =
    (let (ok, t) = qt_update (spatialIndex r) i la lo
     in (ok, r\<lparr>spatialIndex := t,
               mirrorLog := (if ok then mirrorLog r @ [Update i la lo] else mirrorLog r)\<rparr>))"

definition idxRemove :: "DriverRegistry \<Rightarrow> string \<Rightarrow> DriverRegistry" where
  "idxRemove r i = r\<lparr>spatialIndex := snd (qt_remove (spatialIndex r) i), mirrorLog := mirrorLog r @ [Remove i]\<rparr>"

definition put_driver :: "DriverRegistry \<Rightarrow> string \<Rightarrow> DriverRecord \<Rightarrow> DriverRegistry" where
  "put_driver r i d = r\<lparr>drivers := jm_set (drivers r) i d\<rparr>"

definition registry_reset :: "DriverRegistry \<Rightarrow> QuadTree \<Rightarrow> DriverRegistry" where
  "registry_reset r newIndex = r\<lparr>drivers := [], spatialIndex := newIndex\<rparr>"

definition isWithinBounds :: "DriverRegistry \<Rightarrow> jsnum \<Rightarrow> jsnum \<Rightarrow> bool" where
  "isWithinBounds r la lo =
    (let bounds = node_bounds (root (spatialIndex r)) in
     isFinite la \<and> isFinite lo \<and>
     js_le (Fin (minLat bounds)) la \<and> js_le la (Fin (maxLat bounds)) \<and>
     js_le (Fin (minLng bounds)) lo \<and> js_le lo (Fin (maxLng bounds)))"

section \<open>Registration, telemetry and status\<close>

definition registerDriver ::
    "DriverRegistry \<Rightarrow> ms \<Rightarrow> string \<Rightarrow> jsnum \<Rightarrow> jsnum \<Rightarrow> DriverStatus \<Rightarrow> DriverRecord \<times> DriverRegistry" where
  "registerDriver r now i la lo status =
    (case jm_get (drivers r) i of
       Some existing \<Rightarrow>
         let d = existing\<lparr>d_lastSeen := now\<rparr> in (d, put_driver r i d)
     | None \<Rightarrow>
         let indexedStatus = (if status = Available \<and> \<not> isWithinBounds r la lo then Offline else status);
             record = \<lparr>d_id = i, d_lat = la, d_lng = lo, d_status = indexedStatus,
                       d_lockToken = None, d_lastSeen = now\<rparr>;
             r1 = put_driver r i record
         in (record, if indexedStatus = Available then snd (idxInsert r1 i la lo) else r1))"

text \<open>The expired reservation of a driver is dropped and the driver returns to the index.\<close>

definition cleanExpiredLockIfAny :: "DriverRegistry \<Rightarrow> string \<Rightarrow> ms \<Rightarrow> DriverRegistry" where
  "cleanExpiredLockIfAny r i now =
    (case jm_get (drivers r) i of
       None \<Rightarrow> r
     | Some d \<Rightarrow>
         (case d_lockToken d of
            None \<Rightarrow> r
          | Some tok \<Rightarrow>
              if lt_expiresAt tok \<le> now then
                let r1 = put_driver r i (d\<lparr>d_lockToken := None\<rparr>)
                in if d_status d = Available then snd (idxInsert r1 i (d_lat d) (d_lng d)) else r1
              else r))"

definition updateLocation :: "DriverRegistry \<Rightarrow> ms \<Rightarrow> string \<Rightarrow> jsnum \<Rightarrow> jsnum \<Rightarrow> bool \<times> DriverRegistry" where
  "updateLocation r now i la lo =
    (case jm_get (drivers r) i of
       None \<Rightarrow> (False, r)
     | Some driver \<Rightarrow>
         if isNaN la \<or> isNaN lo \<or> js_lt la (Fin (-90)) \<or> js_lt (Fin 90) la \<or>
            js_lt lo (Fin (-180)) \<or> js_lt (Fin 180) lo then (False, r)
         else if \<not> isWithinBounds r la lo then (False, r)
         else
           let r1 = put_driver r i (driver\<lparr>d_lat := la, d_lng := lo, d_lastSeen := now\<rparr>);
               r2 = cleanExpiredLockIfAny r1 i now
           in (case jm_get (drivers r2) i of
                 None \<Rightarrow> (True, r2)
               | Some d \<Rightarrow>
                   if d_status d = Available \<and> d_lockToken d = None then
                     (let (ok, r3) = idxUpdate r2 i la lo
                      in if ok then (True, r3) else idxInsert r3 i la lo)
                   else (True, r2)))"

definition setStatus :: "DriverRegistry \<Rightarrow> ms \<Rightarrow> string \<Rightarrow> DriverStatus \<Rightarrow> bool \<times> DriverRegistry" where
  "setStatus r now i newStatus =
    (case jm_get (drivers r) i of
       None \<Rightarrow> (False, r)
     | Some driver \<Rightarrow>
         let oldStatus = d_status driver;
             d1 = driver\<lparr>d_lastSeen := now\<rparr>
         in if newStatus \<noteq> Available then
              let r1 = put_driver r i (d1\<lparr>d_status := newStatus, d_lockToken := None\<rparr>)
              in (True, if oldStatus = Available then idxRemove r1 i else r1)
            else if d_lockToken driver = None then
              if \<not> isWithinBounds r (d_lat driver) (d_lng driver)
              then (False, put_driver r i (d1\<lparr>d_status := Offline\<rparr>))
              else
                let (ok, r2) = idxInsert (put_driver r i (d1\<lparr>d_status := Available\<rparr>)) i (d_lat driver) (d_lng driver)
                in if ok then (True, r2) else (False, put_driver r2 i (d1\<lparr>d_status := Offline\<rparr>))
            else (True, put_driver r i (d1\<lparr>d_status := Available\<rparr>)))"

section \<open>Reservations\<close>

definition acquireLock :: "DriverRegistry \<Rightarrow> ms \<Rightarrow> string \<Rightarrow> string \<Rightarrow> ms \<Rightarrow> bool \<times> DriverRegistry" where
  "acquireLock r now driverId requestId ttlMs =
    (case jm_get (drivers r) driverId of
       None \<Rightarrow> (False, r)
     | Some driver \<Rightarrow>
         if d_status driver \<noteq> Available then (False, r)
         else
           let r1 = cleanExpiredLockIfAny r driverId now
           in (case jm_get (drivers r1) driverId of
                 None \<Rightarrow> (False, r1)
               | Some d \<Rightarrow>
                   if d_status d \<noteq> Available \<or> d_lockToken d \<noteq> None then (False, r1)
                   else (True, idxRemove (put_driver r1 driverId
                          (d\<lparr>d_lockToken := Some \<lparr>lt_requestId = requestId, lt_expiresAt = now + ttlMs\<rparr>\<rparr>)) driverId)))"

definition releaseLock :: "DriverRegistry \<Rightarrow> string \<Rightarrow> string \<Rightarrow> bool \<times> DriverRegistry" where
  "releaseLock r driverId requestId =
    (case jm_get (drivers r) driverId of
       None \<Rightarrow> (False, r)
     | Some driver \<Rightarrow>
         if (case d_lockToken driver of Some tok \<Rightarrow> lt_requestId tok \<noteq> requestId | None \<Rightarrow> False) then (False, r)
         else
           let r1 = put_driver r driverId (driver\<lparr>d_lockToken := None\<rparr>)
           in (True, if d_status driver = Available
                     then snd (idxInsert r1 driverId (d_lat driver) (d_lng driver)) else r1))"

definition commitTrip :: "DriverRegistry \<Rightarrow> ms \<Rightarrow> string \<Rightarrow> string \<Rightarrow> bool \<times> DriverRegistry" where
  "commitTrip r now driverId requestId =
    (case jm_get (drivers r) driverId of
       None \<Rightarrow> (False, r)
     | Some driver \<Rightarrow>
         (case d_lockToken driver of
            None \<Rightarrow> (False, r)
          | Some tok \<Rightarrow>
              if lt_requestId tok \<noteq> requestId then (False, r)
              else if lt_expiresAt tok \<le> now then (False, snd (releaseLock r driverId requestId))
              else (True, put_driver r driverId (driver\<lparr>d_lockToken := None, d_status := Busy\<rparr>))))"

definition completeTrip :: "DriverRegistry \<Rightarrow> ms \<Rightarrow> string \<Rightarrow> bool \<times> DriverRegistry" where
  "completeTrip r now driverId = setStatus r now driverId Available"

definition findNearbyCandidates :: "DriverRegistry \<Rightarrow> real \<Rightarrow> real \<Rightarrow> int \<Rightarrow> real \<Rightarrow> CandidateDriver list" where
  "findNearbyCandidates r la lo k maxRadiusMeters = kNearestNeighbors (spatialIndex r) la lo k maxRadiusMeters"

section \<open>Liveness\<close>

definition evict_one :: "ms \<Rightarrow> ms \<Rightarrow> string list \<times> DriverRegistry \<Rightarrow> string \<Rightarrow> string list \<times> DriverRegistry" where
  "evict_one now timeout acc i =
    (case acc of (evicted, r) \<Rightarrow>
       (case jm_get (drivers r) i of
          None \<Rightarrow> (evicted, r)
        | Some d \<Rightarrow>
            if d_status d \<noteq> Offline \<and> now - d_lastSeen d > timeout
            then (evicted @ [i], idxRemove (put_driver r i (d\<lparr>d_status := Offline, d_lockToken := None\<rparr>)) i)
            else (evicted, r)))"

definition evictStaleDrivers :: "DriverRegistry \<Rightarrow> ms \<Rightarrow> ms \<Rightarrow> string list \<times> DriverRegistry" where
  "evictStaleDrivers r now heartBeatTimeoutMs =
    foldl (evict_one now heartBeatTimeoutMs) ([], r) (jm_keys (drivers r))"

definition getDriver :: "DriverRegistry \<Rightarrow> string \<Rightarrow> DriverRecord option" where
  "getDriver r i = jm_get (drivers r) i"

definition totalDrivers :: "DriverRegistry \<Rightarrow> nat" where
  "totalDrivers r = length (drivers r)"

end
