(* ===== verification/RegistryInv.thy ===== *)
theory RegistryInv
  imports DriverRegistry
begin

text \<open>
  What the registry keeps: the index holds exactly the drivers that are available and not
  reserved, each at its recorded position; a reserved driver is available; an available driver
  stands inside the region.  Every operation keeps this, and the calls it makes to the mirror do
  to the mirror's positions what the operation did to the index.
\<close>

section \<open>The invariant\<close>

definition searchable :: "DriverRecord \<Rightarrow> bool" where
  "searchable d = (d_status d = Available \<and> d_lockToken d = None)"

definition record_ok :: "GeoBounds \<Rightarrow> string \<Rightarrow> DriverRecord \<Rightarrow> bool" where
  "record_ok b i d = (d_id d = i \<and> (d_lockToken d = None \<or> d_status d = Available) \<and>
     (d_status d = Available \<longrightarrow> in_region b (d_lat d) (d_lng d)))"

definition record_pos :: "GeoBounds \<Rightarrow> DriverRecord \<Rightarrow> (real \<times> real) option" where
  "record_pos b d = (if searchable d then position_of b (d_lat d) (d_lng d) else None)"

abbreviation reg_region :: "DriverRegistry \<Rightarrow> GeoBounds" where
  "reg_region r \<equiv> qt_region (spatialIndex r)"

definition reg_inv :: "DriverRegistry \<Rightarrow> bool" where
  "reg_inv r = (jm_ok (drivers r) \<and> qt_inv (spatialIndex r) \<and>
     (\<forall>i d. jm_get (drivers r) i = Some d \<longrightarrow> record_ok (reg_region r) i d) \<and>
     (\<forall>i. qt_pos (spatialIndex r) i = Option.bind (jm_get (drivers r) i) (record_pos (reg_region r))))"

text \<open>A step keeps the invariant and the region, and its mirror calls stay within it and reproduce its effect.\<close>

definition registry_step :: "DriverRegistry \<Rightarrow> DriverRegistry \<Rightarrow> bool" where
  "registry_step r r' = (reg_inv r' \<and> reg_region r' = reg_region r \<and>
     (\<exists>cs. mirrorLog r' = mirrorLog r @ cs \<and> list_all (inside (reg_region r)) cs \<and>
        qt_pos (spatialIndex r') = foldl (\<lambda>m c. abstract_command (reg_region r) c m) (qt_pos (spatialIndex r)) cs))"

lemma reg_invD:
  assumes "reg_inv r"
  shows "jm_ok (drivers r)" "qt_inv (spatialIndex r)"
    and "jm_get (drivers r) i = Some d \<Longrightarrow> record_ok (reg_region r) i d"
    and "qt_pos (spatialIndex r) i = Option.bind (jm_get (drivers r) i) (record_pos (reg_region r))"
  using assms by (auto simp: reg_inv_def)

lemma isWithinBounds_iff [simp]: "isWithinBounds r la lo \<longleftrightarrow> in_region (reg_region r) la lo"
  by (cases la; cases lo) (auto simp: isWithinBounds_def qt_region_def in_box_def Let_def)

lemma reg_inv_new: "qt_inv t \<Longrightarrow> qt_pos t = (\<lambda>_. None) \<Longrightarrow> reg_inv (registry_new t)"
  by (simp add: reg_inv_def registry_new_def)

lemma registry_step_refl: "reg_inv r \<Longrightarrow> registry_step r r"
  unfolding registry_step_def by (intro conjI exI [of _ "[]"]) simp_all

lemma registry_step_trans: "registry_step a b \<Longrightarrow> registry_step b c \<Longrightarrow> registry_step a c"
  unfolding registry_step_def by (metis append.assoc foldl_append list_all_append)

text \<open>
  Every update of the registry writes one record and brings the index to the position the
  record asks for.
\<close>

lemma registry_stepI:
  assumes inv: "reg_inv r" and d: "record_ok (reg_region r) i d"
    and t: "qt_inv t" "qt_region t = reg_region r"
    and p: "qt_pos t = (qt_pos (spatialIndex r))(i := record_pos (reg_region r) d)"
    and c: "list_all (inside (reg_region r)) cs" "foldl (\<lambda>m c. abstract_command (reg_region r) c m) (qt_pos (spatialIndex r)) cs = qt_pos t"
  shows "registry_step r (r\<lparr>drivers := jm_set (drivers r) i d, spatialIndex := t, mirrorLog := mirrorLog r @ cs\<rparr>)"
proof -
  have "reg_inv (r\<lparr>drivers := jm_set (drivers r) i d, spatialIndex := t, mirrorLog := mirrorLog r @ cs\<rparr>)"
    using reg_invD [OF inv] d t p by (auto simp: reg_inv_def)
  then show ?thesis using t c by (auto simp: registry_step_def)
qed

text \<open>The same with no index call, when the position does not change.\<close>

lemma put_driver_step:
  assumes inv: "reg_inv r" and d: "record_ok (reg_region r) i d"
    and p: "record_pos (reg_region r) d = qt_pos (spatialIndex r) i"
  shows "registry_step r (put_driver r i d)"
proof -
  have "qt_pos (spatialIndex r) = (qt_pos (spatialIndex r))(i := record_pos (reg_region r) d)"
    using p by (simp add: fun_eq_iff)
  from registry_stepI [OF inv d reg_invD(2) [OF inv] refl this, of "[]"] show ?thesis
    by (simp add: put_driver_def)
qed

lemma remove_step:
  assumes inv: "reg_inv r" and d: "record_ok (reg_region r) i d" and p: "\<not> searchable d"
  shows "registry_step r (idxRemove (put_driver r i d) i)"
proof -
  obtain ok t where rm: "qt_remove (spatialIndex r) i = (ok, t)" by (cases "qt_remove (spatialIndex r) i")
  note L = qt_remove_law [OF reg_invD(2) [OF inv] rm]
  have "registry_step r (r\<lparr>drivers := jm_set (drivers r) i d, spatialIndex := t, mirrorLog := mirrorLog r @ [Remove i]\<rparr>)"
    by (rule registry_stepI [OF inv d]) (use L p in \<open>simp_all add: record_pos_def\<close>)
  then show ?thesis using rm by (simp add: idxRemove_def put_driver_def)
qed

lemma insert_step:
  assumes inv: "reg_inv r" and d: "record_ok (reg_region r) i d" "searchable d"
  shows "registry_step r (snd (idxInsert (put_driver r i d) i (d_lat d) (d_lng d)))"
    and "fst (idxInsert (put_driver r i d) i (d_lat d) (d_lng d))"
proof -
  obtain ok t where ins: "qt_insert (spatialIndex r) i (d_lat d) (d_lng d) = (ok, t)"
    by (cases "qt_insert (spatialIndex r) i (d_lat d) (d_lng d)")
  have reg: "in_region (reg_region r) (d_lat d) (d_lng d)"
    using d by (simp add: record_ok_def searchable_def)
  note L = qt_insert_law [OF reg_invD(2) [OF inv] ins]
  have "registry_step r (r\<lparr>drivers := jm_set (drivers r) i d, spatialIndex := t,
      mirrorLog := mirrorLog r @ [Insert i (d_lat d) (d_lng d)]\<rparr>)"
    by (rule registry_stepI [OF inv d(1)]) (use L d(2) reg in \<open>simp_all add: record_pos_def\<close>)
  then show "registry_step r (snd (idxInsert (put_driver r i d) i (d_lat d) (d_lng d)))"
    "fst (idxInsert (put_driver r i d) i (d_lat d) (d_lng d))"
    using ins L reg by (simp_all add: idxInsert_def put_driver_def)
qed

lemma update_step:
  assumes inv: "reg_inv r" and old: "qt_pos (spatialIndex r) i \<noteq> None"
    and d: "record_ok (reg_region r) i d" "searchable d"
  shows "registry_step r (snd (idxUpdate (put_driver r i d) i (d_lat d) (d_lng d)))"
    and "fst (idxUpdate (put_driver r i d) i (d_lat d) (d_lng d))"
proof -
  obtain ok t where upd: "qt_update (spatialIndex r) i (d_lat d) (d_lng d) = (ok, t)"
    by (cases "qt_update (spatialIndex r) i (d_lat d) (d_lng d)")
  have reg: "in_region (reg_region r) (d_lat d) (d_lng d)"
    using d by (simp add: record_ok_def searchable_def)
  note L = qt_update_law [OF reg_invD(2) [OF inv] upd]
  have "registry_step r (r\<lparr>drivers := jm_set (drivers r) i d, spatialIndex := t,
      mirrorLog := mirrorLog r @ [Update i (d_lat d) (d_lng d)]\<rparr>)"
    by (rule registry_stepI [OF inv d(1)]) (use L d(2) old reg in \<open>auto simp: record_pos_def\<close>)
  then show "registry_step r (snd (idxUpdate (put_driver r i d) i (d_lat d) (d_lng d)))"
    "fst (idxUpdate (put_driver r i d) i (d_lat d) (d_lng d))"
    using upd L reg old by (simp_all add: idxUpdate_def put_driver_def)
qed

lemma put_driver_drivers [simp]:
  "drivers (put_driver r i d) = jm_set (drivers r) i d" "spatialIndex (put_driver r i d) = spatialIndex r"
  "mirrorLog (put_driver r i d) = mirrorLog r"
  by (simp_all add: put_driver_def)

lemma index_ops_drivers [simp]:
  "drivers (snd (idxInsert r i la lo)) = drivers r"
  "drivers (snd (idxUpdate r i la lo)) = drivers r"
  "drivers (idxRemove r i) = drivers r"
  by (simp_all add: idxInsert_def idxUpdate_def idxRemove_def split_def Let_def)

section \<open>Every operation is such a step\<close>

lemma registerDriver_step: "reg_inv r \<Longrightarrow> registry_step r (snd (registerDriver r now i la lo status))"
proof (cases "jm_get (drivers r) i")
  case (Some d)
  assume inv: "reg_inv r"
  note D = reg_invD(3) [OF inv Some] reg_invD(4) [OF inv, of i]
  have "registry_step r (put_driver r i (d\<lparr>d_lastSeen := now\<rparr>))"
    by (rule put_driver_step [OF inv]) (use D Some in \<open>auto simp: record_ok_def record_pos_def searchable_def\<close>)
  with Some show ?thesis by (simp add: registerDriver_def Let_def)
next
  case None
  assume inv: "reg_inv r"
  define st where "st = (if status = Available \<and> \<not> isWithinBounds r la lo then Offline else status)"
  let ?d = "\<lparr>d_id = i, d_lat = la, d_lng = lo, d_status = st, d_lockToken = None, d_lastSeen = now\<rparr>"
  have d: "record_ok (reg_region r) i ?d" by (auto simp: record_ok_def st_def)
  have e: "snd (registerDriver r now i la lo status) =
      (if st = Available then snd (idxInsert (put_driver r i ?d) i la lo) else put_driver r i ?d)"
    using None by (simp add: registerDriver_def st_def Let_def del: isWithinBounds_iff)
  show ?thesis
  proof (cases "st = Available")
    case True
    then show ?thesis using e insert_step(1) [OF inv d] by (simp add: searchable_def)
  next
    case False
    then show ?thesis
      using e put_driver_step [OF inv d] reg_invD(4) [OF inv, of i] None by (simp add: record_pos_def searchable_def)
  qed
qed

text \<open>An expired reservation becomes a searchable driver; anything else stays.\<close>

definition lock_expired :: "DriverRecord \<Rightarrow> ms \<Rightarrow> bool" where
  "lock_expired d now = (case d_lockToken d of None \<Rightarrow> False | Some tok \<Rightarrow> lt_expiresAt tok \<le> now)"

lemma cleanExpired_eq:
  assumes inv: "reg_inv r" and d: "jm_get (drivers r) i = Some d"
  shows "cleanExpiredLockIfAny r i now =
    (if lock_expired d now
     then snd (idxInsert (put_driver r i (d\<lparr>d_lockToken := None\<rparr>)) i (d_lat d) (d_lng d)) else r)"
  using d reg_invD(3) [OF inv d]
  by (auto simp: cleanExpiredLockIfAny_def lock_expired_def record_ok_def Let_def split: option.splits)

lemma cleanExpired_step:
  assumes inv: "reg_inv r" and d: "jm_get (drivers r) i = Some d"
  shows "registry_step r (cleanExpiredLockIfAny r i now)"
    and "jm_get (drivers (cleanExpiredLockIfAny r i now)) j =
      (if j = i \<and> lock_expired d now then Some (d\<lparr>d_lockToken := None\<rparr>) else jm_get (drivers r) j)"
proof -
  let ?d = "d\<lparr>d_lockToken := None\<rparr>"
  have "record_ok (reg_region r) i ?d" "lock_expired d now \<Longrightarrow> searchable ?d"
    using reg_invD(3) [OF inv d] by (auto simp: record_ok_def searchable_def lock_expired_def split: option.splits)
  then show "registry_step r (cleanExpiredLockIfAny r i now)"
    using insert_step(1) [OF inv, of i ?d] registry_step_refl [OF inv]
    by (simp add: cleanExpired_eq [OF inv d])
  show "jm_get (drivers (cleanExpiredLockIfAny r i now)) j =
      (if j = i \<and> lock_expired d now then Some (d\<lparr>d_lockToken := None\<rparr>) else jm_get (drivers r) j)"
    by (simp add: cleanExpired_eq [OF inv d])
qed

lemma setStatus_step: "reg_inv r \<Longrightarrow> registry_step r (snd (setStatus r now i st))"
proof (cases "jm_get (drivers r) i")
  case None
  assume "reg_inv r"
  with None show ?thesis by (simp add: setStatus_def registry_step_refl)
next
  case (Some d)
  assume inv: "reg_inv r"
  note D = reg_invD(3) [OF inv Some]
  have pos: "qt_pos (spatialIndex r) i = record_pos (reg_region r) d" using reg_invD(4) [OF inv, of i] Some by simp
  consider (off) "st \<noteq> Available" "d_status d = Available" | (off2) "st \<noteq> Available" "d_status d \<noteq> Available"
    | (out) "st = Available" "d_lockToken d = None" "\<not> in_region (reg_region r) (d_lat d) (d_lng d)"
    | (on) "st = Available" "d_lockToken d = None" "in_region (reg_region r) (d_lat d) (d_lng d)"
    | (locked) "st = Available" "d_lockToken d \<noteq> None"
    by blast
  then show ?thesis
  proof cases
    case off
    let ?d = "d\<lparr>d_lastSeen := now, d_status := st, d_lockToken := None\<rparr>"
    have "registry_step r (idxRemove (put_driver r i ?d) i)"
      by (rule remove_step [OF inv]) (use off D in \<open>auto simp: record_ok_def searchable_def\<close>)
    with off Some show ?thesis by (simp add: setStatus_def Let_def)
  next
    case off2
    let ?d = "d\<lparr>d_lastSeen := now, d_status := st, d_lockToken := None\<rparr>"
    have "registry_step r (put_driver r i ?d)"
      by (rule put_driver_step [OF inv]) (use off2 D pos in \<open>auto simp: record_ok_def record_pos_def searchable_def\<close>)
    with off2 Some show ?thesis by (simp add: setStatus_def Let_def)
  next
    case out
    let ?d = "d\<lparr>d_lastSeen := now, d_status := Offline\<rparr>"
    have "registry_step r (put_driver r i ?d)"
      by (rule put_driver_step [OF inv]) (use out D pos in \<open>auto simp: record_ok_def record_pos_def searchable_def\<close>)
    with out Some show ?thesis by (simp add: setStatus_def Let_def)
  next
    case on
    let ?d = "d\<lparr>d_lastSeen := now, d_status := Available\<rparr>"
    have ok: "record_ok (reg_region r) i ?d" "searchable ?d"
      using on D by (auto simp: record_ok_def searchable_def)
    show ?thesis using insert_step [OF inv ok] on Some by (simp add: setStatus_def Let_def split_def)
  next
    case locked
    let ?d = "d\<lparr>d_lastSeen := now, d_status := Available\<rparr>"
    have "registry_step r (put_driver r i ?d)"
      by (rule put_driver_step [OF inv]) (use locked D pos in \<open>auto simp: record_ok_def record_pos_def searchable_def\<close>)
    with locked Some show ?thesis by (auto simp: setStatus_def Let_def)
  qed
qed

lemma completeTrip_step: "reg_inv r \<Longrightarrow> registry_step r (snd (completeTrip r now i))"
  unfolding completeTrip_def by (rule setStatus_step)

lemma updateLocation_cases:
  assumes inv: "reg_inv r" and u: "updateLocation r now i la lo = (ok, r')"
  obtains (reject) "\<not> ok" "r' = r"
    "jm_get (drivers r) i = None \<or> \<not> in_region (reg_region r) la lo \<or>
     isNaN la \<or> isNaN lo \<or> js_lt la (Fin (-90)) \<or> js_lt (Fin 90) la \<or> js_lt lo (Fin (-180)) \<or> js_lt (Fin 180) lo"
  | (move) d where "ok" "jm_get (drivers r) i = Some d" "in_region (reg_region r) la lo" "registry_step r r'"
    "jm_get (drivers r') i = Some (d\<lparr>d_lat := la, d_lng := lo, d_lastSeen := now,
      d_lockToken := (if lock_expired d now then None else d_lockToken d)\<rparr>)"
    "\<forall>j. j \<noteq> i \<longrightarrow> jm_get (drivers r') j = jm_get (drivers r) j"
proof (cases "jm_get (drivers r) i")
  case None
  with u show thesis by (intro reject) (auto simp: updateLocation_def)
next
  case (Some d)
  show thesis
  proof (cases "in_region (reg_region r) la lo \<and> \<not> (isNaN la \<or> isNaN lo \<or> js_lt la (Fin (-90)) \<or> js_lt (Fin 90) la \<or>
      js_lt lo (Fin (-180)) \<or> js_lt (Fin 180) lo)")
    case False
    with u Some show thesis by (intro reject) (auto simp: updateLocation_def split: if_splits)
  next
    case True
    note D = reg_invD(3) [OF inv Some]
    let ?d1 = "d\<lparr>d_lat := la, d_lng := lo, d_lastSeen := now\<rparr>"
    let ?d2 = "?d1\<lparr>d_lockToken := (if lock_expired d now then None else d_lockToken d)\<rparr>"
    have pos: "qt_pos (spatialIndex r) i = record_pos (reg_region r) d" using reg_invD(4) [OF inv, of i] Some by simp
    have ok1: "record_ok (reg_region r) i ?d1" using D True by (simp add: record_ok_def)
    have le: "lock_expired ?d1 now = lock_expired d now" by (simp add: lock_expired_def)
    have u': "(ok, r') = (let r2 = cleanExpiredLockIfAny (put_driver r i ?d1) i now in
        (case jm_get (drivers r2) i of None \<Rightarrow> (True, r2) | Some d \<Rightarrow>
           if d_status d = Available \<and> d_lockToken d = None then
             (let (ok, r3) = idxUpdate r2 i la lo in if ok then (True, r3) else idxInsert r3 i la lo)
           else (True, r2)))"
      using u Some True by (simp add: updateLocation_def Let_def)
    show thesis
    proof (cases "searchable d")
      case s: True
      then have none: "d_lockToken d = None" by (simp add: searchable_def)
      then have "cleanExpiredLockIfAny (put_driver r i ?d1) i now = put_driver r i ?d1"
        by (simp add: cleanExpiredLockIfAny_def)
      moreover have "qt_pos (spatialIndex r) i \<noteq> None" using pos s D by (simp add: record_pos_def record_ok_def searchable_def)
      note S = update_step [OF inv this ok1]
      ultimately have "ok" "r' = snd (idxUpdate (put_driver r i ?d1) i la lo)"
        using u' s S by (simp_all add: searchable_def Let_def split_def)
      then show thesis
        using move [OF _ Some] S(1) s none True by (simp add: searchable_def lock_expired_def)
    next
      case ns: False
      have S1: "registry_step r (put_driver r i ?d1)"
        by (rule put_driver_step [OF inv ok1]) (use ns pos in \<open>auto simp: record_pos_def searchable_def\<close>)
      then have inv1: "reg_inv (put_driver r i ?d1)" by (simp add: registry_step_def)
      have g1: "jm_get (drivers (put_driver r i ?d1)) i = Some ?d1" by simp
      define r2 where "r2 = cleanExpiredLockIfAny (put_driver r i ?d1) i now"
      have S2: "registry_step (put_driver r i ?d1) r2" and inv2: "reg_inv r2" and reg2: "reg_region r2 = reg_region r"
        using cleanExpired_step(1) [OF inv1 g1, of now] S1 by (simp_all add: r2_def registry_step_def)
      have g2: "jm_get (drivers r2) j = (if j = i then Some ?d2 else jm_get (drivers r) j)" for j
        using cleanExpired_step(2) [OF inv1 g1, of now j] le by (simp add: r2_def)
      have g2i: "jm_get (drivers r2) i = Some ?d2" by (simp add: g2)
      show thesis
      proof (cases "searchable ?d2")
        case False
        then have "ok" "r' = r2" using u' g2i by (auto simp: r2_def [symmetric] searchable_def Let_def)
        then show thesis using move [OF _ Some] registry_step_trans [OF S1 S2] True g2 by simp
      next
        case s2: True
        have p2: "put_driver r2 i ?d2 = r2"
          using g2i by (simp add: put_driver_def update_triv map_of_SomeD)
        have "qt_pos (spatialIndex r2) i \<noteq> None"
          using reg_invD(4) [OF inv2, of i] g2i s2 True reg2 by (simp add: record_pos_def)
        note S = update_step [OF inv2 this reg_invD(3) [OF inv2 g2i] s2]
        then have "ok" "r' = snd (idxUpdate r2 i la lo)" "registry_step r2 r'"
          using u' g2i s2 p2 by (auto simp: r2_def [symmetric] searchable_def Let_def split_def)
        then show thesis
          using move [OF _ Some] registry_step_trans [OF registry_step_trans [OF S1 S2]] True g2 by simp
      qed
    qed
  qed
qed

lemma updateLocation_step: "reg_inv r \<Longrightarrow> registry_step r (snd (updateLocation r now i la lo))"
proof -
  assume inv: "reg_inv r"
  obtain ok r' where u: "updateLocation r now i la lo = (ok, r')" by (cases "updateLocation r now i la lo")
  from inv u show ?thesis
    by (cases rule: updateLocation_cases) (use inv u registry_step_refl in auto)
qed

lemma acquireLock_cases:
  assumes inv: "reg_inv r" and a: "acquireLock r now i req ttl = (ok, r')"
  obtains (refuse) "\<not> ok" "r' = r"
    "\<And>d. jm_get (drivers r) i = Some d \<Longrightarrow> d_status d \<noteq> Available \<or> (d_lockToken d \<noteq> None \<and> \<not> lock_expired d now)"
  | (reserve) d where "ok" "jm_get (drivers r) i = Some d" "d_status d = Available" "d_lockToken d = None \<or> lock_expired d now"
    "registry_step r r'"
    "\<And>j. jm_get (drivers r') j = (if j = i then Some (d\<lparr>d_lockToken := Some \<lparr>lt_requestId = req, lt_expiresAt = now + ttl\<rparr>\<rparr>)
       else jm_get (drivers r) j)"
proof (cases "jm_get (drivers r) i")
  case None
  with a show thesis by (intro refuse) (auto simp: acquireLock_def)
next
  case (Some d)
  show thesis
  proof (cases "d_status d = Available")
    case False
    with a Some show thesis by (intro refuse) (auto simp: acquireLock_def)
  next
    case av: True
    define r1 where "r1 = cleanExpiredLockIfAny r i now"
    define d1 where "d1 = (if lock_expired d now then d\<lparr>d_lockToken := None\<rparr> else d)"
    have S1: "registry_step r r1" and inv1: "reg_inv r1" and reg: "reg_region r1 = reg_region r"
      using cleanExpired_step(1) [OF inv Some] by (simp_all add: r1_def registry_step_def)
    have g1: "jm_get (drivers r1) j = (if j = i then Some d1 else jm_get (drivers r) j)" for j
      using cleanExpired_step(2) [OF inv Some, of now j] Some by (auto simp: r1_def d1_def)
    have d1: "d_status d1 = Available" "d_lockToken d1 = None \<longleftrightarrow> d_lockToken d = None \<or> lock_expired d now"
      using av by (auto simp: d1_def lock_expired_def)
    have e: "(ok, r') = (if d_lockToken d1 \<noteq> None then (False, r1)
       else (True, idxRemove (put_driver r1 i (d1\<lparr>d_lockToken := Some \<lparr>lt_requestId = req, lt_expiresAt = now + ttl\<rparr>\<rparr>)) i))"
      using a Some av d1(1) g1 by (simp add: acquireLock_def r1_def [symmetric] Let_def)
    show thesis
    proof (cases "d_lockToken d1 = None")
      case False
      then have "\<not> lock_expired d now" "r1 = r"
        using d1(2) Some by (auto simp: r1_def cleanExpired_eq [OF inv Some])
      with False e d1(2) Some av show thesis by (intro refuse) auto
    next
      case True
      let ?d = "d1\<lparr>d_lockToken := Some \<lparr>lt_requestId = req, lt_expiresAt = now + ttl\<rparr>\<rparr>"
      have D: "record_ok (reg_region r1) i d1" using reg_invD(3) [OF inv1, of i d1] g1 by simp
      have "registry_step r1 (idxRemove (put_driver r1 i ?d) i)"
        by (rule remove_step [OF inv1]) (use D d1 in \<open>auto simp: record_ok_def searchable_def\<close>)
      moreover have "?d = d\<lparr>d_lockToken := Some \<lparr>lt_requestId = req, lt_expiresAt = now + ttl\<rparr>\<rparr>" by (simp add: d1_def)
      ultimately show thesis
        using e True reserve [OF _ Some av _ registry_step_trans [OF S1]] d1(2) g1 by simp
    qed
  qed
qed

lemma acquireLock_step: "reg_inv r \<Longrightarrow> registry_step r (snd (acquireLock r now i req ttl))"
proof -
  assume inv: "reg_inv r"
  obtain ok r' where a: "acquireLock r now i req ttl = (ok, r')" by (cases "acquireLock r now i req ttl")
  from inv a show ?thesis by (cases rule: acquireLock_cases) (use inv a registry_step_refl in auto)
qed

definition held_by_other :: "DriverRecord \<Rightarrow> string \<Rightarrow> bool" where
  "held_by_other d req = (case d_lockToken d of Some tok \<Rightarrow> lt_requestId tok \<noteq> req | None \<Rightarrow> False)"

lemma releaseLock_cases:
  assumes inv: "reg_inv r" and a: "releaseLock r i req = (ok, r')"
  obtains (refuse) "\<not> ok" "r' = r" "\<And>d. jm_get (drivers r) i = Some d \<Longrightarrow> held_by_other d req"
  | (release) d where "ok" "jm_get (drivers r) i = Some d" "\<not> held_by_other d req" "registry_step r r'"
    "\<And>j. jm_get (drivers r') j = (if j = i then Some (d\<lparr>d_lockToken := None\<rparr>) else jm_get (drivers r) j)"
proof (cases "jm_get (drivers r) i")
  case None
  with a show thesis by (intro refuse) (auto simp: releaseLock_def)
next
  case (Some d)
  show thesis
  proof (cases "held_by_other d req")
    case True
    with a Some show thesis by (intro refuse) (auto simp: releaseLock_def held_by_other_def)
  next
    case False
    note D = reg_invD(3) [OF inv Some]
    let ?d = "d\<lparr>d_lockToken := None\<rparr>"
    have e: "ok" "r' = (if d_status d = Available then snd (idxInsert (put_driver r i ?d) i (d_lat d) (d_lng d)) else put_driver r i ?d)"
      using a Some False by (auto simp: releaseLock_def held_by_other_def Let_def)
    have ok: "record_ok (reg_region r) i ?d" using D by (auto simp: record_ok_def)
    have pos: "qt_pos (spatialIndex r) i = record_pos (reg_region r) d" using reg_invD(4) [OF inv, of i] Some by simp
    have "registry_step r r'"
    proof (cases "d_status d = Available")
      case True
      with e(2) insert_step(1) [OF inv ok] show ?thesis by (simp add: searchable_def)
    next
      case False
      then have "registry_step r (put_driver r i ?d)"
        by (intro put_driver_step [OF inv ok]) (simp add: pos record_pos_def searchable_def)
      with e(2) False show ?thesis by simp
    qed
    then show thesis using release [OF e(1) Some False] e(2) by simp
  qed
qed

lemma releaseLock_step: "reg_inv r \<Longrightarrow> registry_step r (snd (releaseLock r i req))"
proof -
  assume inv: "reg_inv r"
  obtain ok r' where a: "releaseLock r i req = (ok, r')" by (cases "releaseLock r i req")
  from inv a show ?thesis by (cases rule: releaseLock_cases) (use inv a registry_step_refl in auto)
qed

lemma commitTrip_cases:
  assumes inv: "reg_inv r" and a: "commitTrip r now i req = (ok, r')"
  obtains (refuse) "\<not> ok" "r' = r"
    "\<And>d tok. jm_get (drivers r) i = Some d \<Longrightarrow> d_lockToken d = Some tok \<Longrightarrow> lt_requestId tok \<noteq> req"
  | (late) d tok where "\<not> ok" "jm_get (drivers r) i = Some d" "d_lockToken d = Some tok" "lt_requestId tok = req"
      "lt_expiresAt tok \<le> now" "r' = snd (releaseLock r i req)"
  | (commit) d tok where "ok" "jm_get (drivers r) i = Some d" "d_lockToken d = Some tok" "lt_requestId tok = req"
      "now < lt_expiresAt tok" "registry_step r r'"
      "\<And>j. jm_get (drivers r') j = (if j = i then Some (d\<lparr>d_lockToken := None, d_status := Busy\<rparr>) else jm_get (drivers r) j)"
proof (cases "\<exists>d tok. jm_get (drivers r) i = Some d \<and> d_lockToken d = Some tok \<and> lt_requestId tok = req")
  case False
  with a show thesis by (intro refuse) (auto simp: commitTrip_def split: option.splits if_splits)
next
  case True
  then obtain d tok where d: "jm_get (drivers r) i = Some d" "d_lockToken d = Some tok" "lt_requestId tok = req" by blast
  show thesis
  proof (cases "lt_expiresAt tok \<le> now")
    case True
    with a d show thesis by (intro late [OF _ d]) (auto simp: commitTrip_def)
  next
    case False
    let ?d = "d\<lparr>d_lockToken := None, d_status := Busy\<rparr>"
    have "qt_pos (spatialIndex r) i = record_pos (reg_region r) d" using reg_invD(4) [OF inv, of i] d by simp
    then have "registry_step r (put_driver r i ?d)"
      using reg_invD(3) [OF inv d(1)] d(2)
      by (intro put_driver_step [OF inv]) (auto simp: record_ok_def record_pos_def searchable_def)
    with a d False show thesis by (intro commit [OF _ d]) (auto simp: commitTrip_def)
  qed
qed

lemma commitTrip_step: "reg_inv r \<Longrightarrow> registry_step r (snd (commitTrip r now i req))"
proof -
  assume inv: "reg_inv r"
  obtain ok r' where a: "commitTrip r now i req = (ok, r')" by (cases "commitTrip r now i req")
  from inv a show ?thesis
    by (cases rule: commitTrip_cases) (use inv a registry_step_refl releaseLock_step in auto)
qed

lemma evict_one_step:
  assumes inv: "reg_inv r" and e: "evict_one now timeout (ev, r) i = (ev', r')"
  shows "registry_step r r'"
proof (cases "\<exists>d. jm_get (drivers r) i = Some d \<and> d_status d \<noteq> Offline \<and> now - d_lastSeen d > timeout")
  case False
  with e have "r' = r" by (auto simp: evict_one_def split: option.splits if_splits)
  then show ?thesis by (simp add: registry_step_refl inv)
next
  case True
  then obtain d where d: "jm_get (drivers r) i = Some d" "d_status d \<noteq> Offline" "now - d_lastSeen d > timeout" by blast
  have "registry_step r (idxRemove (put_driver r i (d\<lparr>d_status := Offline, d_lockToken := None\<rparr>)) i)"
    by (rule remove_step [OF inv]) (use reg_invD(3) [OF inv d(1)] in \<open>auto simp: record_ok_def searchable_def\<close>)
  with e d show ?thesis by (simp add: evict_one_def)
qed

lemma evict_all_step: "reg_inv r \<Longrightarrow> registry_step r (snd (foldl (evict_one now timeout) (ev, r) ks))"
proof (induction ks arbitrary: ev r)
  case (Cons k ks)
  obtain ev1 r1 where e: "evict_one now timeout (ev, r) k = (ev1, r1)" by (cases "evict_one now timeout (ev, r) k")
  have S: "registry_step r r1" by (rule evict_one_step [OF Cons.prems e])
  then have "reg_inv r1" by (simp add: registry_step_def)
  with Cons.IH [of r1 ev1] S e registry_step_trans show ?case by auto
qed (simp add: registry_step_refl)

lemma evictStaleDrivers_step: "reg_inv r \<Longrightarrow> registry_step r (snd (evictStaleDrivers r now timeout))"
  unfolding evictStaleDrivers_def by (rule evict_all_step)

lemma registry_reset_inv: "qt_inv t \<Longrightarrow> qt_pos t = (\<lambda>_. None) \<Longrightarrow> reg_inv (registry_reset r t)"
  by (simp add: reg_inv_def registry_reset_def)

lemmas registry_steps = registerDriver_step updateLocation_step setStatus_step acquireLock_step
  releaseLock_step commitTrip_step completeTrip_step evictStaleDrivers_step

section \<open>The drivers an operation changes\<close>

lemma index_ops_eq:
  "idxInsert r i la lo = (ok, r') \<Longrightarrow> drivers r' = drivers r" "idxUpdate r i la lo = (ok, r') \<Longrightarrow> drivers r' = drivers r"
  using index_ops_drivers(1) [of r i la lo] index_ops_drivers(2) [of r i la lo] by simp_all

lemma setStatus_others [simp]:
  "d \<noteq> i \<Longrightarrow> jm_get (drivers (snd (setStatus r now i st))) d = jm_get (drivers r) d"
  by (auto simp: setStatus_def Let_def split: option.split prod.split dest: index_ops_eq)

lemma completeTrip_others [simp]:
  "d \<noteq> i \<Longrightarrow> jm_get (drivers (snd (completeTrip r now i))) d = jm_get (drivers r) d"
  by (simp add: completeTrip_def)

lemma registerDriver_others [simp]:
  "d \<noteq> i \<Longrightarrow> jm_get (drivers (snd (registerDriver r now i la lo st))) d = jm_get (drivers r) d"
  by (simp add: registerDriver_def Let_def split: option.split)

lemma cleanExpired_others [simp]:
  "d \<noteq> i \<Longrightarrow> jm_get (drivers (cleanExpiredLockIfAny r i now)) d = jm_get (drivers r) d"
  by (simp add: cleanExpiredLockIfAny_def Let_def split: option.split)

lemma updateLocation_others [simp]:
  "d \<noteq> i \<Longrightarrow> jm_get (drivers (snd (updateLocation r now i la lo))) d = jm_get (drivers r) d"
proof (cases "jm_get (drivers r) i")
  case (Some e)
  let ?r1 = "put_driver r i (e\<lparr>d_lat := la, d_lng := lo, d_lastSeen := now\<rparr>)"
  let ?r2 = "cleanExpiredLockIfAny ?r1 i now"
  assume d: "d \<noteq> i"
  have "jm_get (drivers ?r2) d = jm_get (drivers r) d" using d by simp
  moreover have "jm_get (drivers (snd (let (ok, r3) = idxUpdate ?r2 i la lo in if ok then (True, r3) else idxInsert r3 i la lo))) d =
      jm_get (drivers ?r2) d"
    by (auto simp: Let_def split: prod.split dest: index_ops_eq)
  ultimately show ?thesis
    using Some by (simp add: updateLocation_def Let_def split: option.split)
qed (simp add: updateLocation_def)

text \<open>A driver who is made available.\<close>

lemma completeTrip_frees:
  assumes inv: "reg_inv r" and d: "jm_get (drivers r) i = Some d" "d_lockToken d = None" "isWithinBounds r (d_lat d) (d_lng d)"
  shows "\<exists>d'. jm_get (drivers (snd (completeTrip r now i))) i = Some d' \<and> d_status d' = Available \<and> d_lockToken d' = None \<and>
    qt_pos (spatialIndex (snd (completeTrip r now i))) i =
      position_of (qt_region (spatialIndex (snd (completeTrip r now i)))) (d_lat d) (d_lng d)"
proof -
  define r' where "r' = snd (completeTrip r now i)"
  have r': "reg_inv r'" using completeTrip_step [OF inv, of now i] by (simp add: registry_step_def r'_def)
  have ok: "record_ok (reg_region r) i (d\<lparr>d_lastSeen := now, d_status := Available\<rparr>)"
    "searchable (d\<lparr>d_lastSeen := now, d_status := Available\<rparr>)"
    using reg_invD(3) [OF inv d(1)] d(2,3) by (auto simp: record_ok_def searchable_def)
  let ?r1 = "put_driver r i (d\<lparr>d_lastSeen := now, d_status := Available\<rparr>)"
  obtain r2 where r2: "idxInsert ?r1 i (d_lat d) (d_lng d) = (True, r2)"
    using insert_step(2) [OF inv ok] by (cases "idxInsert ?r1 i (d_lat d) (d_lng d)") simp
  have "r' = r2" using d r2 by (simp add: r'_def completeTrip_def setStatus_def)
  moreover have "drivers r2 = drivers ?r1" using index_ops_eq(1) [OF r2] .
  ultimately have g: "jm_get (drivers r') i = Some (d\<lparr>d_lastSeen := now, d_status := Available\<rparr>)" by simp
  then have "qt_pos (spatialIndex r') i = position_of (reg_region r') (d_lat d) (d_lng d)"
    using reg_invD(4) [OF r', of i] d(2) by (simp add: record_pos_def searchable_def)
  then show ?thesis using g d(2) unfolding r'_def [symmetric] by auto
qed

end
