(* ===== verification/RegistryProperties.thy ===== *)
theory RegistryProperties
  imports RegistryInv
begin

text \<open>
  What holds of the registry in every run: a search finds only free drivers, a reservation is
  exclusive until it expires, a commit needs a reservation that is still valid, stale drivers are
  evicted exactly, and a mirror that follows the calls it receives stays equal to the index.
\<close>

section \<open>Runs\<close>

inductive registry_op :: "DriverRegistry \<Rightarrow> DriverRegistry \<Rightarrow> bool" where
  op_register: "registry_op r (snd (registerDriver r now i la lo status))"
| op_location: "registry_op r (snd (updateLocation r now i la lo))"
| op_status: "registry_op r (snd (setStatus r now i status))"
| op_acquire: "registry_op r (snd (acquireLock r now i req ttl))"
| op_release: "registry_op r (snd (releaseLock r i req))"
| op_commit: "registry_op r (snd (commitTrip r now i req))"
| op_complete: "registry_op r (snd (completeTrip r now i))"
| op_evict: "registry_op r (snd (evictStaleDrivers r now timeout))"

inductive registry_run :: "DriverRegistry \<Rightarrow> bool" where
  run_new: "bounds_ok b \<Longrightarrow> registry_run (registry_new (qt_new b cap depth))"
| run_op: "registry_run r \<Longrightarrow> registry_op r r' \<Longrightarrow> registry_run r'"
| run_reset: "registry_run r \<Longrightarrow> bounds_ok b \<Longrightarrow> registry_run (registry_reset r (qt_new b cap depth))"

text \<open>What happens to the registry of a server: an operation, or a new operating region.\<close>

inductive registry_change :: "DriverRegistry \<Rightarrow> DriverRegistry \<Rightarrow> bool" where
  change_op [intro]: "registry_op r r' \<Longrightarrow> registry_change r r'"
| change_region: "bounds_ok b \<Longrightarrow> registry_change r (registry_reset r (qt_new b cap depth))"

lemma registry_run_change: "registry_change r r' \<Longrightarrow> registry_run r \<Longrightarrow> registry_run r'"
  by (erule registry_change.cases) (auto intro: run_op run_reset)

inductive_cases registry_opE: "registry_op r r'"

lemma qt_pos_new [simp]: "qt_pos (qt_new b cap depth) = (\<lambda>_. None)"
  by (simp add: qt_pos_def qt_new_def fun_eq_iff)

lemma registry_op_step: "registry_op r r' \<Longrightarrow> reg_inv r \<Longrightarrow> registry_step r r'"
  by (erule registry_opE) (auto intro: registry_steps)

lemma registry_run_inv: "registry_run r \<Longrightarrow> reg_inv r"
proof (induction rule: registry_run.induct)
  case (run_op r r')
  then show ?case using registry_op_step by (auto simp: registry_step_def)
qed (auto intro!: reg_inv_new registry_reset_inv qt_inv_new)

section \<open>A concrete run\<close>

definition demo_registry :: DriverRegistry where
  "demo_registry = snd (registerDriver (registry_new (qt_new demo_city 8 7)) 0 ''d1'' (Fin 13) (Fin 77.5) Available)"

lemma demo_registry_run: "registry_run demo_registry"
  unfolding demo_registry_def
  by (rule run_op [OF run_new op_register]) (simp add: bounds_ok_def demo_city_def)

lemma demo_registry_driver:
  "jm_get (drivers demo_registry) ''d1'' = Some \<lparr>d_id = ''d1'', d_lat = Fin 13, d_lng = Fin 77.5,
     d_status = Available, d_lockToken = None, d_lastSeen = 0\<rparr>"
  by code_simp

section \<open>Properties\<close>

lemma registry_pos_Some:
  assumes inv: "reg_inv r"
  shows "qt_pos (spatialIndex r) i = Some (a, x) \<longleftrightarrow>
    (\<exists>d. jm_get (drivers r) i = Some d \<and> searchable d \<and> d_lat d = Fin a \<and> d_lng d = Fin x)"
proof (cases "jm_get (drivers r) i")
  case (Some d)
  have "position_of (reg_region r) (d_lat d) (d_lng d) = Some (a, x) \<longleftrightarrow> d_lat d = Fin a \<and> d_lng d = Fin x" if "searchable d"
  proof -
    have "in_region (reg_region r) (d_lat d) (d_lng d)"
      using reg_invD(3) [OF inv Some] that by (simp add: record_ok_def searchable_def)
    then show ?thesis by (cases "(reg_region r, d_lat d, d_lng d)" rule: position_of.cases) auto
  qed
  then show ?thesis using reg_invD(4) [OF inv, of i] Some by (simp add: record_pos_def)
qed (use reg_invD(4) [OF inv, of i] in simp)

lemma search_only_searchable:
  assumes inv: "reg_inv r" and c: "c \<in> set (findNearbyCandidates r la lo k rad)"
  shows "\<exists>d. jm_get (drivers r) (c_id c) = Some d \<and> searchable d \<and> d_lat d = Fin (c_lat c) \<and> d_lng d = Fin (c_lng c)"
  using knn_candidate(1) [OF reg_invD(2) [OF inv]] c registry_pos_Some [OF inv]
  by (simp add: findNearbyCandidates_def)

lemma not_searchable_not_found:
  "reg_inv r \<Longrightarrow> jm_get (drivers r) i = Some d \<Longrightarrow> \<not> searchable d \<Longrightarrow> i \<notin> c_id ` set (findNearbyCandidates r la lo k rad)"
  using search_only_searchable by fastforce

text \<open>
  C5. In every run a nearest driver search returns only drivers that are available and not
  reserved, each once, at its current position and within the radius, nearest first.
\<close>

theorem search_finds_free_drivers:
  assumes "registry_run r"
  shows "let res = findNearbyCandidates r la lo k rad in
    sorted (map c_distance res) \<and> length res \<le> nat k \<and> distinct (map c_id res) \<and>
    list_all (\<lambda>c. c_distance c = haversineDistance la lo (c_lat c) (c_lng c) \<and> c_distance c \<le> rad \<and>
      (\<exists>d. jm_get (drivers r) (c_id c) = Some d \<and> d_status d = Available \<and> d_lockToken d = None \<and>
         d_lat d = Fin (c_lat c) \<and> d_lng d = Fin (c_lng c))) res"
proof -
  note inv = registry_run_inv [OF assms]
  note idx = reg_invD(2) [OF inv]
  show ?thesis
    using knn_list [OF idx] knn_candidate(2,3) [OF idx] search_only_searchable [OF inv]
    unfolding Let_def list_all_iff findNearbyCandidates_def searchable_def by meson
qed

theorem search_finds_free_drivers_witness:
  "list_all (\<lambda>c. c_distance c \<le> 500) (findNearbyCandidates demo_registry 13 77.5 4 500)"
  using search_finds_free_drivers [OF demo_registry_run, of 13 "77.5" 4 500]
  unfolding Let_def list_all_iff by blast

text \<open>
  C6. Reserving a driver succeeds exactly when the driver is known, available and not under a
  reservation that is still valid; afterwards the driver is out of every search, every other
  attempt before the deadline fails and changes nothing, and so does a release or a commit by
  another request.
\<close>

theorem reservation_is_exclusive:
  assumes "registry_run r" and "acquireLock r now i req ttl = (ok, r1)"
  shows "(ok \<longleftrightarrow> (\<exists>d. jm_get (drivers r) i = Some d \<and> d_status d = Available \<and>
        (case d_lockToken d of None \<Rightarrow> True | Some tok \<Rightarrow> lt_expiresAt tok \<le> now))) \<and>
    (if ok then
       i \<notin> c_id ` set (findNearbyCandidates r1 la lo k rad) \<and>
       (if now2 < now + ttl then acquireLock r1 now2 i req2 ttl2 = (False, r1) else True) \<and>
       (if req2 \<noteq> req then releaseLock r1 i req2 = (False, r1) \<and> commitTrip r1 now2 i req2 = (False, r1) else True)
     else r1 = r)"
proof -
  note inv = registry_run_inv [OF assms(1)]
  from inv assms(2) show ?thesis
  proof (cases rule: acquireLock_cases)
    case refuse
    then show ?thesis by (fastforce simp: lock_expired_def split: option.splits)
  next
    case (reserve d)
    let ?d = "d\<lparr>d_lockToken := Some \<lparr>lt_requestId = req, lt_expiresAt = now + ttl\<rparr>\<rparr>"
    have g: "jm_get (drivers r1) i = Some ?d" using reserve(6) [of i] by simp
    have inv1: "reg_inv r1" using reserve(5) by (simp add: registry_step_def)
    have "i \<notin> c_id ` set (findNearbyCandidates r1 la lo k rad)"
      by (rule not_searchable_not_found [OF inv1 g]) (simp add: searchable_def)
    moreover have "acquireLock r1 now2 i req2 ttl2 = (False, r1)" if "now2 < now + ttl"
      using g that reserve(3) by (simp add: acquireLock_def cleanExpiredLockIfAny_def)
    moreover have "releaseLock r1 i req2 = (False, r1)" "commitTrip r1 now2 i req2 = (False, r1)" if "req2 \<noteq> req"
      using g that by (simp_all add: releaseLock_def commitTrip_def)
    ultimately show ?thesis
      using reserve(1-4) by (auto simp: lock_expired_def split: option.splits)
  qed
qed

theorem reservation_is_exclusive_witness:
  "fst (acquireLock demo_registry 5 ''d1'' ''r1'' 100) \<and>
   acquireLock (snd (acquireLock demo_registry 5 ''d1'' ''r1'' 100)) 50 ''d1'' ''r2'' 100 =
     (False, snd (acquireLock demo_registry 5 ''d1'' ''r1'' 100))"
proof -
  obtain ok r1 where a: "acquireLock demo_registry 5 ''d1'' ''r1'' 100 = (ok, r1)"
    by (cases "acquireLock demo_registry 5 ''d1'' ''r1'' 100")
  from reservation_is_exclusive [OF demo_registry_run a, of 0 0 0 0 50 "''r2''" 100] a show ?thesis
    by (auto simp: demo_registry_driver split: if_splits)
qed

text \<open>
  A commit succeeds exactly when the driver is reserved by this request and the deadline has
  not passed; then the driver is busy, unreserved and out of every search.  A commit after the
  deadline fails and gives the driver back to the searches; any other failing commit changes nothing.
\<close>

theorem commit_needs_valid_reservation:
  assumes "registry_run r" and "commitTrip r now i req = (ok, r1)"
  shows "(ok \<longleftrightarrow> (\<exists>d tok. jm_get (drivers r) i = Some d \<and> d_lockToken d = Some tok \<and>
        lt_requestId tok = req \<and> now < lt_expiresAt tok)) \<and>
    (if ok then \<exists>d. jm_get (drivers r1) i = Some d \<and> d_status d = Busy \<and> d_lockToken d = None \<and>
        i \<notin> c_id ` set (findNearbyCandidates r1 la lo k rad)
     else r1 = r \<or> (\<exists>d. jm_get (drivers r1) i = Some d \<and> d_status d = Available \<and> d_lockToken d = None \<and>
        qt_pos (spatialIndex r1) i \<noteq> None))"
proof -
  note inv = registry_run_inv [OF assms(1)]
  from inv assms(2) show ?thesis
  proof (cases rule: commitTrip_cases)
    case refuse
    then show ?thesis by fastforce
  next
    case (late d tok)
    obtain ok2 r2 where rel: "releaseLock r i req = (ok2, r2)" by (cases "releaseLock r i req")
    from inv rel have "\<exists>d'. jm_get (drivers r1) i = Some d' \<and> d_status d' = Available \<and> d_lockToken d' = None \<and>
        qt_pos (spatialIndex r1) i \<noteq> None"
    proof (cases rule: releaseLock_cases)
      case refuse
      then show ?thesis using late(2-4) by (simp add: held_by_other_def)
    next
      case (release d')
      then have d': "d' = d" using late(2) by simp
      have st: "d_status d = Available" using reg_invD(3) [OF inv late(2)] late(3) by (simp add: record_ok_def)
      have r2: "r1 = r2" "reg_inv r2" using late(6) rel release(4) by (simp_all add: registry_step_def)
      have g: "jm_get (drivers r2) i = Some (d\<lparr>d_lockToken := None\<rparr>)" using release(5) [of i] d' by simp
      have "record_pos (reg_region r2) (d\<lparr>d_lockToken := None\<rparr>) \<noteq> None"
        using reg_invD(3) [OF r2(2) g] st by (simp add: record_pos_def searchable_def record_ok_def)
      then show ?thesis using g st r2(1) reg_invD(4) [OF r2(2), of i] by simp
    qed
    then show ?thesis using late(1-5) by auto
  next
    case (commit d tok)
    have g: "jm_get (drivers r1) i = Some (d\<lparr>d_lockToken := None, d_status := Busy\<rparr>)" using commit(7) [of i] by simp
    have "reg_inv r1" using commit(6) by (simp add: registry_step_def)
    from not_searchable_not_found [OF this g] have "i \<notin> c_id ` set (findNearbyCandidates r1 la lo k rad)"
      by (simp add: searchable_def)
    then show ?thesis using commit(1-5) g by auto
  qed
qed

theorem commit_needs_valid_reservation_witness:
  "fst (commitTrip (snd (acquireLock demo_registry 5 ''d1'' ''r1'' 100)) 104 ''d1'' ''r1'') \<and>
   \<not> fst (commitTrip (snd (acquireLock demo_registry 5 ''d1'' ''r1'' 100)) 105 ''d1'' ''r1'')"
proof -
  let ?r = "snd (acquireLock demo_registry 5 ''d1'' ''r1'' 100)"
  have run: "registry_run ?r" by (rule run_op [OF demo_registry_run op_acquire])
  have "map_option d_lockToken (jm_get (drivers ?r) ''d1'') = Some (Some \<lparr>lt_requestId = ''r1'', lt_expiresAt = 105\<rparr>)"
    by code_simp
  then obtain d where d: "jm_get (drivers ?r) ''d1'' = Some d" "d_lockToken d = Some \<lparr>lt_requestId = ''r1'', lt_expiresAt = 105\<rparr>"
    by auto
  have c: "fst (commitTrip ?r now ''d1'' ''r1'') \<longleftrightarrow> now < 105" for now
  proof -
    obtain ok r1 where q: "commitTrip ?r now ''d1'' ''r1'' = (ok, r1)" by (cases "commitTrip ?r now ''d1'' ''r1''")
    from commit_needs_valid_reservation [OF run q] d q show ?thesis by auto
  qed
  show ?thesis unfolding c by simp
qed

text \<open>Eviction, driver by driver.\<close>

definition stale :: "ms \<Rightarrow> ms \<Rightarrow> DriverRecord \<Rightarrow> bool" where
  "stale now timeout d = (d_status d \<noteq> Offline \<and> now - d_lastSeen d > timeout)"

lemma evict_all:
  "distinct ks \<Longrightarrow> \<forall>k\<in>set ks. jm_get (drivers r) k \<noteq> None \<Longrightarrow>
    fst (foldl (evict_one now timeout) (ev, r) ks) =
      ev @ filter (\<lambda>k. stale now timeout (the (jm_get (drivers r) k))) ks \<and>
    (\<forall>j. jm_get (drivers (snd (foldl (evict_one now timeout) (ev, r) ks))) j =
      map_option (\<lambda>d. if j \<in> set ks \<and> stale now timeout d then d\<lparr>d_status := Offline, d_lockToken := None\<rparr> else d)
        (jm_get (drivers r) j))"
proof (induction ks arbitrary: ev r)
  case (Cons k ks)
  then obtain d where d: "jm_get (drivers r) k = Some d" by auto
  define r1 where "r1 = (if stale now timeout d
      then idxRemove (put_driver r k (d\<lparr>d_status := Offline, d_lockToken := None\<rparr>)) k else r)"
  have e: "evict_one now timeout (ev, r) k = (if stale now timeout d then ev @ [k] else ev, r1)"
    using d by (simp add: evict_one_def stale_def r1_def)
  have g: "jm_get (drivers r1) j = (if j = k \<and> stale now timeout d then Some (d\<lparr>d_status := Offline, d_lockToken := None\<rparr>)
      else jm_get (drivers r) j)" for j
    by (simp add: r1_def)
  have ks: "distinct ks" "\<forall>k\<in>set ks. jm_get (drivers r1) k \<noteq> None" "k \<notin> set ks"
    using Cons.prems g by auto
  have same: "filter (\<lambda>k. stale now timeout (the (jm_get (drivers r1) k))) ks =
      filter (\<lambda>k. stale now timeout (the (jm_get (drivers r) k))) ks"
    using ks(3) by (intro filter_cong) (auto simp: g)
  let ?ev = "if stale now timeout d then ev @ [k] else ev"
  have IH: "fst (foldl (evict_one now timeout) (?ev, r1) ks) =
      ?ev @ filter (\<lambda>k. stale now timeout (the (jm_get (drivers r) k))) ks"
    "jm_get (drivers (snd (foldl (evict_one now timeout) (?ev, r1) ks))) j =
      map_option (\<lambda>d. if j \<in> set ks \<and> stale now timeout d then d\<lparr>d_status := Offline, d_lockToken := None\<rparr> else d)
        (jm_get (drivers r1) j)" for j
    using Cons.IH [OF ks(1,2), of ?ev] same by simp_all
  show ?case
  proof (intro conjI allI)
    fix j
    show "jm_get (drivers (snd (foldl (evict_one now timeout) (ev, r) (k # ks)))) j =
      map_option (\<lambda>d. if j \<in> set (k # ks) \<and> stale now timeout d then d\<lparr>d_status := Offline, d_lockToken := None\<rparr> else d)
        (jm_get (drivers r) j)"
      using IH(2) [of j] d ks(3) unfolding foldl.simps(2) e by (cases "j = k"; cases "jm_get (drivers r) j") (auto simp: g)
  qed (use IH(1) d in \<open>simp add: e\<close>)
qed (simp add: option.map_ident)

text \<open>
  Eviction takes exactly the drivers that are not offline and have been silent for longer
  than the timeout, in the order of the table: they become offline, lose their reservation and
  leave the searches; every other record is untouched, and afterwards no driver is stale.
\<close>

theorem eviction_is_exact:
  assumes "registry_run r" and "evictStaleDrivers r now timeout = (evicted, r1)"
  shows "evicted = filter (\<lambda>i. stale now timeout (the (jm_get (drivers r) i))) (jm_keys (drivers r)) \<and>
    (\<forall>i. jm_get (drivers r1) i =
      (if i \<in> set evicted then map_option (\<lambda>d. d\<lparr>d_status := Offline, d_lockToken := None\<rparr>) (jm_get (drivers r) i)
       else jm_get (drivers r) i)) \<and>
    (\<nexists>i d. jm_get (drivers r1) i = Some d \<and> stale now timeout d) \<and>
    (\<nexists>i. i \<in> set evicted \<and> i \<in> c_id ` set (findNearbyCandidates r1 la lo k rad))"
proof -
  note inv = registry_run_inv [OF assms(1)]
  have keys: "distinct (jm_keys (drivers r))" "\<forall>k\<in>set (jm_keys (drivers r)). jm_get (drivers r) k \<noteq> None"
    using reg_invD(1) [OF inv] by (auto simp: map_of_eq_None_iff)
  have ev: "evicted = filter (\<lambda>i. stale now timeout (the (jm_get (drivers r) i))) (jm_keys (drivers r))"
    using evict_all [OF keys, of now timeout "[]"] assms(2) by (simp add: evictStaleDrivers_def)
  have get: "jm_get (drivers r1) i = map_option
      (\<lambda>d. if i \<in> set (jm_keys (drivers r)) \<and> stale now timeout d then d\<lparr>d_status := Offline, d_lockToken := None\<rparr> else d)
      (jm_get (drivers r) i)" for i
    using evict_all [OF keys, of now timeout "[]"] assms(2) by (simp add: evictStaleDrivers_def)
  have key: "i \<in> set (jm_keys (drivers r))" if "jm_get (drivers r) i = Some d" for i d
    using that by (metis map_of_eq_None_iff list.set_map option.distinct(1))
  have each: "jm_get (drivers r1) i =
      (if i \<in> set evicted then map_option (\<lambda>d. d\<lparr>d_status := Offline, d_lockToken := None\<rparr>) (jm_get (drivers r) i)
       else jm_get (drivers r) i)" for i
    using get [of i] key [of i] by (cases "jm_get (drivers r) i") (auto simp: ev)
  moreover have "\<not> stale now timeout d" if "jm_get (drivers r1) i = Some d" for i d
    using get [of i] key [of i] that by (cases "jm_get (drivers r) i") (auto simp: stale_def split: if_splits)
  moreover have "i \<notin> c_id ` set (findNearbyCandidates r1 la lo k rad)" if i: "i \<in> set evicted" for i
  proof -
    have "i \<in> set (jm_keys (drivers r))" using i by (simp add: ev)
    then obtain d where "jm_get (drivers r) i = Some d" using keys(2) by blast
    then have g: "jm_get (drivers r1) i = Some (d\<lparr>d_status := Offline, d_lockToken := None\<rparr>)" using each [of i] i by simp
    have "reg_inv r1" using evictStaleDrivers_step [OF inv, of now timeout] assms(2) by (simp add: registry_step_def)
    from not_searchable_not_found [OF this g] show ?thesis by (simp add: searchable_def)
  qed
  ultimately show ?thesis using ev by blast
qed

theorem eviction_is_exact_witness:
  "fst (evictStaleDrivers demo_registry 30001 30000) = [''d1''] \<and> fst (evictStaleDrivers demo_registry 30000 30000) = []"
proof -
  have k: "jm_keys (drivers demo_registry) = [''d1'']" by code_simp
  have e: "fst (evictStaleDrivers demo_registry now 30000) = (if now > 30000 then [''d1''] else [])" for now
  proof -
    obtain ev r1 where q: "evictStaleDrivers demo_registry now 30000 = (ev, r1)"
      by (cases "evictStaleDrivers demo_registry now 30000")
    from eviction_is_exact [OF demo_registry_run q] q k show ?thesis
      by (simp add: demo_registry_driver stale_def)
  qed
  show ?thesis by (simp add: e)
qed

text \<open>
  Giving a reservation back returns an available driver to the searches at its current
  position, whoever asks while it is unreserved, and the holder alone while it is reserved; a busy
  or offline driver stays out.
\<close>

theorem release_returns_driver:
  assumes "registry_run r" and "releaseLock r i req = (ok, r1)"
  shows "(ok \<longleftrightarrow> (\<exists>d. jm_get (drivers r) i = Some d \<and>
        (case d_lockToken d of None \<Rightarrow> True | Some tok \<Rightarrow> lt_requestId tok = req))) \<and>
    (if ok then \<exists>d. jm_get (drivers r) i = Some d \<and> jm_get (drivers r1) i = Some (d\<lparr>d_lockToken := None\<rparr>) \<and>
        qt_pos (spatialIndex r1) i =
          (if d_status d = Available then position_of (qt_region (spatialIndex r1)) (d_lat d) (d_lng d) else None)
     else r1 = r)"
proof -
  note inv = registry_run_inv [OF assms(1)]
  from inv assms(2) show ?thesis
  proof (cases rule: releaseLock_cases)
    case refuse
    then show ?thesis by (fastforce simp: held_by_other_def split: option.splits)
  next
    case (release d)
    have inv1: "reg_inv r1" using release(4) by (simp add: registry_step_def)
    have "jm_get (drivers r1) i = Some (d\<lparr>d_lockToken := None\<rparr>)" using release(5) [of i] by simp
    then show ?thesis
      using release(1-3) reg_invD(4) [OF inv1, of i]
      by (auto simp: held_by_other_def record_pos_def searchable_def split: option.splits)
  qed
qed

theorem release_returns_driver_witness:
  "fst (releaseLock (snd (acquireLock demo_registry 5 ''d1'' ''r1'' 100)) ''d1'' ''r1'') \<and>
   \<not> fst (releaseLock (snd (acquireLock demo_registry 5 ''d1'' ''r1'' 100)) ''d1'' ''r2'')"
proof -
  let ?r = "snd (acquireLock demo_registry 5 ''d1'' ''r1'' 100)"
  have run: "registry_run ?r" by (rule run_op [OF demo_registry_run op_acquire])
  have "map_option d_lockToken (jm_get (drivers ?r) ''d1'') = Some (Some \<lparr>lt_requestId = ''r1'', lt_expiresAt = 105\<rparr>)"
    by code_simp
  then obtain d where d: "jm_get (drivers ?r) ''d1'' = Some d" "d_lockToken d = Some \<lparr>lt_requestId = ''r1'', lt_expiresAt = 105\<rparr>"
    by auto
  have c: "fst (releaseLock ?r ''d1'' q) \<longleftrightarrow> q = ''r1''" for q
  proof -
    obtain ok r1 where e: "releaseLock ?r ''d1'' q = (ok, r1)" by (cases "releaseLock ?r ''d1'' q")
    from release_returns_driver [OF run e] d e show ?thesis by auto
  qed
  show ?thesis unfolding c by simp
qed

text \<open>
  A mirror stays in lockstep: let any implementation of the interface of mirrors hold the
  same positions over the same region as the primary index; after every registry operation, an
  application of the calls the registry has sent it meanwhile leaves it with the positions of the
  primary index again.
\<close>

theorem mirror_in_lockstep:
  assumes "registry_run r" and "registry_op r r'"
    and "mirrored_index ins upd del pos region good" and "good m" and "region m = qt_region (spatialIndex r)"
    and "pos m = qt_pos (spatialIndex r)"
  shows "\<exists>cs. mirrorLog r' = mirrorLog r @ cs \<and>
    pos (foldl (mirrored_index.exec ins upd del) m cs) = qt_pos (spatialIndex r')"
proof -
  have "registry_step r r'" using registry_op_step [OF assms(2) registry_run_inv [OF assms(1)]] .
  then obtain cs where cs: "mirrorLog r' = mirrorLog r @ cs" "list_all (inside (reg_region r)) cs"
    "qt_pos (spatialIndex r') = foldl (\<lambda>m c. abstract_command (reg_region r) c m) (qt_pos (spatialIndex r)) cs"
    by (auto simp: registry_step_def)
  then show ?thesis
    using mirrored_index.exec_all_inside [OF assms(3,4), of cs] assms(5,6) by auto
qed

theorem mirror_in_lockstep_witness:
  "\<exists>cs. mirrorLog (snd (acquireLock demo_registry 5 ''d1'' ''r1'' 100)) = mirrorLog demo_registry @ cs \<and>
    qt_pos (foldl qt.exec (spatialIndex demo_registry) cs) =
      qt_pos (spatialIndex (snd (acquireLock demo_registry 5 ''d1'' ''r1'' 100)))"
  by (rule mirror_in_lockstep [OF demo_registry_run op_acquire qt.mirrored_index_axioms])
    (use registry_run_inv [OF demo_registry_run] in \<open>simp_all add: reg_inv_def\<close>)

end
