(* ===== verification/MatchingService.thy ===== *)
theory MatchingService
  imports DriverRegistry TripRuns
begin

text \<open>
  The matching service of \<open>src/core/matching_service.ts\<close> over the in-memory registry
  and without a trip store.  An \<open>async\<close> function runs from one \<open>await\<close> to the next
  without interruption; what it does between two of them is one step here, and a suspended call is
  kept in the state as its continuation: the offer loops in \<open>loops\<close> with a program counter
  that names the \<open>await\<close> they stand at, the suspended cancellations in
  \<open>cancels\<close>.  The promise of an offer is the program counter \<open>Waiting\<close>;
  \<open>resolve\<close> moves it to \<open>Resolved\<close>.  The callbacks of \<open>MatchingServiceEvents\<close>
  append to \<open>out\<close>.
\<close>

section \<open>Data\<close>

definition MAX_MATCH_WAIT_MS :: ms where "MAX_MATCH_WAIT_MS = 30000"

definition MIN_OFFER_BUDGET_MS :: ms where "MIN_OFFER_BUDGET_MS = 1000"

definition LOCK_SAFETY_MARGIN_MS :: ms where "LOCK_SAFETY_MARGIN_MS = 3000"

datatype outcome = Accepted | Rejected | Timed_out | Outcome_cancelled

record OfferNotification =
  on_driverId :: string
  on_requestId :: string
  on_tripId :: string
  on_pickup :: GeoPoint
  on_dropoff :: GeoPoint
  on_expiresAt :: ms
  on_distanceMeters :: int

datatype service_event =
    OfferDispatched OfferNotification
  | OfferRevoked string string string
  | TripMatched string string
  | MatchFailed string string

text \<open>
  \<open>po_loop\<close> stands for the two parts of an offer that refer to the waiting loop: its
  \<open>resolve\<close> function and its timer.
\<close>

record PendingOffer =
  po_driverId :: string
  po_requestId :: string
  po_expiresAt :: ms
  po_loop :: nat

record MatchConfig =
  cf_k :: int
  cf_maxRadiusMeters :: real
  cf_offerTimeoutMs :: ms

datatype loop_pc =
    Acquiring CandidateDriver ms bool
  | Waiting CandidateDriver
  | Resolved CandidateDriver outcome
  | AbortReleasing
  | Committing CandidateDriver bool
  | Releasing CandidateDriver outcome
  | CommitFailed CandidateDriver
  | RollingBack CandidateDriver

record OfferLoop =
  lp_trip :: Trip
  lp_config :: MatchConfig
  lp_deadline :: ms
  lp_tried :: "string list"
  lp_hadCandidates :: bool
  lp_i :: int
  lp_pc :: loop_pc

record CancelCall =
  cc_requestId :: string
  cc_by :: ActorRole
  cc_reason :: "string option"
  cc_offer :: PendingOffer

record MatchingService =
  driverRegistry :: DriverRegistry
  stateMachine :: TSM
  activeOffers :: "(string, PendingOffer) jsmap"
  abortedRequests :: "string set"
  loops :: "(nat, OfferLoop) jsmap"
  timers :: "nat set"
  nextLoop :: nat
  cancels :: "(nat, CancelCall) jsmap"
  nextCancel :: nat
  out :: "service_event list"
  marks :: "nat list"

definition service_new :: "DriverRegistry \<Rightarrow> TSM \<Rightarrow> MatchingService" where
  "service_new r m =
    \<lparr>driverRegistry = r, stateMachine = m, activeOffers = [], abortedRequests = {}, loops = [],
     timers = {}, nextLoop = 0, cancels = [], nextCancel = 0, out = [], marks = []\<rparr>"

text \<open>\<open>marks\<close> says of each event how many transitions had been reported before it.\<close>

definition emit :: "MatchingService \<Rightarrow> service_event \<Rightarrow> MatchingService" where
  "emit s e = s\<lparr>out := out s @ [e], marks := marks s @ [length (notices (stateMachine s))]\<rparr>"

definition put_loop :: "MatchingService \<Rightarrow> nat \<Rightarrow> OfferLoop \<Rightarrow> MatchingService" where
  "put_loop s l lp = s\<lparr>loops := jm_set (loops s) l lp\<rparr>"

text \<open>The \<open>finally\<close> block of a loop that returns.\<close>

definition end_loop :: "MatchingService \<Rightarrow> nat \<Rightarrow> OfferLoop \<Rightarrow> MatchingService" where
  "end_loop s l lp =
    s\<lparr>loops := jm_delete (loops s) l,
      abortedRequests := abortedRequests s - {t_requestId (lp_trip lp)}\<rparr>"

text \<open>
  The status of the trip object a loop holds.  A trip that has left the store was evicted in a
  terminal status, which it keeps.
\<close>

definition matching_still :: "MatchingService \<Rightarrow> OfferLoop \<Rightarrow> bool" where
  "matching_still s lp =
    (case getTrip (stateMachine s) (t_id (lp_trip lp)) of
       Some t \<Rightarrow> t_status t = Matching
     | None \<Rightarrow> False)"

section \<open>The offer loop\<close>

text \<open>After the loop: no driver accepted.\<close>

definition loop_exhausted :: "MatchingService \<Rightarrow> ms \<Rightarrow> nat \<Rightarrow> OfferLoop \<Rightarrow> MatchingService" where
  "loop_exhausted s now l lp =
    (let trip = lp_trip lp in
     if t_requestId trip \<in> abortedRequests s then end_loop s l lp
     else
       let reason = (if lp_hadCandidates lp then ''All candidate drivers declined or timed out''
                     else ''No available drivers in search radius'');
           s1 = s\<lparr>stateMachine := snd (cancelTrip (stateMachine s) now (t_id trip) System (Some reason))\<rparr>
       in end_loop (emit s1 (MatchFailed (t_requestId trip) reason)) l lp)"

text \<open>
  One iteration up to its first \<open>await\<close>: the guards, the choice of the candidate, and the
  call of \<open>acquireLock\<close>.
\<close>

definition loop_iteration :: "MatchingService \<Rightarrow> ms \<Rightarrow> nat \<Rightarrow> OfferLoop \<Rightarrow> MatchingService" where
  "loop_iteration s now l lp =
    (let trip = lp_trip lp; cf = lp_config lp in
     if \<not> lp_i lp < cf_k cf then loop_exhausted s now l lp
     else if t_requestId trip \<in> abortedRequests s then end_loop s l lp
     else
       let budgetMs = lp_deadline lp - now;
           minOfferBudgetMs = min MIN_OFFER_BUDGET_MS (cf_offerTimeoutMs cf)
       in if budgetMs < minOfferBudgetMs then loop_exhausted s now l lp
       else
         (case filter (\<lambda>c. c_id c \<notin> set (lp_tried lp))
                 (findNearbyCandidates (driverRegistry s) (lat (t_pickup trip)) (lng (t_pickup trip))
                    (cf_k cf) (cf_maxRadiusMeters cf)) of
            [] \<Rightarrow> loop_exhausted s now l lp
          | candidate # _ \<Rightarrow>
              let offerTimeoutMs = min (cf_offerTimeoutMs cf) budgetMs;
                  lockTtlMs = offerTimeoutMs + LOCK_SAFETY_MARGIN_MS;
                  (locked, r1) = acquireLock (driverRegistry s) now (c_id candidate) (t_requestId trip) lockTtlMs
              in put_loop (s\<lparr>driverRegistry := r1\<rparr>) l
                   (lp\<lparr>lp_tried := lp_tried lp @ [c_id candidate], lp_hadCandidates := True,
                       lp_pc := Acquiring candidate offerTimeoutMs locked\<rparr>)))"

definition next_iteration :: "MatchingService \<Rightarrow> ms \<Rightarrow> nat \<Rightarrow> OfferLoop \<Rightarrow> MatchingService" where
  "next_iteration s now l lp = loop_iteration s now l (lp\<lparr>lp_i := lp_i lp + 1\<rparr>)"

text \<open>\<open>awaitCandidateOffer\<close>: the offer is registered, its timer set, and the driver told.\<close>

definition awaitCandidateOffer ::
    "MatchingService \<Rightarrow> ms \<Rightarrow> nat \<Rightarrow> OfferLoop \<Rightarrow> CandidateDriver \<Rightarrow> ms \<Rightarrow> MatchingService" where
  "awaitCandidateOffer s now l lp candidate timeoutMs =
    (let trip = lp_trip lp;
         expiresAt = now + timeoutMs;
         offer = \<lparr>po_driverId = c_id candidate, po_requestId = t_requestId trip,
                  po_expiresAt = expiresAt, po_loop = l\<rparr>;
         s1 = s\<lparr>activeOffers := jm_set (activeOffers s) (t_requestId trip) offer,
                timers := insert l (timers s)\<rparr>
     in put_loop
          (emit s1 (OfferDispatched
             \<lparr>on_driverId = c_id candidate, on_requestId = t_requestId trip, on_tripId = t_id trip,
              on_pickup = t_pickup trip, on_dropoff = t_dropoff trip, on_expiresAt = expiresAt,
              on_distanceMeters = \<lfloor>c_distance candidate + 1 / 2\<rfloor>\<rparr>))
          l (lp\<lparr>lp_pc := Waiting candidate\<rparr>))"

text \<open>What a loop does when the \<open>await\<close> it stands at is over.\<close>

definition loop_resume :: "MatchingService \<Rightarrow> ms \<Rightarrow> nat \<Rightarrow> OfferLoop \<Rightarrow> MatchingService" where
  "loop_resume s now l lp =
    (let req = t_requestId (lp_trip lp) in
     case lp_pc lp of
       Acquiring candidate offerTimeoutMs locked \<Rightarrow>
         if \<not> locked then next_iteration s now l lp
         else awaitCandidateOffer s now l lp candidate offerTimeoutMs
     | Waiting _ \<Rightarrow> s
     | Resolved candidate oc \<Rightarrow>
         if req \<in> abortedRequests s \<or> \<not> matching_still s lp then
           put_loop (s\<lparr>driverRegistry := snd (releaseLock (driverRegistry s) (c_id candidate) req)\<rparr>)
             l (lp\<lparr>lp_pc := AbortReleasing\<rparr>)
         else
           (case oc of
              Accepted \<Rightarrow>
                let (committed, r1) = commitTrip (driverRegistry s) now (c_id candidate) req
                in put_loop (s\<lparr>driverRegistry := r1\<rparr>) l (lp\<lparr>lp_pc := Committing candidate committed\<rparr>)
            | Outcome_cancelled \<Rightarrow> end_loop s l lp
            | _ \<Rightarrow>
                put_loop (s\<lparr>driverRegistry := snd (releaseLock (driverRegistry s) (c_id candidate) req)\<rparr>)
                  l (lp\<lparr>lp_pc := Releasing candidate oc\<rparr>))
     | AbortReleasing \<Rightarrow> end_loop s l lp
     | Committing candidate committed \<Rightarrow>
         if committed then
           (case setMatched (stateMachine s) now (t_id (lp_trip lp)) (c_id candidate) of
              (Inr (trip, _), m1) \<Rightarrow>
                end_loop (emit (s\<lparr>stateMachine := m1\<rparr>) (TripMatched (t_id trip) (c_id candidate))) l lp
            | (Inl _, m1) \<Rightarrow>
                put_loop (s\<lparr>stateMachine := m1,
                            driverRegistry := snd (completeTrip (driverRegistry s) now (c_id candidate))\<rparr>)
                  l (lp\<lparr>lp_pc := RollingBack candidate\<rparr>))
         else
           put_loop (s\<lparr>driverRegistry := snd (releaseLock (driverRegistry s) (c_id candidate) req)\<rparr>)
             l (lp\<lparr>lp_pc := CommitFailed candidate\<rparr>)
     | Releasing candidate oc \<Rightarrow>
         next_iteration
           (if oc = Timed_out then emit s (OfferRevoked (c_id candidate) req ''Offer timed out'') else s) now l lp
     | CommitFailed candidate \<Rightarrow>
         next_iteration (emit s (OfferRevoked (c_id candidate) req ''lock_expired_before_commit'')) now l lp
     | RollingBack candidate \<Rightarrow> next_iteration s now l lp)"

definition resolve_offer :: "MatchingService \<Rightarrow> nat \<Rightarrow> outcome \<Rightarrow> MatchingService" where
  "resolve_offer s l oc =
    (case jm_get (loops s) l of
       Some lp \<Rightarrow>
         (case lp_pc lp of
            Waiting c \<Rightarrow> put_loop s l (lp\<lparr>lp_pc := Resolved c oc\<rparr>)
          | _ \<Rightarrow> s)
     | None \<Rightarrow> s)"

definition dispatchOfferLoop :: "MatchingService \<Rightarrow> ms \<Rightarrow> Trip \<Rightarrow> MatchConfig \<Rightarrow> MatchingService" where
  "dispatchOfferLoop s now trip config =
    (let l = nextLoop s;
         lp = \<lparr>lp_trip = trip, lp_config = config, lp_deadline = now + MAX_MATCH_WAIT_MS, lp_tried = [],
               lp_hadCandidates = False, lp_i = 0, lp_pc = AbortReleasing\<rparr>
     in loop_iteration (s\<lparr>nextLoop := Suc l\<rparr>) now l lp)"

section \<open>The methods\<close>

datatype service_error =
    TripError tsm_error
  | InvalidResponse
  | OfferExpired
  | OfferDeadlinePassed
  | RematchTripNotFound string
  | AlreadyMatching string

definition requestRide ::
    "MatchingService \<Rightarrow> ms \<Rightarrow> string \<Rightarrow> string \<Rightarrow> string \<Rightarrow> jsval \<Rightarrow> jsval \<Rightarrow> MatchConfig \<Rightarrow>
     (service_error + Trip) \<times> MatchingService" where
  "requestRide s now uuid requestId riderId pickup dropoff config =
    (case createTrip (stateMachine s) now uuid requestId riderId pickup dropoff of
       (Inl e, m1) \<Rightarrow> (Inl (TripError e), s\<lparr>stateMachine := m1\<rparr>)
     | (Inr trip, m1) \<Rightarrow>
         if t_status trip \<noteq> Requested then (Inr trip, s\<lparr>stateMachine := m1\<rparr>)
         else
           (case startMatching m1 now (t_id trip) of
              (Inl e, m2) \<Rightarrow> (Inl (TripError e), s\<lparr>stateMachine := m2\<rparr>)
            | (Inr (trip2, _), m2) \<Rightarrow>
                (Inr trip2,
                 dispatchOfferLoop
                   (s\<lparr>stateMachine := m2, abortedRequests := abortedRequests s - {requestId}\<rparr>) now trip2 config)))"

fun response_of :: "jsval \<Rightarrow> outcome option" where
  "response_of (JStr r) =
    (if r = ''accepted'' then Some Accepted else if r = ''rejected'' then Some Rejected else None)"
| "response_of _ = None"

definition drop_offer :: "MatchingService \<Rightarrow> string \<Rightarrow> PendingOffer \<Rightarrow> MatchingService" where
  "drop_offer s requestId offer =
    s\<lparr>timers := timers s - {po_loop offer}, activeOffers := jm_delete (activeOffers s) requestId\<rparr>"

definition handleDriverResponse ::
    "MatchingService \<Rightarrow> ms \<Rightarrow> string \<Rightarrow> string \<Rightarrow> jsval \<Rightarrow> (service_error + unit) \<times> MatchingService" where
  "handleDriverResponse s now driverId requestId response =
    (case response_of response of
       None \<Rightarrow> (Inl InvalidResponse, s)
     | Some oc \<Rightarrow>
         (case jm_get (activeOffers s) requestId of
            None \<Rightarrow> (Inl OfferExpired, s)
          | Some offer \<Rightarrow>
              if po_driverId offer \<noteq> driverId then (Inl OfferExpired, s)
              else if now \<ge> po_expiresAt offer then
                (Inl OfferDeadlinePassed, resolve_offer (drop_offer s requestId offer) (po_loop offer) Timed_out)
              else (Inr (), resolve_offer (drop_offer s requestId offer) (po_loop offer) oc)))"

text \<open>The timer of an offer.\<close>

definition offer_timeout :: "MatchingService \<Rightarrow> nat \<Rightarrow> OfferLoop \<Rightarrow> MatchingService" where
  "offer_timeout s l lp =
    resolve_offer
      (s\<lparr>timers := timers s - {l}, activeOffers := jm_delete (activeOffers s) (t_requestId (lp_trip lp))\<rparr>)
      l Timed_out"

text \<open>The part of \<open>cancelRide\<close> after the pending offer has been dealt with.\<close>

definition cancel_trip_part ::
    "MatchingService \<Rightarrow> ms \<Rightarrow> string \<Rightarrow> ActorRole \<Rightarrow> string option \<Rightarrow> (service_error + unit) \<times> MatchingService" where
  "cancel_trip_part s now requestId by reason =
    (case getTripByRequestId (stateMachine s) requestId of
       None \<Rightarrow> (Inr (), s)
     | Some trip \<Rightarrow>
         (case cancelTrip (stateMachine s) now (t_id trip) by reason of
            (Inl e, m1) \<Rightarrow> (Inl (TripError e), s\<lparr>stateMachine := m1\<rparr>)
          | (Inr _, m1) \<Rightarrow>
              (Inr (),
               s\<lparr>stateMachine := m1,
                 driverRegistry :=
                   (if truthy (t_driverId trip)
                    then snd (completeTrip (driverRegistry s) now (the (t_driverId trip)))
                    else driverRegistry s)\<rparr>)))"

text \<open>
  \<open>cancelRide\<close> up to its first \<open>await\<close>; the result is \<open>None\<close> when the call is
  suspended.
\<close>

definition cancelRide ::
    "MatchingService \<Rightarrow> ms \<Rightarrow> string \<Rightarrow> ActorRole \<Rightarrow> string option \<Rightarrow> (service_error + unit) option \<times> MatchingService" where
  "cancelRide s now requestId by reason =
    (let s1 = s\<lparr>abortedRequests := insert requestId (abortedRequests s)\<rparr> in
     case jm_get (activeOffers s1) requestId of
       Some offer \<Rightarrow>
         let s2 = drop_offer s1 requestId offer;
             s3 = s2\<lparr>driverRegistry := snd (releaseLock (driverRegistry s2) (po_driverId offer) requestId)\<rparr>
         in (None, s3\<lparr>cancels := jm_set (cancels s3) (nextCancel s3)
                        \<lparr>cc_requestId = requestId, cc_by = by, cc_reason = reason, cc_offer = offer\<rparr>,
                      nextCancel := Suc (nextCancel s3)\<rparr>)
     | None \<Rightarrow> (case cancel_trip_part s1 now requestId by reason of (r, s2) \<Rightarrow> (Some r, s2)))"

definition cancelRide_resume ::
    "MatchingService \<Rightarrow> ms \<Rightarrow> nat \<Rightarrow> CancelCall \<Rightarrow> (service_error + unit) \<times> MatchingService" where
  "cancelRide_resume s now n cc =
    (let s1 = s\<lparr>cancels := jm_delete (cancels s) n\<rparr>;
         reason = (case cc_reason cc of
                     Some x \<Rightarrow> if x = [] then ''Rider cancelled request'' else x
                   | None \<Rightarrow> ''Rider cancelled request'');
         s2 = emit s1 (OfferRevoked (po_driverId (cc_offer cc)) (cc_requestId cc) reason);
         s3 = resolve_offer s2 (po_loop (cc_offer cc)) Outcome_cancelled
     in cancel_trip_part s3 now (cc_requestId cc) (cc_by cc) (cc_reason cc))"

text \<open>\<open>reset\<close>: every pending offer is revoked and every active trip cancelled.\<close>

definition reset_offer :: "string \<Rightarrow> MatchingService \<Rightarrow> string \<times> PendingOffer \<Rightarrow> MatchingService" where
  "reset_offer reason s e =
    (case e of (requestId, offer) \<Rightarrow>
       let s1 = drop_offer s requestId offer;
           s2 = s1\<lparr>driverRegistry := snd (releaseLock (driverRegistry s1) (po_driverId offer) requestId)\<rparr>
       in resolve_offer (emit s2 (OfferRevoked (po_driverId offer) requestId reason)) (po_loop offer) Outcome_cancelled)"

definition reset_trip :: "ms \<Rightarrow> string \<Rightarrow> MatchingService \<Rightarrow> Trip \<Rightarrow> MatchingService" where
  "reset_trip now reason s trip =
    (case cancelTrip (stateMachine s) now (t_id trip) System (Some reason) of
       (Inr _, m1) \<Rightarrow>
         s\<lparr>stateMachine := m1,
           driverRegistry :=
             (if truthy (t_driverId trip)
              then snd (completeTrip (driverRegistry s) now (the (t_driverId trip)))
              else driverRegistry s)\<rparr>
     | (Inl _, m1) \<Rightarrow> s\<lparr>stateMachine := m1\<rparr>)"

definition reset_service :: "MatchingService \<Rightarrow> ms \<Rightarrow> string \<Rightarrow> MatchingService" where
  "reset_service s now reason =
    (let activeTrips = getActiveTrips (stateMachine s);
         s1 = s\<lparr>abortedRequests := abortedRequests s \<union> set (map t_requestId activeTrips)\<rparr>;
         s2 = foldl (reset_offer reason) s1 (activeOffers s1)
     in foldl (reset_trip now reason) s2 activeTrips)"

definition rematch ::
    "MatchingService \<Rightarrow> ms \<Rightarrow> string \<Rightarrow> string option \<Rightarrow> MatchConfig \<Rightarrow> (service_error + unit) \<times> MatchingService" where
  "rematch s now tripId reason config =
    (case getTrip (stateMachine s) tripId of
       None \<Rightarrow> (Inl (RematchTripNotFound tripId), s)
     | Some trip \<Rightarrow>
         if t_status trip = Matching then (Inl (AlreadyMatching tripId), s)
         else
           (case rematchTrip (stateMachine s) now tripId reason of
              (Inl e, m1) \<Rightarrow> (Inl (TripError e), s\<lparr>stateMachine := m1\<rparr>)
            | (Inr (trip2, _), m1) \<Rightarrow>
                (Inr (), dispatchOfferLoop
                   (s\<lparr>stateMachine := m1, abortedRequests := abortedRequests s - {t_requestId trip}\<rparr>)
                   now trip2 config)))"

definition getActiveOffer :: "MatchingService \<Rightarrow> string \<Rightarrow> PendingOffer option" where
  "getActiveOffer s requestId = jm_get (activeOffers s) requestId"

end
