(* ===== verification/MatchingCases.thy ===== *)
theory MatchingCases
  imports MatchingService RegistryProperties
begin

text \<open>
  What each operation of the matching service can do: one case rule per operation, which names
  the branch taken, the condition for it and the resulting state.  The invariants of
  \<open>MatchingInv\<close> are proved from these rules, one step at a time.
\<close>

section \<open>What an operation can do\<close>

abbreviation lp_req :: "OfferLoop \<Rightarrow> string" where
  "lp_req lp \<equiv> t_requestId (lp_trip lp)"

abbreviation lp_tid :: "OfferLoop \<Rightarrow> string" where
  "lp_tid lp \<equiv> t_id (lp_trip lp)"

definition untried :: "MatchingService \<Rightarrow> OfferLoop \<Rightarrow> CandidateDriver list" where
  "untried s lp = filter (\<lambda>c. c_id c \<notin> set (lp_tried lp))
     (findNearbyCandidates (driverRegistry s) (lat (t_pickup (lp_trip lp))) (lng (t_pickup (lp_trip lp)))
        (cf_k (lp_config lp)) (cf_maxRadiusMeters (lp_config lp)))"

lemma loop_exhausted_cases:
  obtains (aborted) "lp_req lp \<in> abortedRequests s" "loop_exhausted s now l lp = end_loop s l lp"
  | (failed) reason where "lp_req lp \<notin> abortedRequests s"
      "loop_exhausted s now l lp = end_loop (emit
         (s\<lparr>stateMachine := snd (cancelTrip (stateMachine s) now (lp_tid lp) System (Some reason))\<rparr>)
         (MatchFailed (lp_req lp) reason)) l lp"
  unfolding loop_exhausted_def Let_def by (metis (full_types))

lemma loop_iteration_cases:
  obtains (aborted) "lp_req lp \<in> abortedRequests s" "loop_iteration s now l lp = end_loop s l lp"
  | (failed) reason where "lp_req lp \<notin> abortedRequests s"
      "loop_iteration s now l lp = end_loop (emit
         (s\<lparr>stateMachine := snd (cancelTrip (stateMachine s) now (lp_tid lp) System (Some reason))\<rparr>)
         (MatchFailed (lp_req lp) reason)) l lp"
  | (attempt) c cs tmo locked r1 where "lp_i lp < cf_k (lp_config lp)" "lp_req lp \<notin> abortedRequests s"
      "min MIN_OFFER_BUDGET_MS (cf_offerTimeoutMs (lp_config lp)) \<le> lp_deadline lp - now"
      "untried s lp = c # cs" "tmo = min (cf_offerTimeoutMs (lp_config lp)) (lp_deadline lp - now)"
      "acquireLock (driverRegistry s) now (c_id c) (lp_req lp) (tmo + LOCK_SAFETY_MARGIN_MS) = (locked, r1)"
      "loop_iteration s now l lp = put_loop (s\<lparr>driverRegistry := r1\<rparr>) l
         (lp\<lparr>lp_tried := lp_tried lp @ [c_id c], lp_hadCandidates := True, lp_pc := Acquiring c tmo locked\<rparr>)"
proof -
  have ex: thesis if "loop_iteration s now l lp = loop_exhausted s now l lp"
    by (rule loop_exhausted_cases [of lp s now l]) (use that aborted failed in auto)
  show thesis
  proof (cases "lp_i lp < cf_k (lp_config lp)")
    case i: True
    show thesis
    proof (cases "lp_req lp \<in> abortedRequests s")
      case True
      then show thesis using i by (intro aborted) (simp_all add: loop_iteration_def Let_def)
    next
      case na: False
      show thesis
      proof (cases "lp_deadline lp - now < min MIN_OFFER_BUDGET_MS (cf_offerTimeoutMs (lp_config lp))")
        case True
        then show thesis using i na by (intro ex) (simp add: loop_iteration_def Let_def)
      next
        case b: False
        show thesis
        proof (cases "untried s lp")
          case Nil
          then show thesis using i na b by (intro ex) (simp add: loop_iteration_def Let_def untried_def)
        next
          case (Cons c cs)
          obtain locked r1 where a: "acquireLock (driverRegistry s) now (c_id c) (lp_req lp)
              (min (cf_offerTimeoutMs (lp_config lp)) (lp_deadline lp - now) + LOCK_SAFETY_MARGIN_MS) = (locked, r1)"
            by fastforce
          show thesis
            by (rule attempt [OF i na _ Cons refl a])
              (use i na b Cons a in \<open>simp_all add: loop_iteration_def Let_def untried_def not_less del: min_less_iff_conj\<close>)
        qed
      qed
    qed
  next
    case False
    then show thesis by (intro ex) (simp add: loop_iteration_def Let_def)
  qed
qed

text \<open>The steps of a loop, by the place it stands at.\<close>

definition settles :: "MatchingService \<Rightarrow> OfferLoop \<Rightarrow> bool" where
  "settles s lp = (lp_req lp \<notin> abortedRequests s \<and> matching_still s lp)"

lemma loop_resume_cases:
  obtains (wait) c where "lp_pc lp = Waiting c" "loop_resume s now l lp = s"
  | (offer) c tmo where "lp_pc lp = Acquiring c tmo True" "loop_resume s now l lp = awaitCandidateOffer s now l lp c tmo"
  | (proceed) evs ks where "(\<exists>c tmo. lp_pc lp = Acquiring c tmo False) \<or> (\<exists>c oc. lp_pc lp = Releasing c oc) \<or>
        (\<exists>c. lp_pc lp = CommitFailed c) \<or> (\<exists>c. lp_pc lp = RollingBack c)"
      "loop_resume s now l lp = next_iteration (s\<lparr>out := out s @ evs, marks := marks s @ ks\<rparr>) now l lp"
      "\<And>e. e \<in> set evs \<Longrightarrow> \<exists>c r. e = OfferRevoked c (lp_req lp) r"
  | (release) c oc pc r1 where "lp_pc lp = Resolved c oc" "pc = AbortReleasing \<or> (pc = Releasing c oc \<and> oc \<noteq> Accepted)"
      "r1 = snd (releaseLock (driverRegistry s) (c_id c) (lp_req lp))"
      "loop_resume s now l lp = put_loop (s\<lparr>driverRegistry := r1\<rparr>) l (lp\<lparr>lp_pc := pc\<rparr>)"
  | (commit) c committed r1 where "lp_pc lp = Resolved c Accepted" "settles s lp"
      "commitTrip (driverRegistry s) now (c_id c) (lp_req lp) = (committed, r1)"
      "loop_resume s now l lp = put_loop (s\<lparr>driverRegistry := r1\<rparr>) l (lp\<lparr>lp_pc := Committing c committed\<rparr>)"
  | (quit) "lp_pc lp = AbortReleasing \<or> (\<exists>c. lp_pc lp = Resolved c Outcome_cancelled)" "loop_resume s now l lp = end_loop s l lp"
  | (match) c trip ev m1 where "lp_pc lp = Committing c True" "setMatched (stateMachine s) now (lp_tid lp) (c_id c) = (Inr (trip, ev), m1)"
      "loop_resume s now l lp = end_loop (emit (s\<lparr>stateMachine := m1\<rparr>) (TripMatched (t_id trip) (c_id c))) l lp"
  | (rollback) c e m1 r1 where "lp_pc lp = Committing c True" "setMatched (stateMachine s) now (lp_tid lp) (c_id c) = (Inl e, m1)"
      "r1 = snd (completeTrip (driverRegistry s) now (c_id c))"
      "loop_resume s now l lp = put_loop (s\<lparr>stateMachine := m1, driverRegistry := r1\<rparr>) l (lp\<lparr>lp_pc := RollingBack c\<rparr>)"
  | (late) c r1 where "lp_pc lp = Committing c False" "r1 = snd (releaseLock (driverRegistry s) (c_id c) (lp_req lp))"
      "loop_resume s now l lp = put_loop (s\<lparr>driverRegistry := r1\<rparr>) l (lp\<lparr>lp_pc := CommitFailed c\<rparr>)"
proof (cases "lp_pc lp")
  case (Acquiring c tmo locked)
  show thesis
  proof (cases locked)
    case True
    then show thesis using Acquiring by (intro offer) (simp_all add: loop_resume_def Let_def)
  next
    case False
    show thesis by (rule proceed [of "[]" "[]"]) (use Acquiring False in \<open>simp_all add: loop_resume_def Let_def\<close>)
  qed
next
  case (Waiting c)
  then show thesis by (intro wait) (simp_all add: loop_resume_def Let_def)
next
  case (Resolved c oc)
  show thesis
  proof (cases "settles s lp")
    case False
    then show thesis using Resolved
      by (intro release [OF _ disjI1 [OF refl] refl]) (auto simp: loop_resume_def Let_def settles_def)
  next
    case st: True
    show thesis
    proof (cases oc)
      case Accepted
      obtain committed r1 where "commitTrip (driverRegistry s) now (c_id c) (lp_req lp) = (committed, r1)" by fastforce
      then show thesis using Resolved st Accepted
        by (intro commit) (auto simp: loop_resume_def Let_def settles_def)
    next
      case Outcome_cancelled
      then show thesis using Resolved st by (intro quit) (auto simp: loop_resume_def Let_def settles_def)
    qed (use Resolved st in \<open>auto intro!: release [OF _ disjI2 [OF conjI [OF refl]] refl] simp: loop_resume_def Let_def settles_def\<close>)
  qed
next
  case (Committing c committed)
  show thesis
  proof (cases committed)
    case False
    then show thesis using Committing by (intro late [OF _ refl]) (simp_all add: loop_resume_def Let_def)
  next
    case True
    obtain res m1 where sm: "setMatched (stateMachine s) now (lp_tid lp) (c_id c) = (res, m1)" by fastforce
    show thesis
    proof (cases res)
      case (Inl e)
      then show thesis using Committing True sm by (intro rollback [OF _ _ refl]) (simp_all add: loop_resume_def Let_def)
    next
      case (Inr p)
      then show thesis using Committing True sm by (cases p; intro match) (simp_all add: loop_resume_def Let_def)
    qed
  qed
next
  case (Releasing c oc)
  show thesis
    by (rule proceed [where evs = "if oc = Timed_out then [OfferRevoked (c_id c) (lp_req lp) ''Offer timed out''] else []"
          and ks = "if oc = Timed_out then [length (notices (stateMachine s))] else []"])
      (use Releasing in \<open>auto simp: loop_resume_def Let_def emit_def\<close>)
next
  case (CommitFailed c)
  show thesis
    by (rule proceed [where evs = "[OfferRevoked (c_id c) (lp_req lp) ''lock_expired_before_commit'']" and ks = "[length (notices (stateMachine s))]"])
      (use CommitFailed in \<open>auto simp: loop_resume_def Let_def emit_def\<close>)
next
  case (RollingBack c)
  show thesis by (rule proceed [of "[]" "[]"]) (use RollingBack in \<open>auto simp: loop_resume_def Let_def\<close>)
qed (auto intro: quit simp: loop_resume_def Let_def)

text \<open>The methods.\<close>

lemma requestRide_cases:
  assumes "requestRide s now uuid req rider pickup dropoff cf = (res, s')"
  obtains (quiet) r m where "createTrip (stateMachine s) now uuid req rider pickup dropoff = (r, m)"
      "s' = s\<lparr>stateMachine := m\<rparr>"
  | (dispatch) t m1 t2 ev m2 where "createTrip (stateMachine s) now uuid req rider pickup dropoff = (Inr t, m1)"
      "t_status t = Requested" "startMatching m1 now (t_id t) = (Inr (t2, ev), m2)" "res = Inr t2"
      "s' = dispatchOfferLoop (s\<lparr>stateMachine := m2, abortedRequests := abortedRequests s - {req}\<rparr>) now t2 cf"
proof -
  obtain r m1 where c: "createTrip (stateMachine s) now uuid req rider pickup dropoff = (r, m1)" by fastforce
  show thesis
  proof (cases r)
    case (Inl e)
    then show thesis using assms c by (intro quiet [of r m1]) (auto simp: requestRide_def)
  next
    case (Inr t)
    show thesis
    proof (cases "t_status t = Requested")
      case False
      then show thesis using assms c Inr by (intro quiet [of r m1]) (auto simp: requestRide_def)
    next
      case True
      obtain q m2 where st: "startMatching m1 now (t_id t) = (q, m2)" by fastforce
      show thesis
      proof (cases q)
        case (Inl e)
        have "m2 = m1" by (rule transition_cases [OF st [unfolded startMatching_def]]) (use Inl in auto)
        then show thesis using assms c Inr True st Inl by (intro quiet [of r m1]) (auto simp: requestRide_def)
      next
        case (Inr p)
        then show thesis using assms c \<open>r = Inr t\<close> True st
          by (cases p; intro dispatch [of t m1 "fst p" "snd p" m2]) (auto simp: requestRide_def)
      qed
    qed
  qed
qed

lemma handleDriverResponse_cases:
  obtains (refuse) e where "handleDriverResponse s now i req resp = (Inl e, s)"
      "response_of resp = None \<or> (\<forall>offer. jm_get (activeOffers s) req = Some offer \<longrightarrow> po_driverId offer \<noteq> i)"
  | (late) offer where "response_of resp \<noteq> None" "jm_get (activeOffers s) req = Some offer" "po_driverId offer = i"
      "po_expiresAt offer \<le> now"
      "handleDriverResponse s now i req resp =
         (Inl OfferDeadlinePassed, resolve_offer (drop_offer s req offer) (po_loop offer) Timed_out)"
  | (answer) offer oc where "response_of resp = Some oc" "jm_get (activeOffers s) req = Some offer" "po_driverId offer = i"
      "now < po_expiresAt offer"
      "handleDriverResponse s now i req resp = (Inr (), resolve_offer (drop_offer s req offer) (po_loop offer) oc)"
proof (cases "response_of resp")
  case None
  then show thesis by (intro refuse) (auto simp: handleDriverResponse_def)
next
  case oc: (Some oc)
  show thesis
  proof (cases "jm_get (activeOffers s) req")
    case None
    then show thesis using oc by (intro refuse) (auto simp: handleDriverResponse_def)
  next
    case (Some offer)
    show thesis
    proof (cases "po_driverId offer = i")
      case False
      then show thesis using oc Some by (intro refuse) (auto simp: handleDriverResponse_def)
    next
      case True
      then show thesis using oc Some late answer
        by (cases "po_expiresAt offer \<le> now") (auto simp: handleDriverResponse_def)
    qed
  qed
qed

lemma response_of_Accepted: "response_of resp = Some Accepted \<longleftrightarrow> resp = JStr ''accepted''"
  by (cases resp) (auto)

lemma response_of_cases: "response_of resp = Some oc \<Longrightarrow> oc = Accepted \<or> oc = Rejected"
  by (cases resp) (auto split: if_splits)

lemma cancel_trip_part_cases:
  obtains (unknown) "getTripByRequestId (stateMachine s) req = None" "cancel_trip_part s now req by reason = (Inr (), s)"
  | (refused) t e where "getTripByRequestId (stateMachine s) req = Some t"
      "cancelTrip (stateMachine s) now (t_id t) by reason = (Inl e, stateMachine s)"
      "cancel_trip_part s now req by reason = (Inl (TripError e), s)"
  | (cancelled) t res m1 r1 where "getTripByRequestId (stateMachine s) req = Some t"
      "cancelTrip (stateMachine s) now (t_id t) by reason = (Inr res, m1)"
      "r1 = (if truthy (t_driverId t) then snd (completeTrip (driverRegistry s) now (the (t_driverId t)))
             else driverRegistry s)"
      "cancel_trip_part s now req by reason = (Inr (), s\<lparr>stateMachine := m1, driverRegistry := r1\<rparr>)"
proof (cases "getTripByRequestId (stateMachine s) req")
  case None
  then show thesis by (intro unknown) (auto simp: cancel_trip_part_def)
next
  case (Some t)
  obtain q m1 where c: "cancelTrip (stateMachine s) now (t_id t) by reason = (q, m1)" by fastforce
  show thesis
  proof (cases q)
    case (Inl e)
    have "m1 = stateMachine s" by (rule transition_cases [OF c [unfolded cancelTrip_def]]) (use Inl in auto)
    then show thesis using Some c Inl by (intro refused) (auto simp: cancel_trip_part_def)
  next
    case (Inr res)
    then show thesis using Some c by (intro cancelled [OF Some _ refl]) (auto simp: cancel_trip_part_def)
  qed
qed

definition suspend_cancel ::
    "MatchingService \<Rightarrow> string \<Rightarrow> ActorRole \<Rightarrow> string option \<Rightarrow> PendingOffer \<Rightarrow> MatchingService" where
  "suspend_cancel s req by reason offer =
    (let s1 = s\<lparr>abortedRequests := insert req (abortedRequests s)\<rparr>
     in (drop_offer s1 req offer)
       \<lparr>driverRegistry := snd (releaseLock (driverRegistry s) (po_driverId offer) req),
        cancels := jm_set (cancels s) (nextCancel s)
          \<lparr>cc_requestId = req, cc_by = by, cc_reason = reason, cc_offer = offer\<rparr>,
        nextCancel := Suc (nextCancel s)\<rparr>)"

lemma cancelRide_eq:
  "cancelRide s now req by reason =
    (case jm_get (activeOffers s) req of
       Some offer \<Rightarrow> (None, suspend_cancel s req by reason offer)
     | None \<Rightarrow> map_prod Some (\<lambda>s. s)
         (cancel_trip_part (s\<lparr>abortedRequests := insert req (abortedRequests s)\<rparr>) now req by reason))"
  by (simp add: cancelRide_def suspend_cancel_def drop_offer_def Let_def split: option.split prod.split)

lemma rematch_cases:
  assumes "rematch s now tid reason cf = (res, s')"
  obtains (refused) e where "res = Inl e" "s' = s"
  | (dispatch) t t2 ev m1 where "jm_get (trips (stateMachine s)) tid = Some t" "t_status t \<noteq> Matching"
      "rematchTrip (stateMachine s) now tid reason = (Inr (t2, ev), m1)" "res = Inr ()"
      "s' = dispatchOfferLoop (s\<lparr>stateMachine := m1, abortedRequests := abortedRequests s - {t_requestId t}\<rparr>) now t2 cf"
proof (cases "jm_get (trips (stateMachine s)) tid")
  case None
  then show thesis using assms by (intro refused) (auto simp: rematch_def getTrip_def)
next
  case (Some t)
  obtain q m1 where c: "rematchTrip (stateMachine s) now tid reason = (q, m1)" by fastforce
  show thesis
  proof (cases "t_status t = Matching")
    case True
    then show thesis using assms Some by (intro refused) (auto simp: rematch_def getTrip_def)
  next
    case nm: False
    show thesis
    proof (cases q)
      case (Inl e)
      have "m1 = stateMachine s" by (rule transition_cases [OF c [unfolded rematchTrip_def]]) (use Inl in auto)
      then show thesis using assms Some nm c Inl by (intro refused [of "TripError e"]) (auto simp: rematch_def getTrip_def)
    next
      case (Inr p)
      then show thesis using assms Some nm c
        by (cases p; intro dispatch [of t "fst p" "snd p" m1]) (auto simp: rematch_def getTrip_def)
    qed
  qed
qed

end
