(* ===== verification/MatchingInv.thy ===== *)
theory MatchingInv
  imports MatchingCases
begin

text \<open>
  The service as a transition system.  A step is one uninterrupted piece of code: a call of a
  method up to its first \<open>await\<close>, the continuation of a suspended call, a timer that fires, or
  what another component does to the registry (a new operating region included) or to the trips.  The invariants say that
  every outstanding offer is tied to the loop that waits for it, that every waiting loop has
  somebody to wake it, and that a trip is driven by one loop at a time.
\<close>

section \<open>Steps and runs\<close>

datatype svc_call =
    Call_request string string string jsval jsval MatchConfig
  | Call_response string string jsval
  | Fire_timer nat
  | Resume_loop nat
  | Call_cancel string ActorRole "string option"
  | Resume_cancel nat
  | Call_reset string
  | Call_rematch string "string option" MatchConfig
  | Registry_call
  | Trip_call string TripStatus

text \<open>
  The other components move a trip only along the ride itself, with the driver as the actor.
\<close>

inductive svc_step :: "MatchingService \<Rightarrow> ms \<times> svc_call \<Rightarrow> MatchingService \<Rightarrow> bool" where
  step_request: "requestRide s now uuid req rider pk dr cf = (res, s') \<Longrightarrow>
     svc_step s (now, Call_request uuid req rider pk dr cf) s'"
| step_response: "handleDriverResponse s now i req resp = (res, s') \<Longrightarrow>
     svc_step s (now, Call_response i req resp) s'"
| step_timer: "l \<in> timers s \<Longrightarrow> jm_get (loops s) l = Some lp \<Longrightarrow>
     svc_step s (now, Fire_timer l) (offer_timeout s l lp)"
| step_resume: "jm_get (loops s) l = Some lp \<Longrightarrow> \<nexists>c. lp_pc lp = Waiting c \<Longrightarrow>
     svc_step s (now, Resume_loop l) (loop_resume s now l lp)"
| step_cancel: "cancelRide s now req by reason = (res, s') \<Longrightarrow> svc_step s (now, Call_cancel req by reason) s'"
| step_cancel_resume: "jm_get (cancels s) n = Some cc \<Longrightarrow> cancelRide_resume s now n cc = (res, s') \<Longrightarrow>
     svc_step s (now, Resume_cancel n) s'"
| step_reset: "svc_step s (now, Call_reset reason) (reset_service s now reason)"
| step_rematch: "rematch s now tid reason cf = (res, s') \<Longrightarrow> svc_step s (now, Call_rematch tid reason cf) s'"
| step_registry: "registry_change (driverRegistry s) r \<Longrightarrow> svc_step s (now, Registry_call) (s\<lparr>driverRegistry := r\<rparr>)"
| step_trip: "target \<in> {En_route, Arrived, In_progress, Completed} \<Longrightarrow>
     transition (stateMachine s) now tid target Driver None JUndefined = (res, m) \<Longrightarrow>
     svc_step s (now, Trip_call tid target) (s\<lparr>stateMachine := m\<rparr>)"

inductive_cases svc_stepE: "svc_step s c s'"

inductive_simps svc_step_simps [simp]:
  "svc_step s (now, Fire_timer l) s'"
  "svc_step s (now, Resume_loop l) s'"
  "svc_step s (now, Call_reset reason) s'"

type_synonym history = "(ms \<times> svc_call) list"

text \<open>The trip identifiers handed out so far; a random identifier never repeats.\<close>

fun new_tid :: "svc_call \<Rightarrow> string option" where
  "new_tid (Call_request uuid _ _ _ _ _) = Some (''trip_'' @ uuid)"
| "new_tid _ = None"

definition used_tids :: "history \<Rightarrow> string set" where
  "used_tids h = {k. \<exists>c\<in>set h. new_tid (snd c) = Some k}"

inductive svc_exec :: "history \<Rightarrow> MatchingService \<Rightarrow> history \<Rightarrow> MatchingService \<Rightarrow> bool"
  for h0 :: history and s0 :: MatchingService where
  exec_refl: "svc_exec h0 s0 h0 s0"
| exec_step: "svc_exec h0 s0 h s \<Longrightarrow> svc_step s c s' \<Longrightarrow> (\<forall>k. new_tid (snd c) = Some k \<longrightarrow> k \<notin> used_tids h) \<Longrightarrow>
     svc_exec h0 s0 (h @ [c]) s'"

definition svc_run :: "history \<Rightarrow> MatchingService \<Rightarrow> bool" where
  "svc_run h s = (\<exists>r. registry_run r \<and> svc_exec [] (service_new r tsm_new) h s)"

lemma used_tids_simps [simp]:
  "used_tids [] = {}"
  "used_tids (h @ [c]) = used_tids h \<union> {k. new_tid (snd c) = Some k}"
  by (auto simp: used_tids_def)

lemma svc_run_exec: "svc_run h s \<Longrightarrow> svc_exec h s h' s' \<Longrightarrow> svc_run h' s'"
proof -
  assume "svc_run h s" and "svc_exec h s h' s'"
  from this(2,1) show ?thesis
    by (induction rule: svc_exec.induct) (auto simp: svc_run_def intro: exec_step)
qed

section \<open>Offers and the loops that wait for them\<close>

definition waits_for :: "(nat, OfferLoop) jsmap \<Rightarrow> nat \<Rightarrow> string \<Rightarrow> string \<Rightarrow> bool" where
  "waits_for L l i req =
    (\<exists>lp c. jm_get L l = Some lp \<and> lp_pc lp = Waiting c \<and> c_id c = i \<and> lp_req lp = req)"

definition waits :: "(nat, OfferLoop) jsmap \<Rightarrow> nat \<Rightarrow> bool" where
  "waits L l = (\<exists>lp c. jm_get L l = Some lp \<and> lp_pc lp = Waiting c)"

lemma waits_for_fun: "waits_for L l i r \<Longrightarrow> waits_for L l j q \<Longrightarrow> i = j \<and> r = q"
  by (auto simp: waits_for_def)

lemma waits_for_waits: "waits_for L l i r \<Longrightarrow> waits L l"
  by (auto simp: waits_for_def waits_def)

lemma waits_for_update [simp]:
  "waits_for (AList.update l lp L) l' i r \<longleftrightarrow>
    (if l' = l then \<exists>c. lp_pc lp = Waiting c \<and> c_id c = i \<and> lp_req lp = r else waits_for L l' i r)"
  "waits_for (AList.delete l L) l' i r \<longleftrightarrow> l' \<noteq> l \<and> waits_for L l' i r"
  by (auto simp: waits_for_def)

lemma waits_update [simp]:
  "waits (AList.update l lp L) l' \<longleftrightarrow> (if l' = l then \<exists>c. lp_pc lp = Waiting c else waits L l')"
  "waits (AList.delete l L) l' \<longleftrightarrow> l' \<noteq> l \<and> waits L l'"
  by (auto simp: waits_def)

text \<open>
  An outstanding offer is known to the loop that waits for this driver and this request, and its
  timer is set; a set timer belongs to a waiting loop; a suspended cancellation has taken over the
  offer of a waiting loop, and no two of them the same; a waiting loop has a timer or a
  cancellation that will wake it.
\<close>

definition offers_inv ::
    "(string, PendingOffer) jsmap \<Rightarrow> nat set \<Rightarrow> (nat, OfferLoop) jsmap \<Rightarrow> (nat, CancelCall) jsmap \<Rightarrow> bool" where
  "offers_inv A T L C =
    ((\<forall>r o1. jm_get A r = Some o1 \<longrightarrow> po_requestId o1 = r \<and> po_loop o1 \<in> T \<and> waits_for L (po_loop o1) (po_driverId o1) r) \<and>
     (\<forall>l\<in>T. waits L l) \<and>
     (\<forall>n cc. jm_get C n = Some cc \<longrightarrow> po_loop (cc_offer cc) \<notin> T \<and>
        waits_for L (po_loop (cc_offer cc)) (po_driverId (cc_offer cc)) (cc_requestId cc)) \<and>
     (\<forall>n m cc cd. jm_get C n = Some cc \<and> jm_get C m = Some cd \<and> po_loop (cc_offer cc) = po_loop (cc_offer cd) \<longrightarrow> n = m) \<and>
     (\<forall>l. waits L l \<longrightarrow> l \<in> T \<or> (\<exists>n cc. jm_get C n = Some cc \<and> po_loop (cc_offer cc) = l)))"

lemma offers_invD:
  assumes "offers_inv A T L C"
  shows "jm_get A r = Some o1 \<Longrightarrow> po_requestId o1 = r \<and> po_loop o1 \<in> T \<and> waits_for L (po_loop o1) (po_driverId o1) r"
    and "l \<in> T \<Longrightarrow> waits L l"
    and "jm_get C n = Some cc \<Longrightarrow> po_loop (cc_offer cc) \<notin> T \<and>
        waits_for L (po_loop (cc_offer cc)) (po_driverId (cc_offer cc)) (cc_requestId cc)"
    and "jm_get C n = Some cc \<Longrightarrow> jm_get C m = Some cd \<Longrightarrow> po_loop (cc_offer cc) = po_loop (cc_offer cd) \<Longrightarrow> n = m"
    and "waits L l \<Longrightarrow> l \<in> T \<or> (\<exists>n cc. jm_get C n = Some cc \<and> po_loop (cc_offer cc) = l)"
  using assms unfolding offers_inv_def by blast+

lemma offers_invI:
  assumes "\<And>r o1. jm_get A r = Some o1 \<Longrightarrow> po_requestId o1 = r \<and> po_loop o1 \<in> T \<and> waits_for L (po_loop o1) (po_driverId o1) r"
    and "\<And>l. l \<in> T \<Longrightarrow> waits L l"
    and "\<And>n cc. jm_get C n = Some cc \<Longrightarrow> po_loop (cc_offer cc) \<notin> T \<and>
        waits_for L (po_loop (cc_offer cc)) (po_driverId (cc_offer cc)) (cc_requestId cc)"
    and "\<And>n m cc cd. jm_get C n = Some cc \<Longrightarrow> jm_get C m = Some cd \<Longrightarrow> po_loop (cc_offer cc) = po_loop (cc_offer cd) \<Longrightarrow> n = m"
    and "\<And>l. waits L l \<Longrightarrow> l \<in> T \<or> (\<exists>n cc. jm_get C n = Some cc \<and> po_loop (cc_offer cc) = l)"
  shows "offers_inv A T L C"
  using assms unfolding offers_inv_def by blast

definition offers_ok :: "MatchingService \<Rightarrow> bool" where
  "offers_ok s = (offers_inv (activeOffers s) (timers s) (loops s) (cancels s) \<and>
     jm_ok (activeOffers s) \<and> jm_ok (loops s) \<and> jm_ok (cancels s) \<and>
     (\<forall>l lp. jm_get (loops s) l = Some lp \<longrightarrow> l < nextLoop s) \<and>
     (\<forall>n cc. jm_get (cancels s) n = Some cc \<longrightarrow> n < nextCancel s))"

lemma offers_inv_set:
  assumes inv: "offers_inv A T L C" and l: "\<not> waits L l" and pc: "\<nexists>c. lp_pc lp = Waiting c"
  shows "offers_inv A T (jm_set L l lp) C" "offers_inv A T (jm_delete L l) C"
proof -
  have w: "waits_for (jm_set L l lp) l' i r = waits_for L l' i r" "waits_for (jm_delete L l) l' i r = waits_for L l' i r"
    "waits (jm_set L l lp) l' = waits L l'" "waits (jm_delete L l) l' = waits L l'" for l' i r
    using l pc waits_for_waits by auto
  show "offers_inv A T (jm_set L l lp) C" "offers_inv A T (jm_delete L l) C"
    using inv unfolding offers_inv_def w by simp_all
qed

lemma offers_inv_await:
  assumes inv: "offers_inv A T L C" and l: "\<not> waits L l" and pc: "lp_pc lp = Waiting c"
    and new: "po_loop o1 = l" "po_driverId o1 = c_id c" "po_requestId o1 = lp_req lp"
  shows "offers_inv (jm_set A (lp_req lp) o1) (insert l T) (jm_set L l lp) C"
proof -
  have A: "po_loop o2 \<noteq> l" if "jm_get A r = Some o2" for r o2
    using offers_invD(1) [OF inv that] l waits_for_waits by metis
  have C: "po_loop (cc_offer cc) \<noteq> l" if "jm_get C n = Some cc" for n cc
    using offers_invD(3) [OF inv that] l waits_for_waits by metis
  show ?thesis
  proof (rule offers_invI)
    fix r o2 assume "jm_get (jm_set A (lp_req lp) o1) r = Some o2"
    then show "po_requestId o2 = r \<and> po_loop o2 \<in> insert l T \<and> waits_for (jm_set L l lp) (po_loop o2) (po_driverId o2) r"
      using offers_invD(1) [OF inv] A pc new by (auto split: if_splits)
  next
    fix n cc assume "jm_get C n = Some cc"
    then show "po_loop (cc_offer cc) \<notin> insert l T \<and>
        waits_for (jm_set L l lp) (po_loop (cc_offer cc)) (po_driverId (cc_offer cc)) (cc_requestId cc)"
      using offers_invD(3) [OF inv] C by simp
  qed (use offers_invD(2,4,5) [OF inv] pc in \<open>auto split: if_splits\<close>)
qed

lemma offers_inv_wake:
  assumes inv: "offers_inv A T L C" and w: "waits_for L l i r" and T: "l \<in> T" and pc: "\<nexists>c. lp_pc lp = Waiting c"
  shows "offers_inv (jm_delete A r) (T - {l}) (jm_set L l lp) C"
proof -
  have A: "po_loop o1 \<noteq> l" if "jm_get A q = Some o1" "q \<noteq> r" for q o1
    using offers_invD(1) [OF inv that(1)] w that(2) waits_for_fun by metis
  have C: "po_loop (cc_offer cc) \<noteq> l" if "jm_get C n = Some cc" for n cc
    using offers_invD(3) [OF inv that] T by metis
  show ?thesis
  proof (rule offers_invI)
    fix q o1 assume "jm_get (jm_delete A r) q = Some o1"
    then show "po_requestId o1 = q \<and> po_loop o1 \<in> T - {l} \<and> waits_for (jm_set L l lp) (po_loop o1) (po_driverId o1) q"
      using offers_invD(1) [OF inv] A by (simp split: if_splits)
  next
    fix n cc assume "jm_get C n = Some cc"
    then show "po_loop (cc_offer cc) \<notin> T - {l} \<and>
        waits_for (jm_set L l lp) (po_loop (cc_offer cc)) (po_driverId (cc_offer cc)) (cc_requestId cc)"
      using offers_invD(3) [OF inv] C by simp
  qed (use offers_invD(2,4,5) [OF inv] pc in \<open>auto split: if_splits\<close>)
qed

lemma offers_inv_suspend:
  assumes inv: "offers_inv A T L C" and a: "jm_get A r = Some o1" and n: "jm_get C n = None"
    and cc: "cc_offer cc = o1" "cc_requestId cc = r"
  shows "offers_inv (jm_delete A r) (T - {po_loop o1}) L (jm_set C n cc)"
proof -
  note w = offers_invD(1) [OF inv a]
  have A: "po_loop o2 \<noteq> po_loop o1" if "jm_get A q = Some o2" "q \<noteq> r" for q o2
    using offers_invD(1) [OF inv that(1)] w that(2) waits_for_fun by metis
  have C: "po_loop (cc_offer cd) \<noteq> po_loop o1" if "jm_get C m = Some cd" for m cd
    using offers_invD(3) [OF inv that] w by metis
  show ?thesis
  proof (rule offers_invI)
    fix l assume "waits L l"
    then show "l \<in> T - {po_loop o1} \<or> (\<exists>m cd. jm_get (jm_set C n cc) m = Some cd \<and> po_loop (cc_offer cd) = l)"
      using offers_invD(5) [OF inv, of l] cc(1) n by (metis Diff_iff jm_get_set option.distinct(1) singletonD)
  next
    fix m k cd ce
    assume "jm_get (jm_set C n cc) m = Some cd" "jm_get (jm_set C n cc) k = Some ce" "po_loop (cc_offer cd) = po_loop (cc_offer ce)"
    then show "m = k" using offers_invD(4) [OF inv, of m cd k ce] C [of m cd] C [of k ce] cc(1) by (auto split: if_splits)
  next
    fix q o2 assume "jm_get (jm_delete A r) q = Some o2"
    then show "po_requestId o2 = q \<and> po_loop o2 \<in> T - {po_loop o1} \<and> waits_for L (po_loop o2) (po_driverId o2) q"
      using offers_invD(1) [OF inv] A by (simp split: if_splits)
  next
    fix m cd assume "jm_get (jm_set C n cc) m = Some cd"
    then show "po_loop (cc_offer cd) \<notin> T - {po_loop o1} \<and>
        waits_for L (po_loop (cc_offer cd)) (po_driverId (cc_offer cd)) (cc_requestId cd)"
      using offers_invD(3) [OF inv, of m cd] w cc by (auto split: if_splits)
  qed (use offers_invD(2) [OF inv] in simp)
qed

lemma offers_inv_unsuspend:
  assumes inv: "offers_inv A T L C" and c: "jm_get C n = Some cc" and pc: "\<nexists>c. lp_pc lp = Waiting c"
  shows "offers_inv A T (jm_set L (po_loop (cc_offer cc)) lp) (jm_delete C n)"
proof -
  note w = offers_invD(3) [OF inv c]
  have A: "po_loop o1 \<noteq> po_loop (cc_offer cc)" if "jm_get A q = Some o1" for q o1
    using offers_invD(1) [OF inv that(1)] w by metis
  have C: "po_loop (cc_offer cd) \<noteq> po_loop (cc_offer cc)" if "jm_get C m = Some cd" "m \<noteq> n" for m cd
    using offers_invD(4) [OF inv that(1) c] that(2) by metis
  show ?thesis
  proof (rule offers_invI)
    fix l assume "waits (jm_set L (po_loop (cc_offer cc)) lp) l"
    then have l: "l \<noteq> po_loop (cc_offer cc)" "waits L l" using pc by (auto split: if_splits)
    then show "l \<in> T \<or> (\<exists>m cd. jm_get (jm_delete C n) m = Some cd \<and> po_loop (cc_offer cd) = l)"
      using offers_invD(5) [OF inv l(2)] c l(1) by (metis jm_get_delete option.inject)
  next
    fix q o1 assume "jm_get A q = Some o1"
    then show "po_requestId o1 = q \<and> po_loop o1 \<in> T \<and>
        waits_for (jm_set L (po_loop (cc_offer cc)) lp) (po_loop o1) (po_driverId o1) q"
      using offers_invD(1) [OF inv] A by simp
  next
    fix l assume "l \<in> T"
    then show "waits (jm_set L (po_loop (cc_offer cc)) lp) l" using offers_invD(2) [OF inv, of l] w by auto
  next
    fix m cd assume "jm_get (jm_delete C n) m = Some cd"
    then have m: "jm_get C m = Some cd" "m \<noteq> n" by (auto split: if_splits)
    show "po_loop (cc_offer cd) \<notin> T \<and> waits_for (jm_set L (po_loop (cc_offer cc)) lp)
        (po_loop (cc_offer cd)) (po_driverId (cc_offer cd)) (cc_requestId cd)"
      using offers_invD(3) [OF inv m(1)] C [OF m] by simp
  next
    fix m k cd ce
    assume "jm_get (jm_delete C n) m = Some cd" "jm_get (jm_delete C n) k = Some ce" "po_loop (cc_offer cd) = po_loop (cc_offer ce)"
    then show "m = k" using offers_invD(4) [OF inv, of m cd k ce] by (auto split: if_splits)
  qed
qed

text \<open>Every operation keeps it.\<close>

lemma offers_ok_frame [simp]:
  "offers_ok (s\<lparr>stateMachine := m\<rparr>) = offers_ok s"
  "offers_ok (s\<lparr>driverRegistry := r\<rparr>) = offers_ok s"
  "offers_ok (s\<lparr>abortedRequests := a\<rparr>) = offers_ok s"
  "offers_ok (s\<lparr>out := es\<rparr>) = offers_ok s"
  "offers_ok (s\<lparr>marks := ks\<rparr>) = offers_ok s"
  "offers_ok (emit s e) = offers_ok s"
  by (simp_all add: offers_ok_def emit_def)

lemma loop_fields [simp]:
  "loops (put_loop s l lp) = jm_set (loops s) l lp"
  "loops (end_loop s l lp) = jm_delete (loops s) l"
  "loops (emit s e) = loops s"
  "stateMachine (put_loop s l lp) = stateMachine s"
  "stateMachine (end_loop s l lp) = stateMachine s"
  "stateMachine (emit s e) = stateMachine s"
  "driverRegistry (put_loop s l lp) = driverRegistry s"
  "driverRegistry (end_loop s l lp) = driverRegistry s"
  "driverRegistry (emit s e) = driverRegistry s"
  "out (put_loop s l lp) = out s" "out (end_loop s l lp) = out s" "out (emit s e) = out s @ [e]"
  by (simp_all add: put_loop_def end_loop_def emit_def)

lemma not_waits: "jm_get L l = Some lp \<Longrightarrow> \<nexists>c. lp_pc lp = Waiting c \<Longrightarrow> \<not> waits L l"
  by (simp add: waits_def)

lemma fresh_keys:
  assumes "offers_ok s"
  shows "jm_get (loops s) (nextLoop s) = None" "jm_get (cancels s) (nextCancel s) = None"
  using assms unfolding offers_ok_def by (metis not_None_eq less_irrefl)+

lemma put_loop_ok:
  "offers_ok s \<Longrightarrow> \<not> waits (loops s) l \<Longrightarrow> l < nextLoop s \<Longrightarrow> \<nexists>c. lp_pc lp = Waiting c \<Longrightarrow> offers_ok (put_loop s l lp)"
  by (auto simp: offers_ok_def put_loop_def offers_inv_set)

lemma end_loop_ok: "offers_ok s \<Longrightarrow> \<not> waits (loops s) l \<Longrightarrow> offers_ok (end_loop s l lp)"
  using offers_inv_set(2) [of "activeOffers s" "timers s" "loops s" "cancels s" l "lp\<lparr>lp_pc := AbortReleasing\<rparr>"]
  by (auto simp: offers_ok_def end_loop_def split: if_splits)

lemma iteration_ok:
  assumes "offers_ok s" and "\<not> waits (loops s) l" and "l < nextLoop s"
  shows "offers_ok (loop_iteration s now l lp)"
  by (rule loop_iteration_cases [of lp s now l]) (use assms in \<open>simp_all add: end_loop_ok put_loop_ok\<close>)

lemma dispatch_ok:
  assumes "offers_ok s"
  shows "offers_ok (dispatchOfferLoop s now trip cf)"
proof -
  have "offers_ok (s\<lparr>nextLoop := Suc (nextLoop s)\<rparr>)" using assms by (auto simp: offers_ok_def less_Suc_eq)
  moreover have "\<not> waits (loops s) (nextLoop s)" using fresh_keys(1) [OF assms] by (simp add: waits_def)
  ultimately show ?thesis by (simp add: dispatchOfferLoop_def Let_def iteration_ok)
qed

lemma await_ok:
  assumes "offers_ok s" and "\<not> waits (loops s) l" and "l < nextLoop s"
  shows "offers_ok (awaitCandidateOffer s now l lp c tmo)"
  using assms offers_inv_await [of "activeOffers s" "timers s" "loops s" "cancels s" l "lp\<lparr>lp_pc := Waiting c\<rparr>" c
      "\<lparr>po_driverId = c_id c, po_requestId = lp_req lp, po_expiresAt = now + tmo, po_loop = l\<rparr>"]
  by (auto simp: offers_ok_def awaitCandidateOffer_def put_loop_def emit_def Let_def)

lemma resume_ok:
  assumes ok: "offers_ok s" and lp: "jm_get (loops s) l = Some lp"
  shows "offers_ok (loop_resume s now l lp)"
proof -
  have l: "l < nextLoop s" using ok lp by (auto simp: offers_ok_def)
  show ?thesis
    by (rule loop_resume_cases [where lp = lp and s = s and now = now and l = l];
        use ok l not_waits [OF lp] in \<open>force simp: put_loop_ok end_loop_ok await_ok next_iteration_def iteration_ok\<close>)
qed

text \<open>Waking the loop of an offer that is not outstanding any more.\<close>

lemma resolve_offer_eq:
  "jm_get (loops s) l = Some lp \<Longrightarrow> lp_pc lp = Waiting c \<Longrightarrow>
    resolve_offer s l oc = put_loop s l (lp\<lparr>lp_pc := Resolved c oc\<rparr>)"
  by (simp add: resolve_offer_def)

lemma resolve_ok:
  assumes ok: "offers_ok s" and a: "jm_get (activeOffers s) req = Some offer"
    and x: "activeOffers x = jm_delete (activeOffers s) req" "timers x = timers s - {po_loop offer}" "loops x = loops s"
      "cancels x = cancels s" "nextLoop x = nextLoop s" "nextCancel x = nextCancel s"
  shows "offers_ok (resolve_offer x (po_loop offer) oc)"
proof -
  have inv: "offers_inv (activeOffers s) (timers s) (loops s) (cancels s)" using ok by (simp add: offers_ok_def)
  note w = offers_invD(1) [OF inv a]
  from w obtain lp c where lp: "jm_get (loops s) (po_loop offer) = Some lp" "lp_pc lp = Waiting c"
    by (auto simp: waits_for_def)
  have "offers_inv (jm_delete (activeOffers s) req) (timers s - {po_loop offer})
      (jm_set (loops s) (po_loop offer) (lp\<lparr>lp_pc := Resolved c oc\<rparr>)) (cancels s)"
    by (rule offers_inv_wake [OF inv]) (use w in auto)
  then show ?thesis
    using ok lp x by (auto simp: resolve_offer_eq offers_ok_def put_loop_def)
qed

lemma resolve_drop_ok:
  "offers_ok s \<Longrightarrow> jm_get (activeOffers s) req = Some offer \<Longrightarrow>
    offers_ok (resolve_offer (drop_offer s req offer) (po_loop offer) oc)"
  by (rule resolve_ok) (simp_all add: drop_offer_def)

lemma response_ok:
  assumes "offers_ok s"
  shows "offers_ok (snd (handleDriverResponse s now i req resp))"
  by (rule handleDriverResponse_cases [of s now i req resp]) (use assms resolve_drop_ok in auto)

lemma timer_ok:
  assumes ok: "offers_ok s" and l: "l \<in> timers s" "jm_get (loops s) l = Some lp"
  shows "offers_ok (offer_timeout s l lp)"
proof -
  have inv: "offers_inv (activeOffers s) (timers s) (loops s) (cancels s)" using ok by (simp add: offers_ok_def)
  from offers_invD(2) [OF inv l(1)] l(2) obtain c where c: "lp_pc lp = Waiting c" by (auto simp: waits_def)
  then have w: "waits_for (loops s) l (c_id c) (lp_req lp)" using l(2) by (simp add: waits_for_def)
  have "offers_inv (jm_delete (activeOffers s) (lp_req lp)) (timers s - {l})
      (jm_set (loops s) l (lp\<lparr>lp_pc := Resolved c Timed_out\<rparr>)) (cancels s)"
    by (rule offers_inv_wake [OF inv w l(1)]) simp
  then show ?thesis
    using ok l(2) c by (auto simp: offer_timeout_def resolve_offer_eq offers_ok_def put_loop_def)
qed

lemma cancel_part_ok: "offers_ok s \<Longrightarrow> offers_ok (snd (cancel_trip_part s now req by reason))"
  by (rule cancel_trip_part_cases [of s req now "by" reason]) auto

lemma suspend_ok:
  assumes ok: "offers_ok s" and a: "jm_get (activeOffers s) req = Some offer"
  shows "offers_ok (suspend_cancel s req by reason offer)"
proof -
  note n = fresh_keys(2) [OF ok]
  have inv: "offers_inv (activeOffers s) (timers s) (loops s) (cancels s)" using ok by (simp add: offers_ok_def)
  from offers_inv_suspend [OF inv a n, of "\<lparr>cc_requestId = req, cc_by = by, cc_reason = reason, cc_offer = offer\<rparr>"] ok
  show ?thesis by (auto simp: suspend_cancel_def drop_offer_def offers_ok_def less_Suc_eq)
qed

lemma cancel_ok: "offers_ok s \<Longrightarrow> offers_ok (snd (cancelRide s now req by reason))"
  using cancel_part_ok [of "s\<lparr>abortedRequests := insert req (abortedRequests s)\<rparr>"] suspend_ok
  by (auto simp: cancelRide_eq split: option.split)

lemma cancel_resume_ok:
  assumes ok: "offers_ok s" and n: "jm_get (cancels s) n = Some cc"
  shows "offers_ok (snd (cancelRide_resume s now n cc))"
proof -
  let ?l = "po_loop (cc_offer cc)"
  have inv: "offers_inv (activeOffers s) (timers s) (loops s) (cancels s)" using ok by (simp add: offers_ok_def)
  from offers_invD(3) [OF inv n] obtain lp c where lp: "jm_get (loops s) ?l = Some lp" "lp_pc lp = Waiting c"
    by (auto simp: waits_for_def)
  have "offers_inv (activeOffers s) (timers s) (jm_set (loops s) ?l (lp\<lparr>lp_pc := Resolved c Outcome_cancelled\<rparr>)) (jm_delete (cancels s) n)"
    by (rule offers_inv_unsuspend [OF inv n]) simp
  then show ?thesis
    unfolding cancelRide_resume_def Let_def using ok lp
    by (intro cancel_part_ok) (auto simp: resolve_offer_eq offers_ok_def put_loop_def emit_def)
qed

lemma reset_offers_ok:
  assumes "offers_ok s"
    and "distinct (jm_keys es)" and "\<forall>(r, o1) \<in> set es. jm_get (activeOffers s) r = Some o1"
  shows "offers_ok (foldl (reset_offer reason) s es) \<and>
    activeOffers (foldl (reset_offer reason) s es) = foldl (\<lambda>m r. jm_delete m r) (activeOffers s) (jm_keys es)"
  using assms
proof (induction es arbitrary: s)
  case (Cons e es)
  obtain r o1 where e: "e = (r, o1)" by fastforce
  have a: "jm_get (activeOffers s) r = Some o1" using Cons.prems(3) e by simp
  have "activeOffers (resolve_offer x l oc) = activeOffers x" for x l oc
    by (simp add: resolve_offer_def put_loop_def split: option.split loop_pc.split)
  then have st: "offers_ok (reset_offer reason s e)" "activeOffers (reset_offer reason s e) = jm_delete (activeOffers s) r"
    unfolding reset_offer_def e Let_def prod.case
    by (auto intro: resolve_ok [OF Cons.prems(1) a] simp: drop_offer_def emit_def)
  have "\<forall>(q, o2) \<in> set es. jm_get (activeOffers (reset_offer reason s e)) q = Some o2"
    using Cons.prems(2,3) e st(2) by (fastforce simp: image_iff)
  from Cons.IH [OF st(1) _ this] Cons.prems(2) st(2) show ?case by (simp add: e)
qed simp

lemma reset_trip_offers [simp]:
  "offers_ok (reset_trip now reason s t) = offers_ok s" "activeOffers (reset_trip now reason s t) = activeOffers s"
  "loops (reset_trip now reason s t) = loops s" "out (reset_trip now reason s t) = out s"
  by (simp_all add: reset_trip_def split: prod.split sum.split)

lemma reset_trips_offers [simp]:
  "offers_ok (foldl (reset_trip now reason) s ts) = offers_ok s"
  "activeOffers (foldl (reset_trip now reason) s ts) = activeOffers s"
  "loops (foldl (reset_trip now reason) s ts) = loops s" "out (foldl (reset_trip now reason) s ts) = out s"
  by (induction ts arbitrary: s) simp_all

lemma delete_all_keys: "foldl (\<lambda>m r. jm_delete m r) m ks = filter (\<lambda>p. fst p \<notin> set ks) m"
proof (induction ks arbitrary: m)
  case (Cons k ks)
  have "jm_delete m k = filter (\<lambda>p. k \<noteq> fst p) m" by (simp add: AList.delete_eq case_prod_unfold)
  then show ?case using Cons by (auto intro!: filter_cong)
qed simp

lemma reset_ok:
  assumes "offers_ok s"
  shows "offers_ok (reset_service s now reason)" and "activeOffers (reset_service s now reason) = []"
proof -
  define s1 where "s1 = s\<lparr>abortedRequests := abortedRequests s \<union> set (map t_requestId (getActiveTrips (stateMachine s)))\<rparr>"
  have s1: "offers_ok s1" using assms by (simp add: s1_def)
  have keys: "distinct (jm_keys (activeOffers s1))" using s1 by (simp only: offers_ok_def)
  have "\<forall>(r, o1) \<in> set (activeOffers s1). jm_get (activeOffers s1) r = Some o1"
    using jm_in_set_iff [OF keys] by blast
  note all = reset_offers_ok [OF s1 keys this, of reason]
  have eq: "reset_service s now reason =
      foldl (reset_trip now reason) (foldl (reset_offer reason) s1 (activeOffers s1)) (getActiveTrips (stateMachine s))"
    by (simp only: reset_service_def Let_def s1_def)
  show "offers_ok (reset_service s now reason)" unfolding eq using all by simp
  have "foldl (\<lambda>m r. jm_delete m r) (activeOffers s1) (jm_keys (activeOffers s1)) = []"
    unfolding delete_all_keys by (auto simp: filter_empty_conv)
  then show "activeOffers (reset_service s now reason) = []" unfolding eq using all by simp
qed

lemma request_ok: "offers_ok s \<Longrightarrow> requestRide s now uuid req rider pk dr cf = (res, s') \<Longrightarrow> offers_ok s'"
  by (erule requestRide_cases) (simp_all add: dispatch_ok)

lemma rematch_ok: "offers_ok s \<Longrightarrow> rematch s now tid reason cf = (res, s') \<Longrightarrow> offers_ok s'"
  by (erule rematch_cases) (simp_all add: dispatch_ok)

lemma svc_step_offers_ok:
  assumes "svc_step s c s'" and "offers_ok s"
  shows "offers_ok s'"
  using assms(1)
proof (cases rule: svc_step.cases)
  case (step_response now i req resp res)
  then show ?thesis using response_ok [OF assms(2), of now i req resp] by simp
next
  case (step_cancel now req "by" reason res)
  then show ?thesis using cancel_ok [OF assms(2), of now req "by" reason] by simp
next
  case (step_cancel_resume n cc now res)
  then show ?thesis using cancel_resume_ok [OF assms(2), of n cc now] by simp
next
  case step_request
  then show ?thesis using request_ok [OF assms(2)] by blast
next
  case step_rematch
  then show ?thesis using rematch_ok [OF assms(2)] by blast
next
  case step_timer
  then show ?thesis using timer_ok [OF assms(2)] by blast
next
  case step_resume
  then show ?thesis using resume_ok [OF assms(2)] by blast
qed (use assms(2) in \<open>simp_all add: reset_ok\<close>)

lemma offers_ok_new: "offers_ok (service_new r m)"
  by (simp add: offers_ok_def service_new_def offers_inv_def waits_def)

lemma svc_exec_offers_ok: "svc_exec h s h' s' \<Longrightarrow> offers_ok s \<Longrightarrow> offers_ok s'"
  by (induction rule: svc_exec.induct) (auto intro: svc_step_offers_ok)

lemma svc_run_offers_ok: "svc_run h s \<Longrightarrow> offers_ok s"
  using svc_exec_offers_ok offers_ok_new by (auto simp: svc_run_def)

end
