(* ===== verification/MatchingRuns.thy ===== *)
theory MatchingRuns
  imports MatchingInv
begin

text \<open>
  What holds along a run of the service: its registry and its trips go through runs of their own,
  so what \<open>RegistryProperties\<close> and \<open>TripProperties\<close> say of these holds inside the
  service too; and every live loop drives a trip of its own, has offered the ride to the driver it
  waits for, and commits only a driver that has accepted.
\<close>

section \<open>The registry inside the service\<close>

abbreviation registry_ops :: "DriverRegistry \<Rightarrow> DriverRegistry \<Rightarrow> bool" where
  "registry_ops \<equiv> registry_change\<^sup>*\<^sup>*"

lemma registry_run_ops: "registry_ops r r' \<Longrightarrow> registry_run r \<Longrightarrow> registry_run r'"
  by (induction rule: rtranclp_induct) (auto intro: registry_run_change)

lemma registry_op_ops [simp, intro]:
  "registry_ops r (snd (acquireLock r now i req ttl))" "registry_ops r (snd (releaseLock r i req))"
  "registry_ops r (snd (commitTrip r now i req))" "registry_ops r (snd (completeTrip r now i))"
  by (auto intro: registry_op.intros)

lemma iteration_registry: "registry_ops (driverRegistry s) (driverRegistry (loop_iteration s now l lp))"
  by (rule loop_iteration_cases [where lp = lp and s = s and now = now and l = l])
    (simp_all, metis registry_op_ops(1) snd_conv)

lemma dispatch_registry: "registry_ops (driverRegistry s) (driverRegistry (dispatchOfferLoop s now t cf))"
  using iteration_registry [of "s\<lparr>nextLoop := Suc (nextLoop s)\<rparr>"] by (simp add: dispatchOfferLoop_def Let_def)

lemma resume_registry: "registry_ops (driverRegistry s) (driverRegistry (loop_resume s now l lp))"
proof (rule loop_resume_cases [where lp = lp and s = s and now = now and l = l])
  fix evs ks assume "loop_resume s now l lp = next_iteration (s\<lparr>out := out s @ evs, marks := marks s @ ks\<rparr>) now l lp"
  then show ?thesis using iteration_registry [of "s\<lparr>out := out s @ evs, marks := marks s @ ks\<rparr>"] by (simp add: next_iteration_def)
next
  fix c committed r1
  assume "commitTrip (driverRegistry s) now (c_id c) (lp_req lp) = (committed, r1)"
    "loop_resume s now l lp = put_loop (s\<lparr>driverRegistry := r1\<rparr>) l (lp\<lparr>lp_pc := Committing c committed\<rparr>)"
  then show ?thesis using registry_op_ops(3) [of "driverRegistry s" now "c_id c" "lp_req lp"] by simp
qed (simp_all add: awaitCandidateOffer_def Let_def)

lemma cancel_part_registry: "registry_ops (driverRegistry s) (driverRegistry (snd (cancel_trip_part s now req by reason)))"
  by (rule cancel_trip_part_cases [of s req now "by" reason]) simp_all

lemma resolve_offer_fields [simp]:
  "driverRegistry (resolve_offer s l oc) = driverRegistry s" "stateMachine (resolve_offer s l oc) = stateMachine s"
  "out (resolve_offer s l oc) = out s" "cancels (resolve_offer s l oc) = cancels s"
  "activeOffers (resolve_offer s l oc) = activeOffers s"
  by (simp_all add: resolve_offer_def put_loop_def split: option.split loop_pc.split)

lemma drop_offer_fields [simp]:
  "driverRegistry (drop_offer s r o1) = driverRegistry s" "stateMachine (drop_offer s r o1) = stateMachine s"
  "out (drop_offer s r o1) = out s" "loops (drop_offer s r o1) = loops s"
  by (simp_all add: drop_offer_def)

lemma reset_offers_registry: "registry_ops (driverRegistry s) (driverRegistry (foldl (reset_offer reason) s es))"
proof (induction es arbitrary: s)
  case (Cons e es)
  have "registry_ops (driverRegistry s) (driverRegistry (reset_offer reason s e))"
    by (simp add: reset_offer_def Let_def split: prod.split)
  then show ?case using Cons [of "reset_offer reason s e"] by simp
qed simp

lemma reset_trips_registry: "registry_ops (driverRegistry s) (driverRegistry (foldl (reset_trip now reason) s ts))"
proof (induction ts arbitrary: s)
  case (Cons t ts)
  have "registry_ops (driverRegistry s) (driverRegistry (reset_trip now reason s t))"
    by (simp add: reset_trip_def split: prod.split sum.split)
  then show ?case using Cons [of "reset_trip now reason s t"] by simp
qed simp

lemma svc_step_registry:
  assumes "svc_step s c s'"
  shows "registry_ops (driverRegistry s) (driverRegistry s')"
  using assms
proof (cases rule: svc_step.cases)
  case (step_request now uuid req rider pk dr cf res)
  from step_request(2) show ?thesis
    by (rule requestRide_cases) (use dispatch_registry [where s = "x\<lparr>stateMachine := m, abortedRequests := a\<rparr>" for x m a] in auto)
next
  case (step_response now i req resp res)
  then show ?thesis
    by (cases rule: handleDriverResponse_cases [where s = s and now = now and i = i and req = req and resp = resp]) auto
next
  case (step_cancel now req "by" reason res)
  then show ?thesis
    using cancel_part_registry [of "s\<lparr>abortedRequests := insert req (abortedRequests s)\<rparr>" now req "by" reason]
    by (auto simp: cancelRide_eq suspend_cancel_def Let_def map_prod_def split: option.splits prod.splits)
next
  case (step_cancel_resume n cc now res)
  have part: "registry_ops (driverRegistry x) (driverRegistry (snd (cancel_trip_part x now (cc_requestId cc) (cc_by cc) (cc_reason cc))))" for x
    by (rule cancel_part_registry)
  have "registry_ops (driverRegistry s) (driverRegistry (snd (cancelRide_resume s now n cc)))"
    unfolding cancelRide_resume_def Let_def by (rule rtranclp_trans [OF _ part]) simp
  then show ?thesis using step_cancel_resume by simp
next
  case (step_reset now reason)
  have "registry_ops (driverRegistry s) (driverRegistry (reset_service s now reason))"
    unfolding reset_service_def Let_def
    by (rule rtranclp_trans [OF _ reset_trips_registry])
      (use reset_offers_registry [of "s\<lparr>abortedRequests := abortedRequests s \<union> set (map t_requestId (getActiveTrips (stateMachine s)))\<rparr>"] in simp)
  then show ?thesis using step_reset by simp
next
  case (step_rematch now tid reason cf res)
  from step_rematch(2) show ?thesis
    by (rule rematch_cases) (use dispatch_registry [where s = "x\<lparr>stateMachine := m, abortedRequests := a\<rparr>" for x m a] in auto)
qed (simp_all add: resume_registry offer_timeout_def)

section \<open>The trips inside the service\<close>

definition tsm_move :: "TSM \<Rightarrow> TSM \<Rightarrow> bool" where
  "tsm_move m m' = (\<exists>now tid target by reason payload. m' = snd (transition m now tid target by reason payload))"

abbreviation tsm_moves :: "TSM \<Rightarrow> TSM \<Rightarrow> bool" where
  "tsm_moves \<equiv> tsm_move\<^sup>*\<^sup>*"

lemma tsm_moves_ops [simp, intro]:
  "tsm_moves m (snd (transition m now tid target by reason payload))"
  "tsm_moves m (snd (cancelTrip m now tid by reason))" "tsm_moves m (snd (setMatched m now tid d))"
  "tsm_moves m (snd (startMatching m now tid))" "tsm_moves m (snd (rematchTrip m now tid reason))"
  unfolding cancelTrip_def setMatched_def startMatching_def rematchTrip_def by (blast intro: r_into_rtranclp tsm_move_def [THEN iffD2])+

lemma tsm_moves_eq:
  "cancelTrip m now tid by reason = (r, m') \<Longrightarrow> tsm_moves m m'" "setMatched m now tid d = (r, m') \<Longrightarrow> tsm_moves m m'"
  "startMatching m now tid = (r, m') \<Longrightarrow> tsm_moves m m'" "rematchTrip m now tid reason = (r, m') \<Longrightarrow> tsm_moves m m'"
  "transition m now tid target by reason payload = (r, m') \<Longrightarrow> tsm_moves m m'"
  by (metis snd_conv tsm_moves_ops)+

definition tsm_runs :: "string set \<Rightarrow> TSM \<Rightarrow> bool" where
  "tsm_runs U m = (\<exists>h. tsm_run h m \<and> e_tripId ` set h \<subseteq> U)"

lemma tsm_runs_inv: "tsm_runs U m \<Longrightarrow> tsm_inv m"
  by (auto simp: tsm_runs_def tsm_run_tsm_inv)

lemma tsm_runs_known: "tsm_runs U m \<Longrightarrow> jm_get (trips m) k = Some t \<Longrightarrow> k \<in> U"
  using tsm_run_inv run_inv_fresh(1) by (fastforce simp: tsm_runs_def)

lemma tsm_runs_moves:
  assumes "tsm_moves m m'" and "tsm_runs U m"
  shows "tsm_runs U m'"
  using assms
proof (induction rule: rtranclp_induct)
  case (step m1 m2)
  then obtain now tid target "by" reason payload where m2: "m2 = snd (transition m1 now tid target by reason payload)"
    by (auto simp: tsm_move_def)
  obtain h where h: "tsm_run h m1" "e_tripId ` set h \<subseteq> U" using step by (auto simp: tsm_runs_def)
  obtain r where t: "transition m1 now tid target by reason payload = (r, m2)" using m2 by (metis prod.collapse)
  have "e_tripId ` set (recorded_by_transition r) \<subseteq> U"
  proof (rule transition_cases [OF t])
    fix t t1 s1 ev
    assume a: "jm_get (trips m1) tid = Some t" "milestone m1 now t target by reason payload = Inr (t1, s1)"
      "r = Inr (t1\<lparr>t_status := target\<rparr>, Some ev)" "e_tripId ev = t_id t1"
    have "t_id t1 = tid"
      using milestone_frame [OF a(2)] tsm_invD(1) [OF tsm_run_tsm_inv [OF h(1)] a(1)] by (simp add: same_ids_def)
    moreover have "tid \<in> U" using tsm_runs_known [of U m1] h a(1) by (auto simp: tsm_runs_def)
    ultimately show ?thesis using a by (simp add: recorded_by_transition_def)
  qed (simp_all add: recorded_by_transition_def)
  then have "e_tripId ` set (h @ recorded_by_transition r) \<subseteq> U" using h(2) by (simp add: image_Un)
  then show ?case unfolding tsm_runs_def using tsm_run.intros(3) [OF h(1) t] by blast
qed

lemma tsm_runs_create:
  assumes "tsm_runs U m" and "''trip_'' @ uuid \<notin> U" and c: "createTrip m now uuid req rider pk dr = (r, m')"
  shows "tsm_runs (insert (''trip_'' @ uuid) U) m'"
proof -
  obtain h where h: "tsm_run h m" "e_tripId ` set h \<subseteq> U" using assms by (auto simp: tsm_runs_def)
  have "tsm_run (h @ recorded_by_create m req r) m'"
    using tsm_run.intros(2) [OF h(1) _ c] h(2) assms(2) by blast
  moreover have "e_tripId ` set (recorded_by_create m req r) \<subseteq> insert (''trip_'' @ uuid) U"
    by (rule createTrip_cases [OF tsm_run_tsm_inv [OF h(1)] c])
      (auto simp: recorded_by_create_def createdEvent_def newTrip_def)
  ultimately show ?thesis using h(2) unfolding tsm_runs_def by fastforce
qed

lemma iteration_trips: "tsm_moves (stateMachine s) (stateMachine (loop_iteration s now l lp))"
  by (rule loop_iteration_cases [where lp = lp and s = s and now = now and l = l]) simp_all

lemma dispatch_trips: "tsm_moves (stateMachine s) (stateMachine (dispatchOfferLoop s now t cf))"
  using iteration_trips [of "s\<lparr>nextLoop := Suc (nextLoop s)\<rparr>"] by (simp add: dispatchOfferLoop_def Let_def)

lemma resume_trips: "tsm_moves (stateMachine s) (stateMachine (loop_resume s now l lp))"
proof (rule loop_resume_cases [where lp = lp and s = s and now = now and l = l])
  fix evs ks assume "loop_resume s now l lp = next_iteration (s\<lparr>out := out s @ evs, marks := marks s @ ks\<rparr>) now l lp"
  then show ?thesis using iteration_trips [of "s\<lparr>out := out s @ evs, marks := marks s @ ks\<rparr>"] by (simp add: next_iteration_def)
qed (simp_all add: awaitCandidateOffer_def Let_def, (erule tsm_moves_eq(2))+)

lemma cancel_part_trips: "tsm_moves (stateMachine s) (stateMachine (snd (cancel_trip_part s now req by reason)))"
  by (rule cancel_trip_part_cases [of s req now "by" reason]) (auto dest: tsm_moves_eq)

lemma reset_offers_trips [simp]: "stateMachine (foldl (reset_offer reason) s es) = stateMachine s"
proof (induction es arbitrary: s)
  case (Cons e es)
  have "stateMachine (reset_offer reason s e) = stateMachine s"
    by (simp add: reset_offer_def Let_def split: prod.split)
  then show ?case using Cons [of "reset_offer reason s e"] by simp
qed simp

lemma reset_trips_trips: "tsm_moves (stateMachine s) (stateMachine (foldl (reset_trip now reason) s ts))"
proof (induction ts arbitrary: s)
  case (Cons t ts)
  have "tsm_moves (stateMachine s) (stateMachine (reset_trip now reason s t))"
    by (auto simp: reset_trip_def split: prod.split sum.split dest: tsm_moves_eq)
  then show ?case using Cons [of "reset_trip now reason s t"] by simp
qed simp

lemma reset_trips_moves: "tsm_moves (stateMachine s) (stateMachine (reset_service s now reason))"
  unfolding reset_service_def Let_def by (rule rtranclp_trans [OF _ reset_trips_trips]) simp

text \<open>A step creates at most one trip, and otherwise moves trips by transitions.\<close>

lemma svc_step_moves:
  assumes step: "svc_step s c s'"
  obtains (moves) "tsm_moves (stateMachine s) (stateMachine s')"
  | (create) now uuid req rider pk dr r m1 where "new_tid (snd c) = Some (''trip_'' @ uuid)"
      "createTrip (stateMachine s) now uuid req rider pk dr = (r, m1)" "tsm_moves m1 (stateMachine s')"
  using step
proof (cases rule: svc_step.cases)
  case (step_request now uuid req rider pk dr cf res)
  from step_request(2) show thesis
  proof (cases rule: requestRide_cases)
    case (quiet r m)
    show thesis by (rule create [OF _ quiet(1)]) (use step_request quiet(2) in simp_all)
  next
    case (dispatch t m1 t2 ev m2)
    have "tsm_moves m1 (stateMachine s')"
      using rtranclp_trans [OF tsm_moves_eq(3) [OF dispatch(3)]]
        dispatch_trips [of "s\<lparr>stateMachine := m2, abortedRequests := abortedRequests s - {req}\<rparr>" now t2 cf] dispatch(5) by simp
    then show thesis by (intro create [OF _ dispatch(1)]) (use step_request in simp_all)
  qed
next
  case (step_response now i req resp res)
  have "stateMachine s' = stateMachine s"
    by (rule handleDriverResponse_cases [of s now i req resp]) (use step_response in auto)
  then show thesis by (intro moves) simp
next
  case (step_cancel now req "by" reason res)
  have "tsm_moves (stateMachine s) (stateMachine s')"
    using cancel_part_trips [of "s\<lparr>abortedRequests := insert req (abortedRequests s)\<rparr>" now req "by" reason] step_cancel
    by (auto simp: cancelRide_eq suspend_cancel_def Let_def map_prod_def split: option.splits prod.splits)
  then show thesis by (rule moves)
next
  case (step_cancel_resume n cc now res)
  have part: "tsm_moves (stateMachine x) (stateMachine (snd (cancel_trip_part x now (cc_requestId cc) (cc_by cc) (cc_reason cc))))" for x
    by (rule cancel_part_trips)
  have "tsm_moves (stateMachine s) (stateMachine (snd (cancelRide_resume s now n cc)))"
    unfolding cancelRide_resume_def Let_def by (rule rtranclp_trans [OF _ part]) simp
  then show thesis by (intro moves) (use step_cancel_resume in simp)
next
  case (step_rematch now tid reason cf res)
  from step_rematch(2) have "tsm_moves (stateMachine s) (stateMachine s')"
  proof (cases rule: rematch_cases)
    case (dispatch t t2 ev m1)
    show ?thesis
      using rtranclp_trans [OF tsm_moves_eq(4) [OF dispatch(3)]]
        dispatch_trips [of "s\<lparr>stateMachine := m1, abortedRequests := abortedRequests s - {t_requestId t}\<rparr>" now t2 cf]
        dispatch(5) by simp
  qed simp
  then show thesis by (rule moves)
next
  case (step_reset now reason)
  then show thesis using moves [OF reset_trips_moves [of s now reason, folded step_reset(2)]] by simp
next
  case (step_resume l lp now)
  then show thesis using moves resume_trips by simp
next
  case (step_trip target now tid res m)
  then show thesis using moves tsm_moves_eq(5) [OF step_trip(4)] by simp
qed (use moves in \<open>simp_all add: offer_timeout_def\<close>)

lemma svc_step_trips:
  assumes step: "svc_step s c s'" and runs: "tsm_runs U (stateMachine s)" and new: "\<forall>k. new_tid (snd c) = Some k \<longrightarrow> k \<notin> U"
  shows "tsm_runs (U \<union> {k. new_tid (snd c) = Some k}) (stateMachine s')"
  using step
proof (cases rule: svc_step_moves)
  case moves
  from tsm_runs_moves [OF this runs] show ?thesis unfolding tsm_runs_def by (meson sup.coboundedI1)
next
  case (create now uuid req rider pk dr r m1)
  have "tsm_runs (insert (''trip_'' @ uuid) U) m1" by (rule tsm_runs_create [OF runs _ create(2)]) (use new create(1) in blast)
  then have "tsm_runs (insert (''trip_'' @ uuid) U) (stateMachine s')" using tsm_runs_moves create(3) by blast
  then show ?thesis using create(1) by simp
qed

end
