(* ===== verification/MatchingLoops.thy ===== *)
theory MatchingLoops
  imports MatchingRuns
begin

text \<open>
  What holds of every live loop along a run: its trip is its own and is being matched or has been
  cancelled, it has never tried a driver twice nor more drivers than allowed, it has dispatched an
  offer to the driver it deals with, and it commits only a driver that has accepted.
\<close>

section \<open>How a trip can change under a loop\<close>

definition keeps :: "TSM \<Rightarrow> TSM \<Rightarrow> string \<Rightarrow> bool" where
  "keeps m m' k = (\<forall>t'. jm_get (trips m') k = Some t' \<longrightarrow>
     (\<exists>t. jm_get (trips m) k = Some t \<and> (t_status t \<in> {Matching, Cancelled} \<longrightarrow> t_status t' \<in> {Matching, Cancelled})))"

lemma keeps_refl [simp]: "keeps m m k"
  by (simp add: keeps_def)

lemma keeps_trans: "keeps m1 m2 k \<Longrightarrow> keeps m2 m3 k \<Longrightarrow> keeps m1 m3 k"
  unfolding keeps_def by metis

lemma transition_get:
  assumes "transition m now tid target by reason payload = (r, m')"
  shows "jm_get (trips m') k = jm_get (trips m) k \<or>
    (k = tid \<and> (\<exists>t t'. jm_get (trips m) k = Some t \<and> jm_get (trips m') k = Some t' \<and> same_ids t t' \<and>
       t_status t' = target \<and> target \<in> set (ALLOWED_TRANSITIONS (t_status t)) \<and> (\<exists>ev. r = Inr (t', Some ev))))"
proof (rule transition_cases [OF assms])
  fix t t1 s1 ev
  assume a: "jm_get (trips m) tid = Some t" "target \<in> set (ALLOWED_TRANSITIONS (t_status t))"
    "milestone m now t target by reason payload = Inr (t1, s1)" "r = Inr (t1\<lparr>t_status := target\<rparr>, Some ev)"
    "m' = notifyTransition (recordEvent (s1\<lparr>trips := jm_set (trips s1) tid (t1\<lparr>t_status := target\<rparr>)\<rparr>) ev) ev (t1\<lparr>t_status := target\<rparr>)"
  then show ?thesis using milestone_frame [OF a(3)] by (simp add: same_ids_def)
qed simp_all

lemma transition_keeps:
  assumes "transition m now tid target by reason payload = (r, m')" and "target \<noteq> Matched \<or> k \<noteq> tid"
  shows "keeps m m' k"
  using transition_get [OF assms(1), of k] assms(2) unfolding keeps_def by (auto split: if_splits)

lemma cancelTrip_keeps: "keeps m (snd (cancelTrip m now tid by reason)) k"
  unfolding cancelTrip_def by (rule transition_keeps [OF prod.collapse [symmetric]]) simp

lemma createTrip_keeps:
  assumes "tsm_inv m" and "createTrip m now uuid req rider pk dr = (r, m')" and "k \<noteq> ''trip_'' @ uuid"
  shows "keeps m m' k"
  by (rule createTrip_cases [OF assms(1,2)])
    (use assms(3) evict_get(1) [OF assms(1), of k] in \<open>auto simp: keeps_def newTrip_def\<close>)

section \<open>The invariant of the loops\<close>

definition offered :: "service_event list \<Rightarrow> OfferLoop \<Rightarrow> CandidateDriver \<Rightarrow> bool" where
  "offered es lp c = (\<exists>n. OfferDispatched n \<in> set es \<and> on_driverId n = c_id c \<and> on_tripId n = lp_tid lp \<and>
     on_requestId n = lp_req lp)"

definition accepted :: "history \<Rightarrow> OfferLoop \<Rightarrow> CandidateDriver \<Rightarrow> bool" where
  "accepted h lp c = (\<exists>now. (now, Call_response (c_id c) (lp_req lp) (JStr ''accepted'')) \<in> set h)"

fun hist_ok :: "history \<Rightarrow> service_event list \<Rightarrow> OfferLoop \<Rightarrow> loop_pc \<Rightarrow> bool" where
  "hist_ok h es lp (Waiting c) = offered es lp c"
| "hist_ok h es lp (Resolved c oc) = (offered es lp c \<and> (oc = Accepted \<longrightarrow> accepted h lp c))"
| "hist_ok h es lp (Committing c b) = (offered es lp c \<and> accepted h lp c)"
| "hist_ok h es lp _ = True"

definition tried_ok :: "OfferLoop \<Rightarrow> bool" where
  "tried_ok lp = (distinct (lp_tried lp) \<and> int (length (lp_tried lp)) = lp_i lp + 1 \<and> lp_i lp < cf_k (lp_config lp))"

definition live_ok :: "history \<Rightarrow> service_event list \<Rightarrow> OfferLoop \<Rightarrow> bool" where
  "live_ok h es lp = (tried_ok lp \<and> hist_ok h es lp (lp_pc lp))"

definition loops_ok :: "history \<Rightarrow> MatchingService \<Rightarrow> bool" where
  "loops_ok h s =
    ((\<forall>l lp. jm_get (loops s) l = Some lp \<longrightarrow> live_ok h (out s) lp \<and> lp_tid lp \<in> used_tids h \<and>
        (\<forall>t. jm_get (trips (stateMachine s)) (lp_tid lp) = Some t \<longrightarrow> t_status t \<in> {Matching, Cancelled})) \<and>
     (\<forall>l l' lp lp'. jm_get (loops s) l = Some lp \<and> jm_get (loops s) l' = Some lp' \<and> lp_tid lp = lp_tid lp' \<longrightarrow> l = l'))"

lemma loops_okD:
  assumes "loops_ok h s" and "jm_get (loops s) l = Some lp"
  shows "live_ok h (out s) lp" "lp_tid lp \<in> used_tids h"
    and "jm_get (trips (stateMachine s)) (lp_tid lp) = Some t \<Longrightarrow> t_status t \<in> {Matching, Cancelled}"
    and "jm_get (loops s) l' = Some lp' \<Longrightarrow> lp_tid lp = lp_tid lp' \<Longrightarrow> l = l'"
  using assms unfolding loops_ok_def by blast+

lemma hist_ok_mono: "hist_ok h es lp pc \<Longrightarrow> set h \<subseteq> set h' \<Longrightarrow> set es \<subseteq> set es' \<Longrightarrow> hist_ok h' es' lp pc"
  by (cases pc) (auto simp: offered_def accepted_def)

lemma live_ok_mono: "live_ok h es lp \<Longrightarrow> set h \<subseteq> set h' \<Longrightarrow> set es \<subseteq> set es' \<Longrightarrow> live_ok h' es' lp"
  using hist_ok_mono by (auto simp: live_ok_def)

lemma hist_ok_cong: "lp_trip lp' = lp_trip lp \<Longrightarrow> hist_ok h es lp' pc = hist_ok h es lp pc"
  by (cases pc) (simp_all add: offered_def accepted_def)

lemma loops_ok_step:
  assumes ok: "loops_ok h s" and h: "set h \<subseteq> set h'"
    and surv: "\<And>l lp'. jm_get (loops s') l = Some lp' \<Longrightarrow> \<exists>lp. jm_get (loops s) l = Some lp \<and> lp_trip lp' = lp_trip lp \<and>
      live_ok h' (out s') lp' \<and> keeps (stateMachine s) (stateMachine s') (lp_tid lp)"
  shows "loops_ok h' s'"
proof -
  have "used_tids h \<subseteq> used_tids h'" using h by (auto simp: used_tids_def)
  moreover have "t_status t' \<in> {Matching, Cancelled}"
    if "jm_get (loops s') l = Some lp'" "jm_get (trips (stateMachine s')) (lp_tid lp') = Some t'" for l lp' t'
    using surv [OF that(1)] that(2) loops_okD(3) [OF ok] unfolding keeps_def by metis
  moreover have "l = l'" if "jm_get (loops s') l = Some lp" "jm_get (loops s') l' = Some lp'" "lp_tid lp = lp_tid lp'" for l l' lp lp'
    using surv [OF that(1)] surv [OF that(2)] that(3) loops_okD(4) [OF ok] by metis
  moreover have "live_ok h' (out s') lp' \<and> lp_tid lp' \<in> used_tids h" if "jm_get (loops s') l = Some lp'" for l lp'
    using surv [OF that] loops_okD(2) [OF ok] by metis
  ultimately show ?thesis unfolding loops_ok_def by blast
qed

text \<open>Steps that leave the loops alone, or wake or end one of them.\<close>

lemma loops_ok_same:
  assumes "loops_ok h s" and "loops s' = loops s" and "set h \<subseteq> set h'" and "set (out s) \<subseteq> set (out s')"
    and "\<And>l lp. jm_get (loops s) l = Some lp \<Longrightarrow> keeps (stateMachine s) (stateMachine s') (lp_tid lp)"
  shows "loops_ok h' s'"
  using assms by (intro loops_ok_step [OF assms(1,3)]) (metis live_ok_mono loops_okD(1))

lemma loops_ok_put:
  assumes "loops_ok h s" and "jm_get (loops s) l = Some lp" and "loops s' = jm_set (loops s) l lp'" and "lp_trip lp' = lp_trip lp"
    and "set h \<subseteq> set h'" and "set (out s) \<subseteq> set (out s')" and "live_ok h' (out s') lp'"
    and "\<And>l lp. jm_get (loops s) l = Some lp \<Longrightarrow> keeps (stateMachine s) (stateMachine s') (lp_tid lp)"
  shows "loops_ok h' s'"
proof (rule loops_ok_step [OF assms(1,5)])
  fix l2 lp2 assume a: "jm_get (loops s') l2 = Some lp2"
  show "\<exists>lp. jm_get (loops s) l2 = Some lp \<and> lp_trip lp2 = lp_trip lp \<and>
      live_ok h' (out s') lp2 \<and> keeps (stateMachine s) (stateMachine s') (lp_tid lp)"
    using a assms(2-8) loops_okD(1) [OF assms(1)] live_ok_mono by (cases "l2 = l") fastforce+
qed

lemma loops_ok_end:
  assumes "loops_ok h s" and "loops s' = jm_delete (loops s) l" and "set h \<subseteq> set h'" and "set (out s) \<subseteq> set (out s')"
    and "\<And>l2 lp. l2 \<noteq> l \<Longrightarrow> jm_get (loops s) l2 = Some lp \<Longrightarrow> keeps (stateMachine s) (stateMachine s') (lp_tid lp)"
  shows "loops_ok h' s'"
proof (rule loops_ok_step [OF assms(1,3)])
  fix l2 lp2 assume a: "jm_get (loops s') l2 = Some lp2"
  show "\<exists>lp. jm_get (loops s) l2 = Some lp \<and> lp_trip lp2 = lp_trip lp \<and>
      live_ok h' (out s') lp2 \<and> keeps (stateMachine s) (stateMachine s') (lp_tid lp)"
    using a assms(2-5) loops_okD(1) [OF assms(1)] live_ok_mono by (fastforce split: if_splits)
qed

text \<open>One iteration, of a live loop or of a new one.\<close>

lemma untried_hd:
  assumes "untried s lp = c # cs"
  shows "c_id c \<notin> set (lp_tried lp)"
    and "c \<in> set (findNearbyCandidates (driverRegistry s) (lat (t_pickup (lp_trip lp))) (lng (t_pickup (lp_trip lp)))
        (cf_k (lp_config lp)) (cf_maxRadiusMeters (lp_config lp)))"
  using assms set_filter [of "\<lambda>c. c_id c \<notin> set (lp_tried lp)"] unfolding untried_def
  by (metis (mono_tags, lifting) list.set_intros(1) mem_Collect_eq)+

lemma iteration_effect:
  obtains (stop) "loops (loop_iteration s now l lp) = jm_delete (loops s) l"
  | (go) lp' where "loops (loop_iteration s now l lp) = jm_set (loops s) l lp'" "lp_trip lp' = lp_trip lp"
      "\<And>h es. distinct (lp_tried lp) \<Longrightarrow> int (length (lp_tried lp)) = lp_i lp \<Longrightarrow> live_ok h es lp'"
proof (rule loop_iteration_cases [where lp = lp and s = s and now = now and l = l])
  fix c cs tmo locked r1
  assume a: "lp_i lp < cf_k (lp_config lp)" "untried s lp = c # cs"
    "loop_iteration s now l lp = put_loop (s\<lparr>driverRegistry := r1\<rparr>) l
         (lp\<lparr>lp_tried := lp_tried lp @ [c_id c], lp_hadCandidates := True, lp_pc := Acquiring c tmo locked\<rparr>)"
  show thesis
    by (rule go [of "lp\<lparr>lp_tried := lp_tried lp @ [c_id c], lp_hadCandidates := True, lp_pc := Acquiring c tmo locked\<rparr>"])
      (use a untried_hd(1) [OF a(2)] in \<open>simp_all add: live_ok_def tried_ok_def\<close>)
qed (simp_all add: stop)

lemma iteration_frame [simp]:
  "set (out s) \<subseteq> set (out (loop_iteration s now l lp))"
  "keeps (stateMachine s) (stateMachine (loop_iteration s now l lp)) k"
  by (rule loop_iteration_cases [where lp = lp and s = s and now = now and l = l]; force simp: cancelTrip_keeps)+

lemma iteration_loops_ok:
  assumes "loops_ok h s" and "jm_get (loops s) l = Some lp0" and "lp_trip lp = lp_trip lp0"
    and "distinct (lp_tried lp)" and "int (length (lp_tried lp)) = lp_i lp" and "set h \<subseteq> set h'"
  shows "loops_ok h' (loop_iteration s now l lp)"
proof (rule iteration_effect [where s = s and now = now and l = l and lp = lp])
  assume "loops (loop_iteration s now l lp) = jm_delete (loops s) l"
  then show ?thesis by (rule loops_ok_end [OF assms(1) _ assms(6)]) simp_all
next
  fix lp'
  assume a: "loops (loop_iteration s now l lp) = jm_set (loops s) l lp'" "lp_trip lp' = lp_trip lp"
    "\<And>h es. distinct (lp_tried lp) \<Longrightarrow> int (length (lp_tried lp)) = lp_i lp \<Longrightarrow> live_ok h es lp'"
  show ?thesis by (rule loops_ok_put [OF assms(1,2) a(1) _ assms(6)]) (simp_all add: a assms)
qed

lemma iteration_loops_new:
  assumes ok: "loops_ok h s" and l: "jm_get (loops s) l = None" and lp: "lp_tried lp = []" "lp_i lp = 0"
    and tid: "lp_tid lp \<in> used_tids h" "\<And>l lp2. jm_get (loops s) l = Some lp2 \<Longrightarrow> lp_tid lp2 \<noteq> lp_tid lp"
    and m: "\<And>t. jm_get (trips (stateMachine s)) (lp_tid lp) = Some t \<Longrightarrow> t_status t = Matching"
  shows "loops_ok h (loop_iteration s now l lp)"
proof (rule iteration_effect [where s = s and now = now and l = l and lp = lp])
  assume "loops (loop_iteration s now l lp) = jm_delete (loops s) l"
  then show ?thesis by (rule loops_ok_end [OF ok _ subset_refl]) simp_all
next
  let ?s = "loop_iteration s now l lp"
  fix lp'
  assume a: "loops ?s = jm_set (loops s) l lp'" "lp_trip lp' = lp_trip lp"
    "\<And>h es. distinct (lp_tried lp) \<Longrightarrow> int (length (lp_tried lp)) = lp_i lp \<Longrightarrow> live_ok h es lp'"
  have old: "loops_ok h (?s\<lparr>loops := loops s\<rparr>)"
    by (rule loops_ok_same [OF ok]) simp_all
  have live: "live_ok h (out ?s) lp'" using a(3) lp by simp
  have "t_status t \<in> {Matching, Cancelled}" if "jm_get (trips (stateMachine ?s)) (lp_tid lp) = Some t" for t
    using m iteration_frame(2) [of s now l lp "lp_tid lp"] that unfolding keeps_def by fastforce
  then show ?thesis
    unfolding loops_ok_def a(1) jm_get_set
    using live tid(1) tid(2) [symmetric] loops_okD [OF old] a(2) tid(2) by (auto split: if_splits)
qed

lemma dispatch_loops_ok:
  assumes ok: "loops_ok h s" "offers_ok s"
    and tid: "t_id t \<in> used_tids h" "\<And>l lp2. jm_get (loops s) l = Some lp2 \<Longrightarrow> lp_tid lp2 \<noteq> t_id t"
    and m: "\<And>t'. jm_get (trips (stateMachine s)) (t_id t) = Some t' \<Longrightarrow> t_status t' = Matching"
  shows "loops_ok h (dispatchOfferLoop s now t cf)"
proof -
  have ok': "loops_ok h (s\<lparr>nextLoop := Suc (nextLoop s)\<rparr>)" by (rule loops_ok_same [OF ok(1)]) simp_all
  show ?thesis
    unfolding dispatchOfferLoop_def Let_def
    by (rule iteration_loops_new [OF ok']) (use fresh_keys(1) [OF ok(2)] tid m in simp_all)
qed

section \<open>Every step keeps it\<close>

lemma transition_result:
  assumes "tsm_inv m" and "transition m now tid target by reason payload = (Inr (t2, ev), m2)"
  shows "jm_get (trips m2) tid = Some t2 \<and> t_status t2 = target \<and> t_id t2 = tid"
    and "\<exists>t. jm_get (trips m) tid = Some t \<and> same_ids t t2 \<and>
      (t_status t = target \<and> t2 = t \<or> target \<in> set (ALLOWED_TRANSITIONS (t_status t)))"
proof -
  have "(jm_get (trips m2) tid = Some t2 \<and> t_status t2 = target \<and> t_id t2 = tid) \<and>
    (\<exists>t. jm_get (trips m) tid = Some t \<and> same_ids t t2 \<and>
      (t_status t = target \<and> t2 = t \<or> target \<in> set (ALLOWED_TRANSITIONS (t_status t))))"
  proof (rule transition_cases [OF assms(2)])
    fix t assume "jm_get (trips m) tid = Some t" "t_status t = target" "(Inr (t2, ev) :: tsm_error + _) = Inr (t, None)" "m2 = m"
    then show ?thesis using tsm_invD(1) [OF assms(1)] by (auto simp: same_ids_def)
  next
    fix t t1 s1 ev'
    assume a: "jm_get (trips m) tid = Some t" "target \<in> set (ALLOWED_TRANSITIONS (t_status t))"
      "milestone m now t target by reason payload = Inr (t1, s1)"
      "(Inr (t2, ev) :: tsm_error + _) = Inr (t1\<lparr>t_status := target\<rparr>, Some ev')"
      "m2 = notifyTransition (recordEvent (s1\<lparr>trips := jm_set (trips s1) tid (t1\<lparr>t_status := target\<rparr>)\<rparr>) ev') ev' (t1\<lparr>t_status := target\<rparr>)"
    then show ?thesis
      using milestone_frame [OF a(3)] tsm_invD(1) [OF assms(1) a(1)] by (auto simp: same_ids_def)
  qed simp
  then show "jm_get (trips m2) tid = Some t2 \<and> t_status t2 = target \<and> t_id t2 = tid"
    and "\<exists>t. jm_get (trips m) tid = Some t \<and> same_ids t t2 \<and>
      (t_status t = target \<and> t2 = t \<or> target \<in> set (ALLOWED_TRANSITIONS (t_status t)))" by auto
qed

lemma resolve_loops_ok:
  assumes ok: "loops_ok h s"
    and acc: "\<And>lp c. jm_get (loops s) l = Some lp \<Longrightarrow> lp_pc lp = Waiting c \<Longrightarrow> oc = Accepted \<Longrightarrow> accepted h lp c"
  shows "loops_ok h (resolve_offer s l oc)"
proof (cases "\<exists>lp c. jm_get (loops s) l = Some lp \<and> lp_pc lp = Waiting c")
  case True
  then obtain lp c where lp: "jm_get (loops s) l = Some lp" "lp_pc lp = Waiting c" by blast
  have "live_ok h (out s) (lp\<lparr>lp_pc := Resolved c oc\<rparr>)"
    using loops_okD(1) [OF ok lp(1)] acc [OF lp] lp(2) by (auto simp: live_ok_def tried_ok_def offered_def accepted_def)
  then show ?thesis
    unfolding resolve_offer_eq [OF lp] by (intro loops_ok_put [OF ok lp(1)]) simp_all
next
  case False
  then have "resolve_offer s l oc = s" by (simp add: resolve_offer_def split: option.split loop_pc.split)
  then show ?thesis using ok by simp
qed

lemma loops_ok_history: "loops_ok h s \<Longrightarrow> loops_ok (h @ [c]) s"
  by (rule loops_ok_same) auto

lemma drop_loops_ok [simp]: "loops_ok h (drop_offer s r o1) = loops_ok h s"
  by (simp add: loops_ok_def)

lemma loops_ok_frame [simp]:
  "loops_ok h (s\<lparr>driverRegistry := r\<rparr>) = loops_ok h s" "loops_ok h (s\<lparr>abortedRequests := a\<rparr>) = loops_ok h s"
  "loops_ok h (s\<lparr>timers := T\<rparr>) = loops_ok h s" "loops_ok h (s\<lparr>activeOffers := A\<rparr>) = loops_ok h s"
  "loops_ok h (s\<lparr>cancels := C\<rparr>) = loops_ok h s" "loops_ok h (s\<lparr>nextCancel := n\<rparr>) = loops_ok h s"
  by (simp_all add: loops_ok_def)

lemma emit_loops_ok: "loops_ok h s \<Longrightarrow> loops_ok h (emit s e)"
  by (rule loops_ok_same) auto

lemma cancelTrip_eq_keeps: "cancelTrip m now tid by reason = (r, m') \<Longrightarrow> keeps m m' k"
  using cancelTrip_keeps by (metis snd_conv)

lemma cancel_part_loops_ok: "loops_ok h s \<Longrightarrow> loops_ok h (snd (cancel_trip_part s now req by reason))"
  by (rule cancel_trip_part_cases [of s req now "by" reason])
    (auto intro: loops_ok_same simp: cancelTrip_eq_keeps)

lemma reset_offers_loops_ok: "loops_ok h s \<Longrightarrow> loops_ok h (foldl (reset_offer reason) s es)"
proof (induction es arbitrary: s)
  case (Cons e es)
  obtain r o1 where e: "e = (r, o1)" by fastforce
  have "loops_ok h (reset_offer reason s e)"
    unfolding reset_offer_def e Let_def prod.case
    by (rule resolve_loops_ok, rule emit_loops_ok) (use Cons.prems in simp_all)
  then show ?case using Cons.IH by simp
qed simp

lemma reset_trips_loops_ok: "loops_ok h s \<Longrightarrow> loops_ok h (foldl (reset_trip now reason) s ts)"
proof (induction ts arbitrary: s)
  case (Cons t ts)
  have "loops_ok h (reset_trip now reason s t)"
    by (rule loops_ok_same [OF Cons.prems])
      (auto simp: reset_trip_def cancelTrip_eq_keeps split: prod.split sum.split)
  then show ?case using Cons.IH by simp
qed simp

lemma await_offered: "offered (out (awaitCandidateOffer s now l lp c tmo)) (lp\<lparr>lp_pc := pc\<rparr>) c"
  unfolding offered_def
  by (rule exI [of _ "\<lparr>on_driverId = c_id c, on_requestId = lp_req lp, on_tripId = lp_tid lp,
      on_pickup = t_pickup (lp_trip lp), on_dropoff = t_dropoff (lp_trip lp), on_expiresAt = now + tmo,
      on_distanceMeters = \<lfloor>c_distance c + 1 / 2\<rfloor>\<rparr>"]) (simp add: awaitCandidateOffer_def Let_def)

lemma await_loops_ok:
  assumes ok: "loops_ok h s" and lp: "jm_get (loops s) l = Some lp"
  shows "loops_ok h (awaitCandidateOffer s now l lp c tmo)"
proof (rule loops_ok_put [OF ok lp, of _ "lp\<lparr>lp_pc := Waiting c\<rparr>"])
  show "live_ok h (out (awaitCandidateOffer s now l lp c tmo)) (lp\<lparr>lp_pc := Waiting c\<rparr>)"
    using loops_okD(1) [OF ok lp] await_offered [of s now l lp c tmo "Waiting c"] by (simp add: live_ok_def tried_ok_def)
qed (auto simp: awaitCandidateOffer_def Let_def)

lemma resume_loops_ok:
  assumes ok: "loops_ok h s" and inv: "tsm_inv (stateMachine s)" and lp: "jm_get (loops s) l = Some lp"
  shows "loops_ok h (loop_resume s now l lp)"
proof -
  note live = loops_okD(1) [OF ok lp]
  show ?thesis
  proof (rule loop_resume_cases [where lp = lp and s = s and now = now and l = l])
    fix c tmo assume "loop_resume s now l lp = awaitCandidateOffer s now l lp c tmo"
    then show ?thesis using await_loops_ok [OF ok lp] by simp
  next
    fix evs ks assume a: "loop_resume s now l lp = next_iteration (s\<lparr>out := out s @ evs, marks := marks s @ ks\<rparr>) now l lp"
    have ok': "loops_ok h (s\<lparr>out := out s @ evs, marks := marks s @ ks\<rparr>)" by (rule loops_ok_same [OF ok]) auto
    show ?thesis unfolding a next_iteration_def
      by (rule iteration_loops_ok [OF ok']) (use lp live in \<open>simp_all add: live_ok_def tried_ok_def\<close>)
  next
    fix c oc pc r1
    assume a: "lp_pc lp = Resolved c oc" "pc = AbortReleasing \<or> (pc = Releasing c oc \<and> oc \<noteq> Accepted)"
      "loop_resume s now l lp = put_loop (s\<lparr>driverRegistry := r1\<rparr>) l (lp\<lparr>lp_pc := pc\<rparr>)"
    show ?thesis unfolding a(3)
      by (rule loops_ok_put [OF ok lp, of _ "lp\<lparr>lp_pc := pc\<rparr>"]) (use a live in \<open>auto simp: live_ok_def tried_ok_def\<close>)
  next
    fix c committed r1
    assume a: "lp_pc lp = Resolved c Accepted"
      "loop_resume s now l lp = put_loop (s\<lparr>driverRegistry := r1\<rparr>) l (lp\<lparr>lp_pc := Committing c committed\<rparr>)"
    show ?thesis unfolding a(2)
      by (rule loops_ok_put [OF ok lp, of _ "lp\<lparr>lp_pc := Committing c committed\<rparr>"]) (use a live in \<open>auto simp: live_ok_def tried_ok_def offered_def accepted_def\<close>)
  next
    assume a: "loop_resume s now l lp = end_loop s l lp"
    show ?thesis unfolding a by (rule loops_ok_end [OF ok]) simp_all
  next
    fix c trip ev m1
    assume a: "setMatched (stateMachine s) now (lp_tid lp) (c_id c) = (Inr (trip, ev), m1)"
      "loop_resume s now l lp = end_loop (emit (s\<lparr>stateMachine := m1\<rparr>) (TripMatched (t_id trip) (c_id c))) l lp"
    have "keeps (stateMachine s) m1 (lp_tid lp2)" if "l2 \<noteq> l" "jm_get (loops s) l2 = Some lp2" for l2 lp2
      using transition_keeps [OF a(1) [unfolded setMatched_def]] loops_okD(4) [OF ok lp that(2)] that(1) by metis
    then show ?thesis unfolding a(2) by (intro loops_ok_end [OF ok]) auto
  next
    fix c e m1 r1
    assume a: "setMatched (stateMachine s) now (lp_tid lp) (c_id c) = (Inl e, m1)"
      "loop_resume s now l lp = put_loop (s\<lparr>stateMachine := m1, driverRegistry := r1\<rparr>) l (lp\<lparr>lp_pc := RollingBack c\<rparr>)"
    have "m1 = stateMachine s" by (rule transition_cases [OF a(1) [unfolded setMatched_def]]) auto
    then show ?thesis unfolding a(2)
      by (intro loops_ok_put [OF ok lp, of _ "lp\<lparr>lp_pc := RollingBack c\<rparr>"]) (use live in \<open>auto simp: live_ok_def tried_ok_def\<close>)
  next
    fix c r1
    assume a: "loop_resume s now l lp = put_loop (s\<lparr>driverRegistry := r1\<rparr>) l (lp\<lparr>lp_pc := CommitFailed c\<rparr>)"
    show ?thesis unfolding a
      by (rule loops_ok_put [OF ok lp, of _ "lp\<lparr>lp_pc := CommitFailed c\<rparr>"]) (use live in \<open>auto simp: live_ok_def tried_ok_def\<close>)
  qed (use ok in simp)
qed

lemma request_loops_ok:
  assumes ok: "loops_ok h s" "offers_ok s" and runs: "tsm_runs (used_tids h) (stateMachine s)"
    and fresh: "''trip_'' @ uuid \<notin> used_tids h"
    and r: "requestRide s now uuid req rider pk dr cf = (res, s')"
  shows "loops_ok (h @ [(now, Call_request uuid req rider pk dr cf)]) s'"
proof -
  let ?h = "h @ [(now, Call_request uuid req rider pk dr cf)]"
  have inv: "tsm_inv (stateMachine s)" by (rule tsm_runs_inv [OF runs])
  have keep: "keeps (stateMachine s) m (lp_tid lp)"
    if "createTrip (stateMachine s) now uuid req rider pk dr = (q, m)" "jm_get (loops s) l = Some lp" for q m l lp
    by (rule createTrip_keeps [OF inv that(1)]) (use fresh loops_okD(2) [OF ok(1) that(2)] in auto)
  from r show ?thesis
  proof (cases rule: requestRide_cases)
    case (quiet q m)
    show ?thesis unfolding quiet(2) by (rule loops_ok_same [OF ok(1)]) (use keep [OF quiet(1)] in auto)
  next
    case (dispatch t m1 t2 ev m2)
    have runs1: "tsm_runs (insert (''trip_'' @ uuid) (used_tids h)) m1" by (rule tsm_runs_create [OF runs fresh dispatch(1)])
    have inv1: "tsm_inv m1" by (rule tsm_runs_inv [OF runs1])
    note st = dispatch(3) [unfolded startMatching_def]
    from transition_result [OF inv1 st] obtain t0 where t0: "jm_get (trips m1) (t_id t) = Some t0" "t_id t2 = t_id t"
        "jm_get (trips m2) (t_id t) = Some t2" "t_status t2 = Matching" by auto
    have t: "jm_get (trips m1) (t_id t) = Some t"
      by (rule createTrip_cases [OF inv dispatch(1)]) (auto simp: newTrip_def)
    have ok1: "loops_ok ?h (s\<lparr>stateMachine := m1\<rparr>)"
      by (rule loops_ok_same [OF ok(1)]) (use keep [OF dispatch(1)] in auto)
    have not_live: "lp_tid lp \<noteq> t_id t" if "jm_get (loops s) l = Some lp" for l lp
      using loops_okD(3) [OF ok1, of l lp t] that t dispatch(2) by auto
    have ok2: "loops_ok ?h (s\<lparr>stateMachine := m2, abortedRequests := abortedRequests s - {req}\<rparr>)"
      by (rule loops_ok_same [OF ok1]) (use transition_keeps [OF st] in auto)
    have used: "t_id t \<in> used_tids ?h" using tsm_runs_known [OF runs1 t] by auto
    show ?thesis unfolding dispatch(5)
      by (rule dispatch_loops_ok [OF ok2]) (use ok(2) used not_live t0 in auto)
  qed
qed

lemma rematch_loops_ok:
  assumes ok: "loops_ok h s" "offers_ok s" and runs: "tsm_runs (used_tids h) (stateMachine s)"
    and r: "rematch s now tid reason cf = (res, s')"
  shows "loops_ok h s'"
  using r
proof (cases rule: rematch_cases)
  case (dispatch t t2 ev m1)
  have inv: "tsm_inv (stateMachine s)" by (rule tsm_runs_inv [OF runs])
  note st = dispatch(3) [unfolded rematchTrip_def]
  from transition_result [OF inv st] have t2: "jm_get (trips m1) tid = Some t2" "t_status t2 = Matching" "t_id t2 = tid"
    "Matching \<in> set (ALLOWED_TRANSITIONS (t_status t))"
    using dispatch(1,2) by auto
  have not_live: "lp_tid lp \<noteq> tid" if "jm_get (loops s) l = Some lp" for l lp
    using loops_okD(3) [OF ok(1) that, of t] dispatch(1,2) t2(4) by auto
  have ok2: "loops_ok h (s\<lparr>stateMachine := m1, abortedRequests := abortedRequests s - {t_requestId t}\<rparr>)"
    by (rule loops_ok_same [OF ok(1)]) (use transition_keeps [OF st] in auto)
  show ?thesis unfolding dispatch(5)
    by (rule dispatch_loops_ok [OF ok2]) (use ok(2) tsm_runs_known [OF runs dispatch(1)] not_live t2 in auto)
qed (use ok in simp)

lemma response_loops_ok:
  assumes ok: "loops_ok h s" "offers_ok s" and r: "handleDriverResponse s now i req resp = (res, s')"
  shows "loops_ok (h @ [(now, Call_response i req resp)]) s'"
proof -
  let ?h = "h @ [(now, Call_response i req resp)]"
  have okh: "loops_ok ?h s" by (rule loops_ok_history [OF ok(1)])
  show ?thesis
  proof (rule handleDriverResponse_cases [where s = s and now = now and i = i and req = req and resp = resp])
    fix e assume "handleDriverResponse s now i req resp = (Inl e, s)"
    then show ?thesis using r okh by simp
  next
    fix offer
    assume "handleDriverResponse s now i req resp =
         (Inl OfferDeadlinePassed, resolve_offer (drop_offer s req offer) (po_loop offer) Timed_out)"
    then show ?thesis using r resolve_loops_ok [of ?h "drop_offer s req offer" "po_loop offer" Timed_out] okh by simp
  next
    fix offer oc
    assume a: "response_of resp = Some oc" "jm_get (activeOffers s) req = Some offer" "po_driverId offer = i"
      "handleDriverResponse s now i req resp = (Inr (), resolve_offer (drop_offer s req offer) (po_loop offer) oc)"
    have w: "waits_for (loops s) (po_loop offer) i req"
      using ok(2) a(2,3) offers_invD(1) by (metis offers_ok_def)
    have "loops_ok ?h (resolve_offer (drop_offer s req offer) (po_loop offer) oc)"
    proof (rule resolve_loops_ok)
      fix lp c assume "jm_get (loops (drop_offer s req offer)) (po_loop offer) = Some lp" "lp_pc lp = Waiting c" "oc = Accepted"
      then show "accepted ?h lp c"
        using w a(1) response_of_Accepted [of resp] by (auto simp: waits_for_def accepted_def)
    qed (use okh in simp)
    then show ?thesis using a r by simp
  qed
qed

lemma svc_step_loops_ok:
  assumes step: "svc_step s c s'" and ok: "loops_ok h s" "offers_ok s"
    and runs: "tsm_runs (used_tids h) (stateMachine s)" and fresh: "\<forall>k. new_tid (snd c) = Some k \<longrightarrow> k \<notin> used_tids h"
  shows "loops_ok (h @ [c]) s'"
  using step
proof (cases rule: svc_step.cases)
  case (step_request now uuid req rider pk dr cf res)
  then show ?thesis using request_loops_ok [OF ok runs _ step_request(2)] fresh by simp
next
  case (step_response now i req resp res)
  then show ?thesis using response_loops_ok [OF ok step_response(2)] by simp
next
  case (step_timer l lp now)
  have "loops_ok (h @ [c]) (offer_timeout s l lp)"
    unfolding offer_timeout_def by (rule resolve_loops_ok) (use loops_ok_history [OF ok(1)] in simp_all)
  then show ?thesis using step_timer by simp
next
  case (step_resume l lp now)
  then show ?thesis using resume_loops_ok [OF ok(1) tsm_runs_inv [OF runs] step_resume(3)] loops_ok_history by simp
next
  case (step_cancel now req "by" reason res)
  have "loops_ok h (snd (cancelRide s now req by reason))"
    using cancel_part_loops_ok [of h "s\<lparr>abortedRequests := insert req (abortedRequests s)\<rparr>" now req "by" reason] ok(1)
    by (simp add: cancelRide_eq suspend_cancel_def Let_def split: option.split)
  then show ?thesis using step_cancel loops_ok_history by simp
next
  case (step_cancel_resume n cc now res)
  have "loops_ok h (snd (cancelRide_resume s now n cc))"
    unfolding cancelRide_resume_def Let_def
    by (rule cancel_part_loops_ok, rule resolve_loops_ok, rule emit_loops_ok) (use ok(1) in simp_all)
  then show ?thesis using step_cancel_resume loops_ok_history by simp
next
  case (step_reset now reason)
  have "loops_ok h (reset_service s now reason)"
    unfolding reset_service_def Let_def
    by (rule reset_trips_loops_ok, rule reset_offers_loops_ok) (use ok(1) in simp)
  then show ?thesis using step_reset loops_ok_history by simp
next
  case (step_rematch now tid reason cf res)
  then show ?thesis using rematch_loops_ok [OF ok runs step_rematch(2)] loops_ok_history by simp
next
  case (step_trip target now tid res m)
  have "loops_ok h (s\<lparr>stateMachine := m\<rparr>)"
    by (rule loops_ok_same [OF ok(1)]) (use step_trip transition_keeps [OF step_trip(4)] in auto)
  then show ?thesis using step_trip loops_ok_history by simp
qed (use ok(1) loops_ok_history in simp)

text \<open>All invariants of a run together.\<close>

definition svc_inv :: "history \<Rightarrow> MatchingService \<Rightarrow> bool" where
  "svc_inv h s = (offers_ok s \<and> loops_ok h s \<and> tsm_runs (used_tids h) (stateMachine s) \<and> registry_run (driverRegistry s))"

lemma svc_inv_new: "registry_run r \<Longrightarrow> svc_inv [] (service_new r tsm_new)"
proof -
  assume "registry_run r"
  moreover have "loops_ok [] (service_new r tsm_new)" by (simp add: loops_ok_def service_new_def)
  moreover have "tsm_runs {} tsm_new" unfolding tsm_runs_def using tsm_run.intros(1) by fastforce
  ultimately show ?thesis by (simp add: svc_inv_def offers_ok_new) (simp add: service_new_def)
qed

lemma svc_inv_step:
  assumes "svc_inv h s" and "svc_step s c s'" and "\<forall>k. new_tid (snd c) = Some k \<longrightarrow> k \<notin> used_tids h"
  shows "svc_inv (h @ [c]) s'"
  using assms svc_step_offers_ok svc_step_loops_ok svc_step_trips svc_step_registry registry_run_ops
  by (simp add: svc_inv_def) blast

lemma svc_exec_inv: "svc_exec h s h' s' \<Longrightarrow> svc_inv h s \<Longrightarrow> svc_inv h' s'"
  by (induction rule: svc_exec.induct) (auto intro: svc_inv_step)

lemma svc_run_inv: "svc_run h s \<Longrightarrow> svc_inv h s"
  unfolding svc_run_def using svc_exec_inv svc_inv_new by blast

end
