(* ===== verification/MatchingHistory.thy ===== *)
theory MatchingHistory
  imports MatchingLoops
begin

text \<open>
  What a run of the matching service leaves behind: the events of every step and what a reported
  match rests on, the number of steps a loop can still take, and the trips that are cancelled for
  good.
\<close>

section \<open>Events\<close>

lemma iteration_events:
  "\<exists>es. out (loop_iteration s now l lp) = out s @ es \<and> (\<nexists>tid i. TripMatched tid i \<in> set es)"
  by (rule loop_iteration_cases [where lp = lp and s = s and now = now and l = l]) auto

lemma dispatch_events:
  "\<exists>es. out (dispatchOfferLoop s now t cf) = out s @ es \<and> (\<nexists>tid i. TripMatched tid i \<in> set es)"
  using iteration_events [of "s\<lparr>nextLoop := Suc (nextLoop s)\<rparr>"] by (simp add: dispatchOfferLoop_def Let_def)

lemma reset_events:
  "\<exists>es. out (foldl (reset_offer reason) s os) = out s @ es \<and> (\<nexists>tid i. TripMatched tid i \<in> set es)"
proof (induction os arbitrary: s)
  case (Cons e os)
  obtain r o1 where e: "e = (r, o1)" by fastforce
  have "out (reset_offer reason s e) = out s @ [OfferRevoked (po_driverId o1) r reason]"
    by (simp add: reset_offer_def e Let_def)
  with Cons.IH [of "reset_offer reason s e"] show ?case by force
qed simp

text \<open>The only step that reports a match is the last one of a loop.\<close>

lemma svc_step_events:
  assumes "svc_step s c s'"
  obtains (quiet) es where "out s' = out s @ es" "\<nexists>tid i. TripMatched tid i \<in> set es"
  | (match) now l lp cand trip ev where "c = (now, Resume_loop l)" "jm_get (loops s) l = Some lp"
      "lp_pc lp = Committing cand True"
      "setMatched (stateMachine s) now (lp_tid lp) (c_id cand) = (Inr (trip, ev), stateMachine s')"
      "out s' = out s @ [TripMatched (t_id trip) (c_id cand)]"
  using assms
proof (cases rule: svc_step.cases)
  case (step_request now uuid req rider pk dr cf res)
  from step_request(2) show thesis
    by (cases rule: requestRide_cases)
      (use quiet [of "[]"] quiet dispatch_events [of "s\<lparr>stateMachine := x, abortedRequests := a\<rparr>" for x a] in \<open>force+\<close>)
next
  case (step_response now i req resp res)
  have "out s' = out s"
    by (rule handleDriverResponse_cases [where s = s and now = now and i = i and req = req and resp = resp])
      (use step_response in auto)
  then show thesis using quiet [of "[]"] by simp
next
  case (step_resume l lp now)
  show thesis
  proof (rule loop_resume_cases [where lp = lp and s = s and now = now and l = l])
    fix cand tmo assume "loop_resume s now l lp = awaitCandidateOffer s now l lp cand tmo"
    then show thesis using step_resume by (intro quiet) (auto simp: awaitCandidateOffer_def Let_def)
  next
    fix evs ks assume "loop_resume s now l lp = next_iteration (s\<lparr>out := out s @ evs, marks := marks s @ ks\<rparr>) now l lp"
      and e: "\<And>e. e \<in> set evs \<Longrightarrow> \<exists>x r. e = OfferRevoked x (lp_req lp) r"
    then obtain es where "out s' = out s @ (evs @ es)" "\<nexists>tid i. TripMatched tid i \<in> set es"
      using step_resume iteration_events [of "s\<lparr>out := out s @ evs, marks := marks s @ ks\<rparr>" now l "lp\<lparr>lp_i := lp_i lp + 1\<rparr>"]
      by (auto simp: next_iteration_def)
    then show thesis using e by (intro quiet [of "evs @ es"]) fastforce+
  next
    fix cand trip ev m1
    assume "lp_pc lp = Committing cand True" "setMatched (stateMachine s) now (lp_tid lp) (c_id cand) = (Inr (trip, ev), m1)"
      "loop_resume s now l lp = end_loop (emit (s\<lparr>stateMachine := m1\<rparr>) (TripMatched (t_id trip) (c_id cand))) l lp"
    then show thesis using step_resume by (intro match) auto
  qed (use quiet [of "[]"] step_resume in simp_all)
next
  case (step_cancel now req "by" reason res)
  have "out (snd (cancel_trip_part x now req by reason)) = out x" for x
    by (rule cancel_trip_part_cases [of x req now "by" reason]) simp_all
  then have "out (snd (cancelRide s now req by reason)) = out s"
    by (simp add: cancelRide_eq suspend_cancel_def Let_def split: option.split)
  then show thesis using quiet [of "[]"] step_cancel by simp
next
  case (step_cancel_resume n cc now res)
  have part: "out (snd (cancel_trip_part x now req by reason)) = out x" for x req "by" reason
    by (rule cancel_trip_part_cases [of x req now "by" reason]) simp_all
  have "\<exists>e. out (snd (cancelRide_resume s now n cc)) = out s @ [e] \<and> (\<nexists>tid i. e = TripMatched tid i)"
    unfolding cancelRide_resume_def Let_def part by simp
  then show thesis using quiet step_cancel_resume by (metis list.set(1) list.set(2) singletonD snd_conv)
next
  case (step_reset now reason)
  obtain es where es: "out (foldl (reset_offer reason) (s\<lparr>abortedRequests := abortedRequests s \<union>
      set (map t_requestId (getActiveTrips (stateMachine s)))\<rparr>) (activeOffers s)) = out s @ es" "\<nexists>tid i. TripMatched tid i \<in> set es"
    using reset_events [of reason "s\<lparr>abortedRequests := abortedRequests s \<union> set (map t_requestId (getActiveTrips (stateMachine s)))\<rparr>" "activeOffers s"] by auto
  show thesis by (rule quiet [OF _ es(2)]) (use step_reset es(1) in \<open>simp add: reset_service_def Let_def\<close>)
next
  case (step_rematch now tid reason cf res)
  from step_rematch(2) show thesis
    by (cases rule: rematch_cases)
      (use quiet [of "[]"] quiet dispatch_events [of "s\<lparr>stateMachine := x, abortedRequests := a\<rparr>" for x a] in \<open>force+\<close>)
qed (use quiet [of "[]"] in \<open>simp_all add: offer_timeout_def\<close>)

text \<open>A match reported for a trip has been offered to its driver and accepted by it.\<close>

definition matches_ok :: "history \<Rightarrow> service_event list \<Rightarrow> bool" where
  "matches_ok h es = (\<forall>tid i. TripMatched tid i \<in> set es \<longrightarrow>
     (\<exists>n t. OfferDispatched n \<in> set es \<and> on_tripId n = tid \<and> on_driverId n = i \<and>
        (t, Call_response i (on_requestId n) (JStr ''accepted'')) \<in> set h))"

lemma matches_ok_mono: "matches_ok h es \<Longrightarrow> set h \<subseteq> set h' \<Longrightarrow> \<nexists>tid i. TripMatched tid i \<in> set es' \<Longrightarrow> matches_ok h' (es @ es')"
  unfolding matches_ok_def set_append by (meson Un_iff subsetD)

lemma svc_step_matches_ok:
  assumes "svc_inv h s" and "svc_step s c s'" and "matches_ok h (out s)"
  shows "matches_ok (h @ [c]) (out s')"
  using assms(2)
proof (cases rule: svc_step_events)
  case (quiet es)
  then show ?thesis using matches_ok_mono [OF assms(3), of "h @ [c]" es] by auto
next
  case (match now l lp cand trip ev)
  have ok: "loops_ok h s" "tsm_inv (stateMachine s)" using assms(1) tsm_runs_inv by (auto simp: svc_inv_def)
  have tid: "t_id trip = lp_tid lp" using transition_result(1) [OF ok(2) match(4) [unfolded setMatched_def]] by simp
  have "offered (out s) lp cand" "accepted h lp cand" using loops_okD(1) [OF ok(1) match(2)] match(3) by (auto simp: live_ok_def)
  then obtain n t where n: "OfferDispatched n \<in> set (out s)" "on_tripId n = t_id trip" "on_driverId n = c_id cand"
      "(t, Call_response (c_id cand) (on_requestId n) (JStr ''accepted'')) \<in> set h"
    by (auto simp: offered_def accepted_def tid)
  have old: "matches_ok (h @ [c]) (out s)" using matches_ok_mono [OF assms(3), of "h @ [c]" "[]"] by auto
  show ?thesis
    unfolding matches_ok_def match(5)
  proof (intro allI impI)
    fix tid i assume "TripMatched tid i \<in> set (out s @ [TripMatched (t_id trip) (c_id cand)])"
    then consider "TripMatched tid i \<in> set (out s)" | "tid = t_id trip" "i = c_id cand" by auto
    then show "\<exists>n t. OfferDispatched n \<in> set (out s @ [TripMatched (t_id trip) (c_id cand)]) \<and> on_tripId n = tid \<and>
        on_driverId n = i \<and> (t, Call_response i (on_requestId n) (JStr ''accepted'')) \<in> set (h @ [c])"
    proof cases
      case 1
      with old show ?thesis unfolding matches_ok_def set_append by (meson Un_iff)
    next
      case 2
      with n show ?thesis unfolding set_append by (intro exI [of _ n] exI [of _ t]) simp
    qed
  qed
qed

lemma svc_exec_matches_ok: "svc_exec h s h' s' \<Longrightarrow> svc_inv h s \<Longrightarrow> matches_ok h (out s) \<Longrightarrow> matches_ok h' (out s')"
proof (induction rule: svc_exec.induct)
  case (exec_step h1 s1 c s2)
  then show ?case using svc_step_matches_ok svc_exec_inv by blast
qed simp

section \<open>The life of a loop\<close>

fun pc_rank :: "loop_pc \<Rightarrow> nat" where
  "pc_rank (Acquiring _ _ _) = 5"
| "pc_rank (Waiting _) = 4"
| "pc_rank (Resolved _ _) = 3"
| "pc_rank (Committing _ _) = 2"
| "pc_rank _ = 1"

definition loop_rank :: "OfferLoop \<Rightarrow> nat" where
  "loop_rank lp = 5 * nat (cf_k (lp_config lp) - lp_i lp - 1) + pc_rank (lp_pc lp)"

definition weight :: "MatchingService \<Rightarrow> nat \<Rightarrow> nat" where
  "weight s l = (case jm_get (loops s) l of None \<Rightarrow> 0 | Some lp \<Rightarrow> loop_rank lp)"

lemma pc_rank_pos: "0 < pc_rank pc"
  by (cases pc) simp_all

lemma weight_loops: "jm_get (loops s') l = jm_get (loops s) l \<Longrightarrow> weight s' l = weight s l"
  by (simp add: weight_def)

lemma iteration_weight:
  "weight (loop_iteration s now l lp) l2 \<le>
    (if l2 = l then 5 * nat (cf_k (lp_config lp) - lp_i lp) else weight s l2)"
proof (rule loop_iteration_cases [where lp = lp and s = s and now = now and l = l])
  fix c cs tmo locked r1
  assume "lp_i lp < cf_k (lp_config lp)"
    "loop_iteration s now l lp = put_loop (s\<lparr>driverRegistry := r1\<rparr>) l
         (lp\<lparr>lp_tried := lp_tried lp @ [c_id c], lp_hadCandidates := True, lp_pc := Acquiring c tmo locked\<rparr>)"
  moreover have "5 * nat (cf_k (lp_config lp) - lp_i lp - 1) + 5 \<le> 5 * nat (cf_k (lp_config lp) - lp_i lp)"
    using calculation(1) by simp
  ultimately show ?thesis by (simp add: weight_def loop_rank_def split: option.split)
qed (simp_all add: weight_def split: option.split)

lemma dispatch_weight: "l \<noteq> nextLoop s \<Longrightarrow> weight (dispatchOfferLoop s now t cf) l \<le> weight s l"
  unfolding dispatchOfferLoop_def Let_def
  by (rule order_trans [OF iteration_weight]) (simp add: weight_def)

lemma resolve_weight: "weight (resolve_offer s l2 oc) l \<le> weight s l"
  by (auto simp: resolve_offer_def weight_def loop_rank_def split: option.split loop_pc.split)

lemma resume_weight:
  assumes lp: "jm_get (loops s) l = Some lp" and pc: "\<nexists>c. lp_pc lp = Waiting c" and i: "lp_i lp < cf_k (lp_config lp)"
  shows "weight (loop_resume s now l lp) l2 + (if l2 = l then 1 else 0) \<le> weight s l2"
proof (rule loop_resume_cases [where lp = lp and s = s and now = now and l = l])
  fix evs ks
  assume a: "(\<exists>c tmo. lp_pc lp = Acquiring c tmo False) \<or> (\<exists>c oc. lp_pc lp = Releasing c oc) \<or>
      (\<exists>c. lp_pc lp = CommitFailed c) \<or> (\<exists>c. lp_pc lp = RollingBack c)"
    "loop_resume s now l lp = next_iteration (s\<lparr>out := out s @ evs, marks := marks s @ ks\<rparr>) now l lp"
  have "weight (s\<lparr>out := out s @ evs, marks := marks s @ ks\<rparr>) l2 = weight s l2" by (simp add: weight_def)
  moreover have "5 * nat (cf_k (lp_config lp) - (lp_i lp + 1)) < weight s l"
    using a(1) lp i pc_rank_pos by (simp add: weight_def loop_rank_def algebra_simps)
  ultimately show ?thesis
    using iteration_weight [of "s\<lparr>out := out s @ evs, marks := marks s @ ks\<rparr>" now l "lp\<lparr>lp_i := lp_i lp + 1\<rparr>" l2]
    unfolding a(2) next_iteration_def by (auto split: if_splits)
qed (use lp pc in \<open>auto simp: weight_def loop_rank_def awaitCandidateOffer_def Let_def split: option.split\<close>)

lemma next_frame [simp]:
  "nextLoop (put_loop s l lp) = nextLoop s" "nextLoop (end_loop s l lp) = nextLoop s" "nextLoop (emit s e) = nextLoop s"
  "nextLoop (drop_offer s r o1) = nextLoop s" "nextLoop (resolve_offer s l oc) = nextLoop s"
  "nextLoop (awaitCandidateOffer s now l lp c tmo) = nextLoop s" "nextLoop (reset_trip now reason s t) = nextLoop s"
  by (simp_all add: put_loop_def end_loop_def emit_def drop_offer_def resolve_offer_def awaitCandidateOffer_def
      reset_trip_def Let_def split: option.split loop_pc.split prod.split sum.split)

lemma next_iteration_frame [simp]: "nextLoop (loop_iteration s now l lp) = nextLoop s"
  by (rule loop_iteration_cases [where lp = lp and s = s and now = now and l = l]) simp_all

lemma next_resume [simp]: "nextLoop (loop_resume s now l lp) = nextLoop s"
  by (rule loop_resume_cases [where lp = lp and s = s and now = now and l = l]) (simp_all add: next_iteration_def)

lemma next_dispatch [simp]: "nextLoop (dispatchOfferLoop s now t cf) = Suc (nextLoop s)"
  by (simp add: dispatchOfferLoop_def Let_def)

lemma cancel_part_frame [simp]:
  "nextLoop (snd (cancel_trip_part s now req by reason)) = nextLoop s"
  "loops (snd (cancel_trip_part s now req by reason)) = loops s"
  by (simp_all add: cancel_trip_part_def split: option.split prod.split sum.split)

lemma reset_frame:
  "nextLoop (foldl (reset_offer reason) s os) = nextLoop s \<and> weight (foldl (reset_offer reason) s os) l \<le> weight s l"
proof (induction os arbitrary: s)
  case (Cons e os)
  obtain r o1 where e: "e = (r, o1)" by fastforce
  have "nextLoop (reset_offer reason s e) = nextLoop s" by (simp add: reset_offer_def e Let_def)
  moreover have "weight (reset_offer reason s e) l \<le> weight s l"
    unfolding reset_offer_def e Let_def prod.case by (rule order_trans [OF resolve_weight]) (simp add: weight_def)
  ultimately show ?case using Cons.IH [of "reset_offer reason s e"] by (auto intro: order_trans)
qed simp

lemma reset_trips_next [simp]: "nextLoop (foldl (reset_trip now reason) s ts) = nextLoop s"
  by (induction ts arbitrary: s) simp_all

lemma svc_step_weight:
  assumes step: "svc_step s c s'" and ok: "loops_ok h s" and l: "l < nextLoop s"
  shows "weight s' l + (if snd c = Resume_loop l then 1 else 0) \<le> weight s l" and "nextLoop s \<le> nextLoop s'"
proof -
  have disp: "weight (dispatchOfferLoop x now t cf) l \<le> weight s l \<and> nextLoop s \<le> nextLoop (dispatchOfferLoop x now t cf)"
    if "loops x = loops s" "nextLoop x = nextLoop s" for x now t cf
    using dispatch_weight [of l x now t cf] l that weight_loops [of x l s] by simp
  have "weight s' l + (if snd c = Resume_loop l then 1 else 0) \<le> weight s l \<and> nextLoop s \<le> nextLoop s'"
    using step
  proof (cases rule: svc_step.cases)
    case (step_request now uuid req rider pk dr cf res)
    from step_request(2) show ?thesis
      by (cases rule: requestRide_cases) (use step_request disp in \<open>auto simp: weight_def\<close>)
  next
    case (step_response now i req resp res)
    have "weight (resolve_offer (drop_offer s req x) l2 oc) l \<le> weight s l" for x l2 oc
      by (rule order_trans [OF resolve_weight]) (simp add: weight_def)
    then show ?thesis
      by (cases rule: handleDriverResponse_cases [where s = s and now = now and i = i and req = req and resp = resp])
        (use step_response in auto)
  next
    case (step_timer l2 lp now)
    have "weight (offer_timeout s l2 lp) l \<le> weight s l"
      unfolding offer_timeout_def by (rule order_trans [OF resolve_weight]) (simp add: weight_def)
    then show ?thesis using step_timer by (simp add: offer_timeout_def)
  next
    case (step_resume l2 lp now)
    have "lp_i lp < cf_k (lp_config lp)" using loops_okD(1) [OF ok step_resume(3)] by (simp add: live_ok_def tried_ok_def)
    then show ?thesis using resume_weight [OF step_resume(3,4), of now l] step_resume by auto
  next
    case (step_cancel now req "by" reason res)
    have "s' = snd (cancelRide s now req by reason)" using step_cancel by simp
    then have "loops s' = loops s \<and> nextLoop s' = nextLoop s"
      by (simp add: cancelRide_eq suspend_cancel_def Let_def split: option.split)
    then show ?thesis using step_cancel by (simp add: weight_def)
  next
    case (step_cancel_resume n cc now res)
    have "weight (snd (cancelRide_resume s now n cc)) l \<le> weight s l"
      unfolding cancelRide_resume_def Let_def weight_def [of "snd _"] cancel_part_frame
      unfolding weight_def [symmetric] by (rule order_trans [OF resolve_weight]) (simp add: weight_def)
    moreover have "nextLoop (snd (cancelRide_resume s now n cc)) = nextLoop s"
      by (simp add: cancelRide_resume_def Let_def)
    ultimately show ?thesis using step_cancel_resume by simp
  next
    case (step_reset now reason)
    have "weight (reset_service s now reason) l \<le> weight s l"
      unfolding reset_service_def Let_def weight_def [of "foldl _ _ (getActiveTrips _)"] reset_trips_offers
      unfolding weight_def [symmetric] by (rule order_trans [OF conjunct2 [OF reset_frame]]) (simp add: weight_def)
    then show ?thesis using step_reset by (simp add: reset_service_def Let_def reset_frame)
  next
    case (step_rematch now tid reason cf res)
    from step_rematch(2) show ?thesis
      by (cases rule: rematch_cases) (use step_rematch disp in auto)
  qed (simp_all add: weight_def)
  then show "weight s' l + (if snd c = Resume_loop l then 1 else 0) \<le> weight s l" "nextLoop s \<le> nextLoop s'" by simp_all
qed

definition resumptions :: "nat \<Rightarrow> history \<Rightarrow> nat" where
  "resumptions l h = length (filter (\<lambda>c. snd c = Resume_loop l) h)"

lemma svc_exec_weight:
  "svc_exec h s h' s' \<Longrightarrow> svc_inv h s \<Longrightarrow> l < nextLoop s \<Longrightarrow>
    (\<exists>t. h' = h @ t \<and> resumptions l t + weight s' l \<le> weight s l) \<and> nextLoop s \<le> nextLoop s'"
proof (induction rule: svc_exec.induct)
  case (exec_step h1 s1 c s2)
  then obtain t where t: "h1 = h @ t" "resumptions l t + weight s1 l \<le> weight s l" "nextLoop s \<le> nextLoop s1" by auto
  have "loops_ok h1 s1" using svc_exec_inv exec_step(1,5) by (auto simp: svc_inv_def)
  from svc_step_weight [OF exec_step(2) this, of l] t exec_step(6)
  have "h1 @ [c] = h @ (t @ [c]) \<and> resumptions l (t @ [c]) + weight s2 l \<le> weight s l" "nextLoop s \<le> nextLoop s2"
    by (auto simp: resumptions_def)
  then show ?case by blast
qed (simp add: resumptions_def)

section \<open>Cancelled trips\<close>

definition gone :: "TSM \<Rightarrow> string \<Rightarrow> bool" where
  "gone m k = (\<forall>t. jm_get (trips m) k = Some t \<longrightarrow> t_status t = Cancelled)"

lemma tsm_moves_gone: "tsm_moves m m' \<Longrightarrow> gone m k \<Longrightarrow> gone m' k"
proof (induction rule: rtranclp_induct)
  case (step m1 m2)
  then obtain now tid target "by" reason payload where "m2 = snd (transition m1 now tid target by reason payload)"
    by (auto simp: tsm_move_def)
  then obtain r where "transition m1 now tid target by reason payload = (r, m2)" by (metis prod.collapse)
  from transition_get [OF this, of k] step.IH [OF step.prems] show ?case unfolding gone_def by (elim disjE) auto
qed

lemma svc_step_gone:
  assumes "svc_inv h s" and "svc_step s c s'" and "\<forall>k. new_tid (snd c) = Some k \<longrightarrow> k \<notin> used_tids h"
    and "gone (stateMachine s) k" and "k \<in> used_tids h"
  shows "gone (stateMachine s') k"
  using assms(2)
proof (cases rule: svc_step_moves)
  case moves
  then show ?thesis using tsm_moves_gone assms(4) by blast
next
  case (create now uuid req rider pk dr r m1)
  have inv: "tsm_inv (stateMachine s)" using assms(1) tsm_runs_inv by (auto simp: svc_inv_def)
  have "k \<noteq> ''trip_'' @ uuid" using assms(3,5) create(1) by auto
  then have "keeps (stateMachine s) m1 k \<and> (jm_get (trips m1) k = None \<or> jm_get (trips m1) k = jm_get (trips (stateMachine s)) k)"
    using createTrip_keeps [OF inv create(2)] evict_get(1) [OF inv, of k]
    by (cases rule: createTrip_cases [OF inv create(2)]) (simp_all add: newTrip_def)
  then have "gone m1 k" using assms(4) unfolding gone_def by force
  then show ?thesis using tsm_moves_gone create(3) by blast
qed

lemma setMatched_gone:
  assumes "tsm_inv m" and "gone m k" and "setMatched m now k d = (Inr (t, ev), m')"
  shows False
  using transition_result(2) [OF assms(1) assms(3) [unfolded setMatched_def]] assms(2) by (auto simp: gone_def)

lemma svc_exec_gone:
  "svc_exec h s h' s' \<Longrightarrow> svc_inv h s \<Longrightarrow> gone (stateMachine s) k \<Longrightarrow> k \<in> used_tids h \<Longrightarrow>
    gone (stateMachine s') k \<and> k \<in> used_tids h' \<and> (\<exists>es. out s' = out s @ es \<and> (\<nexists>i. TripMatched k i \<in> set es))"
proof (induction rule: svc_exec.induct)
  case (exec_step h1 s1 c s2)
  then obtain es where IH: "gone (stateMachine s1) k" "k \<in> used_tids h1" "out s1 = out s @ es" "\<nexists>i. TripMatched k i \<in> set es" by blast
  have inv: "svc_inv h1 s1" using svc_exec_inv exec_step(1,5) by blast
  have "\<exists>es'. out s2 = out s1 @ es' \<and> (\<nexists>i. TripMatched k i \<in> set es')"
    using exec_step(2)
  proof (cases rule: svc_step_events)
    case (match now l lp cand trip ev)
    have i1: "tsm_inv (stateMachine s1)" using inv tsm_runs_inv by (auto simp: svc_inv_def)
    have "t_id trip = lp_tid lp" using transition_result(1) [OF i1 match(4) [unfolded setMatched_def]] by simp
    then have "t_id trip \<noteq> k" using setMatched_gone [OF i1 IH(1)] match(4) by metis
    then show ?thesis using match(5) by auto
  qed auto
  moreover have "gone (stateMachine s2) k" using svc_step_gone [OF inv exec_step(2,3) IH(1,2)] .
  moreover have "k \<in> used_tids (h1 @ [c])" using IH(2) by simp
  moreover have "\<exists>es''. out s2 = out s @ es'' \<and> (\<nexists>i. TripMatched k i \<in> set es'')"
    using calculation(1) IH(3,4) by (metis Un_iff append.assoc set_append)
  ultimately show ?case by blast
qed simp

end
