(* ===== verification/MatchingDemo.thy ===== *)
theory MatchingDemo
  imports MatchingHistory
begin

text \<open>
  A concrete run of the matching service: one driver at the pickup point, a request, the offer,
  the answer and the match; then the cancellation, a second request matched to the same driver,
  and the states around them.
\<close>

section \<open>The one search of the run\<close>

abbreviation demo_candidate :: CandidateDriver where
  "demo_candidate \<equiv> \<lparr>c_id = ''d1'', c_lat = 13, c_lng = 77.5, c_distance = 0\<rparr>"

lemma demo_search:
  assumes "root t = Leaf demo_city [\<lparr>p_id = ''d1'', p_lat = 13, p_lng = 77.5\<rparr>]"
  shows "kNearestNeighbors t 13 77.5 4 10000 = [demo_candidate]"
proof -
  have b: "minDistanceToBox 13 (155 / 2) demo_city = 0" by (simp add: minDistanceToBox_def demo_city_def)
  show ?thesis
    unfolding kNearestNeighbors_def knn_search_def assms
    by (simp add: push_def bubbleUp.simps b, subst knn_loop.simps,
      simp add: pop_def bubbleDown.simps smallest_child_def scan_leaf_def candidate_of_def insertSortedCandidate_def b,
      subst knn_loop.simps, simp add: pop_def)
qed

section \<open>The first ride\<close>

definition demo_pickup :: jsval where
  "demo_pickup = JObj [(''lat'', JNum (Fin 13)), (''lng'', JNum (Fin 77.5))]"

definition demo_config :: MatchConfig where
  "demo_config = \<lparr>cf_k = 4, cf_maxRadiusMeters = 10000, cf_offerTimeoutMs = 15000\<rparr>"

definition demo_idle :: MatchingService where
  "demo_idle = service_new demo_registry tsm_new"

definition demo_requested :: MatchingService where
  "demo_requested = snd (requestRide demo_idle 0 ''u1'' ''r1'' ''ann'' demo_pickup demo_pickup demo_config)"

text \<open>A request whose search finds the one driver, in any state where that driver is free.\<close>

definition demo_trip :: "string \<Rightarrow> string \<Rightarrow> string \<Rightarrow> ms \<Rightarrow> Trip" where
  "demo_trip uuid req rider now = (newTrip now uuid req rider \<lparr>lat = 13, lng = 77.5\<rparr> \<lparr>lat = 13, lng = 77.5\<rparr>)\<lparr>t_status := Matching\<rparr>"

definition demo_loop :: "Trip \<Rightarrow> ms \<Rightarrow> loop_pc \<Rightarrow> OfferLoop" where
  "demo_loop t now pc = \<lparr>lp_trip = t, lp_config = demo_config, lp_deadline = now + 30000, lp_tried = [''d1''],
     lp_hadCandidates = True, lp_i = 0, lp_pc = pc\<rparr>"

lemma demo_root: "root (spatialIndex demo_registry) = Leaf demo_city [\<lparr>p_id = ''d1'', p_lat = 13, p_lng = 77.5\<rparr>]"
  by code_simp

lemma demo_dispatch:
  assumes "root (spatialIndex (driverRegistry s)) = Leaf demo_city [\<lparr>p_id = ''d1'', p_lat = 13, p_lng = 77.5\<rparr>]"
    and "t_pickup t = \<lparr>lat = 13, lng = 77.5\<rparr>" and "t_requestId t \<notin> abortedRequests s"
  shows "dispatchOfferLoop s now t demo_config =
    (let (locked, r1) = acquireLock (driverRegistry s) now ''d1'' (t_requestId t) 18000
     in put_loop (s\<lparr>nextLoop := Suc (nextLoop s), driverRegistry := r1\<rparr>) (nextLoop s)
          (demo_loop t now (Acquiring demo_candidate 15000 locked)))"
  using assms demo_search [OF assms(1)]
  by (simp add: dispatchOfferLoop_def loop_iteration_def Let_def demo_config_def findNearbyCandidates_def
      MAX_MATCH_WAIT_MS_def MIN_OFFER_BUDGET_MS_def LOCK_SAFETY_MARGIN_MS_def demo_loop_def split: prod.split)

lemma requestRide_dispatch:
  assumes "createTrip (stateMachine s) now uuid req rider pk dr = (Inr t, m1)" and "t_status t = Requested"
    and "startMatching m1 now (t_id t) = (Inr (t2, ev), m2)"
  shows "requestRide s now uuid req rider pk dr cf =
    (Inr t2, dispatchOfferLoop (s\<lparr>stateMachine := m2, abortedRequests := abortedRequests s - {req}\<rparr>) now t2 cf)"
  using assms by (simp add: requestRide_def)

text \<open>The state after a request, without the search.\<close>

definition demo_acquire :: "MatchingService \<Rightarrow> ms \<Rightarrow> string \<Rightarrow> string \<Rightarrow> string \<Rightarrow> MatchingService" where
  "demo_acquire s now uuid req rider =
    (let m1 = snd (createTrip (stateMachine s) now uuid req rider demo_pickup demo_pickup);
         m2 = snd (startMatching m1 now (''trip_'' @ uuid));
         (locked, r1) = acquireLock (driverRegistry s) now ''d1'' req 18000
     in put_loop (s\<lparr>stateMachine := m2, abortedRequests := abortedRequests s - {req}, nextLoop := Suc (nextLoop s),
                    driverRegistry := r1\<rparr>) (nextLoop s)
          (demo_loop (demo_trip uuid req rider now) now (Acquiring demo_candidate 15000 locked)))"

lemma demo_request:
  assumes "createTrip (stateMachine s) now uuid req rider demo_pickup demo_pickup =
      (Inr (newTrip now uuid req rider \<lparr>lat = 13, lng = 77.5\<rparr> \<lparr>lat = 13, lng = 77.5\<rparr>), m1)"
    and "\<exists>ev. fst (startMatching m1 now (''trip_'' @ uuid)) = Inr (demo_trip uuid req rider now, ev)"
    and "root (spatialIndex (driverRegistry s)) = Leaf demo_city [\<lparr>p_id = ''d1'', p_lat = 13, p_lng = 77.5\<rparr>]"
  shows "snd (requestRide s now uuid req rider demo_pickup demo_pickup demo_config) = demo_acquire s now uuid req rider"
proof -
  obtain ev m2 where st: "startMatching m1 now (''trip_'' @ uuid) = (Inr (demo_trip uuid req rider now, ev), m2)"
    using assms(2) by (metis prod.collapse)
  have "requestRide s now uuid req rider demo_pickup demo_pickup demo_config =
      (Inr (demo_trip uuid req rider now), dispatchOfferLoop (s\<lparr>stateMachine := m2, abortedRequests := abortedRequests s - {req}\<rparr>)
        now (demo_trip uuid req rider now) demo_config)"
    by (rule requestRide_dispatch [OF assms(1)]) (use st in \<open>simp_all add: newTrip_def\<close>)
  moreover have "t_pickup (demo_trip uuid req rider now) = \<lparr>lat = 13, lng = 77.5\<rparr>"
    and req: "t_requestId (demo_trip uuid req rider now) = req"
    by (simp_all add: demo_trip_def newTrip_def)
  note demo_dispatch [of "s\<lparr>stateMachine := m2, abortedRequests := abortedRequests s - {req}\<rparr>"
      "demo_trip uuid req rider now" now, OF _ this(1)]
  ultimately show ?thesis
    unfolding demo_acquire_def Let_def assms(1) snd_conv st using assms(3) by (simp add: req split: prod.split)
qed

text \<open>The steps of the loop of this run, without the branches it does not take.\<close>

definition demo_lp :: "MatchingService \<Rightarrow> nat \<Rightarrow> OfferLoop" where
  "demo_lp s l = the (jm_get (loops s) l)"

definition demo_offer :: "MatchingService \<Rightarrow> ms \<Rightarrow> nat \<Rightarrow> MatchingService" where
  "demo_offer s now l = awaitCandidateOffer s now l (demo_lp s l) demo_candidate 15000"

definition demo_commit :: "MatchingService \<Rightarrow> ms \<Rightarrow> nat \<Rightarrow> MatchingService" where
  "demo_commit s now l =
    (let (committed, r1) = commitTrip (driverRegistry s) now ''d1'' (lp_req (demo_lp s l))
     in put_loop (s\<lparr>driverRegistry := r1\<rparr>) l ((demo_lp s l)\<lparr>lp_pc := Committing demo_candidate committed\<rparr>))"

definition demo_match :: "MatchingService \<Rightarrow> ms \<Rightarrow> nat \<Rightarrow> MatchingService" where
  "demo_match s now l =
    (case setMatched (stateMachine s) now (lp_tid (demo_lp s l)) ''d1'' of
       (Inr (trip, _), m1) \<Rightarrow> end_loop (emit (s\<lparr>stateMachine := m1\<rparr>) (TripMatched (t_id trip) ''d1'')) l (demo_lp s l)
     | (Inl _, _) \<Rightarrow> s)"

lemma demo_resume:
  "lp_pc (demo_lp s l) = Acquiring demo_candidate 15000 True \<Longrightarrow> loop_resume s now l (demo_lp s l) = demo_offer s now l"
  "lp_pc (demo_lp s l) = Resolved demo_candidate Accepted \<and> settles s (demo_lp s l) \<Longrightarrow>
    loop_resume s now l (demo_lp s l) = demo_commit s now l"
  "lp_pc (demo_lp s l) = Committing demo_candidate True \<and>
      \<not> isl (fst (setMatched (stateMachine s) now (lp_tid (demo_lp s l)) ''d1'')) \<Longrightarrow>
    loop_resume s now l (demo_lp s l) = demo_match s now l"
  by (auto simp: loop_resume_def demo_offer_def demo_commit_def demo_match_def settles_def Let_def
      split: prod.split sum.split)

definition demo_acquired :: MatchingService where
  "demo_acquired = demo_acquire demo_idle 0 ''u1'' ''r1'' ''ann''"

definition demo_waiting :: MatchingService where "demo_waiting = demo_offer demo_acquired 0 0"

definition demo_answered :: MatchingService where
  "demo_answered = snd (handleDriverResponse demo_waiting 5 ''d1'' ''r1'' (JStr ''accepted''))"

definition demo_committing :: MatchingService where "demo_committing = demo_commit demo_answered 5 0"

definition demo_ride :: MatchingService where "demo_ride = demo_match demo_committing 5 0"

definition demo_cancelled :: MatchingService where
  "demo_cancelled = snd (cancelRide demo_ride 10 ''r1'' Rider None)"

section \<open>The second ride\<close>

definition demo_acquired2 :: MatchingService where
  "demo_acquired2 = demo_acquire demo_cancelled 20 ''u2'' ''r2'' ''bob''"

definition demo_waiting2 :: MatchingService where "demo_waiting2 = demo_offer demo_acquired2 20 1"

definition demo_answered2 :: MatchingService where
  "demo_answered2 = snd (handleDriverResponse demo_waiting2 25 ''d1'' ''r2'' (JStr ''accepted''))"

definition demo_committing2 :: MatchingService where "demo_committing2 = demo_commit demo_answered2 25 1"

definition demo_ride2 :: MatchingService where "demo_ride2 = demo_match demo_committing2 25 1"

section \<open>It is a run\<close>

definition run_with :: "string set \<Rightarrow> MatchingService \<Rightarrow> bool" where
  "run_with U s = (\<exists>h. svc_run h s \<and> used_tids h \<subseteq> U)"

lemma run_with_step:
  assumes "run_with U s" and "svc_step s c s'" and "new_tid (snd c) = None"
  shows "run_with U s'"
proof -
  obtain r h where h: "registry_run r" "svc_exec [] (service_new r tsm_new) h s" "used_tids h \<subseteq> U"
    using assms(1) by (auto simp: run_with_def svc_run_def)
  have "svc_exec [] (service_new r tsm_new) (h @ [c]) s'" by (rule exec_step [OF h(2) assms(2)]) (use assms in auto)
  moreover have "used_tids (h @ [c]) \<subseteq> U" using assms(3) h(3) by auto
  ultimately show ?thesis using h(1) unfolding run_with_def svc_run_def by blast
qed

lemma run_with_request:
  assumes "run_with U s" and "svc_step s c s'" and "new_tid (snd c) = Some k" and "k \<notin> U"
  shows "run_with (insert k U) s'"
proof -
  obtain r h where h: "registry_run r" "svc_exec [] (service_new r tsm_new) h s" "used_tids h \<subseteq> U"
    using assms(1) by (auto simp: run_with_def svc_run_def)
  have "svc_exec [] (service_new r tsm_new) (h @ [c]) s'" by (rule exec_step [OF h(2) assms(2)]) (use assms h in auto)
  moreover have "used_tids (h @ [c]) \<subseteq> insert k U" using assms(3) h(3) by auto
  ultimately show ?thesis using h(1) unfolding run_with_def svc_run_def by blast
qed

lemma demo_lp_some: "jm_get (loops s) l \<noteq> None \<Longrightarrow> jm_get (loops s) l = Some (demo_lp s l)"
  by (auto simp: demo_lp_def)

text \<open>Where the loop stands, as one check that the simplifier evaluates.\<close>

definition at_offer :: "MatchingService \<Rightarrow> nat \<Rightarrow> bool" where
  "at_offer s l = (jm_get (loops s) l \<noteq> None \<and> lp_pc (demo_lp s l) = Acquiring demo_candidate 15000 True)"

definition at_commit :: "MatchingService \<Rightarrow> nat \<Rightarrow> bool" where
  "at_commit s l = (jm_get (loops s) l \<noteq> None \<and> lp_pc (demo_lp s l) = Resolved demo_candidate Accepted \<and>
     settles s (demo_lp s l))"

definition at_match :: "MatchingService \<Rightarrow> nat \<Rightarrow> ms \<Rightarrow> bool" where
  "at_match s l now = (jm_get (loops s) l \<noteq> None \<and> lp_pc (demo_lp s l) = Committing demo_candidate True \<and>
     \<not> isl (fst (setMatched (stateMachine s) now (lp_tid (demo_lp s l)) ''d1'')))"

lemma demo_resume_steps:
  "at_offer s l \<Longrightarrow> svc_step s (now, Resume_loop l) (demo_offer s now l)"
  "at_commit s l \<Longrightarrow> svc_step s (now, Resume_loop l) (demo_commit s now l)"
  "at_match s l now \<Longrightarrow> svc_step s (now, Resume_loop l) (demo_match s now l)"
  using step_resume [OF demo_lp_some, of s l now] demo_resume [of s l now]
  by (auto simp: at_offer_def at_commit_def at_match_def)

definition starts :: "MatchingService \<Rightarrow> ms \<Rightarrow> string \<Rightarrow> string \<Rightarrow> string \<Rightarrow> bool" where
  "starts s now uuid req rider =
    (let (r, m1) = createTrip (stateMachine s) now uuid req rider demo_pickup demo_pickup;
         q = fst (startMatching m1 now (''trip_'' @ uuid))
     in r = Inr (newTrip now uuid req rider \<lparr>lat = 13, lng = 77.5\<rparr> \<lparr>lat = 13, lng = 77.5\<rparr>) \<and>
        \<not> isl q \<and> fst (projr q) = demo_trip uuid req rider now \<and>
        root (spatialIndex (driverRegistry s)) = Leaf demo_city [\<lparr>p_id = ''d1'', p_lat = 13, p_lng = 77.5\<rparr>])"

lemma demo_request_step:
  assumes "starts s now uuid req rider"
  shows "svc_step s (now, Call_request uuid req rider demo_pickup demo_pickup demo_config) (demo_acquire s now uuid req rider)"
proof -
  obtain r m1 where c: "createTrip (stateMachine s) now uuid req rider demo_pickup demo_pickup = (r, m1)" by fastforce
  let ?q = "fst (startMatching m1 now (''trip_'' @ uuid))"
  have q: "\<not> isl ?q" "fst (projr ?q) = demo_trip uuid req rider now" using assms c by (auto simp: starts_def Let_def)
  then have "?q = Inr (demo_trip uuid req rider now, snd (projr ?q))" by (cases ?q) auto
  then have "snd (requestRide s now uuid req rider demo_pickup demo_pickup demo_config) = demo_acquire s now uuid req rider"
    using assms c by (intro demo_request [of _ _ _ _ _ m1]) (auto simp: starts_def Let_def)
  then show ?thesis using step_request by (metis prod.collapse)
qed

lemma demo_run_idle: "run_with {} demo_idle"
  unfolding run_with_def svc_run_def demo_idle_def using demo_registry_run exec_refl by fastforce

lemma demo_run_acquired: "run_with {''trip_u1''} demo_acquired"
  unfolding demo_acquired_def
  by (rule run_with_request [OF demo_run_idle demo_request_step]) (code_simp, simp_all)

lemma demo_run_waiting: "run_with {''trip_u1''} demo_waiting"
  unfolding demo_waiting_def by (rule run_with_step [OF demo_run_acquired demo_resume_steps(1)]) (code_simp, simp)

lemma demo_run_answered: "run_with {''trip_u1''} demo_answered"
  by (rule run_with_step [OF demo_run_waiting step_response [of _ 5 "''d1''" "''r1''" "JStr ''accepted''" "Inr ()"]])
    (code_simp, simp)

lemma demo_run_committing: "run_with {''trip_u1''} demo_committing"
  unfolding demo_committing_def by (rule run_with_step [OF demo_run_answered demo_resume_steps(2)]) (code_simp, simp)

lemma demo_committing_step: "svc_step demo_committing (5, Resume_loop 0) demo_ride"
  unfolding demo_ride_def by (rule demo_resume_steps(3)) code_simp

lemma demo_run_ride: "run_with {''trip_u1''} demo_ride"
  by (rule run_with_step [OF demo_run_committing demo_committing_step]) simp

lemma demo_run_cancelled: "run_with {''trip_u1''} demo_cancelled"
  by (rule run_with_step [OF demo_run_ride step_cancel [of _ 10 "''r1''" Rider None "Some (Inr ())"]])
    (code_simp, simp)

lemma demo_run_acquired2: "run_with {''trip_u2'', ''trip_u1''} demo_acquired2"
  unfolding demo_acquired2_def
  by (rule run_with_request [OF demo_run_cancelled demo_request_step]) (code_simp, simp_all)

lemma demo_run_waiting2: "run_with {''trip_u2'', ''trip_u1''} demo_waiting2"
  unfolding demo_waiting2_def by (rule run_with_step [OF demo_run_acquired2 demo_resume_steps(1)]) (code_simp, simp)

lemma demo_run_answered2: "run_with {''trip_u2'', ''trip_u1''} demo_answered2"
  by (rule run_with_step [OF demo_run_waiting2 step_response [of _ 25 "''d1''" "''r2''" "JStr ''accepted''" "Inr ()"]])
    (code_simp, simp)

lemma demo_run_committing2: "run_with {''trip_u2'', ''trip_u1''} demo_committing2"
  unfolding demo_committing2_def by (rule run_with_step [OF demo_run_answered2 demo_resume_steps(2)]) (code_simp, simp)

lemma demo_run_ride2: "run_with {''trip_u2'', ''trip_u1''} demo_ride2"
  unfolding demo_ride2_def by (rule run_with_step [OF demo_run_committing2 demo_resume_steps(3)]) (code_simp, simp)

text \<open>What the state after the second match looks like.\<close>

definition demo_view ::
    "MatchingService \<Rightarrow> bool \<times> (DriverStatus \<times> bool \<times> bool) option \<times> (TripStatus \<times> string option) option \<times> string option" where
  "demo_view s =
    (getActiveOffer s ''r1'' = None,
     map_option (\<lambda>d. (d_status d, d_lockToken d = None, isWithinBounds (driverRegistry s) (d_lat d) (d_lng d)))
       (jm_get (drivers (driverRegistry s)) ''d1''),
     map_option (\<lambda>t. (t_status t, t_driverId t)) (getTripByRequestId (stateMachine s) ''r1''),
     jm_get (activeDriverTrips (stateMachine s)) ''d1'')"

lemma demo_ride2_view:
  "demo_view demo_ride2 = (True, Some (Busy, True, True), Some (Cancelled, Some ''d1''), Some ''trip_u2'')"
  by code_simp

end
