(* ===== verification/MatchingProperties.thy ===== *)
theory MatchingProperties
  imports MatchingDemo
begin

text \<open>
  The properties of the matching service in every run: offers and the loops behind them, the
  selection of the driver, the effect of an answer, what a match rests on, the finality of a
  cancellation, the termination of the matching loops, what a reset leaves, and two places where
  the service does more than it should.
\<close>

lemma svc_run_parts:
  assumes "svc_run h s"
  shows "offers_ok s" "loops_ok h s" "tsm_inv (stateMachine s)" "registry_run (driverRegistry s)"
    and "offers_inv (activeOffers s) (timers s) (loops s) (cancels s)"
  using svc_run_inv [OF assms] tsm_runs_inv by (auto simp: svc_inv_def offers_ok_def)

section \<open>Offers\<close>

text \<open>
  C9. An outstanding offer is the one its loop waits for: the loop is live, stands at this driver
  and this request, and the timer of the offer is set.  No loop waits for ever: each has a timer or
  a suspended cancellation that will wake it.  A request has at most one offer outstanding, and the
  trip of a live loop is being matched, has been cancelled or has left the store.
\<close>

theorem offer_has_its_loop:
  assumes "svc_run h s"
  shows "(getActiveOffer s req = Some offer \<longrightarrow> po_requestId offer = req \<and> po_loop offer \<in> timers s \<and>
      (\<exists>lp c. jm_get (loops s) (po_loop offer) = Some lp \<and> lp_pc lp = Waiting c \<and> c_id c = po_driverId offer \<and>
         t_requestId (lp_trip lp) = req)) \<and>
    (jm_get (loops s) l = Some lp \<longrightarrow>
      (lp_pc lp = Waiting c \<longrightarrow> l \<in> timers s \<or> (\<exists>n cc. jm_get (cancels s) n = Some cc \<and> po_loop (cc_offer cc) = l)) \<and>
      (\<forall>t. getTrip (stateMachine s) (t_id (lp_trip lp)) = Some t \<longrightarrow> t_status t = Matching \<or> t_status t = Cancelled) \<and>
      distinct (lp_tried lp) \<and> length (lp_tried lp) \<le> nat (cf_k (lp_config lp)))"
proof -
  note p = svc_run_parts [OF assms]
  have "length (lp_tried lp) \<le> nat (cf_k (lp_config lp)) \<and> distinct (lp_tried lp)" if "jm_get (loops s) l = Some lp"
    using loops_okD(1) [OF p(2) that] by (auto simp: live_ok_def tried_ok_def)
  then show ?thesis
    using offers_invD(1) [OF p(5), of req offer] offers_invD(5) [OF p(5), of l] loops_okD(3) [OF p(2), of l lp]
    by (auto simp: getActiveOffer_def getTrip_def waits_for_def waits_def)
qed

theorem offer_has_its_loop_witness:
  "\<exists>offer lp c. getActiveOffer demo_waiting ''r1'' = Some offer \<and>
    jm_get (loops demo_waiting) (po_loop offer) = Some lp \<and> lp_pc lp = Waiting c \<and> c_id c = ''d1''"
proof -
  obtain h where h: "svc_run h demo_waiting" using demo_run_waiting by (auto simp: run_with_def)
  have "map_option po_driverId (getActiveOffer demo_waiting ''r1'') = Some ''d1''" by code_simp
  then obtain offer where o: "getActiveOffer demo_waiting ''r1'' = Some offer" "po_driverId offer = ''d1''" by auto
  from offer_has_its_loop [OF h, of "''r1''" offer] o(1) show ?thesis unfolding o(2) by blast
qed

text \<open>
  C17. A round of a matching loop that reserves goes for the nearest driver the search returns that
  has not been tried, within the budget of the trip: the offer lasts at most the configured time and
  what is left of the budget; and when the reservation succeeds it is this request's and outlives
  the offer by the safety margin of three seconds.
\<close>

theorem round_reserves_nearest_untried:
  assumes "svc_run h s" and "jm_get (loops (loop_iteration s now l lp)) l = Some lp'"
  shows "\<exists>c tmo locked. lp_pc lp' = Acquiring c tmo locked \<and> lp_tried lp' = lp_tried lp @ [c_id c] \<and>
    c_id c \<notin> set (lp_tried lp) \<and>
    c \<in> set (findNearbyCandidates (driverRegistry s) (lat (t_pickup (lp_trip lp))) (lng (t_pickup (lp_trip lp)))
      (cf_k (lp_config lp)) (cf_maxRadiusMeters (lp_config lp))) \<and>
    (\<forall>c2 \<in> set (findNearbyCandidates (driverRegistry s) (lat (t_pickup (lp_trip lp))) (lng (t_pickup (lp_trip lp)))
      (cf_k (lp_config lp)) (cf_maxRadiusMeters (lp_config lp))).
        c_id c2 \<in> set (lp_tried lp) \<or> c_distance c \<le> c_distance c2) \<and>
    tmo = min (cf_offerTimeoutMs (lp_config lp)) (lp_deadline lp - now) \<and> lp_i lp < cf_k (lp_config lp) \<and>
    (locked \<longrightarrow> (\<exists>d. jm_get (drivers (driverRegistry (loop_iteration s now l lp))) (c_id c) = Some d \<and>
       d_lockToken d = Some \<lparr>lt_requestId = t_requestId (lp_trip lp), lt_expiresAt = now + tmo + 3000\<rparr>))"
proof (rule loop_iteration_cases [where lp = lp and s = s and now = now and l = l])
  fix c cs tmo locked r1
  let ?res = "findNearbyCandidates (driverRegistry s) (lat (t_pickup (lp_trip lp))) (lng (t_pickup (lp_trip lp)))
      (cf_k (lp_config lp)) (cf_maxRadiusMeters (lp_config lp))"
  assume a: "lp_i lp < cf_k (lp_config lp)" "untried s lp = c # cs"
    "tmo = min (cf_offerTimeoutMs (lp_config lp)) (lp_deadline lp - now)"
    "acquireLock (driverRegistry s) now (c_id c) (lp_req lp) (tmo + LOCK_SAFETY_MARGIN_MS) = (locked, r1)"
    "loop_iteration s now l lp = put_loop (s\<lparr>driverRegistry := r1\<rparr>) l
         (lp\<lparr>lp_tried := lp_tried lp @ [c_id c], lp_hadCandidates := True, lp_pc := Acquiring c tmo locked\<rparr>)"
  have inv: "reg_inv (driverRegistry s)" using registry_run_inv svc_run_parts(4) [OF assms(1)] .
  have "sorted (map c_distance ?res)"
    using knn_list(1) [OF reg_invD(2) [OF inv]] by (simp add: findNearbyCandidates_def)
  then have "sorted (map c_distance (c # cs))"
    unfolding a(2) [symmetric] untried_def by (rule sorted_filter)
  then have near: "c_distance c \<le> c_distance c2" if "c2 \<in> set ?res" "c_id c2 \<notin> set (lp_tried lp)" for c2
  proof -
    have "c2 \<in> set (c # cs)" unfolding a(2) [symmetric] untried_def using that by simp
    then show ?thesis using \<open>sorted (map c_distance (c # cs))\<close> by auto
  qed
  have tok: "\<exists>d. jm_get (drivers r1) (c_id c) = Some d \<and>
      d_lockToken d = Some \<lparr>lt_requestId = lp_req lp, lt_expiresAt = now + tmo + 3000\<rparr>" if "locked"
    using inv a(4)
  proof (cases rule: acquireLock_cases)
    case (reserve d)
    then show ?thesis using reserve(6) [of "c_id c"] by (simp add: LOCK_SAFETY_MARGIN_MS_def)
  qed (use that in simp)
  have "lp' = lp\<lparr>lp_tried := lp_tried lp @ [c_id c], lp_hadCandidates := True, lp_pc := Acquiring c tmo locked\<rparr>"
    using assms(2) a(5) by simp
  then show ?thesis using a near tok untried_hd [OF a(2)] by (auto simp: a(5))
qed (use assms(2) in simp_all)

theorem round_reserves_nearest_untried_witness:
  "\<exists>d. jm_get (drivers (driverRegistry (loop_iteration demo_idle 0 0
      ((demo_loop (demo_trip ''u1'' ''r1'' ''ann'' 0) 0 AbortReleasing)\<lparr>lp_tried := []\<rparr>)))) ''d1'' = Some d \<and>
    d_lockToken d = Some \<lparr>lt_requestId = ''r1'', lt_expiresAt = 18000\<rparr>"
proof -
  let ?lp = "(demo_loop (demo_trip ''u1'' ''r1'' ''ann'' 0) 0 AbortReleasing)\<lparr>lp_tried := []\<rparr>"
  obtain h where h: "svc_run h demo_idle" using demo_run_idle by (auto simp: run_with_def)
  have root: "root (spatialIndex (driverRegistry demo_idle)) = Leaf demo_city [\<lparr>p_id = ''d1'', p_lat = 13, p_lng = 77.5\<rparr>]"
    by (simp add: demo_idle_def service_new_def demo_root)
  have "fst (acquireLock demo_registry 0 ''d1'' ''r1'' 18000)" by code_simp
  then obtain r1 where lk: "acquireLock demo_registry 0 ''d1'' ''r1'' 18000 = (True, r1)"
    by (cases "acquireLock demo_registry 0 ''d1'' ''r1'' 18000") simp
  have "jm_get (loops (loop_iteration demo_idle 0 0 ?lp)) 0 = Some (demo_loop (demo_trip ''u1'' ''r1'' ''ann'' 0) 0 (Acquiring demo_candidate 15000 True))"
    using demo_search [OF root] lk
    by (simp add: loop_iteration_def Let_def demo_config_def findNearbyCandidates_def demo_trip_def newTrip_def
        MIN_OFFER_BUDGET_MS_def LOCK_SAFETY_MARGIN_MS_def demo_loop_def demo_idle_def service_new_def)
  from round_reserves_nearest_untried [OF h this] show ?thesis
    by (auto simp: demo_loop_def demo_trip_def newTrip_def demo_config_def)
qed

text \<open>
  C11. A driver's answer counts exactly when it is one of the two words and comes before the
  deadline of the offer that is outstanding for this request and this driver; the offer is then
  gone and its loop is woken with the answer.  An answer after the deadline wakes the loop with a
  timeout.  Either way a second answer for the request is refused and changes nothing.
\<close>

theorem answer_counts_once:
  assumes "svc_run h s" and "handleDriverResponse s now i req resp = (res, s1)"
  shows "(res = Inr () \<longleftrightarrow> (\<exists>offer. getActiveOffer s req = Some offer \<and> po_driverId offer = i \<and> now < po_expiresAt offer \<and>
        (resp = JStr ''accepted'' \<or> resp = JStr ''rejected''))) \<and>
    (if getActiveOffer s1 req = getActiveOffer s req then s1 = s
     else (\<exists>offer lp c oc. getActiveOffer s req = Some offer \<and> getActiveOffer s1 req = None \<and>
        jm_get (loops s1) (po_loop offer) = Some lp \<and> lp_pc lp = Resolved c oc \<and> c_id c = i \<and>
        t_requestId (lp_trip lp) = req \<and> (oc = Accepted \<longleftrightarrow> res = Inr () \<and> resp = JStr ''accepted'') \<and>
        (oc = Timed_out \<longleftrightarrow> res \<noteq> Inr ()) \<and>
        (\<exists>e. handleDriverResponse s1 now2 i2 req resp2 = (Inl e, s1))))"
proof -
  note p = svc_run_parts [OF assms(1)]
  have words: "response_of resp \<noteq> None \<longleftrightarrow> resp = JStr ''accepted'' \<or> resp = JStr ''rejected''" by (cases resp) auto
  have woken: "getActiveOffer s1 req = None \<and> (\<exists>lp c. jm_get (loops s1) (po_loop offer) = Some lp \<and> lp_pc lp = Resolved c oc \<and>
      c_id c = i \<and> t_requestId (lp_trip lp) = req) \<and> (\<exists>e. handleDriverResponse s1 now2 i2 req resp2 = (Inl e, s1))"
    if o: "jm_get (activeOffers s) req = Some offer" "po_driverId offer = i"
      "s1 = resolve_offer (drop_offer s req offer) (po_loop offer) oc" for offer oc
  proof -
    obtain lp c where lp: "jm_get (loops s) (po_loop offer) = Some lp" "lp_pc lp = Waiting c" "c_id c = i" "lp_req lp = req"
      using offers_invD(1) [OF p(5) o(1)] o(2) by (auto simp: waits_for_def)
    have s1: "s1 = put_loop (drop_offer s req offer) (po_loop offer) (lp\<lparr>lp_pc := Resolved c oc\<rparr>)"
      unfolding o(3) by (rule resolve_offer_eq) (use lp in simp_all)
    have none: "jm_get (activeOffers s1) req = None" by (simp add: o(3) drop_offer_def)
    then have "\<exists>e. handleDriverResponse s1 now2 i2 req resp2 = (Inl e, s1)"
      by (cases "response_of resp2") (simp_all add: handleDriverResponse_def)
    then show ?thesis using lp none by (auto simp: s1 getActiveOffer_def)
  qed
  show ?thesis
  proof (rule handleDriverResponse_cases [where s = s and now = now and i = i and req = req and resp = resp])
    fix e assume "handleDriverResponse s now i req resp = (Inl e, s)"
      "response_of resp = None \<or> (\<forall>offer. jm_get (activeOffers s) req = Some offer \<longrightarrow> po_driverId offer \<noteq> i)"
    then show ?thesis using assms(2) words by (auto simp: getActiveOffer_def)
  next
    fix offer
    assume a: "response_of resp \<noteq> None" "jm_get (activeOffers s) req = Some offer" "po_driverId offer = i"
      "po_expiresAt offer \<le> now"
      "handleDriverResponse s now i req resp = (Inl OfferDeadlinePassed, resolve_offer (drop_offer s req offer) (po_loop offer) Timed_out)"
    from woken [OF a(2,3), of Timed_out] a assms(2) show ?thesis by (auto simp: getActiveOffer_def)
  next
    fix offer oc
    assume a: "response_of resp = Some oc" "jm_get (activeOffers s) req = Some offer" "po_driverId offer = i"
      "now < po_expiresAt offer"
      "handleDriverResponse s now i req resp = (Inr (), resolve_offer (drop_offer s req offer) (po_loop offer) oc)"
    have oc: "oc = Accepted \<longleftrightarrow> resp = JStr ''accepted''" "oc \<noteq> Timed_out"
      using a(1) response_of_Accepted [of resp] response_of_cases [OF a(1)] by auto
    have "resp = JStr ''accepted'' \<or> resp = JStr ''rejected''" using words a(1) by simp
    with woken [OF a(2,3), of oc] a assms(2) oc show ?thesis by (auto simp: getActiveOffer_def)
  qed
qed

theorem answer_counts_once_witness:
  "\<exists>e. handleDriverResponse demo_answered 6 ''d1'' ''r1'' (JStr ''rejected'') = (Inl e, demo_answered)"
proof -
  obtain h where h: "svc_run h demo_waiting" using demo_run_waiting by (auto simp: run_with_def)
  have r: "handleDriverResponse demo_waiting 5 ''d1'' ''r1'' (JStr ''accepted'') = (Inr (), demo_answered)" by code_simp
  have "getActiveOffer demo_answered ''r1'' \<noteq> getActiveOffer demo_waiting ''r1''" by code_simp
  with answer_counts_once [OF h r, of 6 "''d1''" "JStr ''rejected''"] show ?thesis by auto
qed

section \<open>Matches and cancellations\<close>

text \<open>
  C3. A match is never reported out of nowhere: for every match the service has reported, an offer
  for this trip was dispatched to this driver, and the driver has sent an acceptance for the
  request of that offer.
\<close>

theorem match_was_offered_and_accepted:
  assumes "svc_run h s" and "TripMatched tid i \<in> set (out s)"
  shows "\<exists>n t. OfferDispatched n \<in> set (out s) \<and> on_tripId n = tid \<and> on_driverId n = i \<and>
    (t, Call_response i (on_requestId n) (JStr ''accepted'')) \<in> set h"
proof -
  obtain r where r: "registry_run r" "svc_exec [] (service_new r tsm_new) h s" using assms(1) by (auto simp: svc_run_def)
  have "matches_ok h (out s)"
    by (rule svc_exec_matches_ok [OF r(2) svc_inv_new [OF r(1)]]) (simp add: matches_ok_def service_new_def)
  then show ?thesis using assms(2) by (simp add: matches_ok_def)
qed

theorem match_was_offered_and_accepted_witness:
  "\<exists>n. OfferDispatched n \<in> set (out demo_ride) \<and> on_tripId n = ''trip_u1'' \<and> on_driverId n = ''d1''"
proof -
  obtain h where h: "svc_run h demo_ride" using demo_run_ride by (auto simp: run_with_def)
  have "last (out demo_ride) = TripMatched ''trip_u1'' ''d1'' \<and> out demo_ride \<noteq> []" by code_simp
  then have "TripMatched ''trip_u1'' ''d1'' \<in> set (out demo_ride)" by (metis last_in_set)
  from match_was_offered_and_accepted [OF h this] show ?thesis by blast
qed

text \<open>
  C4. A reported match is real: the step that reports it takes a trip that was being matched to the
  status matched with exactly this driver, which no other active trip has.
\<close>

theorem match_takes_effect:
  assumes "svc_run h s" and "svc_step s c s'" and "out s' = out s @ es" and "TripMatched tid i \<in> set es"
  shows "(\<exists>t. getTrip (stateMachine s) tid = Some t \<and> t_status t = Matching \<and> t_driverId t = None) \<and>
    (\<exists>t. getTrip (stateMachine s') tid = Some t \<and> t_status t = Matched \<and> t_driverId t = Some i) \<and>
    jm_get (activeDriverTrips (stateMachine s')) i = Some tid"
  using assms(2)
proof (cases rule: svc_step_events)
  case (quiet es')
  then show ?thesis using assms(3,4) by auto
next
  case (match now l lp cand trip ev)
  note p = svc_run_parts [OF assms(1)]
  note st = match(4) [unfolded setMatched_def]
  have i: "tid = t_id trip" "i = c_id cand" using match(5) assms(3,4) by auto
  have tid: "tid = lp_tid lp" using transition_result(1) [OF p(3) st] i by simp
  show ?thesis
  proof (rule transition_cases [OF st])
    fix t assume "jm_get (trips (stateMachine s)) (lp_tid lp) = Some t" "t_status t = Matched"
    then show ?thesis using loops_okD(3) [OF p(2) match(2)] by auto
  next
    fix t t1 s1 ev'
    assume a: "jm_get (trips (stateMachine s)) (lp_tid lp) = Some t" "Matched \<in> set (ALLOWED_TRANSITIONS (t_status t))"
      "milestone (stateMachine s) now t Matched System None (JObj [(''driverId'', JStr (c_id cand))]) = Inr (t1, s1)"
      "stateMachine s' = notifyTransition (recordEvent (s1\<lparr>trips := jm_set (trips s1) (lp_tid lp) (t1\<lparr>t_status := Matched\<rparr>)\<rparr>) ev') ev' (t1\<lparr>t_status := Matched\<rparr>)"
    have "t_status t = Matching" using a(2) by (cases "t_status t") auto
    moreover have "t_driverId t = None" using tsm_invD(3) [OF p(3) a(1)] calculation by (simp add: driver_ok_def)
    moreover have "t_driverId t1 = Some (c_id cand) \<and> activeDriverTrips s1 = jm_set (activeDriverTrips (stateMachine s)) (c_id cand) (t_id t)"
      using a(3) by (auto simp: Let_def split: if_splits)
    moreover have "t_id t = lp_tid lp" using tsm_invD(1) [OF p(3) a(1)] .
    ultimately show ?thesis using a(1) by (simp add: getTrip_def a(4) tid i(2))
  qed simp
qed

theorem match_takes_effect_witness:
  "\<exists>t. getTrip (stateMachine demo_ride) ''trip_u1'' = Some t \<and> t_status t = Matched \<and> t_driverId t = Some ''d1''"
proof -
  obtain h where h: "svc_run h demo_committing" using demo_run_committing by (auto simp: run_with_def)
  have "out demo_ride = out demo_committing @ [TripMatched ''trip_u1'' ''d1'']" by code_simp
  from match_takes_effect [OF h demo_committing_step this] show ?thesis by auto
qed

text \<open>
  C12. A cancellation is final: once a trip is cancelled it stays cancelled for as long as it is in
  the store, whatever is still under way for it, and no match is ever reported for it again.
\<close>

theorem cancelled_is_final:
  assumes "svc_run h s" and "getTrip (stateMachine s) tid = Some t" and "t_status t = Cancelled"
    and "svc_exec h s h' s'"
  shows "(\<forall>t'. getTrip (stateMachine s') tid = Some t' \<longrightarrow> t_status t' = Cancelled) \<and>
    (\<exists>es. out s' = out s @ es \<and> (\<nexists>i. TripMatched tid i \<in> set es))"
proof -
  note inv = svc_run_inv [OF assms(1)]
  have "gone (stateMachine s) tid" "tid \<in> used_tids h"
    using assms(2,3) tsm_runs_known inv by (auto simp: gone_def getTrip_def svc_inv_def)
  from svc_exec_gone [OF assms(4) inv this] show ?thesis by (auto simp: gone_def getTrip_def)
qed

text \<open>
  The rider cancels while the driver is being committed, after the driver has accepted: when the
  loop goes on, the assignment is refused and the driver is given back.
\<close>

definition demo_late_cancel :: MatchingService where
  "demo_late_cancel = snd (cancelRide demo_committing 5 ''r1'' Rider None)"

definition demo_rolled_back :: MatchingService where
  "demo_rolled_back =
    put_loop (demo_late_cancel\<lparr>stateMachine := snd (setMatched (stateMachine demo_late_cancel) 6 ''trip_u1'' ''d1''),
                driverRegistry := snd (completeTrip (driverRegistry demo_late_cancel) 6 ''d1'')\<rparr>)
      0 ((demo_lp demo_late_cancel 0)\<lparr>lp_pc := RollingBack demo_candidate\<rparr>)"

lemma demo_late_cancel_step: "svc_step demo_late_cancel (6, Resume_loop 0) demo_rolled_back"
proof -
  have pc: "lp_pc (demo_lp demo_late_cancel 0) = Committing demo_candidate True"
    and tid: "lp_tid (demo_lp demo_late_cancel 0) = ''trip_u1''" and c: "c_id demo_candidate = ''d1''"
    and refused: "isl (fst (setMatched (stateMachine demo_late_cancel) 6 ''trip_u1'' ''d1''))"
    by code_simp+
  then have "loop_resume demo_late_cancel 6 0 (demo_lp demo_late_cancel 0) = demo_rolled_back"
    by (auto simp: loop_resume_def demo_rolled_back_def Let_def split: prod.split sum.split)
  moreover have "svc_step demo_late_cancel (6, Resume_loop 0) (loop_resume demo_late_cancel 6 0 (demo_lp demo_late_cancel 0))"
    by (rule step_resume [OF demo_lp_some]) (code_simp, simp add: pc)
  ultimately show ?thesis by simp
qed

theorem cancelled_is_final_witness:
  "\<exists>h h'. svc_run h demo_late_cancel \<and> svc_exec h demo_late_cancel h' demo_rolled_back \<and>
    map_option t_status (getTrip (stateMachine demo_late_cancel) ''trip_u1'') = Some Cancelled \<and>
    lp_pc (demo_lp demo_late_cancel 0) = Committing demo_candidate True \<and>
    lp_pc (demo_lp demo_rolled_back 0) = RollingBack demo_candidate \<and>
    map_option t_status (getTrip (stateMachine demo_rolled_back) ''trip_u1'') = Some Cancelled \<and>
    (\<nexists>i. TripMatched ''trip_u1'' i \<in> set (out demo_rolled_back))"
proof -
  have "run_with {''trip_u1''} demo_late_cancel"
    by (rule run_with_step [OF demo_run_committing step_cancel [of _ 5 "''r1''" Rider None "Some (Inr ())"]])
      (code_simp, simp)
  then obtain h where h: "svc_run h demo_late_cancel" by (auto simp: run_with_def)
  have x: "svc_exec h demo_late_cancel (h @ [(6, Resume_loop 0)]) demo_rolled_back"
    by (rule exec_step [OF exec_refl demo_late_cancel_step]) simp
  have c: "map_option t_status (getTrip (stateMachine demo_late_cancel) ''trip_u1'') = Some Cancelled"
    and silent: "list_all (\<lambda>e. case e of TripMatched _ _ \<Rightarrow> False | _ \<Rightarrow> True) (out demo_late_cancel)"
    and kept: "getTrip (stateMachine demo_rolled_back) ''trip_u1'' \<noteq> None"
    and pcs: "lp_pc (demo_lp demo_late_cancel 0) = Committing demo_candidate True"
      "lp_pc (demo_lp demo_rolled_back 0) = RollingBack demo_candidate"
    by code_simp+
  from c obtain t where "getTrip (stateMachine demo_late_cancel) ''trip_u1'' = Some t" "t_status t = Cancelled" by auto
  from cancelled_is_final [OF h this x]
  have "map_option t_status (getTrip (stateMachine demo_rolled_back) ''trip_u1'') = Some Cancelled \<and>
      (\<nexists>i. TripMatched ''trip_u1'' i \<in> set (out demo_rolled_back))"
    using kept silent by (fastforce simp: list_all_iff)
  with h x c pcs show ?thesis by blast
qed

text \<open>
  C10. A matching loop ends: from any state of a run, whatever else happens in between, it is resumed
  no more often than its rank says, which is at most five times the number of drivers it may
  still try; once it has ended it is never resumed again.
\<close>

theorem matching_loop_terminates:
  assumes "svc_run h s" and "jm_get (loops s) l = Some lp" and "svc_exec h s h' s'"
  shows "\<exists>t. h' = h @ t \<and> resumptions l t + (case jm_get (loops s') l of None \<Rightarrow> 0 | Some lp' \<Rightarrow> loop_rank lp') \<le> loop_rank lp \<and>
    loop_rank lp \<le> 5 * nat (cf_k (lp_config lp) - lp_i lp)"
proof -
  note p = svc_run_parts [OF assms(1)]
  have "l < nextLoop s" using p(1) assms(2) by (auto simp: offers_ok_def)
  moreover have "lp_i lp < cf_k (lp_config lp)" using loops_okD(1) [OF p(2) assms(2)] by (simp add: live_ok_def tried_ok_def)
  then have "loop_rank lp \<le> 5 * nat (cf_k (lp_config lp) - lp_i lp)"
    by (cases "lp_pc lp") (simp_all add: loop_rank_def)
  ultimately show ?thesis
    using svc_exec_weight [OF assms(3) svc_run_inv [OF assms(1)], of l] assms(2) by (auto simp: weight_def)
qed

theorem matching_loop_terminates_witness:
  "loop_rank (demo_lp demo_committing 0) \<le> 20"
proof -
  obtain h where h: "svc_run h demo_committing" using demo_run_committing by (auto simp: run_with_def)
  have "jm_get (loops demo_committing) 0 \<noteq> None" by code_simp
  note lp = demo_lp_some [OF this]
  have "cf_k (lp_config (demo_lp demo_committing 0)) - lp_i (demo_lp demo_committing 0) = 4" by code_simp
  with matching_loop_terminates [OF h lp exec_refl] show ?thesis by auto
qed

section \<open>Reset\<close>

definition settled :: "TSM \<Rightarrow> string \<Rightarrow> bool" where
  "settled m k = (\<forall>t. jm_get (trips m) k = Some t \<longrightarrow> active t \<longrightarrow> t_status t = In_progress)"

lemma cancel_settles: "settled (snd (cancelTrip m now k System reason)) k"
proof -
  obtain r m' where c: "cancelTrip m now k System reason = (r, m')" by fastforce
  from transition_get [OF c [unfolded cancelTrip_def], of k]
  show ?thesis
  proof (elim disjE)
    assume same: "jm_get (trips m') k = jm_get (trips m) k"
    have "t_status t = In_progress" if t: "jm_get (trips m) k = Some t" "active t" for t
    proof (rule ccontr)
      assume "t_status t \<noteq> In_progress"
      then have st: "Cancelled \<in> set (ALLOWED_TRANSITIONS (t_status t))" "t_status t \<noteq> Cancelled"
        using t(2) by (cases "t_status t"; simp add: active_def terminal_def)+
      then have "map_option t_status (jm_get (trips m') k) = Some Cancelled"
        using t(1) c by (auto simp: cancelTrip_def transition_def Let_def clearActiveIndices_def split: option.splits if_splits)
      then show False using same t st(2) by simp
    qed
    then show ?thesis using c same by (simp add: settled_def)
  next
    assume "k = k \<and> (\<exists>t t'. jm_get (trips m) k = Some t \<and> jm_get (trips m') k = Some t' \<and> same_ids t t' \<and>
       t_status t' = Cancelled \<and> Cancelled \<in> set (ALLOWED_TRANSITIONS (t_status t)) \<and> (\<exists>ev. r = Inr (t', Some ev)))"
    then show ?thesis using c by (auto simp: settled_def active_def terminal_def)
  qed
qed

lemma cancel_keeps_settled:
  assumes "settled m k"
  shows "settled (snd (cancelTrip m now k2 System reason)) k"
proof -
  obtain r m' where c: "cancelTrip m now k2 System reason = (r, m')" by fastforce
  from transition_get [OF c [unfolded cancelTrip_def], of k] show ?thesis
    using assms c by (auto simp: settled_def active_def terminal_def)
qed

lemma reset_trips_settle:
  "settled (stateMachine s) k \<or> k \<in> t_id ` set ts \<Longrightarrow> settled (stateMachine (foldl (reset_trip now reason) s ts)) k"
proof (induction ts arbitrary: s)
  case (Cons t ts)
  have "stateMachine (reset_trip now reason s t) = snd (cancelTrip (stateMachine s) now (t_id t) System (Some reason))"
    by (simp add: reset_trip_def split: prod.split sum.split)
  then have "settled (stateMachine (reset_trip now reason s t)) k \<or> k \<in> t_id ` set ts"
    using Cons.prems cancel_settles cancel_keeps_settled by auto
  then show ?case using Cons.IH by simp
qed simp

lemma getActiveTrips_all:
  assumes "tsm_inv m" and "jm_get (trips m) k = Some t" and "active t"
  shows "t \<in> set (getActiveTrips m)"
proof -
  have "jm_get (activeRiderTrips m) (t_riderId t) = Some k" using rider_indexD [OF assms(1)] assms(2,3) by blast
  then have "k \<in> set (jm_values (activeRiderTrips m))" by (force dest: map_of_SomeD)
  then show ?thesis using assms(2) by (force simp: getActiveTrips_def List.map_filter_def)
qed

text \<open>
  A reset leaves nothing under way but rides with the passenger on board: no offer is
  outstanding, and every trip that is still active is in progress.  A ride in progress is not
  interrupted, although the reset goes on to replace the region it moves in.
\<close>

theorem reset_leaves_only_rides_in_progress:
  assumes "svc_run h s"
  shows "activeOffers (reset_service s now reason) = [] \<and>
    (\<forall>k t. getTrip (stateMachine (reset_service s now reason)) k = Some t \<longrightarrow> active t \<longrightarrow> t_status t = In_progress) \<and>
    (\<forall>k t. getTrip (stateMachine s) k = Some t \<and> t_status t = In_progress \<longrightarrow>
       (\<exists>t'. getTrip (stateMachine (reset_service s now reason)) k = Some t' \<and> t_status t' = In_progress))"
proof -
  note p = svc_run_parts [OF assms]
  define s1 where "s1 = foldl (reset_offer reason)
    (s\<lparr>abortedRequests := abortedRequests s \<union> set (map t_requestId (getActiveTrips (stateMachine s)))\<rparr>) (activeOffers s)"
  have s1: "stateMachine s1 = stateMachine s" by (simp add: s1_def)
  have eq: "reset_service s now reason = foldl (reset_trip now reason) s1 (getActiveTrips (stateMachine s))"
    by (simp add: reset_service_def Let_def s1_def)
  have all: "settled (stateMachine (reset_service s now reason)) k" for k
    unfolding eq
  proof (rule reset_trips_settle, cases "jm_get (trips (stateMachine s)) k")
    case (Some t)
    show "settled (stateMachine s1) k \<or> k \<in> t_id ` set (getActiveTrips (stateMachine s))"
      using getActiveTrips_all [OF p(3) Some] tsm_invD(1) [OF p(3) Some] Some by (force simp: settled_def s1)
  qed (simp add: settled_def s1)
  have fold: "\<exists>t'. jm_get (trips (stateMachine (foldl (reset_trip now reason) x ts))) k = Some t' \<and> t_status t' = In_progress"
    if "\<exists>t. jm_get (trips (stateMachine x)) k = Some t \<and> t_status t = In_progress" for x ts k
    using that
  proof (induction ts arbitrary: x)
    case (Cons t ts)
    have "stateMachine (reset_trip now reason x t) = snd (cancelTrip (stateMachine x) now (t_id t) System (Some reason))"
      by (simp add: reset_trip_def split: prod.split sum.split)
    moreover obtain r m' where c: "cancelTrip (stateMachine x) now (t_id t) System (Some reason) = (r, m')" by fastforce
    ultimately have "\<exists>t'. jm_get (trips (stateMachine (reset_trip now reason x t))) k = Some t' \<and> t_status t' = In_progress"
      using transition_get [OF c [unfolded cancelTrip_def], of k] Cons.prems by auto
    from Cons.IH [OF this] show ?case by simp
  qed simp
  have "\<exists>t'. jm_get (trips (stateMachine (reset_service s now reason))) k = Some t' \<and> t_status t' = In_progress"
    if "jm_get (trips (stateMachine s)) k = Some t" "t_status t = In_progress" for k t
    unfolding eq by (rule fold) (use that s1 in simp)
  then show ?thesis using reset_ok(2) [OF p(1)] all unfolding settled_def getTrip_def by blast
qed

theorem reset_leaves_only_rides_in_progress_witness:
  "activeOffers (reset_service demo_waiting 7 ''region'') = []"
proof -
  obtain h where h: "svc_run h demo_waiting" using demo_run_waiting by (auto simp: run_with_def)
  from reset_leaves_only_rides_in_progress [OF h] show ?thesis by blast
qed

section \<open>Two errors\<close>

text \<open>
  C38. Cancelling a ride a second time frees its driver a second time: the trip is cancelled
  already, so the transition succeeds without effect, and the driver it names is made available
  again, found by searches, even when it is busy with another passenger or has gone offline.
\<close>

theorem second_cancel_frees_driver:
  assumes "svc_run h s" and "getActiveOffer s req = None"
    and "getTripByRequestId (stateMachine s) req = Some t" and "t_status t = Cancelled" and "t_driverId t = Some i"
    and "jm_get (drivers (driverRegistry s)) i = Some d" and "d_lockToken d = None"
    and "isWithinBounds (driverRegistry s) (d_lat d) (d_lng d)"
  shows "\<exists>s'. cancelRide s now req by reason = (Some (Inr ()), s') \<and> stateMachine s' = stateMachine s \<and>
    (\<exists>d'. jm_get (drivers (driverRegistry s')) i = Some d' \<and> d_status d' = Available \<and> d_lockToken d' = None \<and>
      qt_pos (spatialIndex (driverRegistry s')) i = position_of (qt_region (spatialIndex (driverRegistry s'))) (d_lat d) (d_lng d))"
proof -
  note p = svc_run_parts [OF assms(1)]
  have inv: "reg_inv (driverRegistry s)" using registry_run_inv p(4) .
  have t: "jm_get (trips (stateMachine s)) (t_id t) = Some t"
    using assms(3) tsm_invD(1) [OF p(3)] by (auto simp: getTripByRequestId_def lookup_via_def Let_def split: if_splits)
  then have c: "cancelTrip (stateMachine s) now (t_id t) by reason = (Inr (t, None), stateMachine s)"
    using assms(4) by (simp add: cancelTrip_def transition_def)
  have ne: "i \<noteq> []" using driver_ok_nonempty tsm_invD(3) [OF p(3) t] assms(5) by blast
  define r' where "r' = snd (completeTrip (driverRegistry s) now i)"
  have "cancelRide s now req by reason = (Some (Inr ()), s\<lparr>abortedRequests := insert req (abortedRequests s), stateMachine := stateMachine s, driverRegistry := r'\<rparr>)"
    using assms(2,3,5) c ne by (simp add: cancelRide_eq cancel_trip_part_def getActiveOffer_def r'_def)
  moreover note completeTrip_frees [OF inv assms(6-8), of now, folded r'_def]
  ultimately show ?thesis by auto
qed

theorem second_cancel_frees_driver_witness:
  "map_option d_status (jm_get (drivers (driverRegistry demo_ride2)) ''d1'') = Some Busy \<and>
   (\<exists>s' d'. cancelRide demo_ride2 30 ''r1'' Rider None = (Some (Inr ()), s') \<and>
      jm_get (drivers (driverRegistry s')) ''d1'' = Some d' \<and> d_status d' = Available \<and>
      jm_get (activeDriverTrips (stateMachine s')) ''d1'' = Some ''trip_u2'')"
proof -
  obtain h where h: "svc_run h demo_ride2" using demo_run_ride2 by (auto simp: run_with_def)
  note view = demo_ride2_view [unfolded demo_view_def]
  have none: "getActiveOffer demo_ride2 ''r1'' = None" and act: "jm_get (activeDriverTrips (stateMachine demo_ride2)) ''d1'' = Some ''trip_u2''"
    using view by simp_all
  obtain t where t: "getTripByRequestId (stateMachine demo_ride2) ''r1'' = Some t" "t_status t = Cancelled" "t_driverId t = Some ''d1''"
    using view by auto
  obtain d where d: "jm_get (drivers (driverRegistry demo_ride2)) ''d1'' = Some d" "d_lockToken d = None"
      "isWithinBounds (driverRegistry demo_ride2) (d_lat d) (d_lng d)" and busy: "d_status d = Busy"
    using view by auto
  from second_cancel_frees_driver [OF h none t d, of 30 Rider None] busy act d(1) show ?thesis by auto
qed

text \<open>
  A cancellation that comes while the loop waits for the reservation does not stop the offer:
  the loop looks at neither the trip nor the set of aborted requests when it goes on, and the
  driver is sent an offer for a trip that is cancelled.
\<close>

theorem offer_for_cancelled_trip:
  assumes "svc_run h s" and "jm_get (loops s) l = Some lp" and "lp_pc lp = Acquiring c tmo True"
    and "getTrip (stateMachine s) (t_id (lp_trip lp)) = Some t" and "t_status t = Cancelled"
  shows "\<exists>s' n. svc_step s (now, Resume_loop l) s' \<and> out s' = out s @ [OfferDispatched n] \<and>
    on_tripId n = t_id (lp_trip lp) \<and> on_driverId n = c_id c \<and> stateMachine s' = stateMachine s \<and>
    (\<exists>offer. getActiveOffer s' (t_requestId (lp_trip lp)) = Some offer \<and> po_driverId offer = c_id c \<and>
       po_expiresAt offer = now + tmo)"
proof -
  have "loop_resume s now l lp = awaitCandidateOffer s now l lp c tmo" using assms(3) by (simp add: loop_resume_def)
  moreover have "svc_step s (now, Resume_loop l) (loop_resume s now l lp)"
    by (rule step_resume [OF assms(2)]) (use assms(3) in simp)
  ultimately show ?thesis
    by (intro exI [of _ "loop_resume s now l lp"]) (simp add: awaitCandidateOffer_def Let_def getActiveOffer_def put_loop_def emit_def)
qed

definition demo_cancelled_early :: MatchingService where
  "demo_cancelled_early = snd (cancelRide demo_acquired 0 ''r1'' Rider None)"

theorem offer_for_cancelled_trip_witness:
  "\<exists>s' n. svc_step demo_cancelled_early (1, Resume_loop 0) s' \<and>
    out s' = out demo_cancelled_early @ [OfferDispatched n] \<and> on_driverId n = ''d1''"
proof -
  have "run_with {''trip_u1''} demo_cancelled_early"
    by (rule run_with_step [OF demo_run_acquired step_cancel [of _ 0 "''r1''" Rider None "Some (Inr ())"]])
      (code_simp, simp)
  then obtain h where h: "svc_run h demo_cancelled_early" by (auto simp: run_with_def)
  have lp: "jm_get (loops demo_cancelled_early) 0 = Some (demo_lp demo_cancelled_early 0)"
    by (rule demo_lp_some) code_simp
  have pc: "lp_pc (demo_lp demo_cancelled_early 0) = Acquiring demo_candidate 15000 True" by code_simp
  have "map_option t_status (getTrip (stateMachine demo_cancelled_early) (lp_tid (demo_lp demo_cancelled_early 0))) = Some Cancelled"
    by code_simp
  then obtain t where t: "getTrip (stateMachine demo_cancelled_early) (lp_tid (demo_lp demo_cancelled_early 0)) = Some t" "t_status t = Cancelled"
    by auto
  from offer_for_cancelled_trip [OF h lp pc t, of 1] show ?thesis by auto
qed

end
