(* ===== verification/RedisServer.thy ===== *)
theory RedisServer
  imports TripInvariants "HOL-Library.Sublist"
begin

text \<open>
  The Redis server is not part of the repository.  The code that talks to it takes the commands it
  uses as an argument, a record \<open>R\<close> of functions on the server's state; what it relies on is
  the locale \<open>redis_server\<close>, the documented effect of each command on what the reading
  commands return afterwards, for a database in which every key is used with commands of one type.
  Reading takes the server's clock, because keys expire.  The text that \<open>JSON.stringify\<close>
  makes of a trip and \<open>JSON.parse\<close> reads back is represented by the trip itself.
\<close>

section \<open>Commands\<close>

datatype rval = Raw string | Json Trip

record 's redis_api =
  rd_get :: "'s \<Rightarrow> ms \<Rightarrow> string \<Rightarrow> rval option"
  rd_set :: "'s \<Rightarrow> ms \<Rightarrow> string \<Rightarrow> rval \<Rightarrow> 's"
  rd_set_nx :: "'s \<Rightarrow> ms \<Rightarrow> string \<Rightarrow> rval \<Rightarrow> ms \<Rightarrow> bool \<times> 's"
  rd_del :: "'s \<Rightarrow> ms \<Rightarrow> string \<Rightarrow> 's"
  rd_hget :: "'s \<Rightarrow> ms \<Rightarrow> string \<Rightarrow> string \<Rightarrow> string option"
  rd_hset :: "'s \<Rightarrow> ms \<Rightarrow> string \<Rightarrow> (string \<times> string) list \<Rightarrow> 's"
  rd_sadd :: "'s \<Rightarrow> ms \<Rightarrow> string \<Rightarrow> string \<Rightarrow> 's"
  rd_srem :: "'s \<Rightarrow> ms \<Rightarrow> string \<Rightarrow> string \<Rightarrow> 's"
  rd_smembers :: "'s \<Rightarrow> ms \<Rightarrow> string \<Rightarrow> string list"
  rd_scan :: "'s \<Rightarrow> ms \<Rightarrow> string \<Rightarrow> string list"

text \<open>
  \<open>SET\<close> stores without expiry; \<open>SET NX\<close> with a time to live stores only when the
  key has no live value; \<open>DEL\<close> removes; a hash keeps its other fields on \<open>HSET\<close>;
  \<open>SCAN\<close> with a pattern that ends in a star lists the live keys with that prefix.  A time to
  live has to be a positive whole number of milliseconds; with any other the command is an error and
  stores nothing, which is shown here as a refusal (the exception it raises in the caller is the
  subject of \<open>RegistryRedis\<close>).
\<close>

definition whole_ms :: "ms \<Rightarrow> bool" where
  "whole_ms ttl = (0 < ttl \<and> of_int \<lfloor>ttl\<rfloor> = ttl)"

lemma whole_ms_numeral [simp]: "whole_ms (numeral n)"
  by (simp add: whole_ms_def)

locale redis_server =
  fixes R :: "'s redis_api"
  assumes get_set: "now \<le> t \<Longrightarrow> rd_get R (rd_set R s now k v) t k' = (if k' = k then Some v else rd_get R s t k')"
    and set_nx_taken: "rd_get R s now k \<noteq> None \<Longrightarrow> rd_set_nx R s now k v ttl = (False, s)"
    and set_nx_free: "rd_get R s now k = None \<Longrightarrow> whole_ms ttl \<Longrightarrow> fst (rd_set_nx R s now k v ttl)"
    and set_nx_error: "\<not> whole_ms ttl \<Longrightarrow> rd_set_nx R s now k v ttl = (False, s)"
    and get_set_nx: "rd_get R s now k = None \<Longrightarrow> whole_ms ttl \<Longrightarrow> now \<le> t \<Longrightarrow>
      rd_get R (snd (rd_set_nx R s now k v ttl)) t k' =
        (if k' = k then (if t < now + ttl then Some v else None) else rd_get R s t k')"
    and get_del: "now \<le> t \<Longrightarrow> rd_get R (rd_del R s now k) t k' = (if k' = k then None else rd_get R s t k')"
    and get_others: "now \<le> t \<Longrightarrow> rd_get R (rd_hset R s now k fs) t k' = rd_get R s t k'"
      "now \<le> t \<Longrightarrow> rd_get R (rd_sadd R s now k x) t k' = rd_get R s t k'"
      "now \<le> t \<Longrightarrow> rd_get R (rd_srem R s now k x) t k' = rd_get R s t k'"
    and hget_hset: "now \<le> t \<Longrightarrow> rd_hget R (rd_hset R s now k fs) t k' f =
        (if k' = k \<and> map_of (rev fs) f \<noteq> None then map_of (rev fs) f else rd_hget R s t k' f)"
    and hget_others: "now \<le> t \<Longrightarrow> k' \<noteq> k \<Longrightarrow> rd_hget R (rd_set R s now k v) t k' f = rd_hget R s t k' f"
      "now \<le> t \<Longrightarrow> k' \<noteq> k \<Longrightarrow> rd_hget R (snd (rd_set_nx R s now k v ttl)) t k' f = rd_hget R s t k' f"
      "now \<le> t \<Longrightarrow> k' \<noteq> k \<Longrightarrow> rd_hget R (rd_del R s now k) t k' f = rd_hget R s t k' f"
    and smembers_sadd: "now \<le> t \<Longrightarrow> set (rd_smembers R (rd_sadd R s now k x) t k') =
        (if k' = k then insert x (set (rd_smembers R s t k')) else set (rd_smembers R s t k'))"
    and smembers_srem: "now \<le> t \<Longrightarrow> set (rd_smembers R (rd_srem R s now k x) t k') =
        (if k' = k then set (rd_smembers R s t k') - {x} else set (rd_smembers R s t k'))"
    and smembers_others: "now \<le> t \<Longrightarrow> k' \<noteq> k \<Longrightarrow> set (rd_smembers R (rd_set R s now k v) t k') = set (rd_smembers R s t k')"
      "now \<le> t \<Longrightarrow> k' \<noteq> k \<Longrightarrow> set (rd_smembers R (snd (rd_set_nx R s now k v ttl)) t k') = set (rd_smembers R s t k')"
      "now \<le> t \<Longrightarrow> k' \<noteq> k \<Longrightarrow> set (rd_smembers R (rd_del R s now k) t k') = set (rd_smembers R s t k')"
    and scan: "set (rd_scan R s t p) = {k. prefix p k \<and> rd_get R s t k \<noteq> None}"
begin

lemmas redis_laws = get_set get_set_nx get_del get_others hget_hset hget_others smembers_sadd smembers_srem
  smembers_others scan

text \<open>\<open>SET NX\<close> in one case distinction.\<close>

lemma set_nx_cases:
  obtains (taken) v0 where "rd_get R s now k = Some v0" "rd_set_nx R s now k v ttl = (False, s)"
  | (fault) "\<not> whole_ms ttl" "rd_set_nx R s now k v ttl = (False, s)"
  | (free) s' where "rd_get R s now k = None" "whole_ms ttl" "rd_set_nx R s now k v ttl = (True, s')"
      "\<And>t k'. now \<le> t \<Longrightarrow> rd_get R s' t k' = (if k' = k then (if t < now + ttl then Some v else None) else rd_get R s t k')"
      "\<And>t k' f. now \<le> t \<Longrightarrow> k' \<noteq> k \<Longrightarrow> rd_hget R s' t k' f = rd_hget R s t k' f"
      "\<And>t k'. now \<le> t \<Longrightarrow> k' \<noteq> k \<Longrightarrow> set (rd_smembers R s' t k') = set (rd_smembers R s t k')"
proof (cases "rd_get R s now k")
  case (Some v0)
  then show thesis using taken set_nx_taken by blast
next
  case None
  obtain ok s' where r: "rd_set_nx R s now k v ttl = (ok, s')" by fastforce
  show thesis
  proof (cases "whole_ms ttl")
    case True
    then show thesis
      by (intro free [of s']) (use None r set_nx_free [of s now k ttl v] get_set_nx [of s now k ttl _ v]
          hget_others(2) [of now _ _ k s v ttl] smembers_others(2) [of now _ _ k s v ttl] in auto)
  next
    case False
    then show thesis using fault set_nx_error by blast
  qed
qed

end

section \<open>A server\<close>

text \<open>
  The laws have a model: a store of expiring values, of hashes and of sets.  The witnesses of the
  properties run on it.
\<close>

record mem_store =
  ms_vals :: "(string, rval \<times> ms option) jsmap"
  ms_hashes :: "(string \<times> string, string) jsmap"
  ms_sets :: "(string, string list) jsmap"

definition mem_empty :: mem_store where
  "mem_empty = \<lparr>ms_vals = [], ms_hashes = [], ms_sets = []\<rparr>"

definition mem_live :: "ms \<Rightarrow> rval \<times> ms option \<Rightarrow> rval option" where
  "mem_live t e = (case snd e of None \<Rightarrow> Some (fst e) | Some x \<Rightarrow> if t < x then Some (fst e) else None)"

definition mem_get :: "mem_store \<Rightarrow> ms \<Rightarrow> string \<Rightarrow> rval option" where
  "mem_get s t k = Option.bind (jm_get (ms_vals s) k) (mem_live t)"

definition mem_members :: "mem_store \<Rightarrow> string \<Rightarrow> string list" where
  "mem_members s k = (case jm_get (ms_sets s) k of Some xs \<Rightarrow> xs | None \<Rightarrow> [])"

definition mem_redis :: "mem_store redis_api" where
  "mem_redis =
    \<lparr>rd_get = mem_get,
     rd_set = (\<lambda>s now k v. s\<lparr>ms_vals := jm_set (ms_vals s) k (v, None)\<rparr>),
     rd_set_nx = (\<lambda>s now k v ttl. if mem_get s now k \<noteq> None \<or> \<not> whole_ms ttl then (False, s)
       else (True, s\<lparr>ms_vals := jm_set (ms_vals s) k (v, Some (now + ttl))\<rparr>)),
     rd_del = (\<lambda>s now k. s\<lparr>ms_vals := jm_delete (ms_vals s) k\<rparr>),
     rd_hget = (\<lambda>s t k f. jm_get (ms_hashes s) (k, f)),
     rd_hset = (\<lambda>s now k fs. s\<lparr>ms_hashes := foldl (\<lambda>m (f, v). jm_set m (k, f) v) (ms_hashes s) fs\<rparr>),
     rd_sadd = (\<lambda>s now k x. s\<lparr>ms_sets := jm_set (ms_sets s) k (List.insert x (mem_members s k))\<rparr>),
     rd_srem = (\<lambda>s now k x. s\<lparr>ms_sets := jm_set (ms_sets s) k (filter (\<lambda>y. y \<noteq> x) (mem_members s k))\<rparr>),
     rd_smembers = (\<lambda>s t k. mem_members s k),
     rd_scan = (\<lambda>s t p. filter (\<lambda>k. prefix p k \<and> mem_get s t k \<noteq> None) (jm_keys (ms_vals s)))\<rparr>"

lemma mem_hset_fold:
  "jm_get (foldl (\<lambda>m (f, v). jm_set m (k, f) v) m fs) (k', f') =
    (if k' = k \<and> map_of (rev fs) f' \<noteq> None then map_of (rev fs) f' else jm_get m (k', f'))"
  by (induction fs arbitrary: m rule: rev_induct) (auto split: prod.split)

lemma mem_get_key: "mem_get s t k \<noteq> None \<Longrightarrow> k \<in> fst ` set (ms_vals s)"
  by (auto simp: mem_get_def bind_eq_Some_conv dest: map_of_SomeD intro: rev_image_eqI)

interpretation mem: redis_server mem_redis
proof
  fix s :: mem_store and t p
  show "set (rd_scan mem_redis s t p) = {k. prefix p k \<and> rd_get mem_redis s t k \<noteq> None}"
    using mem_get_key [of s t] by (auto simp: mem_redis_def)
qed (auto simp: mem_redis_def mem_get_def mem_members_def mem_live_def mem_hset_fold split: option.splits if_splits)

end
