(* ===== verification/DriverLease.thy ===== *)
theory DriverLease
  imports RegistryInv
begin

text \<open>
  What the matching service relies on when it reserves a driver, as an interface: a reservation is
  a lease that names a request and ends at a time, only the request that holds it can give it back
  or turn it into a trip, and nobody else can take the driver before it ends.  Both reservation
  mechanisms of the program provide it, the table of the registry here and the lock in Redis in
  \<open>RedisLock\<close>; what a client may conclude is proved once.
\<close>

section \<open>The interface\<close>

datatype lease_cmd =
    Acquire ms string string ms
  | Release ms string string
  | Commit ms string string

fun lc_time :: "lease_cmd \<Rightarrow> ms" where
  "lc_time (Acquire t _ _ _) = t" | "lc_time (Release t _ _) = t" | "lc_time (Commit t _ _) = t"

fun lc_driver :: "lease_cmd \<Rightarrow> string" where
  "lc_driver (Acquire _ d _ _) = d" | "lc_driver (Release _ d _) = d" | "lc_driver (Commit _ d _) = d"

fun lc_request :: "lease_cmd \<Rightarrow> string" where
  "lc_request (Acquire _ _ r _) = r" | "lc_request (Release _ _ r) = r" | "lc_request (Commit _ _ r) = r"

text \<open>
  \<open>good now s\<close>: from the time \<open>now\<close> on, \<open>s\<close> can be observed and used.
\<close>

locale driver_lease =
  fixes acquire :: "'s \<Rightarrow> ms \<Rightarrow> string \<Rightarrow> string \<Rightarrow> ms \<Rightarrow> bool \<times> 's"
    and release :: "'s \<Rightarrow> ms \<Rightarrow> string \<Rightarrow> string \<Rightarrow> bool \<times> 's"
    and commit :: "'s \<Rightarrow> ms \<Rightarrow> string \<Rightarrow> string \<Rightarrow> bool \<times> 's"
    and holder :: "'s \<Rightarrow> ms \<Rightarrow> string \<Rightarrow> string option"
    and good :: "ms \<Rightarrow> 's \<Rightarrow> bool"
  assumes good_step: "good now s \<Longrightarrow> good now (snd (acquire s now d r ttl))" "good now s \<Longrightarrow> good now (snd (release s now d r))"
      "good now s \<Longrightarrow> good now (snd (commit s now d r))"
    and good_later: "good now s \<Longrightarrow> now \<le> t \<Longrightarrow> good t s"
    and acquire_free: "good now s \<Longrightarrow> acquire s now d r ttl = (True, s') \<Longrightarrow> holder s now d = None"
    and acquire_grants: "good now s \<Longrightarrow> acquire s now d r ttl = (True, s') \<Longrightarrow> now \<le> t \<Longrightarrow>
        holder s' t d' = (if d' = d then (if t < now + ttl then Some r else None) else holder s t d')"
    and acquire_refuses: "good now s \<Longrightarrow> acquire s now d r ttl = (False, s') \<Longrightarrow> now \<le> t \<Longrightarrow> holder s' t d' = holder s t d'"
    and release_others: "good now s \<Longrightarrow> now \<le> t \<Longrightarrow> holder s t d' = Some q \<Longrightarrow> d' \<noteq> d \<or> q \<noteq> r \<Longrightarrow>
        holder (snd (release s now d r)) t d' = Some q"
    and commit_iff: "good now s \<Longrightarrow> fst (commit s now d r) \<longleftrightarrow> holder s now d = Some r"
    and commit_others: "good now s \<Longrightarrow> now \<le> t \<Longrightarrow> holder s t d' = Some q \<Longrightarrow> d' \<noteq> d \<or> q \<noteq> r \<Longrightarrow>
        holder (snd (commit s now d r)) t d' = Some q"
    and holder_back: "good now s \<Longrightarrow> holder s t d = Some r \<Longrightarrow> now \<le> t \<Longrightarrow> holder s now d = Some r"
begin

fun exec :: "'s \<Rightarrow> lease_cmd \<Rightarrow> bool \<times> 's" where
  "exec s (Acquire t d r ttl) = acquire s t d r ttl"
| "exec s (Release t d r) = release s t d r"
| "exec s (Commit t d r) = commit s t d r"

text \<open>The answers to a sequence of commands, and the final state.\<close>

fun run :: "'s \<Rightarrow> lease_cmd list \<Rightarrow> bool list \<times> 's" where
  "run s [] = ([], s)"
| "run s (c # cs) = (let (ok, s1) = exec s c; (oks, s2) = run s1 cs in (ok # oks, s2))"

lemma exec_good: "good (lc_time c) s \<Longrightarrow> good (lc_time c) (snd (exec s c))"
  by (cases c) (simp_all add: good_step)

lemma exec_keeps:
  assumes "good (lc_time c) s" and "holder s t d = Some r" and "lc_time c \<le> t" and "lc_driver c = d \<longrightarrow> lc_request c \<noteq> r"
  shows "holder (snd (exec s c)) t d = Some r"
proof (cases c)
  case (Acquire now d2 r2 ttl)
  then have g: "good now s" using assms(1) by simp
  obtain ok s' where a: "acquire s now d2 r2 ttl = (ok, s')" by fastforce
  show ?thesis
  proof (cases ok)
    case True
    then have "d \<noteq> d2"
      using acquire_free [OF g] holder_back [OF g assms(2)] a assms(3) Acquire by fastforce
    then show ?thesis using acquire_grants [OF g, of d2 r2 ttl s' t d] a assms(2,3) True Acquire by simp
  next
    case False
    then show ?thesis using acquire_refuses [OF g, of d2 r2 ttl s' t d] a assms(2,3) Acquire by simp
  qed
next
  case (Release now d2 r2)
  then show ?thesis using release_others [OF _ _ assms(2), of now d2 r2] assms(1,3,4) by auto
next
  case (Commit now d2 r2)
  then show ?thesis using commit_others [OF _ _ assms(2), of now d2 r2] assms(1,3,4) by auto
qed

lemma exec_refused:
  assumes "good (lc_time c) s" and "holder s t d = Some r" and "lc_time c \<le> t" and "lc_driver c = d" and "lc_request c \<noteq> r"
    and "\<nexists>now d r. c = Release now d r"
  shows "\<not> fst (exec s c)"
proof (cases c)
  case (Acquire now d2 r2 ttl)
  then show ?thesis
    using acquire_free [of now s d r2 ttl] holder_back [OF assms(1,2)] assms(1,3,4)
    by (cases "acquire s now d r2 ttl") auto
next
  case (Commit now d2 r2)
  then show ?thesis
    using commit_iff [of now s d r2] holder_back [OF assms(1,2)] assms(1,3-5) by auto
qed (use assms in simp)

text \<open>
  The client's conclusion: as long as its own request does nothing and its lease has not ended,
  whatever the others do fails for this driver, and the lease can be turned into a trip at any
  time before its end.
\<close>

lemma lease_protects:
  assumes "good now s" and "holder s t d = Some r" and "sorted (now # map lc_time cs @ [t])"
    and "\<forall>c\<in>set cs. lc_driver c = d \<longrightarrow> lc_request c \<noteq> r"
  shows "good t (snd (run s cs)) \<and> holder (snd (run s cs)) t d = Some r \<and> fst (commit (snd (run s cs)) t d r) \<and>
    (\<forall>i<length cs. lc_driver (cs ! i) = d \<and> (\<nexists>now d2 r2. cs ! i = Release now d2 r2) \<longrightarrow> \<not> fst (run s cs) ! i)"
  using assms
proof (induction cs arbitrary: s now)
  case Nil
  then have "good t s" using good_later by simp
  then show ?case using commit_iff Nil by simp
next
  case (Cons c cs)
  have g: "good (lc_time c) s" and ct: "lc_time c \<le> t" using good_later [OF Cons.prems(1)] Cons.prems(3) by simp_all
  define s1 where "s1 = snd (exec s c)"
  have s1: "good (lc_time c) s1" "holder s1 t d = Some r"
    using exec_good [OF g] exec_keeps [OF g Cons.prems(2) ct] Cons.prems(4) by (simp_all add: s1_def)
  have run: "run s (c # cs) = (fst (exec s c) # fst (run s1 cs), snd (run s1 cs))"
    by (simp add: s1_def split: prod.split)
  have first: "lc_driver c = d \<and> (\<nexists>now d2 r2. c = Release now d2 r2) \<longrightarrow> \<not> fst (exec s c)"
    using exec_refused [OF g Cons.prems(2) ct] Cons.prems(4) by auto
  from Cons.IH [OF s1] Cons.prems(3,4) have IH: "good t (snd (run s1 cs)) \<and> holder (snd (run s1 cs)) t d = Some r \<and>
      fst (commit (snd (run s1 cs)) t d r) \<and>
      (\<forall>i<length cs. lc_driver (cs ! i) = d \<and> (\<nexists>now d2 r2. cs ! i = Release now d2 r2) \<longrightarrow> \<not> fst (run s1 cs) ! i)"
    by simp
  have "\<not> fst (run s (c # cs)) ! i"
    if "i < length (c # cs)" "lc_driver ((c # cs) ! i) = d \<and> (\<nexists>now d2 r2. (c # cs) ! i = Release now d2 r2)" for i
    using that IH first unfolding run by (cases i) auto
  then show ?case using IH unfolding run by simp
qed

end

section \<open>The registry's table provides it\<close>

definition table_holder :: "DriverRegistry \<Rightarrow> ms \<Rightarrow> string \<Rightarrow> string option" where
  "table_holder r t d =
    (case jm_get (drivers r) d of
       Some rec \<Rightarrow> (case d_lockToken rec of
           Some tok \<Rightarrow> if t < lt_expiresAt tok then Some (lt_requestId tok) else None
         | None \<Rightarrow> None)
     | None \<Rightarrow> None)"

lemma table_holder_Some: "table_holder r t d = Some q \<longleftrightarrow>
    (\<exists>rec tok. jm_get (drivers r) d = Some rec \<and> d_lockToken rec = Some tok \<and> t < lt_expiresAt tok \<and> lt_requestId tok = q)"
  by (auto simp: table_holder_def split: option.splits if_splits)

interpretation table: driver_lease acquireLock "\<lambda>r now. releaseLock r" commitTrip table_holder "\<lambda>now. reg_inv"
proof
  fix r :: DriverRegistry and now d q ttl r' t d' q' assume inv: "reg_inv r"
  show "reg_inv (snd (acquireLock r now d q ttl))" "reg_inv (snd (releaseLock r d q))" "reg_inv (snd (commitTrip r now d q))"
    using registry_steps inv by (auto simp: registry_step_def)
  show "table_holder r now d = None" if "acquireLock r now d q ttl = (True, r')"
    using inv that by (cases rule: acquireLock_cases) (auto simp: table_holder_def lock_expired_def split: option.splits)
  show "table_holder r' t d' = (if d' = d then (if t < now + ttl then Some q else None) else table_holder r t d')"
    if "acquireLock r now d q ttl = (True, r')" "now \<le> t"
    using inv that(1) by (cases rule: acquireLock_cases) (auto simp: table_holder_def)
  show "table_holder r' t d' = table_holder r t d'" if "acquireLock r now d q ttl = (False, r')" "now \<le> t"
    using inv that(1) by (cases rule: acquireLock_cases) auto
  show "table_holder (snd (releaseLock r d q)) t d' = Some q'"
    if "now \<le> t" "table_holder r t d' = Some q'" "d' \<noteq> d \<or> q' \<noteq> q"
  proof (cases "releaseLock r d q")
    case (Pair ok r2)
    from inv Pair show ?thesis
      using that(2,3) by (cases rule: releaseLock_cases) (auto simp: table_holder_Some held_by_other_def Pair)
  qed
  show "fst (commitTrip r now d q) \<longleftrightarrow> table_holder r now d = Some q"
  proof (cases "commitTrip r now d q")
    case (Pair ok r2)
    from inv Pair show ?thesis
      by (cases rule: commitTrip_cases) (auto simp: table_holder_Some Pair)
  qed
  show "table_holder (snd (commitTrip r now d q)) t d' = Some q'"
    if "now \<le> t" "table_holder r t d' = Some q'" "d' \<noteq> d \<or> q' \<noteq> q"
  proof (cases "commitTrip r now d q")
    case (Pair ok r2)
    from inv Pair show ?thesis
    proof (cases rule: commitTrip_cases)
      case (late rec tok)
      obtain ok3 r3 where rel: "releaseLock r d q = (ok3, r3)" by fastforce
      from inv rel have "table_holder r3 t d' = Some q'"
        using that(2,3) by (cases rule: releaseLock_cases) (auto simp: table_holder_Some held_by_other_def)
      then show ?thesis using Pair late(6) rel by simp
    next
      case (commit rec tok)
      then show ?thesis using that(2,3) Pair by (auto simp: table_holder_Some)
    qed (use that Pair in auto)
  qed
  show "table_holder r now d = Some q" if "table_holder r t d = Some q" "now \<le> t"
    using that by (auto simp: table_holder_Some)
qed

end
