(* ===== verification/RedisLock.thy ===== *)
theory RedisLock
  imports RedisServer DriverLease
begin

text \<open>
  \<open>RedisDriverLock\<close> of \<open>src/core/redis_driver_lock.ts\<close> and the Lua scripts
  \<open>acquire_lock.lua\<close>, \<open>release_lock.lua\<close> and \<open>commit_trip.lua\<close> it sends to the
  server.  The server runs a script as one atomic step, so a script is one function here, at the
  time it runs.
\<close>

section \<open>The scripts\<close>

definition acquire_lock_lua :: "'s redis_api \<Rightarrow> 's \<Rightarrow> ms \<Rightarrow> string \<Rightarrow> string \<Rightarrow> string \<Rightarrow> ms \<Rightarrow> nat \<times> 's" where
  "acquire_lock_lua R s now lockKey stateKey requestId ttlMs =
    (if rd_hget R s now stateKey ''status'' = Some ''busy'' then (0, s)
     else
       (let (acquired, s1) = rd_set_nx R s now lockKey (Raw requestId) ttlMs
        in if acquired then (1, s1) else (0, s1)))"

definition release_lock_lua :: "'s redis_api \<Rightarrow> 's \<Rightarrow> ms \<Rightarrow> string \<Rightarrow> string \<Rightarrow> nat \<times> 's" where
  "release_lock_lua R s now lockKey requestId =
    (if rd_get R s now lockKey = Some (Raw requestId) then (1, rd_del R s now lockKey) else (0, s))"

definition commit_trip_lua :: "'s redis_api \<Rightarrow> 's \<Rightarrow> ms \<Rightarrow> string \<Rightarrow> string \<Rightarrow> string \<Rightarrow> nat \<times> 's" where
  "commit_trip_lua R s now lockKey stateKey requestId =
    (if rd_get R s now lockKey = Some (Raw requestId) then
       (1, rd_hset R (rd_del R s now lockKey) now stateKey
             [(''status'', ''busy''), (''currentTripRequestId'', requestId)])
     else (0, s))"

section \<open>The methods\<close>

definition lockKey :: "string \<Rightarrow> string" where "lockKey driverId = ''driver_lock:'' @ driverId"

definition stateKey :: "string \<Rightarrow> string" where "stateKey driverId = ''driver:state:'' @ driverId"

definition rl_acquireLock :: "'s redis_api \<Rightarrow> 's \<Rightarrow> ms \<Rightarrow> string \<Rightarrow> string \<Rightarrow> ms \<Rightarrow> bool \<times> 's" where
  "rl_acquireLock R s now driverId requestId ttlMs =
    (let (res, s1) = acquire_lock_lua R s now (lockKey driverId) (stateKey driverId) requestId ttlMs in (res = 1, s1))"

definition rl_releaseLock :: "'s redis_api \<Rightarrow> 's \<Rightarrow> ms \<Rightarrow> string \<Rightarrow> string \<Rightarrow> bool \<times> 's" where
  "rl_releaseLock R s now driverId requestId =
    (let (res, s1) = release_lock_lua R s now (lockKey driverId) requestId in (res = 1, s1))"

definition getLockHolder :: "'s redis_api \<Rightarrow> 's \<Rightarrow> ms \<Rightarrow> string \<Rightarrow> string option" where
  "getLockHolder R s now driverId =
    (case rd_get R s now (lockKey driverId) of
       Some (Raw r) \<Rightarrow> if r = [] then None else Some r
     | _ \<Rightarrow> None)"

definition isLocked :: "'s redis_api \<Rightarrow> 's \<Rightarrow> ms \<Rightarrow> string \<Rightarrow> bool" where
  "isLocked R s now driverId = (getLockHolder R s now driverId \<noteq> None)"

definition rl_commitTrip :: "'s redis_api \<Rightarrow> 's \<Rightarrow> ms \<Rightarrow> string \<Rightarrow> string \<Rightarrow> bool \<times> 's" where
  "rl_commitTrip R s now driverId requestId =
    (let (res, s1) = commit_trip_lua R s now (lockKey driverId) (stateKey driverId) requestId in (res = 1, s1))"

definition releaseCommittedDriver :: "'s redis_api \<Rightarrow> 's \<Rightarrow> ms \<Rightarrow> string \<Rightarrow> string \<Rightarrow> bool \<times> 's" where
  "releaseCommittedDriver R s now driverId newStatus =
    (True, rd_hset R s now (stateKey driverId) [(''status'', newStatus), (''currentTripRequestId'', [])])"

section \<open>It is a lease\<close>

lemma lock_keys [simp]:
  "lockKey d = lockKey d' \<longleftrightarrow> d = d'" "stateKey d = stateKey d' \<longleftrightarrow> d = d'"
  "lockKey d \<noteq> stateKey d'" "stateKey d' \<noteq> lockKey d"
  by (simp_all add: lockKey_def stateKey_def)

text \<open>The request that holds the lock, as the scripts compare it.\<close>

definition lock_holder :: "'s redis_api \<Rightarrow> 's \<Rightarrow> ms \<Rightarrow> string \<Rightarrow> string option" where
  "lock_holder R s t d = (case rd_get R s t (lockKey d) of Some (Raw r) \<Rightarrow> Some r | _ \<Rightarrow> None)"

text \<open>From now on a lock key holds a request identifier, and what is live at a time has been live since.\<close>

definition lock_store :: "'s redis_api \<Rightarrow> ms \<Rightarrow> 's \<Rightarrow> bool" where
  "lock_store R now s = (\<forall>d t v. now \<le> t \<and> rd_get R s t (lockKey d) = Some v \<longrightarrow>
     (\<exists>r. v = Raw r) \<and> (\<forall>u. now \<le> u \<and> u \<le> t \<longrightarrow> rd_get R s u (lockKey d) = Some v))"

context redis_server
begin

lemma acquire_cases:
  assumes "rl_acquireLock R s now d r ttl = (ok, s')"
  obtains (busy) "\<not> ok" "s' = s" "rd_hget R s now (stateKey d) ''status'' = Some ''busy''"
  | (taken) v where "\<not> ok" "s' = s" "rd_get R s now (lockKey d) = Some v"
  | (fault) "\<not> ok" "s' = s" "\<not> whole_ms ttl"
  | (granted) "ok" "rd_hget R s now (stateKey d) ''status'' \<noteq> Some ''busy''" "rd_get R s now (lockKey d) = None" "whole_ms ttl"
      "\<And>t k. now \<le> t \<Longrightarrow> rd_get R s' t k = (if k = lockKey d then (if t < now + ttl then Some (Raw r) else None) else rd_get R s t k)"
      "\<And>t k f. now \<le> t \<Longrightarrow> k \<noteq> lockKey d \<Longrightarrow> rd_hget R s' t k f = rd_hget R s t k f"
proof (cases "rd_hget R s now (stateKey d) ''status'' = Some ''busy''")
  case True
  then show thesis using assms by (intro busy) (auto simp: rl_acquireLock_def acquire_lock_lua_def)
next
  case free: False
  show thesis
  proof (rule set_nx_cases [of s now "lockKey d" "Raw r" ttl])
    fix v0 assume "rd_get R s now (lockKey d) = Some v0" "rd_set_nx R s now (lockKey d) (Raw r) ttl = (False, s)"
    then show thesis using assms free by (intro taken) (auto simp: rl_acquireLock_def acquire_lock_lua_def)
  next
    assume "\<not> whole_ms ttl" "rd_set_nx R s now (lockKey d) (Raw r) ttl = (False, s)"
    then show thesis using assms free by (intro fault) (auto simp: rl_acquireLock_def acquire_lock_lua_def)
  next
    fix s1 assume a: "rd_get R s now (lockKey d) = None" "whole_ms ttl" "rd_set_nx R s now (lockKey d) (Raw r) ttl = (True, s1)"
      "\<And>t k. now \<le> t \<Longrightarrow> rd_get R s1 t k = (if k = lockKey d then (if t < now + ttl then Some (Raw r) else None) else rd_get R s t k)"
      "\<And>t k f. now \<le> t \<Longrightarrow> k \<noteq> lockKey d \<Longrightarrow> rd_hget R s1 t k f = rd_hget R s t k f"
    have "ok" "s' = s1" using assms free a(3) by (auto simp: rl_acquireLock_def acquire_lock_lua_def)
    then show thesis using a free by (intro granted) simp_all
  qed
qed

lemma acquire_fst:
  "fst (rl_acquireLock R s now d r ttl) \<longleftrightarrow>
    rd_hget R s now (stateKey d) ''status'' \<noteq> Some ''busy'' \<and> rd_get R s now (lockKey d) = None \<and> whole_ms ttl"
proof (cases "rl_acquireLock R s now d r ttl")
  case (Pair ok s')
  then show ?thesis by (cases rule: acquire_cases) (simp_all add: Pair)
qed

lemma release_get:
  "now \<le> t \<Longrightarrow> rd_get R (snd (rl_releaseLock R s now d r)) t k =
    (if k = lockKey d \<and> rd_get R s now (lockKey d) = Some (Raw r) then None else rd_get R s t k)"
  by (simp add: rl_releaseLock_def release_lock_lua_def get_del)

lemma commit_get:
  "now \<le> t \<Longrightarrow> rd_get R (snd (rl_commitTrip R s now d r)) t k =
    (if k = lockKey d \<and> rd_get R s now (lockKey d) = Some (Raw r) then None else rd_get R s t k)"
  by (simp add: rl_commitTrip_def commit_trip_lua_def get_del get_others)

lemma commit_fst: "fst (rl_commitTrip R s now d r) \<longleftrightarrow> rd_get R s now (lockKey d) = Some (Raw r)"
  by (simp add: rl_commitTrip_def commit_trip_lua_def)

lemma commit_state:
  "now \<le> t \<Longrightarrow> rd_hget R (snd (rl_commitTrip R s now d r)) t (stateKey d') ''status'' =
    (if d' = d \<and> rd_get R s now (lockKey d) = Some (Raw r) then Some ''busy'' else rd_hget R s t (stateKey d') ''status'')"
  by (simp add: rl_commitTrip_def commit_trip_lua_def hget_hset hget_others)

lemma lock_storeD:
  "lock_store R now s \<Longrightarrow> now \<le> t \<Longrightarrow> rd_get R s t (lockKey d) = Some v \<Longrightarrow>
    (\<exists>r. v = Raw r) \<and> (\<forall>u. now \<le> u \<and> u \<le> t \<longrightarrow> rd_get R s u (lockKey d) = Some v)"
  unfolding lock_store_def by blast

lemma lock_storeI:
  "(\<And>t d v. now \<le> t \<Longrightarrow> rd_get R s t (lockKey d) = Some v \<Longrightarrow>
    (\<exists>r. v = Raw r) \<and> (\<forall>u. now \<le> u \<and> u \<le> t \<longrightarrow> rd_get R s u (lockKey d) = Some v)) \<Longrightarrow> lock_store R now s"
  unfolding lock_store_def by blast

lemma lock_store_if:
  assumes "lock_store R now s"
    and "\<And>t d. now \<le> t \<Longrightarrow> rd_get R s' t (lockKey d) = (if d = d0 \<and> P then None else rd_get R s t (lockKey d))"
  shows "lock_store R now s'"
proof (rule lock_storeI)
  fix t d v assume t: "now \<le> t" and g: "rd_get R s' t (lockKey d) = Some v"
  have ne: "\<not> (d = d0 \<and> P)" using g assms(2) [OF t, of d] by auto
  then have "rd_get R s t (lockKey d) = Some v" using g assms(2) [OF t, of d] by auto
  from lock_storeD [OF assms(1) t this] show "(\<exists>r. v = Raw r) \<and> (\<forall>u. now \<le> u \<and> u \<le> t \<longrightarrow> rd_get R s' u (lockKey d) = Some v)"
    using assms(2) ne by auto
qed

lemma acquire_store:
  assumes "lock_store R now s"
  shows "lock_store R now (snd (rl_acquireLock R s now d r ttl))"
proof (cases "rl_acquireLock R s now d r ttl")
  case (Pair ok s')
  then show ?thesis
  proof (cases rule: acquire_cases)
    case granted
    have "lock_store R now s'"
    proof (rule lock_storeI)
      fix t d2 v assume t: "now \<le> t" and g: "rd_get R s' t (lockKey d2) = Some v"
      show "(\<exists>r. v = Raw r) \<and> (\<forall>u. now \<le> u \<and> u \<le> t \<longrightarrow> rd_get R s' u (lockKey d2) = Some v)"
      proof (cases "d2 = d")
        case True
        then show ?thesis using g granted(5) t by (auto split: if_splits)
      next
        case False
        then have "rd_get R s t (lockKey d2) = Some v" using g granted(5) [OF t, of "lockKey d2"] by simp
        from lock_storeD [OF assms t this] show ?thesis using granted(5) False by auto
      qed
    qed
    then show ?thesis using Pair by simp
  qed (use assms Pair in simp_all)
qed

lemma lock_holder_Some: "lock_holder R s t d = Some r \<longleftrightarrow> rd_get R s t (lockKey d) = Some (Raw r)"
  by (auto simp: lock_holder_def split: option.splits rval.splits)

end

text \<open>Whatever server provides the laws, the lock on it is a lease.\<close>

sublocale redis_server \<subseteq> lock: driver_lease "rl_acquireLock R" "rl_releaseLock R" "rl_commitTrip R" "lock_holder R" "lock_store R"
proof
  fix s now t d d' r q ttl s'
  assume g: "lock_store R now s"
  show "lock_store R now (snd (rl_acquireLock R s now d r ttl))" by (rule acquire_store [OF g])
  show "lock_store R now (snd (rl_releaseLock R s now d r))"
    by (rule lock_store_if [OF g, of _ d "rd_get R s now (lockKey d) = Some (Raw r)"]) (simp add: release_get)
  show "lock_store R now (snd (rl_commitTrip R s now d r))"
    by (rule lock_store_if [OF g, of _ d "rd_get R s now (lockKey d) = Some (Raw r)"]) (simp add: commit_get)
  show "lock_store R t s" if t: "now \<le> t"
  proof (rule lock_storeI)
    fix t2 d v assume a: "t \<le> t2" "rd_get R s t2 (lockKey d) = Some v"
    have "now \<le> t2" using a(1) t by simp
    from lock_storeD [OF g this a(2)] show "(\<exists>r. v = Raw r) \<and> (\<forall>u. t \<le> u \<and> u \<le> t2 \<longrightarrow> rd_get R s u (lockKey d) = Some v)"
      using t by auto
  qed
  show "lock_holder R s now d = None" if "rl_acquireLock R s now d r ttl = (True, s')"
    using that by (cases rule: acquire_cases) (simp_all add: lock_holder_def)
  show "lock_holder R s' t d' = (if d' = d then (if t < now + ttl then Some r else None) else lock_holder R s t d')"
    if "rl_acquireLock R s now d r ttl = (True, s')" "now \<le> t"
    using that(1) by (cases rule: acquire_cases) (use that(2) in \<open>simp_all add: lock_holder_def\<close>)
  show "lock_holder R s' t d' = lock_holder R s t d'" if "rl_acquireLock R s now d r ttl = (False, s')" "now \<le> t"
    using that(1) by (cases rule: acquire_cases) simp_all
  show "lock_holder R (snd (rl_releaseLock R s now d r)) t d' = Some q"
    if "now \<le> t" "lock_holder R s t d' = Some q" "d' \<noteq> d \<or> q \<noteq> r"
  proof -
    have q: "rd_get R s t (lockKey d') = Some (Raw q)" using that(2) by (simp add: lock_holder_Some)
    have "rd_get R s now (lockKey d') = Some (Raw q)" using lock_storeD [OF g that(1) q] that(1) by blast
    then show ?thesis using q that(1,3) by (auto simp: lock_holder_Some release_get)
  qed
  show "fst (rl_commitTrip R s now d r) \<longleftrightarrow> lock_holder R s now d = Some r"
    by (simp add: commit_fst lock_holder_Some)
  show "lock_holder R (snd (rl_commitTrip R s now d r)) t d' = Some q"
    if "now \<le> t" "lock_holder R s t d' = Some q" "d' \<noteq> d \<or> q \<noteq> r"
  proof -
    have q: "rd_get R s t (lockKey d') = Some (Raw q)" using that(2) by (simp add: lock_holder_Some)
    have "rd_get R s now (lockKey d') = Some (Raw q)" using lock_storeD [OF g that(1) q] that(1) by blast
    then show ?thesis using q that(1,3) by (auto simp: lock_holder_Some commit_get)
  qed
  show "lock_holder R s now d = Some r" if "lock_holder R s t d = Some r" "now \<le> t"
    using lock_storeD [OF g that(2), of d "Raw r"] that unfolding lock_holder_Some by blast
qed

section \<open>Sequences of calls\<close>

text \<open>The answers to the calls that arrive at the server, in their order, and the final state.\<close>

fun lock_exec :: "'s redis_api \<Rightarrow> 's \<Rightarrow> lease_cmd \<Rightarrow> bool \<times> 's" where
  "lock_exec R s (Acquire t d r ttl) = rl_acquireLock R s t d r ttl"
| "lock_exec R s (Release t d r) = rl_releaseLock R s t d r"
| "lock_exec R s (Commit t d r) = rl_commitTrip R s t d r"

fun lock_run :: "'s redis_api \<Rightarrow> 's \<Rightarrow> lease_cmd list \<Rightarrow> bool list \<times> 's" where
  "lock_run R s [] = ([], s)"
| "lock_run R s (c # cs) = (let (ok, s1) = lock_exec R s c; (oks, s2) = lock_run R s1 cs in (ok # oks, s2))"

text \<open>A driver whose trip has been committed: busy in the state hash, and without a lock.\<close>

definition engaged :: "'s redis_api \<Rightarrow> ms \<Rightarrow> 's \<Rightarrow> string \<Rightarrow> bool" where
  "engaged R now s d = (\<forall>t\<ge>now. rd_hget R s t (stateKey d) ''status'' = Some ''busy'' \<and> rd_get R s t (lockKey d) = None)"

context redis_server
begin

lemma lock_run_eq: "lock_run R s cs = lock.run s cs"
proof -
  have "lock_exec R s c = lock.exec s c" for s c by (cases c) simp_all
  then show ?thesis by (induction cs arbitrary: s) simp_all
qed

lemma engagedD: "engaged R now s d \<Longrightarrow> now \<le> t \<Longrightarrow> rd_hget R s t (stateKey d) ''status'' = Some ''busy'' \<and> rd_get R s t (lockKey d) = None"
  by (simp add: engaged_def)

lemma commit_engages: "rl_commitTrip R s now d r = (True, s') \<Longrightarrow> engaged R now s' d"
  using commit_fst [of s now d r] commit_state [of now _ s d r d] commit_get [of now _ s d r "lockKey d"]
  by (simp add: engaged_def)

lemma engaged_acquire: "engaged R now s d \<Longrightarrow> now \<le> t \<Longrightarrow> rl_acquireLock R s t d r ttl = (False, s)"
  using engagedD [of now s d t] by (simp add: rl_acquireLock_def acquire_lock_lua_def)

lemma engaged_exec:
  assumes "engaged R now s d" and "now \<le> lc_time c"
  shows "engaged R (lc_time c) (snd (lock_exec R s c)) d"
    and "lc_driver c = d \<Longrightarrow> \<not> fst (lock_exec R s c)"
proof -
  have e: "rd_hget R s t (stateKey d) ''status'' = Some ''busy''" "rd_get R s t (lockKey d) = None" if "lc_time c \<le> t" for t
    using engagedD [OF assms(1), of t] that assms(2) by simp_all
  show "\<not> fst (lock_exec R s c)" if "lc_driver c = d"
    using e that engaged_acquire [OF assms(1)] assms(2)
    by (cases c) (auto simp: commit_fst rl_releaseLock_def release_lock_lua_def)
  show "engaged R (lc_time c) (snd (lock_exec R s c)) d"
  proof (cases c)
    case (Acquire t d2 r ttl)
    obtain ok s' where a: "rl_acquireLock R s t d2 r ttl = (ok, s')" by fastforce
    from a show ?thesis
    proof (cases rule: acquire_cases)
      case granted
      have "d2 \<noteq> d" using engaged_acquire [OF assms(1), of t r ttl] assms(2) a Acquire granted(1) by auto
      then show ?thesis using granted(5,6) e a Acquire by (simp add: engaged_def)
    qed (use e a Acquire in \<open>simp_all add: engaged_def\<close>)
  next
    case (Release t d2 r)
    then show ?thesis using e by (simp add: engaged_def release_get rl_releaseLock_def release_lock_lua_def hget_others get_del)
  next
    case (Commit t d2 r)
    then show ?thesis using e by (simp add: engaged_def commit_get commit_state)
  qed
qed

lemma engaged_run:
  assumes "engaged R now s d" and "sorted (now # map lc_time cs)"
  shows "engaged R (last (now # map lc_time cs)) (snd (lock_run R s cs)) d \<and>
    (\<forall>i<length cs. lc_driver (cs ! i) = d \<longrightarrow> \<not> fst (lock_run R s cs) ! i)"
  using assms
proof (induction cs arbitrary: s now)
  case Nil
  then show ?case by simp
next
  case (Cons c cs)
  have le: "now \<le> lc_time c" and st: "sorted (lc_time c # map lc_time cs)" using Cons.prems(2) by simp_all
  define s1 where "s1 = snd (lock_exec R s c)"
  have run: "lock_run R s (c # cs) = (fst (lock_exec R s c) # fst (lock_run R s1 cs), snd (lock_run R s1 cs))"
    by (simp add: s1_def split: prod.split)
  have IH: "engaged R (last (lc_time c # map lc_time cs)) (snd (lock_run R s1 cs)) d \<and>
      (\<forall>i<length cs. lc_driver (cs ! i) = d \<longrightarrow> \<not> fst (lock_run R s1 cs) ! i)"
    by (rule Cons.IH [OF engaged_exec(1) [OF Cons.prems(1) le, folded s1_def] st])
  have "\<not> fst (lock_run R s (c # cs)) ! i" if "i < length (c # cs)" "lc_driver ((c # cs) ! i) = d" for i
    using that IH engaged_exec(2) [OF Cons.prems(1) le] unfolding run by (cases i) auto
  then show ?case using IH unfolding run by simp
qed

end

end
