(* ===== verification/RedisTripStore.thy ===== *)
theory RedisTripStore
  imports RedisServer
begin

text \<open>
  \<open>RedisTripStore\<close> of \<open>src/core/redis_trip_store.ts\<close> and the script
  \<open>create_trip.lua\<close>.  A method that waits for several commands is one function here, run at
  one time with no other client in between; the script and the pipeline of \<open>saveTrip\<close> are
  atomic on the server.  A value that is not the text of a trip makes \<open>JSON.parse\<close> throw.
\<close>

section \<open>Keys and values\<close>

datatype store_error =
    RiderActiveElsewhere string
  | SyntaxError
  | StoredTripNotFound string
  | DriverNotAssigned string string

definition RIDER_ACTIVE_SAFETY_TTL_SEC :: ms where "RIDER_ACTIVE_SAFETY_TTL_SEC = 7200"

definition tripKey :: "string \<Rightarrow> string" where "tripKey tripId = ''trip:'' @ tripId"

definition requestKey :: "string \<Rightarrow> string" where "requestKey requestId = ''request:trip:'' @ requestId"

definition riderActivePrefix :: string where "riderActivePrefix = ''rider:active_trip:''"

definition riderActiveKey :: "string \<Rightarrow> string" where "riderActiveKey riderId = riderActivePrefix @ riderId"

definition activeTripSetKey :: string where "activeTripSetKey = ''trip:active''"

text \<open>A value used as text; the text of a trip is no identifier.\<close>

fun text_of :: "rval \<Rightarrow> string" where
  "text_of (Raw x) = x"
| "text_of (Json t) = ''{}''"

text \<open>\<open>raw ? JSON.parse(raw) : null\<close>\<close>

fun parse_trip :: "rval option \<Rightarrow> store_error + Trip option" where
  "parse_trip None = Inr None"
| "parse_trip (Some (Json t)) = Inr (Some t)"
| "parse_trip (Some (Raw x)) = (if x = [] then Inr None else Inl SyntaxError)"

section \<open>Creation\<close>

definition create_trip_lua ::
    "'s redis_api \<Rightarrow> 's \<Rightarrow> ms \<Rightarrow> string \<Rightarrow> string \<Rightarrow> string \<Rightarrow> string \<Rightarrow> string \<Rightarrow> Trip \<Rightarrow> ms \<Rightarrow> (nat \<times> string) \<times> 's" where
  "create_trip_lua R s now rqKey rdKey tKey actKey tripId trip riderTtlSeconds =
    (case rd_get R s now rqKey of
       Some existingTripId \<Rightarrow> ((1, text_of existingTripId), s)
     | None \<Rightarrow>
         (let (riderClaimed, s1) = rd_set_nx R s now rdKey (Raw tripId) (riderTtlSeconds * 1000)
          in if \<not> riderClaimed then ((0, ''RIDER_ALREADY_HAS_ACTIVE_TRIP''), s1)
             else ((2, tripId), rd_sadd R (rd_set R (rd_set R s1 now rqKey (Raw tripId)) now tKey (Json trip)) now actKey tripId)))"

definition rs_getTrip :: "'s redis_api \<Rightarrow> 's \<Rightarrow> ms \<Rightarrow> string \<Rightarrow> store_error + Trip option" where
  "rs_getTrip R s now tripId = parse_trip (rd_get R s now (tripKey tripId))"

definition rs_createTrip :: "'s redis_api \<Rightarrow> 's \<Rightarrow> ms \<Rightarrow> Trip \<Rightarrow> (store_error + Trip) \<times> 's" where
  "rs_createTrip R s now trip =
    (let ((code, val), s1) =
       create_trip_lua R s now (requestKey (t_requestId trip)) (riderActiveKey (t_riderId trip)) (tripKey (t_id trip))
         activeTripSetKey (t_id trip) trip RIDER_ACTIVE_SAFETY_TTL_SEC
     in if code = 0 then (Inl (RiderActiveElsewhere (t_riderId trip)), s1)
        else if code = 1 then
          (case rs_getTrip R s1 now val of
             Inl e \<Rightarrow> (Inl e, s1)
           | Inr (Some existing) \<Rightarrow> (Inr existing, s1)
           | Inr None \<Rightarrow> (Inr trip, s1))
        else (Inr trip, s1))"

section \<open>Lookup\<close>

definition id_at :: "'s redis_api \<Rightarrow> 's \<Rightarrow> ms \<Rightarrow> string \<Rightarrow> string option" where
  "id_at R s now k = (case rd_get R s now k of Some v \<Rightarrow> if text_of v = [] then None else Some (text_of v) | None \<Rightarrow> None)"

definition rs_getTripByRequestId :: "'s redis_api \<Rightarrow> 's \<Rightarrow> ms \<Rightarrow> string \<Rightarrow> store_error + Trip option" where
  "rs_getTripByRequestId R s now requestId =
    (case id_at R s now (requestKey requestId) of None \<Rightarrow> Inr None | Some tripId \<Rightarrow> rs_getTrip R s now tripId)"

definition rs_getActiveTripByRiderId :: "'s redis_api \<Rightarrow> 's \<Rightarrow> ms \<Rightarrow> string \<Rightarrow> store_error + Trip option" where
  "rs_getActiveTripByRiderId R s now riderId =
    (case id_at R s now (riderActiveKey riderId) of None \<Rightarrow> Inr None | Some tripId \<Rightarrow> rs_getTrip R s now tripId)"

text \<open>\<open>MGET\<close> of the keys of the active trips; absent ones are dropped.\<close>

fun parse_all :: "rval option list \<Rightarrow> store_error + Trip list" where
  "parse_all [] = Inr []"
| "parse_all (None # raws) = parse_all raws"
| "parse_all (Some (Json t) # raws) = (case parse_all raws of Inl e \<Rightarrow> Inl e | Inr ts \<Rightarrow> Inr (t # ts))"
| "parse_all (Some (Raw _) # raws) = Inl SyntaxError"

definition rs_getActiveTrips :: "'s redis_api \<Rightarrow> 's \<Rightarrow> ms \<Rightarrow> store_error + Trip list" where
  "rs_getActiveTrips R s now =
    parse_all (map (\<lambda>tripId. rd_get R s now (tripKey tripId)) (rd_smembers R s now activeTripSetKey))"

section \<open>Updates\<close>

definition saveTrip :: "'s redis_api \<Rightarrow> 's \<Rightarrow> ms \<Rightarrow> Trip \<Rightarrow> 's" where
  "saveTrip R s now trip =
    (let isTerminal = (t_status trip = Completed \<or> t_status trip = Cancelled);
         s1 = rd_set R s now (tripKey (t_id trip)) (Json trip)
     in if isTerminal then rd_del R (rd_srem R s1 now activeTripSetKey (t_id trip)) now (riderActiveKey (t_riderId trip))
        else rd_sadd R s1 now activeTripSetKey (t_id trip))"

definition handleDriverCancellation ::
    "'s redis_api \<Rightarrow> 's \<Rightarrow> ms \<Rightarrow> string \<Rightarrow> string \<Rightarrow> string \<Rightarrow> bool \<Rightarrow> (store_error + Trip) \<times> 's" where
  "handleDriverCancellation R s now tripId driverId reason autoRematch =
    (case rs_getTrip R s now tripId of
       Inl e \<Rightarrow> (Inl e, s)
     | Inr None \<Rightarrow> (Inl (StoredTripNotFound tripId), s)
     | Inr (Some trip) \<Rightarrow>
         if t_driverId trip \<noteq> Some driverId then (Inl (DriverNotAssigned driverId tripId), s)
         else
           let trip1 = (if autoRematch then trip\<lparr>t_status := Matching, t_driverId := None, t_matchedAt := None\<rparr>
                        else trip\<lparr>t_status := Cancelled, t_cancelledAt := Some now, t_cancelledBy := Some Driver,
                                  t_cancellationReason := Some reason\<rparr>)
           in (Inr trip1, saveTrip R s now trip1))"

section \<open>Reconciliation\<close>

text \<open>Whether a stored trip is over or too old, and the trip as it is stored then.\<close>

definition reapable :: "ms \<Rightarrow> ms \<Rightarrow> Trip \<Rightarrow> bool" where
  "reapable now maxAge trip =
    ((t_status trip = Completed \<or> t_status trip = Cancelled) \<or> now - t_createdAt trip > maxAge)"

definition abandon :: "'s redis_api \<Rightarrow> 's \<Rightarrow> ms \<Rightarrow> string \<Rightarrow> Trip \<Rightarrow> 's" where
  "abandon R s now tripId trip =
    (if t_status trip = Completed \<or> t_status trip = Cancelled then s
     else rd_set R s now (tripKey tripId)
       (Json (trip\<lparr>t_status := Cancelled, t_cancellationReason := Some ''Abandoned due to server restart or timeout'',
                   t_cancelledAt := Some now\<rparr>)))"

definition reconcile_rider ::
    "'s redis_api \<Rightarrow> ms \<Rightarrow> ms \<Rightarrow> string list \<Rightarrow> (store_error + nat) \<times> 's \<Rightarrow> string \<Rightarrow> (store_error + nat) \<times> 's" where
  "reconcile_rider R now maxAge activeTripIds acc riderKey =
    (case acc of
       (Inl e, s) \<Rightarrow> (Inl e, s)
     | (Inr cleaned, s) \<Rightarrow>
         (case id_at R s now riderKey of
            None \<Rightarrow> (Inr (cleaned + 1), rd_del R s now riderKey)
          | Some tripId \<Rightarrow>
              if tripId \<notin> set activeTripIds then (Inr (cleaned + 1), rd_del R s now riderKey)
              else
                (case rs_getTrip R s now tripId of
                   Inl e \<Rightarrow> (Inl e, s)
                 | Inr None \<Rightarrow> (Inr (cleaned + 1), rd_srem R (rd_del R s now riderKey) now activeTripSetKey tripId)
                 | Inr (Some trip) \<Rightarrow>
                     if reapable now maxAge trip then
                       (Inr (cleaned + 1),
                        rd_srem R (rd_del R (abandon R s now tripId trip) now riderKey) now activeTripSetKey tripId)
                     else (Inr cleaned, s))))"

definition reconcile_trip ::
    "'s redis_api \<Rightarrow> ms \<Rightarrow> ms \<Rightarrow> (store_error + nat) \<times> 's \<Rightarrow> string \<Rightarrow> (store_error + nat) \<times> 's" where
  "reconcile_trip R now maxAge acc tripId =
    (case acc of
       (Inl e, s) \<Rightarrow> (Inl e, s)
     | (Inr cleaned, s) \<Rightarrow>
         (case rs_getTrip R s now tripId of
            Inl e \<Rightarrow> (Inl e, s)
          | Inr None \<Rightarrow> (Inr (cleaned + 1), rd_srem R s now activeTripSetKey tripId)
          | Inr (Some trip) \<Rightarrow>
              if reapable now maxAge trip then
                (Inr (cleaned + 1),
                 rd_del R (rd_srem R (abandon R s now tripId trip) now activeTripSetKey tripId) now
                   (riderActiveKey (t_riderId trip)))
              else (Inr cleaned, s)))"

definition reconcileOrphanedTrips :: "'s redis_api \<Rightarrow> 's \<Rightarrow> ms \<Rightarrow> ms \<Rightarrow> (store_error + nat) \<times> 's" where
  "reconcileOrphanedTrips R s now maxStaleMatchingAgeMs =
    (let activeTripIds = rd_smembers R s now activeTripSetKey;
         riderKeys = rd_scan R s now riderActivePrefix
     in foldl (reconcile_trip R now maxStaleMatchingAgeMs)
          (foldl (reconcile_rider R now maxStaleMatchingAgeMs activeTripIds) (Inr 0, s) riderKeys) activeTripIds)"

section \<open>Facts\<close>

lemma store_keys [simp]:
  "tripKey a = tripKey b \<longleftrightarrow> a = b" "requestKey a = requestKey b \<longleftrightarrow> a = b" "riderActiveKey a = riderActiveKey b \<longleftrightarrow> a = b"
  "tripKey a \<noteq> requestKey b" "requestKey b \<noteq> tripKey a" "tripKey a \<noteq> riderActiveKey b" "riderActiveKey b \<noteq> tripKey a"
  "requestKey a \<noteq> riderActiveKey b" "riderActiveKey b \<noteq> requestKey a"
  "requestKey a \<noteq> activeTripSetKey" "activeTripSetKey \<noteq> requestKey a" "riderActiveKey a \<noteq> activeTripSetKey"
  "activeTripSetKey \<noteq> riderActiveKey a" "tripKey (''trip_'' @ u) \<noteq> activeTripSetKey" "activeTripSetKey \<noteq> tripKey (''trip_'' @ u)"
  by (simp_all add: tripKey_def requestKey_def riderActiveKey_def riderActivePrefix_def activeTripSetKey_def)

context redis_server
begin

lemma create_cases:
  assumes "rs_createTrip R s now trip = (res, s')"
  obtains (again) v where "rd_get R s now (requestKey (t_requestId trip)) = Some v" "s' = s"
      "res = (case rs_getTrip R s now (text_of v) of Inl e \<Rightarrow> Inl e | Inr (Some t) \<Rightarrow> Inr t | Inr None \<Rightarrow> Inr trip)"
  | (refused) v where "rd_get R s now (requestKey (t_requestId trip)) = None"
      "rd_get R s now (riderActiveKey (t_riderId trip)) = Some v" "s' = s" "res = Inl (RiderActiveElsewhere (t_riderId trip))"
  | (created) "rd_get R s now (requestKey (t_requestId trip)) = None"
      "rd_get R s now (riderActiveKey (t_riderId trip)) = None" "res = Inr trip"
      "\<And>t k. now \<le> t \<Longrightarrow> rd_get R s' t k =
        (if k = tripKey (t_id trip) then Some (Json trip)
         else if k = requestKey (t_requestId trip) then Some (Raw (t_id trip))
         else if k = riderActiveKey (t_riderId trip) then (if t < now + 7200000 then Some (Raw (t_id trip)) else None)
         else rd_get R s t k)"
      "\<And>t. now \<le> t \<Longrightarrow> tripKey (t_id trip) \<noteq> activeTripSetKey \<Longrightarrow>
        set (rd_smembers R s' t activeTripSetKey) = insert (t_id trip) (set (rd_smembers R s t activeTripSetKey))"
proof (cases "rd_get R s now (requestKey (t_requestId trip))")
  case (Some v)
  then have "rs_createTrip R s now trip =
      ((case rs_getTrip R s now (text_of v) of Inl e \<Rightarrow> Inl e | Inr (Some t) \<Rightarrow> Inr t | Inr None \<Rightarrow> Inr trip), s)"
    by (simp add: rs_createTrip_def create_trip_lua_def split: sum.split option.split)
  then show thesis using assms by (intro again [OF Some]) auto
next
  case None
  show thesis
  proof (rule set_nx_cases [of s now "riderActiveKey (t_riderId trip)" "Raw (t_id trip)" "RIDER_ACTIVE_SAFETY_TTL_SEC * 1000"])
    fix v assume "rd_get R s now (riderActiveKey (t_riderId trip)) = Some v"
      "rd_set_nx R s now (riderActiveKey (t_riderId trip)) (Raw (t_id trip)) (RIDER_ACTIVE_SAFETY_TTL_SEC * 1000) = (False, s)"
    then show thesis using assms None by (intro refused) (auto simp: rs_createTrip_def create_trip_lua_def)
  next
    assume "\<not> whole_ms (RIDER_ACTIVE_SAFETY_TTL_SEC * 1000)"
    then show thesis by (simp add: RIDER_ACTIVE_SAFETY_TTL_SEC_def)
  next
    fix s1
    assume a: "rd_get R s now (riderActiveKey (t_riderId trip)) = None"
      and nx: "rd_set_nx R s now (riderActiveKey (t_riderId trip)) (Raw (t_id trip)) (RIDER_ACTIVE_SAFETY_TTL_SEC * 1000) = (True, s1)"
      and b: "\<And>t k. now \<le> t \<Longrightarrow> rd_get R s1 t k = (if k = riderActiveKey (t_riderId trip)
         then (if t < now + RIDER_ACTIVE_SAFETY_TTL_SEC * 1000 then Some (Raw (t_id trip)) else None) else rd_get R s t k)"
      "\<And>t k. now \<le> t \<Longrightarrow> k \<noteq> riderActiveKey (t_riderId trip) \<Longrightarrow> set (rd_smembers R s1 t k) = set (rd_smembers R s t k)"
    have s': "s' = rd_sadd R (rd_set R (rd_set R s1 now (requestKey (t_requestId trip)) (Raw (t_id trip))) now
        (tripKey (t_id trip)) (Json trip)) now activeTripSetKey (t_id trip)" and res: "res = Inr trip"
      using assms None nx by (simp_all add: rs_createTrip_def create_trip_lua_def)
    have ttl: "RIDER_ACTIVE_SAFETY_TTL_SEC * 1000 = 7200000" by (simp add: RIDER_ACTIVE_SAFETY_TTL_SEC_def)
    show thesis
    proof (rule created [OF None a res])
      fix t k assume t: "now \<le> t"
      show "rd_get R s' t k = (if k = tripKey (t_id trip) then Some (Json trip)
         else if k = requestKey (t_requestId trip) then Some (Raw (t_id trip))
         else if k = riderActiveKey (t_riderId trip) then (if t < now + 7200000 then Some (Raw (t_id trip)) else None)
         else rd_get R s t k)"
        unfolding s' get_others(2) [OF t] get_set [OF t] b(1) [OF t] ttl by simp
    next
      fix t assume t: "now \<le> t" and k: "tripKey (t_id trip) \<noteq> activeTripSetKey"
      show "set (rd_smembers R s' t activeTripSetKey) = insert (t_id trip) (set (rd_smembers R s t activeTripSetKey))"
        unfolding s' using smembers_sadd [OF t] smembers_others(1) [OF t] b(2) [OF t] k by simp
    qed
  qed
qed

lemma save_get:
  assumes "now \<le> t"
  shows "rd_get R (saveTrip R s now trip) t k =
    (if terminal (t_status trip) \<and> k = riderActiveKey (t_riderId trip) then None
     else if k = tripKey (t_id trip) then Some (Json trip) else rd_get R s t k)"
  unfolding saveTrip_def Let_def terminal_def
  using get_del [OF assms] get_others [OF assms] get_set [OF assms] by simp

lemma save_members:
  assumes "now \<le> t" and "tripKey (t_id trip) \<noteq> activeTripSetKey"
  shows "set (rd_smembers R (saveTrip R s now trip) t activeTripSetKey) =
    (if terminal (t_status trip) then set (rd_smembers R s t activeTripSetKey) - {t_id trip}
     else insert (t_id trip) (set (rd_smembers R s t activeTripSetKey)))"
  unfolding saveTrip_def Let_def terminal_def
  using smembers_others [OF assms(1)] smembers_sadd [OF assms(1)] smembers_srem [OF assms(1)] assms(2) by simp

end

end
