(* ===== verification/RedisReconcile.thy ===== *)
theory RedisReconcile
  imports RedisTripStore
begin

text \<open>
  What a reconciliation of the shared trip store does to each active trip.  The two loops of
  \<open>reconcileOrphanedTrips\<close> may meet a trip twice, once through its rider's key and once
  through the active set; the invariant here says that a trip is either untouched and active, or has
  been taken out in its final form.
\<close>

section \<open>A trip that is taken out\<close>

definition reaped :: "ms \<Rightarrow> Trip \<Rightarrow> Trip" where
  "reaped now t =
    (if terminal (t_status t) then t
     else t\<lparr>t_status := Cancelled, t_cancellationReason := Some ''Abandoned due to server restart or timeout'',
            t_cancelledAt := Some now\<rparr>)"

lemma reaped_reaped [simp]: "reaped now (reaped now t) = reaped now t"
  by (simp add: reaped_def terminal_def)

lemma reapable_reaped [simp]: "reapable now a t \<Longrightarrow> reapable now a (reaped now t)"
  by (simp add: reapable_def reaped_def terminal_def)

lemma reaped_rider [simp]: "t_riderId (reaped now t) = t_riderId t"
  by (simp add: reaped_def)

text \<open>
  \<open>g\<close> and \<open>M\<close> are the stored trips and the active set, \<open>tr\<close> the trips before.
\<close>

definition rec_inv ::
    "ms \<Rightarrow> ms \<Rightarrow> string set \<Rightarrow> (string \<Rightarrow> Trip option) \<Rightarrow> (string \<Rightarrow> store_error + Trip option) \<Rightarrow> string set \<Rightarrow> bool" where
  "rec_inv now a A tr g M =
    (M \<subseteq> A \<and> (\<forall>i\<in>A. (i \<in> M \<and> g i = Inr (tr i)) \<or>
       (i \<notin> M \<and> (case tr i of None \<Rightarrow> g i = Inr None | Some t \<Rightarrow> reapable now a t \<and> g i = Inr (Some (reaped now t))))))"

lemma rec_invD:
  assumes "rec_inv now a A tr g M" and "i \<in> A"
  obtains (active) "i \<in> M" "g i = Inr (tr i)"
  | (missing) "i \<notin> M" "tr i = None" "g i = Inr None"
  | (taken) t where "i \<notin> M" "tr i = Some t" "reapable now a t" "g i = Inr (Some (reaped now t))"
proof -
  have "(i \<in> M \<and> g i = Inr (tr i)) \<or>
      (i \<notin> M \<and> (case tr i of None \<Rightarrow> g i = Inr None | Some t \<Rightarrow> reapable now a t \<and> g i = Inr (Some (reaped now t))))"
    using assms unfolding rec_inv_def by blast
  then show thesis using that by (cases "tr i") auto
qed

lemma rec_inv_missing:
  assumes "rec_inv now a A tr g M" and "g i = Inr None"
  shows "rec_inv now a A tr g (M - {i})"
  unfolding rec_inv_def
proof (intro conjI ballI)
  show "M - {i} \<subseteq> A" using assms(1) by (auto simp: rec_inv_def)
  fix j assume j: "j \<in> A"
  from assms(1) j show "(j \<in> M - {i} \<and> g j = Inr (tr j)) \<or>
    (j \<notin> M - {i} \<and> (case tr j of None \<Rightarrow> g j = Inr None | Some t \<Rightarrow> reapable now a t \<and> g j = Inr (Some (reaped now t))))"
    by (cases rule: rec_invD) (use assms(2) in auto)
qed

lemma rec_inv_taken:
  assumes "rec_inv now a A tr g M" and "g i = Inr (Some t)" and "reapable now a t"
  shows "rec_inv now a A tr (g(i := Inr (Some (reaped now t)))) (M - {i})"
  unfolding rec_inv_def
proof (intro conjI ballI)
  show "M - {i} \<subseteq> A" using assms(1) by (auto simp: rec_inv_def)
  fix j assume j: "j \<in> A"
  let ?g = "g(i := Inr (Some (reaped now t)))"
  show "(j \<in> M - {i} \<and> ?g j = Inr (tr j)) \<or>
    (j \<notin> M - {i} \<and> (case tr j of None \<Rightarrow> ?g j = Inr None | Some t \<Rightarrow> reapable now a t \<and> ?g j = Inr (Some (reaped now t))))"
  proof (cases "j = i")
    case False
    from assms(1) j show ?thesis by (cases rule: rec_invD) (use False in auto)
  next
    case True
    have "\<exists>t0. tr j = Some t0 \<and> reapable now a t0 \<and> reaped now t0 = reaped now t"
    proof (use assms(1) j in \<open>cases rule: rec_invD\<close>)
      case active
      then have "tr j = Some t" using assms(2) True by simp
      then show ?thesis using assms(3) by blast
    next
      case missing
      then show ?thesis using assms(2) True by simp
    next
      case (taken t0)
      then have "t = reaped now t0" using assms(2) True by simp
      then show ?thesis using taken by simp
    qed
    then show ?thesis using True by auto
  qed
qed

section \<open>On the server\<close>

context redis_server
begin

abbreviation active_set :: "'s \<Rightarrow> ms \<Rightarrow> string set" where
  "active_set s now \<equiv> set (rd_smembers R s now activeTripSetKey)"

definition rec_state :: "ms \<Rightarrow> ms \<Rightarrow> string set \<Rightarrow> (string \<Rightarrow> Trip option) \<Rightarrow> 's \<Rightarrow> bool" where
  "rec_state now a A tr s = rec_inv now a A tr (rs_getTrip R s now) (active_set s now)"

text \<open>Three effects on what is stored: a rider's key goes, an entry of the active set goes, a trip is abandoned.\<close>

lemma getTrip_del:
  "k \<noteq> activeTripSetKey \<Longrightarrow> (\<And>i. k \<noteq> tripKey i) \<Longrightarrow>
    rs_getTrip R (rd_del R s now k) now = rs_getTrip R s now \<and> active_set (rd_del R s now k) now = active_set s now"
  by (auto simp: rs_getTrip_def fun_eq_iff get_del smembers_others)

lemma getTrip_srem:
  "rs_getTrip R (rd_srem R s now activeTripSetKey i) now = rs_getTrip R s now \<and>
   active_set (rd_srem R s now activeTripSetKey i) now = active_set s now - {i}"
  by (auto simp: rs_getTrip_def fun_eq_iff get_others smembers_srem)

lemma getTrip_abandon:
  assumes "rs_getTrip R s now i = Inr (Some t)" and "tripKey i \<noteq> activeTripSetKey"
  shows "rs_getTrip R (abandon R s now i t) now = (rs_getTrip R s now)(i := Inr (Some (reaped now t)))"
    and "active_set (abandon R s now i t) now = active_set s now"
    and "rd_get R (abandon R s now i t) now (riderActiveKey r) = rd_get R s now (riderActiveKey r)"
  using assms by (auto simp: abandon_def reaped_def terminal_def rs_getTrip_def fun_eq_iff get_set smembers_others)

lemma rider_key: "prefix riderActivePrefix k \<Longrightarrow> k \<noteq> activeTripSetKey \<and> k \<noteq> tripKey i"
  by (auto simp: prefix_def riderActivePrefix_def activeTripSetKey_def tripKey_def)

lemma reconcile_rider_step:
  assumes "rec_state now a A tr s" and "set ids = A" and "\<And>i. i \<in> A \<Longrightarrow> tripKey i \<noteq> activeTripSetKey" and "prefix riderActivePrefix k"
  obtains n' s' where "reconcile_rider R now a ids (Inr n, s) k = (Inr n', s')" "rec_state now a A tr s'"
proof -
  note k = rider_key [OF assms(4)]
  have del: "rec_state now a A tr (rd_del R s1 now k)" if "rec_state now a A tr s1" for s1
    using that getTrip_del [of k s1 now] k by (simp add: rec_state_def)
  show thesis
  proof (cases "id_at R s now k")
    case None
    then show thesis using that [of "n + 1" "rd_del R s now k"] del [OF assms(1)] by (simp add: reconcile_rider_def)
  next
    case (Some i)
    show thesis
    proof (cases "i \<in> A")
      case False
      then show thesis using that [of "n + 1" "rd_del R s now k"] del [OF assms(1)] Some assms(2) by (simp add: reconcile_rider_def)
    next
      case True
      note ne = assms(3) [OF True]
      obtain x where x: "rs_getTrip R s now i = Inr x"
        using assms(1) True unfolding rec_state_def by (cases rule: rec_invD) auto
      show thesis
      proof (cases x)
        case None
        have "rec_state now a A tr (rd_srem R (rd_del R s now k) now activeTripSetKey i)"
          using rec_inv_missing [OF assms(1) [unfolded rec_state_def]] x None
            getTrip_srem [of "rd_del R s now k" now i] getTrip_del [of k s now] k by (simp add: rec_state_def)
        then show thesis
          using that [of "n + 1"] x None Some True assms(2) by (simp add: reconcile_rider_def)
      next
        case (Some t)
        show thesis
        proof (cases "reapable now a t")
          case False
          then show thesis using that [of n s] assms(1,2) x Some \<open>id_at R s now k = Some i\<close> True by (simp add: reconcile_rider_def)
        next
          case reap: True
          have "rec_state now a A tr (rd_srem R (rd_del R (abandon R s now i t) now k) now activeTripSetKey i)"
            using rec_inv_taken [OF assms(1) [unfolded rec_state_def], of i t] x Some reap
              getTrip_srem [of "rd_del R (abandon R s now i t) now k" now i] getTrip_del [of k "abandon R s now i t" now]
              getTrip_abandon [of s now i t, OF _ ne] k by (simp add: rec_state_def)
          then show thesis
            using that [of "n + 1"] x Some reap \<open>id_at R s now k = Some i\<close> True assms(2) by (simp add: reconcile_rider_def)
        qed
      qed
    qed
  qed
qed

lemma reconcile_rider_fold:
  assumes "rec_state now a A tr s" and "set ids = A" and "\<And>i. i \<in> A \<Longrightarrow> tripKey i \<noteq> activeTripSetKey"
    and "\<forall>k\<in>set ks. prefix riderActivePrefix k"
  shows "\<exists>n' s'. foldl (reconcile_rider R now a ids) (Inr n, s) ks = (Inr n', s') \<and> rec_state now a A tr s'"
  using assms(1,4)
proof (induction ks arbitrary: n s)
  case Nil
  then show ?case by simp
next
  case (Cons k ks)
  have "prefix riderActivePrefix k" using Cons.prems(2) by simp
  from reconcile_rider_step [OF Cons.prems(1) assms(2,3) this]
  obtain n1 s1 where s1: "reconcile_rider R now a ids (Inr n, s) k = (Inr n1, s1)" "rec_state now a A tr s1" by blast
  from Cons.IH [OF s1(2)] Cons.prems(2) show ?case by (simp add: s1(1))
qed

text \<open>The second loop: what it has met and had to take out is out, and its rider is free.\<close>

definition rec_done :: "ms \<Rightarrow> ms \<Rightarrow> (string \<Rightarrow> Trip option) \<Rightarrow> 's \<Rightarrow> string \<Rightarrow> bool" where
  "rec_done now a tr s i =
    (case tr i of
       None \<Rightarrow> i \<notin> active_set s now
     | Some t \<Rightarrow> reapable now a t \<longrightarrow> i \<notin> active_set s now \<and> rd_get R s now (riderActiveKey (t_riderId t)) = None)"

lemma reconcile_trip_step:
  assumes "rec_state now a A tr s" and "i \<in> A" and "tripKey i \<noteq> activeTripSetKey"
  obtains n' s' where "reconcile_trip R now a (Inr n, s) i = (Inr n', s')" "rec_state now a A tr s'" "rec_done now a tr s' i"
    "\<And>j. rec_done now a tr s j \<Longrightarrow> rec_done now a tr s' j"
proof -
  note inv = assms(1) [unfolded rec_state_def]
  obtain x where x: "rs_getTrip R s now i = Inr x"
    using inv assms(2) by (cases rule: rec_invD) auto
  have tr: "tr i = None \<longleftrightarrow> x = None" and tri: "tr i = Some t0 \<Longrightarrow> x = Some t0 \<or> x = Some (reaped now t0) \<and> reapable now a t0" for t0
    using inv assms(2) by (cases rule: rec_invD; use x in auto)+
  show thesis
  proof (cases x)
    case None
    let ?s = "rd_srem R s now activeTripSetKey i"
    note e = getTrip_srem [of s now i]
    have "rec_state now a A tr ?s" using rec_inv_missing [OF inv] x None e by (simp add: rec_state_def)
    moreover have "rec_done now a tr ?s i" using tr None e by (simp add: rec_done_def)
    moreover have "rec_done now a tr ?s j" if "rec_done now a tr s j" for j
      using that e get_others(3) [of now now s activeTripSetKey i] by (auto simp: rec_done_def split: option.splits)
    ultimately show thesis using that [of "n + 1" ?s] x None by (simp add: reconcile_trip_def)
  next
    case (Some t)
    show thesis
    proof (cases "reapable now a t")
      case False
      have "rec_done now a tr s i"
        using tr tri Some False reapable_reaped by (fastforce simp: rec_done_def split: option.split)
      then show thesis using that [of n s] assms(1) x Some False by (simp add: reconcile_trip_def)
    next
      case True
      let ?s1 = "abandon R s now i t"
      let ?s2 = "rd_srem R ?s1 now activeTripSetKey i"
      let ?s = "rd_del R ?s2 now (riderActiveKey (t_riderId t))"
      have e: "rs_getTrip R ?s now = (rs_getTrip R s now)(i := Inr (Some (reaped now t)))" "active_set ?s now = active_set s now - {i}"
        using getTrip_abandon(1,2) [of s now i t] x Some assms(3) getTrip_srem [of ?s1 now i]
          getTrip_del [of "riderActiveKey (t_riderId t)" ?s2 now] by simp_all
      have rk: "rd_get R ?s now (riderActiveKey r) = (if r = t_riderId t then None else rd_get R s now (riderActiveKey r))" for r
        using getTrip_abandon(3) [of s now i t r] x Some assms(3) by (simp add: get_del get_others)
      have "rec_state now a A tr ?s" using rec_inv_taken [OF inv, of i t] x Some True e by (simp add: rec_state_def)
      moreover have "rec_done now a tr ?s i"
        using tr tri Some rk e(2) by (fastforce simp: rec_done_def split: option.split)
      moreover have "rec_done now a tr ?s j" if "rec_done now a tr s j" for j
        using that rk e(2) by (auto simp: rec_done_def split: option.splits)
      ultimately show thesis using that [of "n + 1" ?s] x Some True by (simp add: reconcile_trip_def)
    qed
  qed
qed

lemma reconcile_trip_fold:
  assumes "rec_state now a A tr s" and "\<And>i. i \<in> A \<Longrightarrow> tripKey i \<noteq> activeTripSetKey" and "set ids \<subseteq> A"
  shows "\<exists>n' s'. foldl (reconcile_trip R now a) (Inr n, s) ids = (Inr n', s') \<and> rec_state now a A tr s' \<and>
    (\<forall>i\<in>set ids. rec_done now a tr s' i) \<and> (\<forall>j. rec_done now a tr s j \<longrightarrow> rec_done now a tr s' j)"
  using assms(1,3)
proof (induction ids arbitrary: n s)
  case Nil
  then show ?case by simp
next
  case (Cons i ids)
  have i: "i \<in> A" using Cons.prems(2) by simp
  from reconcile_trip_step [OF Cons.prems(1) i assms(2) [OF i]]
  obtain n1 s1 where s1: "reconcile_trip R now a (Inr n, s) i = (Inr n1, s1)" "rec_state now a A tr s1" "rec_done now a tr s1 i"
    "\<And>j. rec_done now a tr s j \<Longrightarrow> rec_done now a tr s1 j" by blast
  have "set ids \<subseteq> A" using Cons.prems(2) by simp
  from Cons.IH [OF s1(2) this, of n1] obtain n2 s2 where s2: "foldl (reconcile_trip R now a) (Inr n1, s1) ids = (Inr n2, s2)"
    "rec_state now a A tr s2" "\<forall>i\<in>set ids. rec_done now a tr s2 i" "\<forall>j. rec_done now a tr s1 j \<longrightarrow> rec_done now a tr s2 j"
    by blast
  show ?case using s1 s2 by auto
qed

lemma reconcile_result:
  assumes "\<forall>i\<in>active_set s now. tripKey i \<noteq> activeTripSetKey \<and> rs_getTrip R s now i = Inr (tr i)"
  shows "\<exists>n s'. reconcileOrphanedTrips R s now a = (Inr n, s') \<and> rec_state now a (active_set s now) tr s' \<and>
    (\<forall>i\<in>active_set s now. rec_done now a tr s' i)"
proof -
  let ?A = "active_set s now"
  have ne: "\<And>i. i \<in> ?A \<Longrightarrow> tripKey i \<noteq> activeTripSetKey" using assms by blast
  have "rec_state now a ?A tr s" using assms by (simp add: rec_state_def rec_inv_def)
  from reconcile_rider_fold [OF this refl ne, of "rd_scan R s now riderActivePrefix" 0]
  obtain n1 s1 where s1: "foldl (reconcile_rider R now a (rd_smembers R s now activeTripSetKey)) (Inr 0, s)
      (rd_scan R s now riderActivePrefix) = (Inr n1, s1)" "rec_state now a ?A tr s1" by (auto simp: scan)
  from reconcile_trip_fold [OF s1(2) ne order_refl, of n1] show ?thesis
    by (auto simp: reconcileOrphanedTrips_def s1(1))
qed

lemma rec_cases:
  assumes "rec_state now a A tr s" and "rec_done now a tr s i" and "i \<in> A"
  shows "case tr i of
      None \<Rightarrow> i \<notin> active_set s now
    | Some t \<Rightarrow>
        if reapable now a t then
          i \<notin> active_set s now \<and> rd_get R s now (riderActiveKey (t_riderId t)) = None \<and>
          rs_getTrip R s now i = Inr (Some (reaped now t))
        else i \<in> active_set s now \<and> rs_getTrip R s now i = Inr (Some t)"
  using assms(1,3) unfolding rec_state_def
  by (cases rule: rec_invD) (use assms(2) in \<open>auto simp: rec_done_def split: option.splits\<close>)

end

end
