(* ===== verification/StoredRides.thy ===== *)
theory StoredRides
  imports MatchingService RedisTripStore
begin

text \<open>
  The methods of the matching service on a node that shares its trips with others through the
  store: \<open>requestRide\<close> and the last part of \<open>cancelRide\<close> with the calls of
  \<open>RedisTripStore\<close>.  The wait for the store is not interrupted here by other steps of the
  node.
\<close>

datatype ride_error = ServiceError service_error | StoreError store_error

definition already_active :: "string \<Rightarrow> string" where
  "already_active riderId = ''Rider '' @ riderId @ '' already has an active trip.''"

text \<open>
  Only \<open>storeRes.success\<close> is looked at, not \<open>storeRes.trip\<close>; a value that is not a
  trip makes the store throw, and the exception leaves \<open>requestRide\<close>.
\<close>

definition requestRide_stored ::
    "'s redis_api \<Rightarrow> MatchingService \<Rightarrow> 's \<Rightarrow> ms \<Rightarrow> string \<Rightarrow> string \<Rightarrow> string \<Rightarrow> jsval \<Rightarrow> jsval \<Rightarrow> MatchConfig \<Rightarrow>
     (ride_error + Trip) \<times> MatchingService \<times> 's" where
  "requestRide_stored R s rs now uuid requestId riderId pickup dropoff config =
    (case createTrip (stateMachine s) now uuid requestId riderId pickup dropoff of
       (Inl e, m1) \<Rightarrow> (Inl (ServiceError (TripError e)), s\<lparr>stateMachine := m1\<rparr>, rs)
     | (Inr trip, m1) \<Rightarrow>
         (case rs_createTrip R rs now trip of
            (Inl e, rs1) \<Rightarrow>
              (Inl (StoreError e),
               s\<lparr>stateMachine :=
                   (if e = RiderActiveElsewhere (t_riderId trip)
                    then snd (cancelTrip m1 now (t_id trip) System (Some (already_active (t_riderId trip))))
                    else m1)\<rparr>, rs1)
          | (Inr _, rs1) \<Rightarrow>
              if t_status trip \<noteq> Requested then (Inr trip, s\<lparr>stateMachine := m1\<rparr>, rs1)
              else
                (case startMatching m1 now (t_id trip) of
                   (Inl e, m2) \<Rightarrow> (Inl (ServiceError (TripError e)), s\<lparr>stateMachine := m2\<rparr>, rs1)
                 | (Inr (trip2, _), m2) \<Rightarrow>
                     (Inr trip2,
                      dispatchOfferLoop
                        (s\<lparr>stateMachine := m2, abortedRequests := abortedRequests s - {requestId}\<rparr>) now trip2 config,
                      rs1))))"

definition cancel_trip_part_stored ::
    "'s redis_api \<Rightarrow> MatchingService \<Rightarrow> 's \<Rightarrow> ms \<Rightarrow> string \<Rightarrow> ActorRole \<Rightarrow> string option \<Rightarrow>
     (service_error + unit) \<times> MatchingService \<times> 's" where
  "cancel_trip_part_stored R s rs now requestId by reason =
    (let (res, s1) = cancel_trip_part s now requestId by reason
     in case getTripByRequestId (stateMachine s) requestId of
          None \<Rightarrow> (res, s1, rs)
        | Some trip \<Rightarrow>
            (res, s1,
             case getTrip (stateMachine s1) (t_id trip) of
               Some t \<Rightarrow> saveTrip R rs now t
             | None \<Rightarrow> rs))"

section \<open>Facts\<close>

text \<open>A request that the node does not know yet makes a trip of its own and a matching loop for it.\<close>

definition started :: "ms \<Rightarrow> string \<Rightarrow> string \<Rightarrow> string \<Rightarrow> GeoPoint \<Rightarrow> GeoPoint \<Rightarrow> Trip" where
  "started now uuid requestId riderId pk dr = (newTrip now uuid requestId riderId pk dr)\<lparr>t_status := Matching\<rparr>"

lemma startMatching_new:
  assumes "jm_get (trips m) (t_id trip) = Some trip" and "t_status trip = Requested" and "t_driverId trip = None"
  shows "\<exists>ev m'. startMatching m now (t_id trip) =
    (Inr (trip\<lparr>t_status := Matching, t_matchedAt := None, t_arrivedAt := None\<rparr>, ev), m')"
  using assms by (simp add: startMatching_def transition_def Let_def)

lemma createTrip_new:
  assumes "jm_get (requestToTrip m) req = None" and "\<not> jm_has (activeRiderTrips m) rider"
    and "geo_point_of pickup = Some pk" and "geo_point_of dropoff = Some dr"
  shows "\<exists>m'. createTrip m now uuid req rider pickup dropoff = (Inr (newTrip now uuid req rider pk dr), m') \<and>
    jm_get (trips m') (''trip_'' @ uuid) = Some (newTrip now uuid req rider pk dr)"
  using assms by (simp add: createTrip_def truthy_def Let_def recordEvent_def newTrip_def)

lemma requestRide_stored_new:
  assumes "jm_get (requestToTrip (stateMachine s)) req = None" and "\<not> jm_has (activeRiderTrips (stateMachine s)) rider"
    and "geo_point_of pickup = Some pk" and "geo_point_of dropoff = Some dr"
    and "rs_createTrip R rs now (newTrip now uuid req rider pk dr) = (Inr t, rs')"
  shows "\<exists>s'. requestRide_stored R s rs now uuid req rider pickup dropoff cf = (Inr (started now uuid req rider pk dr), s', rs')"
proof -
  obtain m' where m': "createTrip (stateMachine s) now uuid req rider pickup dropoff = (Inr (newTrip now uuid req rider pk dr), m')"
    "jm_get (trips m') (t_id (newTrip now uuid req rider pk dr)) = Some (newTrip now uuid req rider pk dr)"
    using createTrip_new [OF assms(1-4), of now uuid] by (auto simp: newTrip_def)
  obtain ev m2 where m2: "startMatching m' now (t_id (newTrip now uuid req rider pk dr)) =
      (Inr (started now uuid req rider pk dr, ev), m2)"
    using startMatching_new [OF m'(2), of now] by (auto simp: newTrip_def started_def)
  have st: "t_status (newTrip now uuid req rider pk dr) = Requested" by (simp add: newTrip_def)
  show ?thesis by (simp add: requestRide_stored_def m'(1) assms(5) st m2)
qed

end
