(* ===== verification/RedisProperties.thy ===== *)
theory RedisProperties
  imports RedisLock RedisReconcile StoredRides
begin

text \<open>
  What the lock and the trip store in Redis promise, for every server that keeps the laws of
  \<open>redis_server\<close>, and where the code around them fails to use it.  The witnesses run on the
  server \<open>mem_redis\<close>.
\<close>

section \<open>Lemmas\<close>

context redis_server
begin

lemma lock_protects:
  assumes "lock_store R now s" and "rl_acquireLock R s now d r ttl = (True, s1)"
    and "sorted (now # map lc_time cs @ [t])" and "t < now + ttl" and "\<forall>c\<in>set cs. lc_driver c = d \<longrightarrow> lc_request c \<noteq> r"
  shows "lock_holder R (snd (lock_run R s1 cs)) t d = Some r \<and> fst (rl_commitTrip R (snd (lock_run R s1 cs)) t d r) \<and>
    (\<forall>i<length cs. lc_driver (cs ! i) = d \<and> (\<nexists>now d2 r2. cs ! i = Release now d2 r2) \<longrightarrow> \<not> fst (lock_run R s1 cs) ! i)"
proof -
  have nt: "now \<le> t" using assms(3) by simp
  have "lock_store R now s1" using acquire_store [OF assms(1), of d r ttl] assms(2) by simp
  moreover have "lock_holder R s1 t d = Some r"
    using lock.acquire_grants [OF assms(1,2) nt, of d] assms(4) by simp
  ultimately show ?thesis using lock.lease_protects [OF _ _ assms(3,5)] by (simp add: lock_run_eq)
qed

lemma engaged_protects:
  assumes "rl_commitTrip R s now d r = (True, s1)" and "sorted (now # map lc_time cs @ [t])"
  shows "engaged R t (snd (lock_run R s1 cs)) d"
    and "\<forall>i<length cs. lc_driver (cs ! i) = d \<longrightarrow> \<not> fst (lock_run R s1 cs) ! i"
proof -
  have st: "sorted (now # map lc_time cs)" and le: "last (now # map lc_time cs) \<le> t"
    using assms(2) by (auto simp: sorted_append last_map)
  note e = engaged_run [OF commit_engages [OF assms(1)] st]
  then show "engaged R t (snd (lock_run R s1 cs)) d" using le by (auto simp: engaged_def)
  from e show "\<forall>i<length cs. lc_driver (cs ! i) = d \<longrightarrow> \<not> fst (lock_run R s1 cs) ! i" by blast
qed

lemma released_is_free:
  assumes "engaged R t s d"
  shows "fst (rl_acquireLock R (snd (releaseCommittedDriver R s t d ''available'')) t d q ttl) \<longleftrightarrow> whole_ms ttl"
proof -
  let ?s = "snd (releaseCommittedDriver R s t d ''available'')"
  have "rd_hget R ?s t (stateKey d) ''status'' = Some ''available''" and "rd_get R ?s t (lockKey d) = None"
    using engagedD [OF assms order_refl] by (simp_all add: releaseCommittedDriver_def hget_hset get_others)
  then show ?thesis by (simp add: acquire_fst)
qed

lemma created_get:
  assumes "rs_createTrip R s now trip = (Inr trip, s')" and "rd_get R s now (requestKey (t_requestId trip)) = None" and "now \<le> t"
  shows "rd_get R s' t k =
    (if k = tripKey (t_id trip) then Some (Json trip)
     else if k = requestKey (t_requestId trip) then Some (Raw (t_id trip))
     else if k = riderActiveKey (t_riderId trip) then (if t < now + 7200000 then Some (Raw (t_id trip)) else None)
     else rd_get R s t k)"
  using assms(1) by (cases rule: create_cases) (use assms(2,3) in auto)

lemma create_free:
  assumes "rs_createTrip R s now trip = (res, s')" and "rd_get R s now (requestKey (t_requestId trip)) = None"
    and "rd_get R s now (riderActiveKey (t_riderId trip)) = None"
  shows "res = Inr trip"
  using assms(1) by (cases rule: create_cases) (use assms(2,3) in auto)

lemma created_reads_back:
  assumes "rs_createTrip R s now trip = (Inr trip, s')" and "rd_get R s now (requestKey (t_requestId trip)) = None"
    and "t_id trip \<noteq> []" and "now \<le> t"
  shows "rs_getTrip R s' t (t_id trip) = Inr (Some trip)"
    and "rs_getTripByRequestId R s' t (t_requestId trip) = Inr (Some trip)"
    and "t < now + 7200000 \<Longrightarrow> rs_getActiveTripByRiderId R s' t (t_riderId trip) = Inr (Some trip)"
    and "t_requestId again = t_requestId trip \<Longrightarrow> rs_createTrip R s' t again = (Inr trip, s')"
    and "t < now + 7200000 \<Longrightarrow> t_riderId other = t_riderId trip \<Longrightarrow> rd_get R s t (requestKey (t_requestId other)) = None \<Longrightarrow>
      t_requestId other \<noteq> t_requestId trip \<Longrightarrow>
      rs_createTrip R s' t other = (Inl (RiderActiveElsewhere (t_riderId trip)), s')"
proof -
  note g = created_get [OF assms(1,2,4)]
  show trip: "rs_getTrip R s' t (t_id trip) = Inr (Some trip)" by (simp add: rs_getTrip_def g)
  show "rs_getTripByRequestId R s' t (t_requestId trip) = Inr (Some trip)"
    using assms(3) trip by (simp add: rs_getTripByRequestId_def id_at_def g)
  show "rs_getActiveTripByRiderId R s' t (t_riderId trip) = Inr (Some trip)" if "t < now + 7200000"
    using assms(3) trip that by (simp add: rs_getActiveTripByRiderId_def id_at_def g)
  show "rs_createTrip R s' t again = (Inr trip, s')" if "t_requestId again = t_requestId trip"
    using that trip by (simp add: rs_createTrip_def create_trip_lua_def g)
  assume o: "t < now + 7200000" "t_riderId other = t_riderId trip" "rd_get R s t (requestKey (t_requestId other)) = None"
    "t_requestId other \<noteq> t_requestId trip"
  obtain res s2 where c: "rs_createTrip R s' t other = (res, s2)" by fastforce
  then show "rs_createTrip R s' t other = (Inl (RiderActiveElsewhere (t_riderId trip)), s')"
    by (cases rule: create_cases) (use o c in \<open>auto simp: g\<close>)
qed

lemma saved_reads_back:
  assumes "now \<le> t"
  shows "rs_getTrip R (saveTrip R s now trip) t i = (if i = t_id trip then Inr (Some trip) else rs_getTrip R s t i)"
    and "terminal (t_status trip) \<Longrightarrow> rs_getActiveTripByRiderId R (saveTrip R s now trip) t (t_riderId trip) = Inr None"
  using save_get [OF assms] by (simp_all add: rs_getTrip_def rs_getActiveTripByRiderId_def id_at_def)

end

section \<open>The lock\<close>

text \<open>
  C19. A lock that \<open>RedisDriverLock.acquireLock\<close> grants excludes every other request until
  its time to live ends: whatever sequence of acquisitions, releases and commits by other requests
  reaches the server in between, no acquisition and no commit of this driver succeeds, the request
  still holds the lock, and its own commit succeeds.
\<close>

theorem redis_lock_is_exclusive:
  assumes "redis_server R" and "lock_store R now s" and "rl_acquireLock R s now d r ttl = (True, s1)"
    and "sorted (now # map lc_time cs @ [t])" and "t < now + ttl"
    and "\<forall>c\<in>set cs. lc_driver c = d \<longrightarrow> lc_request c \<noteq> r" and "r \<noteq> []"
  shows "let (oks, s2) = lock_run R s1 cs in
    getLockHolder R s2 t d = Some r \<and> isLocked R s2 t d \<and> fst (rl_commitTrip R s2 t d r) \<and>
    (\<forall>i<length cs. lc_driver (cs ! i) = d \<and> (\<nexists>now d2 r2. cs ! i = Release now d2 r2) \<longrightarrow> \<not> oks ! i)"
proof -
  note p = redis_server.lock_protects [OF assms(1-6)]
  have "rd_get R (snd (lock_run R s1 cs)) t (lockKey d) = Some (Raw r)"
    using p by (simp add: redis_server.lock_holder_Some [OF assms(1)])
  then show ?thesis using p assms(7) by (cases "lock_run R s1 cs") (simp add: getLockHolder_def isLocked_def)
qed

definition demo_others :: "lease_cmd list" where
  "demo_others = [Acquire 10 ''d1'' ''r2'' 18000, Commit 20 ''d1'' ''r2'', Release 30 ''d1'' ''r2'', Acquire 40 ''d2'' ''r2'' 18000]"

definition demo_locked :: mem_store where
  "demo_locked = snd (rl_acquireLock mem_redis mem_empty 0 ''d1'' ''r1'' 18000)"

lemma mem_empty_get [simp]: "rd_get mem_redis mem_empty t k = None" "rd_hget mem_redis mem_empty t k f = None"
  by (simp_all add: mem_redis_def mem_empty_def mem_get_def)

lemma demo_locked_eq: "rl_acquireLock mem_redis mem_empty 0 ''d1'' ''r1'' 18000 = (True, demo_locked)"
  unfolding demo_locked_def using mem.acquire_fst [of mem_empty 0 "''d1''" "''r1''" 18000] by (simp add: prod_eq_iff)

theorem redis_lock_is_exclusive_witness:
  "let (oks, s2) = lock_run mem_redis demo_locked demo_others in
    getLockHolder mem_redis s2 50 ''d1'' = Some ''r1'' \<and> isLocked mem_redis s2 50 ''d1'' \<and>
    fst (rl_commitTrip mem_redis s2 50 ''d1'' ''r1'') \<and> \<not> oks ! 0 \<and> \<not> oks ! 1"
proof -
  have ls: "lock_store mem_redis 0 mem_empty" by (rule mem.lock_storeI) simp
  have st: "sorted (0 # map lc_time demo_others @ [50])" "(50::ms) < 0 + 18000"
    "\<forall>c\<in>set demo_others. lc_driver c = ''d1'' \<longrightarrow> lc_request c \<noteq> ''r1''" "''r1'' \<noteq> []"
    by (simp_all add: demo_others_def)
  note p = redis_lock_is_exclusive [OF mem.redis_server_axioms ls demo_locked_eq st]
  have c: "length demo_others = 4" "demo_others ! 0 = Acquire 10 ''d1'' ''r2'' 18000" "demo_others ! 1 = Commit 20 ''d1'' ''r2''"
    by (simp_all add: demo_others_def)
  obtain oks s2 where run: "lock_run mem_redis demo_locked demo_others = (oks, s2)" by fastforce
  show ?thesis using p [unfolded run] c unfolding run by auto
qed

text \<open>
  C20. Once a commit has succeeded, the driver is busy for the whole cluster: whatever lock commands
  follow, by whichever request and at whatever time, none of them succeeds for this driver and
  nobody holds its lock, until \<open>releaseCommittedDriver\<close> makes it available again, after which
  the next acquisition succeeds if its time to live is one that Redis takes.
\<close>

theorem committed_driver_stays_engaged:
  assumes "redis_server R" and "rl_commitTrip R s now d r = (True, s1)" and "sorted (now # map lc_time cs @ [t])"
  shows "let (oks, s2) = lock_run R s1 cs in
    (\<forall>i<length cs. lc_driver (cs ! i) = d \<longrightarrow> \<not> oks ! i) \<and>
    rl_acquireLock R s2 t d q ttl = (False, s2) \<and> \<not> isLocked R s2 t d \<and>
    (fst (rl_acquireLock R (snd (releaseCommittedDriver R s2 t d ''available'')) t d q ttl) \<longleftrightarrow> whole_ms ttl)"
proof -
  obtain oks s2 where run: "lock_run R s1 cs = (oks, s2)" by fastforce
  note p = redis_server.engaged_protects [OF assms, unfolded run, simplified]
  show ?thesis
    using p redis_server.engaged_acquire [OF assms(1) p(1) order_refl] redis_server.released_is_free [OF assms(1) p(1)]
      redis_server.engagedD [OF assms(1) p(1) order_refl]
    by (simp add: run isLocked_def getLockHolder_def)
qed

theorem committed_driver_stays_engaged_witness:
  "let s1 = snd (rl_commitTrip mem_redis demo_locked 5 ''d1'' ''r1'') in
   let (oks, s2) = lock_run mem_redis s1 demo_others in
    \<not> oks ! 0 \<and> \<not> isLocked mem_redis s2 50 ''d1'' \<and>
    fst (rl_acquireLock mem_redis (snd (releaseCommittedDriver mem_redis s2 50 ''d1'' ''available'')) 50 ''d1'' ''r2'' 18000)"
proof -
  have "rd_get mem_redis demo_locked 5 (lockKey ''d1'') = Some (Raw ''r1'')"
    using demo_locked_eq by (cases rule: mem.acquire_cases) simp_all
  then have ok: "fst (rl_commitTrip mem_redis demo_locked 5 ''d1'' ''r1'')" by (simp add: mem.commit_fst)
  obtain s1 where s1: "rl_commitTrip mem_redis demo_locked 5 ''d1'' ''r1'' = (True, s1)" using ok by (metis prod.collapse)
  have st: "sorted (5 # map lc_time demo_others @ [50])" by (simp add: demo_others_def)
  have c: "length demo_others = 4" "demo_others ! 0 = Acquire 10 ''d1'' ''r2'' 18000" by (simp_all add: demo_others_def)
  obtain oks s2 where run: "lock_run mem_redis s1 demo_others = (oks, s2)" by fastforce
  show ?thesis
    using committed_driver_stays_engaged [OF mem.redis_server_axioms s1 st, of "''r2''" 18000] c by (auto simp: s1 run)
qed

section \<open>The trip store\<close>

text \<open>
  C21. What \<open>createTrip\<close> of the store accepts is read back: by the trip's identifier, by its
  request, and for two hours by its rider; a retry of the request returns the stored trip and
  changes nothing, and within the two hours every other request of the rider is refused.
\<close>

theorem stored_trip_reads_back:
  assumes "redis_server R" and "rs_createTrip R s now trip = (Inr trip, s')"
    and "rd_get R s now (requestKey (t_requestId trip)) = None" and "t_id trip \<noteq> []" and "now \<le> t" and "t < now + 7200000"
    and "t_requestId again = t_requestId trip"
    and "t_riderId other = t_riderId trip" and "t_requestId other \<noteq> t_requestId trip"
    and "rd_get R s t (requestKey (t_requestId other)) = None"
  shows "rs_getTrip R s' t (t_id trip) = Inr (Some trip) \<and>
    rs_getTripByRequestId R s' t (t_requestId trip) = Inr (Some trip) \<and>
    rs_getActiveTripByRiderId R s' t (t_riderId trip) = Inr (Some trip) \<and>
    rs_createTrip R s' t again = (Inr trip, s') \<and>
    rs_createTrip R s' t other = (Inl (RiderActiveElsewhere (t_riderId trip)), s')"
  using redis_server.created_reads_back [OF assms(1-5)] assms(6-10) by simp

definition demo_stored :: "string \<Rightarrow> string \<Rightarrow> ms \<Rightarrow> Trip" where
  "demo_stored u req now = newTrip now u req ''rider1'' \<lparr>lat = 10, lng = 20\<rparr> \<lparr>lat = 11, lng = 21\<rparr>"

definition demo_store :: mem_store where
  "demo_store = snd (rs_createTrip mem_redis mem_empty 0 (demo_stored ''a'' ''r1'' 0))"

lemma demo_stored_sel [simp]:
  "t_id (demo_stored u req now) = ''trip_'' @ u" "t_requestId (demo_stored u req now) = req" "t_riderId (demo_stored u req now) = ''rider1''"
  "t_createdAt (demo_stored u req now) = now" "t_status (demo_stored u req now) = Requested" "t_driverId (demo_stored u req now) = None"
  by (simp_all add: demo_stored_def newTrip_def)

lemma demo_store_eq: "rs_createTrip mem_redis mem_empty 0 (demo_stored ''a'' ''r1'' 0) = (Inr (demo_stored ''a'' ''r1'' 0), demo_store)"
proof -
  obtain res s' where c: "rs_createTrip mem_redis mem_empty 0 (demo_stored ''a'' ''r1'' 0) = (res, s')" by fastforce
  then have "res = Inr (demo_stored ''a'' ''r1'' 0)" by (cases rule: mem.create_cases) simp_all
  then show ?thesis using c by (simp add: demo_store_def)
qed

theorem stored_trip_reads_back_witness:
  "rs_getActiveTripByRiderId mem_redis demo_store 1000 ''rider1'' = Inr (Some (demo_stored ''a'' ''r1'' 0)) \<and>
   rs_createTrip mem_redis demo_store 1000 (demo_stored ''b'' ''r2'' 1000) = (Inl (RiderActiveElsewhere ''rider1''), demo_store)"
  using stored_trip_reads_back [OF mem.redis_server_axioms demo_store_eq, of 1000 "demo_stored ''a'' ''r1'' 0" "demo_stored ''b'' ''r2'' 1000"]
  by simp

text \<open>
  C22. A reconciliation of the store is exact: with trips that can be read, every entry of the active
  set that has no trip leaves the set; every active trip that is over or older than the limit leaves
  it, frees its rider, and is stored as cancelled unless it was over, whatever its status, a ride
  with the passenger on board included; every other active trip stays as it is.
\<close>

theorem reconcile_is_exact:
  assumes "redis_server R"
    and "\<forall>i\<in>set (rd_smembers R s now activeTripSetKey). tripKey i \<noteq> activeTripSetKey \<and> rs_getTrip R s now i = Inr (tr i)"
  shows "\<exists>n s'. reconcileOrphanedTrips R s now maxAge = (Inr n, s') \<and>
    (\<forall>i\<in>set (rd_smembers R s now activeTripSetKey).
       case tr i of
         None \<Rightarrow> i \<notin> set (rd_smembers R s' now activeTripSetKey)
       | Some t \<Rightarrow>
           if terminal (t_status t) \<or> now - t_createdAt t > maxAge then
             i \<notin> set (rd_smembers R s' now activeTripSetKey) \<and> rd_get R s' now (riderActiveKey (t_riderId t)) = None \<and>
             rs_getTrip R s' now i = Inr (Some
               (if terminal (t_status t) then t
                else t\<lparr>t_status := Cancelled, t_cancellationReason := Some ''Abandoned due to server restart or timeout'',
                       t_cancelledAt := Some now\<rparr>))
           else i \<in> set (rd_smembers R s' now activeTripSetKey) \<and> rs_getTrip R s' now i = Inr (Some t))"
proof -
  from redis_server.reconcile_result [OF assms] obtain n s' where
    s': "reconcileOrphanedTrips R s now maxAge = (Inr n, s')"
      "redis_server.rec_state R now maxAge (set (rd_smembers R s now activeTripSetKey)) tr s'"
      "\<forall>i\<in>set (rd_smembers R s now activeTripSetKey). redis_server.rec_done R now maxAge tr s' i" by blast
  have "case tr i of
         None \<Rightarrow> i \<notin> set (rd_smembers R s' now activeTripSetKey)
       | Some t \<Rightarrow>
           if terminal (t_status t) \<or> now - t_createdAt t > maxAge then
             i \<notin> set (rd_smembers R s' now activeTripSetKey) \<and> rd_get R s' now (riderActiveKey (t_riderId t)) = None \<and>
             rs_getTrip R s' now i = Inr (Some
               (if terminal (t_status t) then t
                else t\<lparr>t_status := Cancelled, t_cancellationReason := Some ''Abandoned due to server restart or timeout'',
                       t_cancelledAt := Some now\<rparr>))
           else i \<in> set (rd_smembers R s' now activeTripSetKey) \<and> rs_getTrip R s' now i = Inr (Some t)"
    if i: "i \<in> set (rd_smembers R s now activeTripSetKey)" for i
    using redis_server.rec_cases [OF assms(1) s'(2) s'(3) [rule_format, OF i] i]
    by (auto simp: reapable_def terminal_def reaped_def split: option.split)
  then show ?thesis using s'(1) by blast
qed

text \<open>One active trip, on board for more than a minute.\<close>

definition demo_onboard :: Trip where
  "demo_onboard = (demo_stored ''a'' ''r1'' 0)\<lparr>t_driverId := Some ''d1'', t_status := In_progress\<rparr>"

definition demo_riding :: mem_store where
  "demo_riding = saveTrip mem_redis mem_empty 1000 demo_onboard"

lemma demo_riding_active [simp]:
  "set (rd_smembers mem_redis demo_riding t activeTripSetKey) = {''trip_a''}"
  by (simp add: demo_riding_def saveTrip_def demo_onboard_def demo_stored_def newTrip_def mem_redis_def mem_members_def mem_empty_def Let_def)

lemma demo_riding_trip: "rs_getTrip mem_redis demo_riding 70000 ''trip_a'' = Inr (Some demo_onboard)"
  using mem.saved_reads_back(1) [of 1000 70000 mem_empty demo_onboard "''trip_a''"]
  by (simp add: demo_riding_def demo_onboard_def)

theorem reconcile_is_exact_witness:
  "\<exists>n s'. reconcileOrphanedTrips mem_redis demo_riding 70000 60000 = (Inr n, s') \<and>
    ''trip_a'' \<notin> set (rd_smembers mem_redis s' 70000 activeTripSetKey) \<and>
    rs_getTrip mem_redis s' 70000 ''trip_a'' = Inr (Some
      (demo_onboard\<lparr>t_status := Cancelled, t_cancellationReason := Some ''Abandoned due to server restart or timeout'',
                     t_cancelledAt := Some 70000\<rparr>))"
proof -
  have "\<forall>i\<in>set (rd_smembers mem_redis demo_riding 70000 activeTripSetKey).
      tripKey i \<noteq> activeTripSetKey \<and> rs_getTrip mem_redis demo_riding 70000 i = Inr ((\<lambda>_. Some demo_onboard) i)"
    unfolding demo_riding_active by (simp add: demo_riding_trip tripKey_def activeTripSetKey_def)
  from reconcile_is_exact [OF mem.redis_server_axioms this, of 60000] show ?thesis
    by (auto simp: demo_onboard_def terminal_def)
qed

text \<open>
  Every save of a trip that is over deletes its rider's key, whatever trip the key names by
  then.  The cancellation of a trip saves it twice, once from the transition and once from
  \<open>cancelRide\<close>; when the second save arrives after the rider's next request, the new trip is
  still stored, but the store finds no active trip of the rider and accepts a third trip beside it.
\<close>

theorem late_save_unlocks_rider:
  assumes "redis_server R" and "rs_createTrip R s now new = (Inr new, s')" and "rd_get R s now (requestKey (t_requestId new)) = None"
    and "t_id new \<noteq> []" and "now \<le> t" and "t_riderId old = t_riderId new" and "t_id old \<noteq> t_id new" and "terminal (t_status old)"
    and "t_riderId third = t_riderId new" and "t_requestId third \<noteq> t_requestId new"
    and "rd_get R s t (requestKey (t_requestId third)) = None"
  shows "let s2 = saveTrip R s' t old in
    rs_getTrip R s2 t (t_id new) = Inr (Some new) \<and> rs_getActiveTripByRiderId R s2 t (t_riderId new) = Inr None \<and>
    fst (rs_createTrip R s2 t third) = Inr third"
proof -
  let ?s2 = "saveTrip R s' t old"
  note sg = redis_server.save_get [OF assms(1) order_refl [of t], where s = s' and trip = old]
  note rb = redis_server.saved_reads_back [OF assms(1) order_refl [of t], where s = s' and trip = old]
  have new: "rs_getTrip R s' t (t_id new) = Inr (Some new)"
    by (rule redis_server.created_reads_back(1) [OF assms(1-5)])
  have free: "rd_get R ?s2 t (requestKey (t_requestId third)) = None" "rd_get R ?s2 t (riderActiveKey (t_riderId third)) = None"
    using redis_server.created_get [OF assms(1-3,5)] assms(6,8-11) sg by simp_all
  obtain res s3 where c: "rs_createTrip R ?s2 t third = (res, s3)" by fastforce
  have "res = Inr third" by (rule redis_server.create_free [OF assms(1) c free])
  then show ?thesis using rb assms(6-8) new c by simp
qed

definition demo_old :: Trip where
  "demo_old = (demo_stored ''o'' ''r0'' 0)\<lparr>t_status := Cancelled\<rparr>"

theorem late_save_unlocks_rider_witness:
  "let s2 = saveTrip mem_redis demo_store 1000 demo_old in
    rs_getTrip mem_redis s2 1000 ''trip_a'' = Inr (Some (demo_stored ''a'' ''r1'' 0)) \<and>
    rs_getActiveTripByRiderId mem_redis s2 1000 ''rider1'' = Inr None \<and>
    fst (rs_createTrip mem_redis s2 1000 (demo_stored ''b'' ''r2'' 1000)) = Inr (demo_stored ''b'' ''r2'' 1000)"
  using late_save_unlocks_rider [OF mem.redis_server_axioms demo_store_eq, of 1000 demo_old "demo_stored ''b'' ''r2'' 1000"]
  by (simp add: demo_old_def terminal_def)

text \<open>
  C39. A request that another node has stored is not idempotent: \<open>requestRide\<close> looks at
  \<open>storeRes.success\<close> and ignores \<open>storeRes.trip\<close>, so a node that does not know the
  request makes a second trip with another identifier, starts matching it and reports it, while the
  store keeps the first trip under the request and is not told of the second.
\<close>

theorem retry_on_other_node_doubles:
  assumes "redis_server R"
    and "rd_get R rs now (requestKey req) = Some (Raw tid1)" and "tid1 \<noteq> []" and "rs_getTrip R rs now tid1 = Inr (Some trip1)"
    and "jm_get (requestToTrip (stateMachine s)) req = None" and "\<not> jm_has (activeRiderTrips (stateMachine s)) rider"
    and "geo_point_of pickup = Some pk" and "geo_point_of dropoff = Some dr"
  shows "\<exists>trip2 s'. requestRide_stored R s rs now uuid req rider pickup dropoff cf = (Inr trip2, s', rs) \<and>
    t_id trip2 = ''trip_'' @ uuid \<and> t_requestId trip2 = req \<and> t_status trip2 = Matching \<and>
    rs_getTripByRequestId R rs now req = Inr (Some trip1)"
proof -
  let ?t = "newTrip now uuid req rider pk dr"
  have tq: "t_requestId ?t = req" by (simp add: newTrip_def)
  have "rs_createTrip R rs now ?t = (Inr trip1, rs)"
    by (simp add: rs_createTrip_def create_trip_lua_def tq assms(2,4))
  from requestRide_stored_new [OF assms(5-8) this, of cf]
  have "\<exists>s'. requestRide_stored R s rs now uuid req rider pickup dropoff cf = (Inr (started now uuid req rider pk dr), s', rs)" .
  then show ?thesis
    using assms(2-4) by (auto simp: started_def newTrip_def rs_getTripByRequestId_def id_at_def)
qed

definition demo_geo :: jsval where
  "demo_geo = JObj [(''lat'', JNum (Fin 10)), (''lng'', JNum (Fin 20))]"

lemma demo_geo_point: "geo_point_of demo_geo = Some \<lparr>lat = 10, lng = 20\<rparr>"
  by code_simp

theorem retry_on_other_node_doubles_witness:
  "\<exists>trip2 s'. requestRide_stored mem_redis (service_new (registry_new (qt_new \<lparr>minLat = 0, maxLat = 20, minLng = 0, maxLng = 30\<rparr> 8 7)) tsm_new)
       demo_store 1000 ''b'' ''r1'' ''rider1'' demo_geo demo_geo
       \<lparr>cf_k = 4, cf_maxRadiusMeters = 10000, cf_offerTimeoutMs = 15000\<rparr> = (Inr trip2, s', demo_store) \<and>
    t_id trip2 = ''trip_b'' \<and> t_requestId trip2 = ''r1'' \<and> t_status trip2 = Matching \<and>
    rs_getTripByRequestId mem_redis demo_store 1000 ''r1'' = Inr (Some (demo_stored ''a'' ''r1'' 0))"
proof -
  have g: "rd_get mem_redis demo_store 1000 (requestKey ''r1'') = Some (Raw ''trip_a'')"
    "rs_getTrip mem_redis demo_store 1000 ''trip_a'' = Inr (Some (demo_stored ''a'' ''r1'' 0))"
    using mem.created_get [OF demo_store_eq, of 1000] mem.created_reads_back(1) [OF demo_store_eq, of 1000] by simp_all
  show ?thesis
    using retry_on_other_node_doubles [OF mem.redis_server_axioms g(1) _ g(2) _ _ demo_geo_point demo_geo_point,
        of "service_new (registry_new (qt_new \<lparr>minLat = 0, maxLat = 20, minLng = 0, maxLng = 30\<rparr> 8 7)) tsm_new" "''rider1''" "''b''"]
    by (simp add: service_new_def tsm_new_def jm_has_def)
qed

end
