(* ===== verification/Gateway.thy ===== *)
theory Gateway
  imports MatchingService
begin

text \<open>
  The WebSocket gateway of \<open>src/gateway/ws_manager.ts\<close>: who is connected, what each message
  of a client makes the registry, the trips and the matching service do, and the frames that are
  sent.  A socket is a number; \<open>openSockets\<close> is the \<open>readyState\<close> the library reports,
  and \<open>frames\<close> collects what is sent, in its order.  The registry and the state machine are
  those inside the matching service, which the objects share by reference.  Identifiers in a
  message are strings or missing (\<open>None\<close>); the fields the handlers check themselves are
  untyped values.  The reply to \<open>ride_request\<close> is sent in the step of the request; the reply
  to \<open>cancel_ride\<close> waits in \<open>pendingReplies\<close> while the cancellation is suspended.
\<close>

section \<open>Data\<close>

datatype ClientRole = RoleRider | RoleDriver | RoleObserver

datatype gw_error =
    MalformedJson
  | OnlyRidersRequest
  | InvalidRideCoordinates
  | RequestFailed service_error
  | OnlyRidersCancel
  | MissingRequestId
  | NotThisRidersTrip
  | OnlyDriversTelemetry
  | InvalidTelemetry
  | OutsideRegion
  | OnlyDriversRespond
  | OnlyDriversAct
  | NotAssignedDriver

datatype ack_error = NotOfferedToThisDriver | ResponseFailed service_error

text \<open>The position of a driver as the maps show it, and the demonstration of two racing riders.\<close>

type_synonym driver_view = "string \<times> real \<times> real \<times> DriverStatus"

record race_attempt =
  ra_driverId :: string
  ra_locked :: bool

record race_result =
  rr_target :: string
  rr_alice :: "string option"
  rr_aliceAttempts :: "race_attempt list"
  rr_bob :: "string option"
  rr_bobAttempts :: "race_attempt list"
  rr_duplicateDispatchCount :: nat
  rr_isolationVerified :: bool

datatype ws_frame =
    Connected ClientRole string ms
  | Pong ms
  | ErrorFrame gw_error
  | RideStatus "string option" string TripStatus "string option"
  | RideCancelled "service_error + unit"
  | TripCancelledEvent string ActorRole "string option"
  | DriverLocation string string GeoPoint
  | TelemetryUpdate string GeoPoint DriverStatus
  | ResponseAck "string option" string "ack_error option"
  | TripEvent string TripStatus "string option" "string option" "(GeoPoint \<times> GeoPoint) option"
  | SyncResponse "Trip option" "DriverStatus option"
  | MatchRequest OfferNotification
  | OfferDispatchedEvent OfferNotification
  | OfferRevokedFrame string string
  | OfferRevokedEvent string string string
  | TripConfirmed string string string GeoPoint GeoPoint
  | TripMatchedEvent string string string string
  | MatchFailedEvent string string
  | RegionUpdated string GeoBounds nat
  | EngineChanged bool
  | DriversEvicted "string list"
  | TelemetryBatch "driver_view list"
  | DriversUpdated "(driver_view \<times> bool) list"
  | RaceShown race_result
  | TransitionEvent string string TripStatus "string option" string TripStatus

datatype client_message =
    Ping
  | Ride_request "string option" jsval jsval jsval
  | Cancel_ride "string option" "string option"
  | Driver_telemetry jsval jsval
  | Ride_response "string option" string
  | Driver_action string "string option"
  | Sync_state
  | Unknown_message

record WsManager =
  service :: MatchingService
  riderSockets :: "(string, nat) jsmap"
  driverSockets :: "(string, nat) jsmap"
  observerSockets :: "nat list"
  openSockets :: "nat set"
  frames :: "(nat \<times> ws_frame) list"
  pendingReplies :: "(nat, nat \<times> string \<times> string option) jsmap"

definition ws_new :: "MatchingService \<Rightarrow> WsManager" where
  "ws_new s = \<lparr>service = s, riderSockets = [], driverSockets = [], observerSockets = [], openSockets = {},
     frames = [], pendingReplies = []\<rparr>"

section \<open>Sending\<close>

definition send :: "WsManager \<Rightarrow> nat \<Rightarrow> ws_frame \<Rightarrow> WsManager" where
  "send w socket f = (if socket \<in> openSockets w then w\<lparr>frames := frames w @ [(socket, f)]\<rparr> else w)"

definition send_opt :: "WsManager \<Rightarrow> nat option \<Rightarrow> ws_frame \<Rightarrow> WsManager" where
  "send_opt w socket f = (case socket of Some x \<Rightarrow> send w x f | None \<Rightarrow> w)"

definition broadcastToObservers :: "WsManager \<Rightarrow> ws_frame \<Rightarrow> WsManager" where
  "broadcastToObservers w f = foldl (\<lambda>w socket. send w socket f) w (observerSockets w)"

definition observerCount :: "WsManager \<Rightarrow> nat" where
  "observerCount w = length (observerSockets w)"

definition notifyDriverOffer :: "WsManager \<Rightarrow> string \<Rightarrow> OfferNotification \<Rightarrow> WsManager" where
  "notifyDriverOffer w driverId offer =
    broadcastToObservers (send_opt w (jm_get (driverSockets w) driverId) (MatchRequest offer)) (OfferDispatchedEvent offer)"

definition notifyOfferRevoked :: "WsManager \<Rightarrow> string \<Rightarrow> string \<Rightarrow> string \<Rightarrow> WsManager" where
  "notifyOfferRevoked w driverId requestId reason =
    broadcastToObservers (send_opt w (jm_get (driverSockets w) driverId) (OfferRevokedFrame requestId reason))
      (OfferRevokedEvent driverId requestId reason)"

definition notifyTripMatched :: "WsManager \<Rightarrow> Trip \<Rightarrow> string \<Rightarrow> WsManager" where
  "notifyTripMatched w trip driverId =
    (let w1 = send_opt w (jm_get (riderSockets w) (t_riderId trip))
                (RideStatus (Some (t_requestId trip)) (t_id trip) Matched (Some driverId));
         w2 = send_opt w1 (jm_get (driverSockets w1) driverId)
                (TripConfirmed (t_id trip) (t_requestId trip) (t_riderId trip) (t_pickup trip) (t_dropoff trip))
     in broadcastToObservers w2 (TripMatchedEvent (t_id trip) (t_requestId trip) driverId (t_riderId trip)))"

text \<open>
  The callbacks the server hands to the matching service, without the part of the simulator.
\<close>

fun on_service_event :: "WsManager \<Rightarrow> service_event \<Rightarrow> WsManager" where
  "on_service_event w (OfferDispatched notif) = notifyDriverOffer w (on_driverId notif) notif"
| "on_service_event w (OfferRevoked driverId requestId reason) = notifyOfferRevoked w driverId requestId reason"
| "on_service_event w (TripMatched tripId driverId) =
    (case getTrip (stateMachine (service w)) tripId of Some trip \<Rightarrow> notifyTripMatched w trip driverId | None \<Rightarrow> w)"
| "on_service_event w (MatchFailed requestId reason) = broadcastToObservers w (MatchFailedEvent requestId reason)"

text \<open>The callback the server hands to the state machine, without the save to the store.\<close>

definition on_transition :: "WsManager \<Rightarrow> StateTransitionEvent \<Rightarrow> Trip \<Rightarrow> WsManager" where
  "on_transition w event trip =
    broadcastToObservers w
      (TransitionEvent (t_id trip) (t_requestId trip) (t_status trip) (t_driverId trip) (t_riderId trip) (e_fromStatus event))"

text \<open>
  The calls of both kinds in the order they are made; an event comes with the number of transitions
  before it.
\<close>

fun callbacks :: "nat \<Rightarrow> (nat \<times> service_event) list \<Rightarrow> (StateTransitionEvent \<times> Trip) list \<Rightarrow> (service_event + StateTransitionEvent \<times> Trip) list" where
  "callbacks n [] ts = map Inr ts"
| "callbacks n ((k, e) # es) ts = map Inr (take (k - n) ts) @ Inl e # callbacks (max n k) es (drop (k - n) ts)"

definition on_callback :: "WsManager \<Rightarrow> service_event + StateTransitionEvent \<times> Trip \<Rightarrow> WsManager" where
  "on_callback w c = (case c of Inl e \<Rightarrow> on_service_event w e | Inr (event, trip) \<Rightarrow> on_transition w event trip)"

text \<open>After a step of the service: its new state, and its callbacks delivered.\<close>

definition with_service :: "WsManager \<Rightarrow> MatchingService \<Rightarrow> WsManager" where
  "with_service w s =
    (let known = length (notices (stateMachine (service w)))
     in foldl on_callback (w\<lparr>service := s\<rparr>)
          (callbacks known (drop (length (out (service w))) (zip (marks s) (out s))) (drop known (notices (stateMachine s)))))"

definition set_registry :: "WsManager \<Rightarrow> DriverRegistry \<Rightarrow> WsManager" where
  "set_registry w r = w\<lparr>service := (service w)\<lparr>driverRegistry := r\<rparr>\<rparr>"

definition set_machine :: "WsManager \<Rightarrow> TSM \<Rightarrow> WsManager" where
  "set_machine w m = with_service w ((service w)\<lparr>stateMachine := m\<rparr>)"

section \<open>Connections\<close>

text \<open>\<open>fresh\<close> is the identifier made up for a client that gives none.\<close>

definition handleConnection :: "WsManager \<Rightarrow> ms \<Rightarrow> string \<Rightarrow> nat \<Rightarrow> ClientRole \<Rightarrow> string option \<Rightarrow> string \<times> WsManager" where
  "handleConnection w now fresh socket role i =
    (let clientId = (if truthy i then the i else fresh);
         w1 = (case role of
                 RoleRider \<Rightarrow> w\<lparr>riderSockets := jm_set (riderSockets w) clientId socket\<rparr>
               | RoleDriver \<Rightarrow> w\<lparr>driverSockets := jm_set (driverSockets w) clientId socket\<rparr>
               | RoleObserver \<Rightarrow> w\<lparr>observerSockets :=
                   (if socket \<in> set (observerSockets w) then observerSockets w else observerSockets w @ [socket])\<rparr>)
     in (clientId, send w1 socket (Connected role clientId now)))"

definition socket_closed :: "WsManager \<Rightarrow> ms \<Rightarrow> nat \<Rightarrow> ClientRole \<Rightarrow> string \<Rightarrow> WsManager" where
  "socket_closed w now socket role clientId =
    (case role of
       RoleRider \<Rightarrow>
         if jm_get (riderSockets w) clientId = Some socket
         then w\<lparr>riderSockets := jm_delete (riderSockets w) clientId\<rparr> else w
     | RoleDriver \<Rightarrow>
         if jm_get (driverSockets w) clientId = Some socket then
           let w1 = w\<lparr>driverSockets := jm_delete (driverSockets w) clientId\<rparr>
           in if getActiveTripForDriver (stateMachine (service w)) clientId = None
              then set_registry w1 (snd (setStatus (driverRegistry (service w1)) now clientId Offline)) else w1
         else w
     | RoleObserver \<Rightarrow> w\<lparr>observerSockets := filter (\<lambda>x. x \<noteq> socket) (observerSockets w)\<rparr>)"

section \<open>Messages of riders\<close>

definition request_config :: "jsval \<Rightarrow> MatchConfig" where
  "request_config offerTimeoutMs =
    \<lparr>cf_k = 4, cf_maxRadiusMeters = 10000, cf_offerTimeoutMs = clampTimeout_default offerTimeoutMs\<rparr>"

text \<open>The status the trip object shows when the reply is made.\<close>

definition shown_status :: "MatchingService \<Rightarrow> Trip \<Rightarrow> TripStatus" where
  "shown_status s trip = (case getTrip (stateMachine s) (t_id trip) of Some t \<Rightarrow> t_status t | None \<Rightarrow> t_status trip)"

definition ws_ride_request ::
    "WsManager \<Rightarrow> ms \<Rightarrow> string \<Rightarrow> string \<Rightarrow> nat \<Rightarrow> ClientRole \<Rightarrow> string \<Rightarrow> string option \<Rightarrow> jsval \<Rightarrow> jsval \<Rightarrow> jsval \<Rightarrow> WsManager" where
  "ws_ride_request w now uuid reqUuid socket role clientId requestId pickup dropoff offerTimeoutMs =
    (if role \<noteq> RoleRider then send w socket (ErrorFrame OnlyRidersRequest)
     else
       (case (geo_point_of pickup, geo_point_of dropoff) of
          (Some pk, Some dr) \<Rightarrow>
            let req = (if truthy requestId then the requestId else ''req_'' @ reqUuid);
                (res, s1) = requestRide (service w) now uuid req clientId pickup dropoff (request_config offerTimeoutMs);
                w1 = with_service w s1
            in (case res of
                  Inr trip \<Rightarrow>
                    broadcastToObservers
                      (send w1 socket (RideStatus (Some (t_requestId trip)) (t_id trip) (shown_status s1 trip) None))
                      (TripEvent (t_id trip) (shown_status s1 trip) (Some clientId) None (Some (pk, dr)))
                | Inl e \<Rightarrow> send w1 socket (ErrorFrame (RequestFailed e)))
        | _ \<Rightarrow> send w socket (ErrorFrame InvalidRideCoordinates)))"

definition cancel_reply :: "WsManager \<Rightarrow> nat \<Rightarrow> string \<Rightarrow> string option \<Rightarrow> service_error + unit \<Rightarrow> WsManager" where
  "cancel_reply w socket requestId reason res =
    (let w1 = send w socket (RideCancelled res)
     in case res of Inr _ \<Rightarrow> broadcastToObservers w1 (TripCancelledEvent requestId Rider reason) | Inl _ \<Rightarrow> w1)"

definition ws_cancel_ride ::
    "WsManager \<Rightarrow> ms \<Rightarrow> nat \<Rightarrow> ClientRole \<Rightarrow> string \<Rightarrow> string option \<Rightarrow> string option \<Rightarrow> WsManager" where
  "ws_cancel_ride w now socket role clientId requestId reason =
    (if role \<noteq> RoleRider then send w socket (ErrorFrame OnlyRidersCancel)
     else if \<not> truthy requestId then send w socket (ErrorFrame MissingRequestId)
     else
       (case getTripByRequestId (stateMachine (service w)) (the requestId) of
          None \<Rightarrow> send w socket (ErrorFrame NotThisRidersTrip)
        | Some trip \<Rightarrow>
            if t_riderId trip \<noteq> clientId then send w socket (ErrorFrame NotThisRidersTrip)
            else
              let call = nextCancel (service w);
                  (res, s1) = cancelRide (service w) now (the requestId) Rider reason;
                  w1 = with_service w s1
              in (case res of
                    Some r \<Rightarrow> cancel_reply w1 socket (the requestId) reason r
                  | None \<Rightarrow> w1\<lparr>pendingReplies := jm_set (pendingReplies w1) call (socket, the requestId, reason)\<rparr>)))"

text \<open>The suspended cancellation \<open>n\<close> goes on.\<close>

definition ws_cancel_resume :: "WsManager \<Rightarrow> ms \<Rightarrow> nat \<Rightarrow> CancelCall \<Rightarrow> WsManager" where
  "ws_cancel_resume w now n cc =
    (let (res, s1) = cancelRide_resume (service w) now n cc;
         w1 = with_service w s1
     in (case jm_get (pendingReplies w1) n of
           Some (socket, requestId, reason) \<Rightarrow>
             cancel_reply (w1\<lparr>pendingReplies := jm_delete (pendingReplies w1) n\<rparr>) socket requestId reason res
         | None \<Rightarrow> w1))"

section \<open>Messages of drivers\<close>

text \<open>After the position has been taken over: the matched rider and the observers are told.\<close>

definition telemetry_tail :: "WsManager \<Rightarrow> string \<Rightarrow> GeoPoint \<Rightarrow> WsManager" where
  "telemetry_tail w clientId p =
    (let w1 = (case getActiveTripForDriver (stateMachine (service w)) clientId of
                 Some t \<Rightarrow>
                   if t_status t = En_route \<or> t_status t = In_progress
                   then send_opt w (jm_get (riderSockets w) (t_riderId t)) (DriverLocation (t_id t) clientId p) else w
               | None \<Rightarrow> w);
         status = (case getDriver (driverRegistry (service w1)) clientId of Some d \<Rightarrow> d_status d | None \<Rightarrow> Available)
     in broadcastToObservers w1 (TelemetryUpdate clientId p status))"

definition ws_driver_telemetry ::
    "WsManager \<Rightarrow> ms \<Rightarrow> nat \<Rightarrow> ClientRole \<Rightarrow> string \<Rightarrow> jsval \<Rightarrow> jsval \<Rightarrow> WsManager" where
  "ws_driver_telemetry w now socket role clientId la lo =
    (if role \<noteq> RoleDriver then send w socket (ErrorFrame OnlyDriversTelemetry)
     else
       (case geo_point_of (JObj [(''lat'', la), (''lng'', lo)]) of
          None \<Rightarrow> send w socket (ErrorFrame InvalidTelemetry)
        | Some p \<Rightarrow>
            (case getDriver (driverRegistry (service w)) clientId of
               None \<Rightarrow>
                 let (d, r1) = registerDriver (driverRegistry (service w)) now clientId (Fin (lat p)) (Fin (lng p)) Available;
                     w1 = set_registry w r1
                 in if d_status d \<noteq> Available then send w1 socket (ErrorFrame OutsideRegion)
                    else telemetry_tail w1 clientId p
             | Some _ \<Rightarrow>
                 let (ok, r1) = updateLocation (driverRegistry (service w)) now clientId (Fin (lat p)) (Fin (lng p))
                 in if \<not> ok then send (set_registry w r1) socket (ErrorFrame OutsideRegion)
                    else
                      let offline = (case getDriver r1 clientId of Some d \<Rightarrow> d_status d = Offline | None \<Rightarrow> False);
                          idle = (getActiveTripForDriver (stateMachine (service w)) clientId = None);
                          r2 = (if idle \<and> offline then snd (setStatus r1 now clientId Available) else r1)
                      in telemetry_tail (set_registry w r2) clientId p)))"

definition ws_ride_response ::
    "WsManager \<Rightarrow> ms \<Rightarrow> nat \<Rightarrow> ClientRole \<Rightarrow> string \<Rightarrow> string option \<Rightarrow> string \<Rightarrow> WsManager" where
  "ws_ride_response w now socket role clientId requestId response =
    (if role \<noteq> RoleDriver then send w socket (ErrorFrame OnlyDriversRespond)
     else if response = ''accepted'' \<or> response = ''rejected'' then
       (case Option.bind requestId (getActiveOffer (service w)) of
          None \<Rightarrow> send w socket (ResponseAck requestId response (Some NotOfferedToThisDriver))
        | Some offer \<Rightarrow>
            if po_driverId offer \<noteq> clientId then send w socket (ResponseAck requestId response (Some NotOfferedToThisDriver))
            else
              let (res, s1) = handleDriverResponse (service w) now clientId (the requestId) (JStr response)
              in send (with_service w s1) socket
                   (ResponseAck requestId response (case res of Inl e \<Rightarrow> Some (ResponseFailed e) | Inr _ \<Rightarrow> None)))
     else w)"

text \<open>The milestone of an action; \<open>None\<close> for a text that is none.\<close>

definition action_target :: "string \<Rightarrow> TripStatus option" where
  "action_target action =
    (if action = ''arrived'' then Some Arrived
     else if action = ''start_trip'' then Some In_progress
     else if action = ''complete_trip'' then Some Completed
     else None)"

definition milestone_call :: "TSM \<Rightarrow> ms \<Rightarrow> string \<Rightarrow> TripStatus \<Rightarrow> (tsm_error + (Trip \<times> StateTransitionEvent option)) \<times> TSM" where
  "milestone_call m now tripId target =
    (case target of
       Arrived \<Rightarrow> driverArrived m now tripId
     | In_progress \<Rightarrow> startTrip m now tripId
     | _ \<Rightarrow> tsm_completeTrip m now tripId)"

text \<open>The milestone on the trip, and a completed driver's return, as the gateway and the server do it.\<close>

definition driver_milestone ::
    "MatchingService \<Rightarrow> ms \<Rightarrow> string \<Rightarrow> string \<Rightarrow> TripStatus \<Rightarrow> (tsm_error + Trip) \<times> MatchingService" where
  "driver_milestone s now tripId driverId target =
    (case milestone_call (stateMachine s) now tripId target of
       (Inl e, m1) \<Rightarrow> (Inl e, s\<lparr>stateMachine := m1\<rparr>)
     | (Inr (trip, _), m1) \<Rightarrow>
         (Inr trip,
          s\<lparr>stateMachine := m1,
            driverRegistry := (if target = Completed then snd (completeTrip (driverRegistry s) now driverId) else driverRegistry s)\<rparr>))"

definition ws_driver_action ::
    "WsManager \<Rightarrow> ms \<Rightarrow> nat \<Rightarrow> ClientRole \<Rightarrow> string \<Rightarrow> string \<Rightarrow> string option \<Rightarrow> WsManager" where
  "ws_driver_action w now socket role clientId action tripId =
    (if role \<noteq> RoleDriver then send w socket (ErrorFrame OnlyDriversAct)
     else
       (case Option.bind tripId (getTrip (stateMachine (service w))) of
          None \<Rightarrow> send w socket (ErrorFrame NotAssignedDriver)
        | Some trip \<Rightarrow>
            if t_driverId trip \<noteq> Some clientId then send w socket (ErrorFrame NotAssignedDriver)
            else
              (case action_target action of
                 None \<Rightarrow> w
               | Some target \<Rightarrow>
                   (case driver_milestone (service w) now (the tripId) clientId target of
                      (Inl e, s1) \<Rightarrow> with_service w s1
                    | (Inr t, s1) \<Rightarrow>
                        let w1 = with_service w s1
                        in broadcastToObservers
                             (send_opt w1 (jm_get (riderSockets w1) (t_riderId t)) (RideStatus None (t_id t) (t_status t) None))
                             (TripEvent (t_id t) (t_status t) None (Some clientId) None)))))"

definition ws_sync_state :: "WsManager \<Rightarrow> nat \<Rightarrow> ClientRole \<Rightarrow> string \<Rightarrow> WsManager" where
  "ws_sync_state w socket role clientId =
    (case role of
       RoleRider \<Rightarrow> send w socket (SyncResponse (getActiveTripForRider (stateMachine (service w)) clientId) None)
     | RoleDriver \<Rightarrow>
         send w socket (SyncResponse (getActiveTripForDriver (stateMachine (service w)) clientId)
           (map_option d_status (getDriver (driverRegistry (service w)) clientId)))
     | RoleObserver \<Rightarrow> w)"

section \<open>The dispatch\<close>

fun handleMessage ::
    "WsManager \<Rightarrow> ms \<Rightarrow> string \<Rightarrow> string \<Rightarrow> nat \<Rightarrow> ClientRole \<Rightarrow> string \<Rightarrow> client_message \<Rightarrow> WsManager" where
  "handleMessage w now uuid reqUuid socket role clientId Ping = send w socket (Pong now)"
| "handleMessage w now uuid reqUuid socket role clientId (Ride_request requestId pickup dropoff offerTimeoutMs) =
    ws_ride_request w now uuid reqUuid socket role clientId requestId pickup dropoff offerTimeoutMs"
| "handleMessage w now uuid reqUuid socket role clientId (Cancel_ride requestId reason) =
    ws_cancel_ride w now socket role clientId requestId reason"
| "handleMessage w now uuid reqUuid socket role clientId (Driver_telemetry la lo) =
    ws_driver_telemetry w now socket role clientId la lo"
| "handleMessage w now uuid reqUuid socket role clientId (Ride_response requestId response) =
    ws_ride_response w now socket role clientId requestId response"
| "handleMessage w now uuid reqUuid socket role clientId (Driver_action action tripId) =
    ws_driver_action w now socket role clientId action tripId"
| "handleMessage w now uuid reqUuid socket role clientId Sync_state = ws_sync_state w socket role clientId"
| "handleMessage w now uuid reqUuid socket role clientId Unknown_message = w"

text \<open>What arrives on a socket; \<open>None\<close> is a text that is no JSON.\<close>

definition socket_message ::
    "WsManager \<Rightarrow> ms \<Rightarrow> string \<Rightarrow> string \<Rightarrow> nat \<Rightarrow> ClientRole \<Rightarrow> string \<Rightarrow> client_message option \<Rightarrow> WsManager" where
  "socket_message w now uuid reqUuid socket role clientId raw =
    (case raw of
       None \<Rightarrow> send w socket (ErrorFrame MalformedJson)
     | Some message \<Rightarrow> handleMessage w now uuid reqUuid socket role clientId message)"

end
