(* ===== verification/GatewayRuns.thy ===== *)
theory GatewayRuns
  imports Gateway MatchingHistory
begin

text \<open>
  The gateway over the matching service: what each message does to the service is a sequence of
  steps of its transition system, so every invariant of the service holds while clients connect,
  send and leave; and the trips, offers and drivers a message can change are those of its sender.
\<close>

section \<open>Sending leaves the service alone\<close>

lemma send_fields [simp]:
  "service (send w so f) = service w" "riderSockets (send w so f) = riderSockets w"
  "driverSockets (send w so f) = driverSockets w" "observerSockets (send w so f) = observerSockets w"
  "openSockets (send w so f) = openSockets w" "pendingReplies (send w so f) = pendingReplies w"
  by (simp_all add: send_def)

lemma send_opt_fields [simp]:
  "service (send_opt w so f) = service w" "riderSockets (send_opt w so f) = riderSockets w"
  "driverSockets (send_opt w so f) = driverSockets w" "observerSockets (send_opt w so f) = observerSockets w"
  "openSockets (send_opt w so f) = openSockets w" "pendingReplies (send_opt w so f) = pendingReplies w"
  by (simp_all add: send_opt_def split: option.split)

lemma send_all_fields [simp]:
  "service (foldl (\<lambda>w x. send w x f) w xs) = service w"
  "riderSockets (foldl (\<lambda>w x. send w x f) w xs) = riderSockets w"
  "driverSockets (foldl (\<lambda>w x. send w x f) w xs) = driverSockets w"
  "observerSockets (foldl (\<lambda>w x. send w x f) w xs) = observerSockets w"
  "openSockets (foldl (\<lambda>w x. send w x f) w xs) = openSockets w"
  "pendingReplies (foldl (\<lambda>w x. send w x f) w xs) = pendingReplies w"
  by (induction xs arbitrary: w) simp_all

lemma broadcast_fields [simp]:
  "service (broadcastToObservers w f) = service w" "riderSockets (broadcastToObservers w f) = riderSockets w"
  "driverSockets (broadcastToObservers w f) = driverSockets w" "observerSockets (broadcastToObservers w f) = observerSockets w"
  "openSockets (broadcastToObservers w f) = openSockets w" "pendingReplies (broadcastToObservers w f) = pendingReplies w"
  by (simp_all add: broadcastToObservers_def)

lemma on_event_fields [simp]:
  "service (on_service_event w e) = service w" "riderSockets (on_service_event w e) = riderSockets w"
  "driverSockets (on_service_event w e) = driverSockets w" "observerSockets (on_service_event w e) = observerSockets w"
  "openSockets (on_service_event w e) = openSockets w" "pendingReplies (on_service_event w e) = pendingReplies w"
  by (cases e; simp add: notifyDriverOffer_def notifyOfferRevoked_def notifyTripMatched_def Let_def split: option.split)+

lemma on_callback_fields [simp]:
  "service (on_callback w c) = service w" "riderSockets (on_callback w c) = riderSockets w"
  "driverSockets (on_callback w c) = driverSockets w" "observerSockets (on_callback w c) = observerSockets w"
  "openSockets (on_callback w c) = openSockets w" "pendingReplies (on_callback w c) = pendingReplies w"
  by (simp_all add: on_callback_def on_transition_def split: sum.split prod.split)

lemma on_callbacks_fields [simp]:
  "service (foldl on_callback w es) = service w" "riderSockets (foldl on_callback w es) = riderSockets w"
  "driverSockets (foldl on_callback w es) = driverSockets w" "observerSockets (foldl on_callback w es) = observerSockets w"
  "openSockets (foldl on_callback w es) = openSockets w" "pendingReplies (foldl on_callback w es) = pendingReplies w"
  by (induction es arbitrary: w) simp_all

lemma with_service_fields [simp]:
  "service (with_service w s) = s" "riderSockets (with_service w s) = riderSockets w"
  "driverSockets (with_service w s) = driverSockets w" "observerSockets (with_service w s) = observerSockets w"
  "openSockets (with_service w s) = openSockets w" "pendingReplies (with_service w s) = pendingReplies w"
  by (simp_all add: with_service_def Let_def)

lemma set_part_fields [simp]:
  "service (set_registry w r) = (service w)\<lparr>driverRegistry := r\<rparr>" "service (set_machine w m) = (service w)\<lparr>stateMachine := m\<rparr>"
  "riderSockets (set_registry w r) = riderSockets w" "driverSockets (set_registry w r) = driverSockets w"
  by (simp_all add: set_registry_def set_machine_def)

lemma tail_service [simp]: "service (telemetry_tail w i p) = service w"
  by (simp add: telemetry_tail_def Let_def split: option.split)

lemma reply_service [simp]: "service (cancel_reply w so req reason r) = service w"
  by (simp add: cancel_reply_def Let_def split: sum.split)

section \<open>Sequences of steps of the service\<close>

definition quiet :: "MatchingService \<Rightarrow> MatchingService \<Rightarrow> bool" where
  "quiet s s' = (\<forall>h. \<exists>h'. svc_exec h s h' s' \<and> used_tids h' = used_tids h)"

lemma quietE: "quiet s s' \<Longrightarrow> (\<And>h'. svc_exec h s h' s' \<Longrightarrow> used_tids h' = used_tids h \<Longrightarrow> P) \<Longrightarrow> P"
  by (auto simp: quiet_def)

lemma svc_exec_trans: "svc_exec h2 s2 h3 s3 \<Longrightarrow> svc_exec h1 s1 h2 s2 \<Longrightarrow> svc_exec h1 s1 h3 s3"
  by (induction rule: svc_exec.induct) (auto intro: exec_step)

lemma quiet_refl [simp]: "quiet s s"
  unfolding quiet_def using exec_refl by blast

lemma quiet_trans: "quiet s1 s2 \<Longrightarrow> quiet s2 s3 \<Longrightarrow> quiet s1 s3"
  unfolding quiet_def using svc_exec_trans by metis

lemma quiet_step: "svc_step s c s' \<Longrightarrow> new_tid (snd c) = None \<Longrightarrow> quiet s s'"
  unfolding quiet_def
proof
  fix h assume a: "svc_step s c s'" "new_tid (snd c) = None"
  then have "svc_exec h s (h @ [c]) s'" using exec_step [OF exec_refl a(1)] by simp
  then show "\<exists>h'. svc_exec h s h' s' \<and> used_tids h' = used_tids h" using a(2) by (intro exI [of _ "h @ [c]"]) simp
qed

lemma quiet_change: "registry_change (driverRegistry s) r \<Longrightarrow> quiet s (s\<lparr>driverRegistry := r\<rparr>)"
  by (rule quiet_step [OF step_registry [of s r 0]]) simp_all

lemma quiet_registry: "registry_op (driverRegistry s) r \<Longrightarrow> quiet s (s\<lparr>driverRegistry := r\<rparr>)"
  by (rule quiet_change [OF change_op])

lemma milestone_call_eq:
  "target \<in> {Arrived, In_progress, Completed} \<Longrightarrow>
    milestone_call m now tid target = transition m now tid target Driver None JUndefined"
  by (auto simp: milestone_call_def driverArrived_def startTrip_def tsm_completeTrip_def)

lemma action_target_range: "action_target a = Some target \<Longrightarrow> target \<in> {Arrived, In_progress, Completed}"
  by (auto simp: action_target_def split: if_splits)

lemma driver_milestone_quiet:
  assumes "target \<in> {Arrived, In_progress, Completed}"
  shows "quiet s (snd (driver_milestone s now tid i target))"
proof -
  obtain res m1 where t: "transition (stateMachine s) now tid target Driver None JUndefined = (res, m1)" by fastforce
  have q: "quiet s (s\<lparr>stateMachine := m1\<rparr>)"
    by (rule quiet_step [OF step_trip [OF _ t]]) (use assms in auto)
  have c: "quiet s (s\<lparr>stateMachine := m1, driverRegistry := snd (completeTrip (driverRegistry s) now i)\<rparr>)"
    by (rule quiet_trans [OF q]) (use quiet_registry [of "s\<lparr>stateMachine := m1\<rparr>"] op_complete in auto)
  show ?thesis
    using q c by (auto simp: driver_milestone_def milestone_call_eq [OF assms] t split: sum.split prod.split)
qed

lemma cancel_ride_quiet: "quiet s (snd (cancelRide s now req by reason))"
  by (rule quiet_step [OF step_cancel [OF prod.collapse [symmetric]]]) simp

lemma response_quiet: "quiet s (snd (handleDriverResponse s now i req resp))"
  by (rule quiet_step [OF step_response [OF prod.collapse [symmetric]]]) simp

section \<open>The service after a message\<close>

lemma request_service:
  "service (ws_ride_request w now uuid rid so role i req pk dr tmo) =
    (if role = RoleRider \<and> geo_point_of pk \<noteq> None \<and> geo_point_of dr \<noteq> None
     then snd (requestRide (service w) now uuid (if truthy req then the req else ''req_'' @ rid) i pk dr (request_config tmo))
     else service w)"
proof (cases "geo_point_of pk")
  case None
  then show ?thesis by (simp add: ws_ride_request_def del: geo_point_of_eq_None)
next
  case (Some p)
  then show ?thesis
    by (cases "geo_point_of dr")
      (simp_all add: ws_ride_request_def Let_def del: geo_point_of_eq_None split: prod.split sum.split)
qed

lemma cancel_service:
  "service (ws_cancel_ride w now so role i req reason) =
    (if role = RoleRider \<and> truthy req \<and>
        (\<exists>t. getTripByRequestId (stateMachine (service w)) (the req) = Some t \<and> t_riderId t = i)
     then snd (cancelRide (service w) now (the req) Rider reason) else service w)"
  by (auto simp: ws_cancel_ride_def Let_def split: option.split prod.split)

lemma response_service:
  "service (ws_ride_response w now so role i req resp) =
    (if role = RoleDriver \<and> resp \<in> {''accepted'', ''rejected''} \<and>
        (\<exists>r offer. req = Some r \<and> getActiveOffer (service w) r = Some offer \<and> po_driverId offer = i)
     then snd (handleDriverResponse (service w) now i (the req) (JStr resp)) else service w)"
  by (auto simp: ws_ride_response_def Let_def bind_eq_None_conv bind_eq_Some_conv split: option.split prod.split)

lemma action_service:
  "service (ws_driver_action w now so role i action tid) =
    (case (action_target action, Option.bind tid (getTrip (stateMachine (service w)))) of
       (Some target, Some t) \<Rightarrow>
         if role = RoleDriver \<and> t_driverId t = Some i then snd (driver_milestone (service w) now (the tid) i target) else service w
     | _ \<Rightarrow> service w)"
  by (auto simp: ws_driver_action_def Let_def split: option.split prod.split sum.split)

definition telemetry_registry :: "MatchingService \<Rightarrow> ms \<Rightarrow> string \<Rightarrow> GeoPoint \<Rightarrow> DriverRegistry" where
  "telemetry_registry s now i p =
    (let r = driverRegistry s in
     case getDriver r i of
       None \<Rightarrow> snd (registerDriver r now i (Fin (lat p)) (Fin (lng p)) Available)
     | Some _ \<Rightarrow>
         let (ok, r1) = updateLocation r now i (Fin (lat p)) (Fin (lng p))
         in if ok \<and> getActiveTripForDriver (stateMachine s) i = None \<and>
               (\<exists>d. getDriver r1 i = Some d \<and> d_status d = Offline)
            then snd (setStatus r1 now i Available) else r1)"

lemma telemetry_service:
  "service (ws_driver_telemetry w now so role i la lo) =
    (case geo_point_of (JObj [(''lat'', la), (''lng'', lo)]) of
       Some p \<Rightarrow> if role = RoleDriver then (service w)\<lparr>driverRegistry := telemetry_registry (service w) now i p\<rparr> else service w
     | None \<Rightarrow> service w)"
proof (cases "geo_point_of (JObj [(''lat'', la), (''lng'', lo)])")
  case None
  then show ?thesis by (simp add: ws_driver_telemetry_def del: geo_point_of_eq_None)
next
  case (Some p)
  obtain d r0 where reg: "registerDriver (driverRegistry (service w)) now i (Fin (lat p)) (Fin (lng p)) Available = (d, r0)" by fastforce
  obtain ok r1 where up: "updateLocation (driverRegistry (service w)) now i (Fin (lat p)) (Fin (lng p)) = (ok, r1)" by fastforce
  show ?thesis
    by (cases "getDriver (driverRegistry (service w)) i"; cases "getDriver r1 i")
      (simp_all add: ws_driver_telemetry_def telemetry_registry_def Some reg up Let_def)
qed

lemma sync_service [simp]: "service (ws_sync_state w so role i) = service w"
  by (simp add: ws_sync_state_def split: ClientRole.split)

lemmas message_services = request_service cancel_service response_service action_service telemetry_service

lemma telemetry_quiet: "quiet s (s\<lparr>driverRegistry := telemetry_registry s now i p\<rparr>)"
proof -
  let ?r = "driverRegistry s"
  have up: "quiet s (s\<lparr>driverRegistry := snd (updateLocation ?r now i (Fin (lat p)) (Fin (lng p)))\<rparr>)"
    by (rule quiet_registry) (rule op_location)
  have "quiet s (s\<lparr>driverRegistry := snd (setStatus (snd (updateLocation ?r now i (Fin (lat p)) (Fin (lng p)))) now i Available)\<rparr>)"
    using quiet_trans [OF up quiet_registry [OF op_status]] by simp
  moreover have "quiet s (s\<lparr>driverRegistry := snd (registerDriver ?r now i (Fin (lat p)) (Fin (lng p)) Available)\<rparr>)"
    by (rule quiet_registry) (rule op_register)
  ultimately show ?thesis
    using up by (auto simp: telemetry_registry_def Let_def split: option.split prod.splits)
qed

lemma message_quiet:
  assumes "\<nexists>a b c d. msg = Ride_request a b c d"
  shows "quiet (service w) (service (handleMessage w now uuid rid so role i msg))"
  using assms cancel_ride_quiet response_quiet telemetry_quiet driver_milestone_quiet [OF action_target_range]
  by (cases msg) (auto simp: message_services split: option.split)

lemma close_quiet: "quiet (service w) (service (socket_closed w now so role i))"
  using quiet_registry [OF op_status, of "service w" now i Offline]
  by (simp add: socket_closed_def Let_def split: ClientRole.split)

lemma connect_service [simp]: "service (snd (handleConnection w now fresh so role i)) = service w"
  by (simp add: handleConnection_def Let_def split: ClientRole.split)

lemma cancel_resume_quiet:
  assumes "jm_get (cancels (service w)) n = Some cc"
  shows "quiet (service w) (service (ws_cancel_resume w now n cc))"
proof -
  have "service (ws_cancel_resume w now n cc) = snd (cancelRide_resume (service w) now n cc)"
    by (simp add: ws_cancel_resume_def Let_def split: prod.split option.split)
  then show ?thesis using quiet_step [OF step_cancel_resume [OF assms prod.collapse [symmetric]]] by simp
qed

section \<open>Runs of the gateway\<close>

text \<open>
  Clients connect, send and leave, sockets open and close, and the service goes on by itself: its
  timers, its suspended calls, and the eviction of silent drivers.  \<open>U\<close> holds the identifiers
  of trips handed out; a random identifier never repeats.
\<close>

inductive gw_run :: "string set \<Rightarrow> WsManager \<Rightarrow> bool" where
  gw_start: "registry_run r \<Longrightarrow> gw_run {} (ws_new (service_new r tsm_new))"
| gw_sockets: "gw_run U w \<Longrightarrow> gw_run U (w\<lparr>openSockets := S\<rparr>)"
| gw_connect: "gw_run U w \<Longrightarrow> gw_run U (snd (handleConnection w now fresh so role i))"
| gw_close: "gw_run U w \<Longrightarrow> gw_run U (socket_closed w now so role i)"
| gw_message: "gw_run U w \<Longrightarrow> ''trip_'' @ uuid \<notin> U \<Longrightarrow>
     gw_run (insert (''trip_'' @ uuid) U) (socket_message w now uuid rid so role i raw)"
| gw_timer: "gw_run U w \<Longrightarrow> l \<in> timers (service w) \<Longrightarrow> jm_get (loops (service w)) l = Some lp \<Longrightarrow>
     gw_run U (with_service w (offer_timeout (service w) l lp))"
| gw_resume: "gw_run U w \<Longrightarrow> jm_get (loops (service w)) l = Some lp \<Longrightarrow> \<nexists>c. lp_pc lp = Waiting c \<Longrightarrow>
     gw_run U (with_service w (loop_resume (service w) now l lp))"
| gw_cancel: "gw_run U w \<Longrightarrow> jm_get (cancels (service w)) n = Some cc \<Longrightarrow> gw_run U (ws_cancel_resume w now n cc)"
| gw_evict: "gw_run U w \<Longrightarrow> gw_run U (set_registry w (snd (evictStaleDrivers (driverRegistry (service w)) now timeout)))"

definition serves :: "string set \<Rightarrow> MatchingService \<Rightarrow> bool" where
  "serves U s = (\<exists>h. svc_run h s \<and> used_tids h \<subseteq> U)"

lemma serves_quiet: "serves U s \<Longrightarrow> quiet s s' \<Longrightarrow> serves U s'"
  unfolding serves_def quiet_def using svc_run_exec by metis

lemma serves_mono: "serves U s \<Longrightarrow> U \<subseteq> V \<Longrightarrow> serves V s"
  unfolding serves_def by blast

lemma serves_step:
  assumes "serves U s" and "svc_step s c s'" and "new_tid (snd c) = Some k" and "k \<notin> U"
  shows "serves (insert k U) s'"
proof -
  obtain h where h: "svc_run h s" "used_tids h \<subseteq> U" using assms(1) by (auto simp: serves_def)
  have "svc_exec h s (h @ [c]) s'" using exec_step [OF exec_refl assms(2)] assms(3,4) h(2) by auto
  then have "svc_run (h @ [c]) s'" by (rule svc_run_exec [OF h(1)])
  moreover have "used_tids (h @ [c]) \<subseteq> insert k U" using h(2) assms(3) by auto
  ultimately show ?thesis unfolding serves_def by blast
qed

lemma serves_message:
  assumes "serves U (service w)" and "''trip_'' @ uuid \<notin> U"
  shows "serves (insert (''trip_'' @ uuid) U) (service (handleMessage w now uuid rid so role i msg))"
proof (cases "\<exists>a b c d. msg = Ride_request a b c d")
  case False
  then show ?thesis using serves_mono [OF serves_quiet [OF assms(1) message_quiet]] by blast
next
  case True
  then obtain req pk dr tmo where msg: "msg = Ride_request req pk dr tmo" by blast
  let ?req = "if truthy req then the req else ''req_'' @ rid"
  have "serves (insert (''trip_'' @ uuid) U) (snd (requestRide (service w) now uuid ?req i pk dr (request_config tmo)))"
    by (rule serves_step [OF assms(1) step_request [OF prod.collapse [symmetric]] _ assms(2)]) simp
  then show ?thesis using serves_mono [OF assms(1)] by (auto simp: msg request_service)
qed

lemma serves_socket:
  assumes "serves U (service w)" and "''trip_'' @ uuid \<notin> U"
  shows "serves (insert (''trip_'' @ uuid) U) (service (socket_message w now uuid rid so role i raw))"
proof (cases raw)
  case None
  then show ?thesis using serves_mono [OF assms(1) subset_insertI] by (simp add: socket_message_def)
next
  case (Some msg)
  then show ?thesis using serves_message [OF assms] by (simp add: socket_message_def)
qed

lemma gw_run_serves: "gw_run U w \<Longrightarrow> serves U (service w)"
proof (induction rule: gw_run.induct)
  case (gw_start r)
  then have "svc_run [] (service_new r tsm_new)" unfolding svc_run_def using exec_refl by blast
  then show ?case unfolding serves_def ws_new_def by (intro exI [of _ "[]"]) simp
next
  case (gw_close U w now so role i)
  then show ?case using serves_quiet close_quiet by blast
next
  case (gw_message U w uuid now rid so role i raw)
  then show ?case using serves_socket by blast
next
  case (gw_timer U w l lp)
  then show ?case using serves_quiet quiet_step [OF step_timer [OF gw_timer.hyps(2,3), of 0]] by simp
next
  case (gw_resume U w l lp now)
  then show ?case using serves_quiet quiet_step [OF step_resume [OF gw_resume.hyps(2,3), of now]] by simp
next
  case (gw_cancel U w n cc now)
  then show ?case using serves_quiet cancel_resume_quiet by blast
next
  case (gw_evict U w now timeout)
  then show ?case using serves_quiet quiet_registry [OF op_evict] by simp
qed simp_all

lemma serves_summary:
  assumes "serves U s"
  shows "\<exists>h. svc_run h s \<and> used_tids h \<subseteq> U \<and> registry_run (driverRegistry s) \<and>
    (\<forall>t1 t2. getTrip (stateMachine s) (t_id t1) = Some t1 \<and> getTrip (stateMachine s) (t_id t2) = Some t2 \<and>
       \<not> terminal (t_status t1) \<and> \<not> terminal (t_status t2) \<and>
       (t_riderId t1 = t_riderId t2 \<or> t_driverId t1 = t_driverId t2 \<and> t_driverId t1 \<noteq> None) \<longrightarrow> t1 = t2)"
proof -
  obtain h where h: "svc_run h s" "used_tids h \<subseteq> U" using assms by (auto simp: serves_def)
  have inv: "tsm_inv (stateMachine s)" and reg: "registry_run (driverRegistry s)"
    using svc_run_inv [OF h(1)] tsm_runs_inv by (auto simp: svc_inv_def)
  have "t1 = t2"
    if "getTrip (stateMachine s) (t_id t1) = Some t1" "getTrip (stateMachine s) (t_id t2) = Some t2"
      "\<not> terminal (t_status t1)" "\<not> terminal (t_status t2)"
      "t_riderId t1 = t_riderId t2 \<or> t_driverId t1 = t_driverId t2 \<and> t_driverId t1 \<noteq> None" for t1 t2
  proof -
    have "t_id t1 = t_id t2"
      by (rule active_trips_distinct [OF inv _ _ _ _ that(5)]) (use that(1-4) in \<open>simp_all add: getTrip_def active_def\<close>)
    then show ?thesis using that(1,2) by (metis option.inject)
  qed
  then show ?thesis by (intro exI [of _ h] conjI h reg allI impI) (elim conjE)
qed

section \<open>What a message can change\<close>

text \<open>Every other trip than \<open>k\<close> that is still stored is as it was.\<close>

definition touches :: "string \<Rightarrow> TSM \<Rightarrow> TSM \<Rightarrow> bool" where
  "touches k m m' = (\<forall>j. j \<noteq> k \<longrightarrow> jm_get (trips m') j = None \<or> jm_get (trips m') j = jm_get (trips m) j)"

lemma touches_refl [simp]: "touches k m m"
  by (simp add: touches_def)

lemma touches_trans: "touches k m1 m2 \<Longrightarrow> touches k m2 m3 \<Longrightarrow> touches k m1 m3"
  unfolding touches_def by metis

lemma touchesD: "touches k m m' \<Longrightarrow> jm_get (trips m') j = Some t' \<Longrightarrow> j \<noteq> k \<Longrightarrow> jm_get (trips m) j = Some t'"
  unfolding touches_def by fastforce

lemma transition_touches: "transition m now tid target by reason payload = (r, m') \<Longrightarrow> touches tid m m'"
  using transition_get unfolding touches_def by blast

lemma cancelTrip_touches: "touches tid m (snd (cancelTrip m now tid by reason))"
  unfolding cancelTrip_def by (rule transition_touches [OF prod.collapse [symmetric]])

lemma dispatch_touches: "touches (t_id t) (stateMachine s) (stateMachine (dispatchOfferLoop s now t cf))"
proof -
  have "touches (lp_tid lp) (stateMachine x) (stateMachine (loop_iteration x now l lp))" for x l lp
    by (rule loop_iteration_cases [where lp = lp and s = x and now = now and l = l]) (simp_all add: cancelTrip_touches)
  from this [of "\<lparr>lp_trip = t, lp_config = cf, lp_deadline = now + MAX_MATCH_WAIT_MS, lp_tried = [], lp_hadCandidates = False,
      lp_i = 0, lp_pc = AbortReleasing\<rparr>" "s\<lparr>nextLoop := Suc (nextLoop s)\<rparr>" "nextLoop s"]
  show ?thesis by (simp add: dispatchOfferLoop_def Let_def)
qed

lemma cancel_part_touches:
  assumes "getTripByRequestId (stateMachine s) req = Some t"
  shows "touches (t_id t) (stateMachine s) (stateMachine (snd (cancel_trip_part s now req by reason)))"
proof (rule cancel_trip_part_cases [of s req now "by" reason])
  fix t2 res m1 r1
  assume a: "getTripByRequestId (stateMachine s) req = Some t2" "cancelTrip (stateMachine s) now (t_id t2) by reason = (Inr res, m1)"
    "cancel_trip_part s now req by reason = (Inr (), s\<lparr>stateMachine := m1, driverRegistry := r1\<rparr>)"
  then show ?thesis using cancelTrip_touches [of "t_id t2" "stateMachine s" now "by" reason] assms by simp
qed simp_all

lemma cancelRide_touches:
  assumes "getTripByRequestId (stateMachine s) req = Some t"
  shows "touches (t_id t) (stateMachine s) (stateMachine (snd (cancelRide s now req by reason)))"
  using cancel_part_touches [of "s\<lparr>abortedRequests := insert req (abortedRequests s)\<rparr>" req t now "by" reason] assms
  by (auto simp: cancelRide_eq suspend_cancel_def Let_def map_prod_def split: option.split prod.split)

text \<open>A ride request changes the new trip, or the rider's own trip of this request.\<close>

lemma createTrip_touches:
  assumes inv: "tsm_inv m" and new: "jm_get (trips m) (''trip_'' @ uuid) = None"
    and c: "createTrip m now uuid req rider pk dr = (r, m1)"
  shows "\<exists>k. touches k m m1 \<and> (\<forall>t. jm_get (trips m) k = Some t \<longrightarrow> t_riderId t = rider) \<and> (\<forall>t. r = Inr t \<longrightarrow> t_id t = k)"
  using inv c
proof (cases rule: createTrip_cases)
  case (error e)
  then show ?thesis using new by (intro exI [of _ "''trip_'' @ uuid"]) simp
next
  case (replay t)
  then show ?thesis by (intro exI [of _ "t_id t"]) simp
next
  case (fresh p d trip s1)
  have "touches (''trip_'' @ uuid) m m1"
    using fresh(6-8) evict_get(1) [OF inv] by (auto simp: touches_def newTrip_def)
  then show ?thesis using fresh(1,6) new by (intro exI [of _ "''trip_'' @ uuid"]) (simp add: newTrip_def)
qed

lemma requestRide_touches:
  assumes inv: "tsm_inv (stateMachine s)" and new: "jm_get (trips (stateMachine s)) (''trip_'' @ uuid) = None"
  obtains k where "touches k (stateMachine s) (stateMachine (snd (requestRide s now uuid req rider pk dr cf)))"
    "\<And>t. jm_get (trips (stateMachine s)) k = Some t \<Longrightarrow> t_riderId t = rider"
proof -
  obtain res s' where r: "requestRide s now uuid req rider pk dr cf = (res, s')" by fastforce
  then show thesis
  proof (cases rule: requestRide_cases)
    case (quiet q m1)
    from createTrip_touches [OF inv new quiet(1)] obtain k
      where k: "touches k (stateMachine s) m1" "\<forall>t. jm_get (trips (stateMachine s)) k = Some t \<longrightarrow> t_riderId t = rider" by blast
    show thesis by (rule that [of k]) (use k r quiet(2) in simp_all)
  next
    case (dispatch t m1 t2 ev m2)
    from createTrip_touches [OF inv new dispatch(1)] obtain k
      where k: "touches k (stateMachine s) m1" "\<forall>t. jm_get (trips (stateMachine s)) k = Some t \<longrightarrow> t_riderId t = rider" "t_id t = k"
      by blast
    have inv1: "tsm_inv m1" by (rule createTrip_inv [OF inv new dispatch(1)])
    have st: "touches k m1 m2" using transition_touches dispatch(3) k(3) by (simp add: startMatching_def)
    have "t_id t2 = k"
    proof (rule transition_cases [OF dispatch(3) [unfolded startMatching_def]])
      fix t0 t1 s1 ev' assume a: "jm_get (trips m1) (t_id t) = Some t0" "milestone m1 now t0 Matching System None JUndefined = Inr (t1, s1)"
        "Inr (t2, ev) = Inr (t1\<lparr>t_status := Matching\<rparr>, Some ev')"
      then show ?thesis using milestone_frame [OF a(2)] tsm_invD(1) [OF inv1 a(1)] k(3) by (simp add: same_ids_def)
    next
      fix t0 assume a: "jm_get (trips m1) (t_id t) = Some t0" "Inr (t2, ev) = Inr (t0, None)"
      then show ?thesis using tsm_invD(1) [OF inv1 a(1)] k(3) by simp
    qed simp_all
    then have "touches k m2 (stateMachine s')"
      using dispatch_touches [of t2 "s\<lparr>stateMachine := m2, abortedRequests := abortedRequests s - {req}\<rparr>" now cf] dispatch(5) by simp
    then have "touches k (stateMachine s) (stateMachine s')" by (rule touches_trans [OF k(1) touches_trans [OF st]])
    then show thesis by (intro that [of k]) (use k(2) r in simp_all)
  qed
qed

lemma driver_milestone_touches:
  assumes "target \<in> {Arrived, In_progress, Completed}"
  shows "touches tid (stateMachine s) (stateMachine (snd (driver_milestone s now tid i target)))"
  using transition_touches
  by (auto simp: driver_milestone_def milestone_call_eq [OF assms] split: sum.split prod.split)

lemma response_machine [simp]: "stateMachine (snd (handleDriverResponse s now i req resp)) = stateMachine s"
  by (rule handleDriverResponse_cases [of s now i req resp]) simp_all

lemma lookup_request: "tsm_inv m \<Longrightarrow> getTripByRequestId m req = Some t \<Longrightarrow> jm_get (trips m) (t_id t) = Some t"
  using tsm_invD(1) by (auto simp: getTripByRequestId_def lookup_via_def Let_def split: if_splits)

text \<open>The trips a message changes.\<close>

definition owns :: "ClientRole \<Rightarrow> string \<Rightarrow> Trip \<Rightarrow> bool" where
  "owns role i t = ((role = RoleRider \<and> t_riderId t = i) \<or> (role = RoleDriver \<and> t_driverId t = Some i))"

lemma message_touches:
  assumes inv: "tsm_inv (stateMachine (service w))" and new: "jm_get (trips (stateMachine (service w))) (''trip_'' @ uuid) = None"
  obtains k where "touches k (stateMachine (service w)) (stateMachine (service (handleMessage w now uuid rid so role i msg)))"
    "\<And>t. jm_get (trips (stateMachine (service w))) k = Some t \<Longrightarrow>
       stateMachine (service (handleMessage w now uuid rid so role i msg)) \<noteq> stateMachine (service w) \<Longrightarrow> owns role i t"
proof -
  let ?w = "handleMessage w now uuid rid so role i msg"
  note fin = that
  have same: thesis if "stateMachine (service ?w) = stateMachine (service w)"
    by (rule fin [of "[]"]) (use that in simp_all)
  show thesis
  proof (cases msg)
    case (Ride_request req pk dr tmo)
    let ?req = "if truthy req then the req else ''req_'' @ rid"
    from requestRide_touches [OF inv new, of now ?req i pk dr "request_config tmo"] obtain k
      where k: "touches k (stateMachine (service w)) (stateMachine (snd (requestRide (service w) now uuid ?req i pk dr (request_config tmo))))"
        "\<And>t. jm_get (trips (stateMachine (service w))) k = Some t \<Longrightarrow> t_riderId t = i" by blast
    show thesis
    proof (cases "role = RoleRider \<and> isValidGeoPoint pk \<and> isValidGeoPoint dr")
      case True
      then have "service ?w = snd (requestRide (service w) now uuid ?req i pk dr (request_config tmo))"
        by (simp add: Ride_request request_service)
      then show thesis using k True by (intro that [of k]) (simp_all only: owns_def, blast)
    next
      case False
      then show thesis by (intro same) (auto simp: Ride_request request_service)
    qed
  next
    case (Cancel_ride req reason)
    show thesis
    proof (cases "role = RoleRider \<and> truthy req \<and>
        (\<exists>t. getTripByRequestId (stateMachine (service w)) (the req) = Some t \<and> t_riderId t = i)")
      case True
      then obtain t where t: "getTripByRequestId (stateMachine (service w)) (the req) = Some t" "t_riderId t = i" by blast
      then have "service ?w = snd (cancelRide (service w) now (the req) Rider reason)"
        using True by (simp add: Cancel_ride cancel_service)
      then show thesis
        using True cancelRide_touches [OF t(1), of now Rider reason] lookup_request [OF inv t(1)] t(2)
        by (intro that [of "t_id t"]) (simp_all add: owns_def)
    next
      case False
      then have "service ?w = service w" unfolding Cancel_ride handleMessage.simps cancel_service by (rule if_not_P)
      then show thesis by (intro same) simp
    qed
  next
    case (Driver_telemetry la lo)
    then show thesis by (intro same) (simp add: telemetry_service split: option.split)
  next
    case (Ride_response req resp)
    then show thesis by (intro same) (simp add: response_service)
  next
    case (Driver_action action tid)
    show thesis
    proof (cases "\<exists>target t k. action_target action = Some target \<and> tid = Some k \<and>
        getTrip (stateMachine (service w)) k = Some t \<and> role = RoleDriver \<and> t_driverId t = Some i")
      case True
      then obtain target t k where a: "action_target action = Some target" "tid = Some k"
        "getTrip (stateMachine (service w)) k = Some t" "role = RoleDriver" "t_driverId t = Some i" by blast
      then have "service ?w = snd (driver_milestone (service w) now k i target)" by (simp add: Driver_action action_service)
      then show thesis
        using driver_milestone_touches [OF action_target_range [OF a(1)], of k "service w" now i] a(3-5)
        by (intro that [of k]) (simp_all add: getTrip_def owns_def)
    next
      case False
      then have "service ?w = service w"
        using Driver_action by (auto simp: action_service bind_eq_Some_conv split: option.split)
      then show thesis by (intro same) simp
    qed
  qed (use same in simp_all)
qed

section \<open>The drivers a message changes\<close>

lemma telemetry_others [simp]:
  "d \<noteq> i \<Longrightarrow> jm_get (drivers (telemetry_registry s now i p)) d = jm_get (drivers (driverRegistry s)) d"
proof (cases "getDriver (driverRegistry s) i")
  case (Some e)
  assume d: "d \<noteq> i"
  obtain ok r1 where up: "updateLocation (driverRegistry s) now i (Fin (lat p)) (Fin (lng p)) = (ok, r1)" by fastforce
  have "jm_get (drivers r1) d = jm_get (drivers (driverRegistry s)) d"
    using updateLocation_others [OF d, of "driverRegistry s" now "Fin (lat p)" "Fin (lng p)"] up by simp
  then show ?thesis using d Some up by (simp add: telemetry_registry_def)
qed (simp add: telemetry_registry_def)

lemma driver_message_drivers:
  assumes "role = RoleDriver" and "d \<noteq> i"
  shows "getDriver (driverRegistry (service (handleMessage w now uuid rid so role i msg))) d = getDriver (driverRegistry (service w)) d"
proof -
  have "driverRegistry (snd (handleDriverResponse s now i req resp)) = driverRegistry s" for s req resp
    by (rule handleDriverResponse_cases [of s now i req resp]) simp_all
  moreover have "jm_get (drivers (driverRegistry (snd (driver_milestone s now tid i target)))) d = jm_get (drivers (driverRegistry s)) d" for s tid target
    using assms(2) by (simp add: driver_milestone_def split: sum.split prod.split)
  ultimately show ?thesis
    using assms by (cases msg) (simp_all add: message_services getDriver_def split: option.split)
qed

lemma driver_message_offers:
  assumes "role = RoleDriver" and "getActiveOffer (service w) q = Some offer"
    and "getActiveOffer (service (handleMessage w now uuid rid so role i msg)) q \<noteq> Some offer"
  shows "po_driverId offer = i"
proof -
  have mile: "activeOffers (snd (driver_milestone s now tid i target)) = activeOffers s" for s tid target
    by (simp add: driver_milestone_def split: sum.split prod.split)
  have resp: "po_driverId offer = i" if "getActiveOffer s q = Some offer" "getActiveOffer (snd (handleDriverResponse s now i req rsp)) q \<noteq> Some offer" for s req rsp
    by (rule handleDriverResponse_cases [of s now i req rsp])
      (use that in \<open>auto simp: getActiveOffer_def drop_offer_def split: if_splits\<close>)
  show ?thesis
    using assms resp by (cases msg) (auto simp: message_services getActiveOffer_def mile split: option.splits if_splits)
qed

end
