(* ===== verification/GatewayProperties.thy ===== *)
theory GatewayProperties
  imports GatewayRuns MatchingDemo
begin

text \<open>
  What the gateway adds to the service: its messages are runs of the service, a message touches
  only what belongs to its sender, a replaced connection cannot disturb its replacement, and a
  driver's repeated report of a finished trip frees the driver once more.
\<close>

section \<open>Runs\<close>

text \<open>
  The gateway refines the matching service: whatever clients connect, send and leave, and
  however the timers and suspended calls interleave with them, the service behind the gateway is in
  a state that a run of the service reaches; so all that is proved of those runs holds behind the
  gateway, in particular two active trips never share a rider or a driver, and the registry is in a
  state its own runs reach.
\<close>

theorem gateway_refines_service:
  assumes "gw_run U w"
  shows "\<exists>h. svc_run h (service w) \<and> used_tids h \<subseteq> U \<and> registry_run (driverRegistry (service w)) \<and>
    (\<forall>t1 t2. getTrip (stateMachine (service w)) (t_id t1) = Some t1 \<and> getTrip (stateMachine (service w)) (t_id t2) = Some t2 \<and>
       \<not> terminal (t_status t1) \<and> \<not> terminal (t_status t2) \<and>
       (t_riderId t1 = t_riderId t2 \<or> t_driverId t1 = t_driverId t2 \<and> t_driverId t1 \<noteq> None) \<longrightarrow> t1 = t2)"
  using serves_summary [OF gw_run_serves [OF assms]] .

definition demo_hall :: WsManager where
  "demo_hall = socket_message (snd (handleConnection ((ws_new demo_idle)\<lparr>openSockets := {1}\<rparr>) 0 ''c'' 1 RoleRider (Some ''ann'')))
     5 ''u1'' ''q1'' 1 RoleRider ''ann'' (Some (Ride_request (Some ''r1'') demo_pickup demo_pickup JUndefined))"

theorem gateway_refines_service_witness:
  "\<exists>h. svc_run h (service demo_hall) \<and> used_tids h \<subseteq> {''trip_u1''}"
proof -
  have "gw_run {} (ws_new demo_idle)" unfolding demo_idle_def by (rule gw_start [OF demo_registry_run])
  then have "gw_run (insert (''trip_'' @ ''u1'') {}) demo_hall"
    unfolding demo_hall_def by (rule gw_message [OF gw_connect [OF gw_sockets]]) simp
  from gateway_refines_service [OF this] show ?thesis by simp blast
qed

section \<open>Messages and connections\<close>

text \<open>A free driver has been reserved for a request, and nothing else of its record has changed.\<close>

definition reserved_for :: "ms \<Rightarrow> DriverRecord option \<Rightarrow> DriverRecord option \<Rightarrow> string \<Rightarrow> bool" where
  "reserved_for now before after req =
    (\<exists>x until. before = Some x \<and> d_status x = Available \<and> (d_lockToken x = None \<or> lock_expired x now) \<and>
       after = Some (x\<lparr>d_lockToken := Some \<lparr>lt_requestId = req, lt_expiresAt = until\<rparr>\<rparr>))"

lemma createTrip_stored:
  assumes inv: "tsm_inv m" and c: "createTrip m now uuid req rider pk dr = (Inr t, m1)"
  shows "jm_get (trips m1) (t_id t) = Some t \<and> t_riderId t = rider \<and> t_requestId t = req"
  using inv c by (cases rule: createTrip_cases) (auto simp: newTrip_def)

lemma startMatching_stored:
  assumes st: "startMatching m now k = (Inr (t2, ev), m')" and t: "jm_get (trips m) k = Some t" and k: "t_id t = k"
  shows "jm_get (trips m') (t_id t2) = Some t2 \<and> same_ids t t2"
proof (rule transition_cases [OF st [unfolded startMatching_def]])
  fix t0 t1 s1 ev'
  assume a: "jm_get (trips m) k = Some t0" "milestone m now t0 Matching System None JUndefined = Inr (t1, s1)"
    "Inr (t2, ev) = Inr (t1\<lparr>t_status := Matching\<rparr>, Some ev')"
    "m' = notifyTransition (recordEvent (s1\<lparr>trips := jm_set (trips s1) k (t1\<lparr>t_status := Matching\<rparr>)\<rparr>) ev') ev' (t1\<lparr>t_status := Matching\<rparr>)"
  then show ?thesis using milestone_frame [OF a(2)] t k by (auto simp: same_ids_def)
qed (use t k in \<open>auto simp: same_ids_def\<close>)

lemma dispatch_changes:
  assumes "reg_inv (driverRegistry s)"
  shows "activeOffers (dispatchOfferLoop s now t cf) = activeOffers s"
    and "getDriver (driverRegistry (dispatchOfferLoop s now t cf)) d = getDriver (driverRegistry s) d \<or>
      (stateMachine (dispatchOfferLoop s now t cf) = stateMachine s \<and>
       reserved_for now (getDriver (driverRegistry s) d) (getDriver (driverRegistry (dispatchOfferLoop s now t cf)) d) (t_requestId t))"
proof -
  let ?lp = "\<lparr>lp_trip = t, lp_config = cf, lp_deadline = now + MAX_MATCH_WAIT_MS, lp_tried = [], lp_hadCandidates = False,
      lp_i = 0, lp_pc = AbortReleasing\<rparr>" and ?s = "s\<lparr>nextLoop := Suc (nextLoop s)\<rparr>"
  have "activeOffers (loop_iteration ?s now (nextLoop s) ?lp) = activeOffers s \<and>
    (getDriver (driverRegistry (loop_iteration ?s now (nextLoop s) ?lp)) d = getDriver (driverRegistry s) d \<or>
      (stateMachine (loop_iteration ?s now (nextLoop s) ?lp) = stateMachine s \<and>
       reserved_for now (getDriver (driverRegistry s) d)
         (getDriver (driverRegistry (loop_iteration ?s now (nextLoop s) ?lp)) d) (t_requestId t)))"
  proof (rule loop_iteration_cases [where lp = ?lp and s = ?s and now = now and l = "nextLoop s"])
    fix c cs tmo locked r1
    assume a: "acquireLock (driverRegistry ?s) now (c_id c) (lp_req ?lp) (tmo + LOCK_SAFETY_MARGIN_MS) = (locked, r1)"
      and eq: "loop_iteration ?s now (nextLoop s) ?lp = put_loop (?s\<lparr>driverRegistry := r1\<rparr>) (nextLoop s)
         (?lp\<lparr>lp_tried := lp_tried ?lp @ [c_id c], lp_hadCandidates := True, lp_pc := Acquiring c tmo locked\<rparr>)"
    have "reg_inv (driverRegistry ?s)" using assms by simp
    from this a have "getDriver r1 d = getDriver (driverRegistry s) d \<or>
        reserved_for now (getDriver (driverRegistry s) d) (getDriver r1 d) (t_requestId t)"
      by (cases rule: acquireLock_cases) (auto simp: getDriver_def reserved_for_def)
    then show ?thesis unfolding eq by (simp add: put_loop_def)
  qed (simp_all add: end_loop_def emit_def)
  then show "activeOffers (dispatchOfferLoop s now t cf) = activeOffers s"
    and "getDriver (driverRegistry (dispatchOfferLoop s now t cf)) d = getDriver (driverRegistry s) d \<or>
      (stateMachine (dispatchOfferLoop s now t cf) = stateMachine s \<and>
       reserved_for now (getDriver (driverRegistry s) d) (getDriver (driverRegistry (dispatchOfferLoop s now t cf)) d) (t_requestId t))"
    by (simp_all add: dispatchOfferLoop_def Let_def)
qed

lemma requestRide_changes:
  assumes inv: "tsm_inv (stateMachine s)" and reg: "reg_inv (driverRegistry s)"
    and new: "jm_get (trips (stateMachine s)) (''trip_'' @ uuid) = None"
    and s': "s' = snd (requestRide s now uuid req rider pk dr cf)"
  shows "activeOffers s' = activeOffers s"
    and "getDriver (driverRegistry s') d \<noteq> getDriver (driverRegistry s) d \<Longrightarrow>
      \<exists>k t. getTrip (stateMachine s') k = Some t \<and> t_riderId t = rider \<and>
        reserved_for now (getDriver (driverRegistry s) d) (getDriver (driverRegistry s') d) (t_requestId t)"
proof -
  obtain res where r: "requestRide s now uuid req rider pk dr cf = (res, s')" using s' by (metis prod.collapse)
  have "activeOffers s' = activeOffers s \<and> (getDriver (driverRegistry s') d \<noteq> getDriver (driverRegistry s) d \<longrightarrow>
      (\<exists>k t. getTrip (stateMachine s') k = Some t \<and> t_riderId t = rider \<and>
        reserved_for now (getDriver (driverRegistry s) d) (getDriver (driverRegistry s') d) (t_requestId t)))"
    using r
  proof (cases rule: requestRide_cases)
    case (quiet q m1)
    then show ?thesis by simp
  next
    case (dispatch t m1 t2 ev m2)
    note c = createTrip_stored [OF inv dispatch(1)]
    have t2: "jm_get (trips m2) (t_id t2) = Some t2" "t_riderId t2 = rider"
      using startMatching_stored [OF dispatch(3)] c by (auto simp: same_ids_def)
    let ?s = "s\<lparr>stateMachine := m2, abortedRequests := abortedRequests s - {req}\<rparr>"
    have "reg_inv (driverRegistry ?s)" using reg by simp
    note x = dispatch_changes(1) [OF this, of now t2 cf] dispatch_changes(2) [OF this, of now t2 cf d]
    have "getTrip m2 (t_id t2) = Some t2" using t2(1) by (simp add: getTrip_def)
    then show ?thesis
      using x t2(2) unfolding dispatch(5) by fastforce
  qed
  then show "activeOffers s' = activeOffers s"
    and "getDriver (driverRegistry s') d \<noteq> getDriver (driverRegistry s) d \<Longrightarrow>
      \<exists>k t. getTrip (stateMachine s') k = Some t \<and> t_riderId t = rider \<and>
        reserved_for now (getDriver (driverRegistry s) d) (getDriver (driverRegistry s') d) (t_requestId t)"
    by blast+
qed

lemma releaseLock_only:
  "getDriver (snd (releaseLock r i req)) d \<noteq> getDriver r d \<Longrightarrow> d = i"
  by (cases "d = i") (auto simp: getDriver_def releaseLock_def Let_def split: option.splits if_splits)

lemma completeTrip_only:
  "getDriver (snd (completeTrip r now i)) d \<noteq> getDriver r d \<Longrightarrow> d = i"
  by (cases "d = i") (auto simp: getDriver_def)

lemma cancelRide_changes:
  assumes trip: "getTripByRequestId (stateMachine s) req = Some t" and s': "s' = snd (cancelRide s now req by reason)"
  shows "getActiveOffer s' q = (if q = req then None else getActiveOffer s q)"
    and "getDriver (driverRegistry s') d \<noteq> getDriver (driverRegistry s) d \<Longrightarrow>
      t_driverId t = Some d \<or> (\<exists>offer. getActiveOffer s req = Some offer \<and> po_driverId offer = d)"
proof -
  have part: "activeOffers (snd (cancel_trip_part x now req by reason)) = activeOffers x \<and>
      (getDriver (driverRegistry (snd (cancel_trip_part x now req by reason))) d \<noteq> getDriver (driverRegistry x) d \<longrightarrow> t_driverId t = Some d)"
    if "stateMachine x = stateMachine s" for x
    by (cases "t_driverId t"; rule cancel_trip_part_cases [of x req now "by" reason])
      (use that trip in \<open>auto dest: completeTrip_only split: if_splits\<close>)
  show "getActiveOffer s' q = (if q = req then None else getActiveOffer s q)"
    using part [of "s\<lparr>abortedRequests := insert req (abortedRequests s)\<rparr>"] s'
    by (auto simp: cancelRide_eq suspend_cancel_def drop_offer_def Let_def getActiveOffer_def split: option.splits)
  show "getDriver (driverRegistry s') d \<noteq> getDriver (driverRegistry s) d \<Longrightarrow>
      t_driverId t = Some d \<or> (\<exists>offer. getActiveOffer s req = Some offer \<and> po_driverId offer = d)"
    using part [of "s\<lparr>abortedRequests := insert req (abortedRequests s)\<rparr>"] s'
    by (auto simp: cancelRide_eq suspend_cancel_def drop_offer_def Let_def getActiveOffer_def dest: releaseLock_only split: option.splits)
qed

lemma message_owns:
  assumes inv: "tsm_inv (stateMachine (service w))" and new: "jm_get (trips (stateMachine (service w))) (''trip_'' @ uuid) = None"
    and t: "getTrip (stateMachine (service w)) k = Some t"
      "getTrip (stateMachine (service (handleMessage w now uuid rid so role i msg))) k = Some t'" "t' \<noteq> t"
  shows "owns role i t"
proof (rule message_touches [OF inv new, of now rid so role i msg])
  let ?s' = "service (handleMessage w now uuid rid so role i msg)"
  fix j assume j: "touches j (stateMachine (service w)) (stateMachine ?s')"
    "\<And>t. jm_get (trips (stateMachine (service w))) j = Some t \<Longrightarrow> stateMachine ?s' \<noteq> stateMachine (service w) \<Longrightarrow> owns role i t"
  have "k = j" using touchesD [OF j(1), of k t'] t by (auto simp: getTrip_def)
  moreover have "stateMachine ?s' \<noteq> stateMachine (service w)" using t by (auto simp: getTrip_def)
  ultimately show ?thesis using j(2) t(1) by (simp add: getTrip_def)
qed

lemma rider_message_cases:
  obtains (request) req pk dr cf where "service (handleMessage w now uuid rid so RoleRider i msg) =
      snd (requestRide (service w) now uuid req i pk dr cf)"
  | (cancel) req t reason where "service (handleMessage w now uuid rid so RoleRider i msg) =
      snd (cancelRide (service w) now req Rider reason)"
      "getTripByRequestId (stateMachine (service w)) req = Some t" "t_riderId t = i"
  | (nothing) "service (handleMessage w now uuid rid so RoleRider i msg) = service w"
proof (cases msg)
  case (Ride_request req pk dr tmo)
  show thesis
  proof (cases "isValidGeoPoint pk \<and> isValidGeoPoint dr")
    case True
    then show thesis
      by (intro request [of "if truthy req then the req else ''req_'' @ rid" pk dr "request_config tmo"])
        (simp add: Ride_request request_service)
  next
    case False
    then have "service (handleMessage w now uuid rid so RoleRider i msg) = service w"
      by (auto simp: Ride_request request_service)
    then show thesis by (rule nothing)
  qed
next
  case (Cancel_ride req reason)
  show thesis
  proof (cases "truthy req \<and> (\<exists>t. getTripByRequestId (stateMachine (service w)) (the req) = Some t \<and> t_riderId t = i)")
    case True
    then obtain t where t: "getTripByRequestId (stateMachine (service w)) (the req) = Some t" "t_riderId t = i" by blast
    have "service (handleMessage w now uuid rid so RoleRider i msg) = snd (cancelRide (service w) now (the req) Rider reason)"
      using True by (simp add: Cancel_ride cancel_service)
    then show thesis by (rule cancel) (fact t)+
  next
    case False
    then have "service (handleMessage w now uuid rid so RoleRider i msg) = service w"
      by (auto simp: Cancel_ride cancel_service)
    then show thesis by (rule nothing)
  qed
qed (use nothing in \<open>simp_all add: message_services split: option.splits\<close>)

lemma rider_message_changes:
  assumes inv: "tsm_inv (stateMachine (service w))" and reg: "reg_inv (driverRegistry (service w))"
    and new: "jm_get (trips (stateMachine (service w))) (''trip_'' @ uuid) = None"
    and s': "s' = service (handleMessage w now uuid rid so RoleRider i msg)"
  shows "(getActiveOffer s' q \<noteq> getActiveOffer (service w) q \<longrightarrow> getActiveOffer s' q = None \<and>
      (\<exists>t. getTripByRequestId (stateMachine (service w)) q = Some t \<and> t_riderId t = i)) \<and>
    (getDriver (driverRegistry s') d \<noteq> getDriver (driverRegistry (service w)) d \<longrightarrow>
      (\<exists>q t. getTripByRequestId (stateMachine (service w)) q = Some t \<and> t_riderId t = i \<and>
         (t_driverId t = Some d \<or> (\<exists>offer. getActiveOffer (service w) q = Some offer \<and> po_driverId offer = d))) \<or>
      (\<exists>k t. getTrip (stateMachine s') k = Some t \<and> t_riderId t = i \<and>
         reserved_for now (getDriver (driverRegistry (service w)) d) (getDriver (driverRegistry s') d) (t_requestId t)))"
proof (cases rule: rider_message_cases [of w now uuid rid so i msg])
  case (request req pk dr cf)
  note r = requestRide_changes [OF inv reg new, of s' now req i pk dr cf]
  have eq: "s' = snd (requestRide (service w) now uuid req i pk dr cf)" using request s' by simp
  show ?thesis using r(1) [OF eq] r(2) [OF eq, of d] by (simp add: getActiveOffer_def)
next
  case (cancel req t reason)
  note c = cancelRide_changes [OF cancel(2), of s' now Rider reason]
  have eq: "s' = snd (cancelRide (service w) now req Rider reason)" using cancel(1) s' by simp
  have "getActiveOffer s' q \<noteq> getActiveOffer (service w) q \<Longrightarrow> q = req \<and> getActiveOffer s' q = None"
    using c(1) [OF eq, of q] by (auto split: if_splits)
  then show ?thesis using c(2) [OF eq, of d] cancel(2,3) by blast
next
  case nothing
  then show ?thesis using s' by simp
qed

lemma driver_message_makes_no_offer:
  assumes "role = RoleDriver"
  shows "getActiveOffer (service (handleMessage w now uuid rid so role i msg)) q \<in> {None, getActiveOffer (service w) q}"
proof -
  have mile: "activeOffers (snd (driver_milestone s now tid i target)) = activeOffers s" for s tid target
    by (simp add: driver_milestone_def split: sum.split prod.split)
  have resp: "getActiveOffer (snd (handleDriverResponse s now i req rsp)) q \<in> {None, getActiveOffer s q}" for s req rsp
    by (rule handleDriverResponse_cases [of s now i req rsp]) (auto simp: getActiveOffer_def drop_offer_def split: if_splits)
  show ?thesis
    using assms resp by (cases msg) (auto simp: message_services getActiveOffer_def mile split: option.splits if_splits)
qed

text \<open>
  C15. A message stays with its sender.  An observer's changes nothing.  A stored trip that a message
  changes is the sender's own: a rider's by its rider, a driver's by the driver assigned to it.  No
  message makes an offer or alters one; the offer it ends, if any, is for a ride of the sending
  rider, or was made to the sending driver.  A driver's message changes no other driver's record.
  A rider's message changes only records of drivers the rider has to do with: the one assigned to a
  trip of the rider, the one to whom a ride of the rider is offered, or a free one, which it reserves
  for a ride of the rider and leaves otherwise as it was.
\<close>

theorem message_stays_with_sender:
  assumes "svc_run h (service w)" and "''trip_'' @ uuid \<notin> used_tids h"
  shows "let s = service w; s' = service (handleMessage w now uuid rid so role i msg) in
    (role = RoleObserver \<longrightarrow> s' = s) \<and>
    (\<forall>k t t'. getTrip (stateMachine s) k = Some t \<and> getTrip (stateMachine s') k = Some t' \<and> t' \<noteq> t \<longrightarrow>
       (role = RoleRider \<and> t_riderId t = i) \<or> (role = RoleDriver \<and> t_driverId t = Some i)) \<and>
    (\<forall>q. getActiveOffer s' q \<noteq> getActiveOffer s q \<longrightarrow> getActiveOffer s' q = None \<and>
       (if role = RoleRider then \<exists>t. getTripByRequestId (stateMachine s) q = Some t \<and> t_riderId t = i
        else \<exists>offer. getActiveOffer s q = Some offer \<and> po_driverId offer = i)) \<and>
    (\<forall>d. getDriver (driverRegistry s') d \<noteq> getDriver (driverRegistry s) d \<longrightarrow>
       (role = RoleDriver \<and> d = i) \<or>
       (role = RoleRider \<and>
         ((\<exists>q t. getTripByRequestId (stateMachine s) q = Some t \<and> t_riderId t = i \<and>
             (t_driverId t = Some d \<or> (\<exists>offer. getActiveOffer s q = Some offer \<and> po_driverId offer = d))) \<or>
          (\<exists>k t. getTrip (stateMachine s') k = Some t \<and> t_riderId t = i \<and>
             reserved_for now (getDriver (driverRegistry s) d) (getDriver (driverRegistry s') d) (t_requestId t)))))"
proof -
  note inv = svc_run_inv [OF assms(1)]
  have runs: "tsm_runs (used_tids h) (stateMachine (service w))" using inv by (simp add: svc_inv_def)
  note tinv = tsm_runs_inv [OF runs]
  have reg: "reg_inv (driverRegistry (service w))" using inv registry_run_inv by (simp add: svc_inv_def)
  let ?s' = "service (handleMessage w now uuid rid so role i msg)"
  have new: "jm_get (trips (stateMachine (service w))) (''trip_'' @ uuid) = None"
    using tsm_runs_known [OF runs] assms(2) by (metis option.exhaust)
  have obs: "role = RoleObserver \<Longrightarrow> ?s' = service w"
    by (cases msg) (simp_all add: message_services split: option.split)
  have own: "owns role i t"
    if "getTrip (stateMachine (service w)) k = Some t" "getTrip (stateMachine ?s') k = Some t'" "t' \<noteq> t" for k t t'
    by (rule message_owns [OF tinv new that])
  show ?thesis
  proof (cases role)
    case RoleRider
    note r = rider_message_changes [OF tinv reg new refl, of now rid so i msg]
    have "(\<exists>t. getTripByRequestId (stateMachine (service w)) q = Some t \<and> t_riderId t = i) \<and> getActiveOffer ?s' q = None"
      if "getActiveOffer ?s' q \<noteq> getActiveOffer (service w) q" for q
      using that r [of q] unfolding RoleRider by blast
    then show ?thesis using own r unfolding RoleRider Let_def owns_def by (intro conjI allI impI) (simp, blast, simp, simp, blast)
  next
    case RoleDriver
    have offers: "getActiveOffer ?s' q = None \<and> (\<exists>offer. getActiveOffer (service w) q = Some offer \<and> po_driverId offer = i)"
      if "getActiveOffer ?s' q \<noteq> getActiveOffer (service w) q" for q
      using that driver_message_makes_no_offer [OF RoleDriver, of w now uuid rid so i msg q]
        driver_message_offers [OF RoleDriver, of w q _ now uuid rid so i msg] RoleDriver
      by (cases "getActiveOffer (service w) q") auto
    have "d = i" if "getDriver (driverRegistry ?s') d \<noteq> getDriver (driverRegistry (service w)) d" for d
      using that driver_message_drivers [OF RoleDriver, of d i w now uuid rid so msg] by blast
    then show ?thesis using RoleDriver own offers unfolding Let_def owns_def by auto
  next
    case RoleObserver
    then show ?thesis using obs by simp
  qed
qed

text \<open>
  A client that comes back on a new socket is not disturbed by the end of the old one: when the
  old socket closes after the new one has taken its place, nothing changes, in particular a driver
  is not set offline; when the current socket of an idle driver closes, the driver goes offline and
  leaves the index.
\<close>

theorem replacement_keeps_connection:
  assumes "role \<noteq> RoleObserver" and "i \<noteq> []" and "old \<noteq> new" and "reg_inv (driverRegistry (service w))"
  shows "let w2 = snd (handleConnection w now fresh new role (Some i)) in
    socket_closed w2 t old role i = w2 \<and>
    (role = RoleDriver \<and> getActiveTripForDriver (stateMachine (service w)) i = None \<and> getDriver (driverRegistry (service w)) i \<noteq> None \<longrightarrow>
       (let w3 = socket_closed w2 t new role i in
        jm_get (driverSockets w3) i = None \<and> map_option d_status (getDriver (driverRegistry (service w3)) i) = Some Offline \<and>
        qt_pos (spatialIndex (driverRegistry (service w3))) i = None))"
proof -
  let ?w2 = "snd (handleConnection w now fresh new role (Some i))"
  have sock: "role = RoleRider \<Longrightarrow> jm_get (riderSockets ?w2) i = Some new" "role = RoleDriver \<Longrightarrow> jm_get (driverSockets ?w2) i = Some new"
    using assms(2) by (simp_all add: handleConnection_def Let_def)
  have closed: "socket_closed ?w2 t old role i = ?w2"
    using assms(1,3) sock by (cases role) (auto simp: socket_closed_def)
  define r3 where "r3 = snd (setStatus (driverRegistry (service w)) t i Offline)"
  have inv3: "reg_inv r3" using setStatus_step [OF assms(4)] by (simp add: registry_step_def r3_def)
  have off: "\<exists>d. jm_get (drivers r3) i = Some d \<and> d_status d = Offline" if "getDriver (driverRegistry (service w)) i \<noteq> None"
    using that by (auto simp: r3_def setStatus_def getDriver_def Let_def)
  have "qt_pos (spatialIndex r3) i = None" if "getDriver (driverRegistry (service w)) i \<noteq> None"
    using off [OF that] reg_invD(4) [OF inv3, of i] by (auto simp: record_pos_def searchable_def)
  then show ?thesis
    using closed off sock by (auto simp: socket_closed_def getDriver_def Let_def r3_def)
qed

definition demo_gate :: WsManager where
  "demo_gate = snd (handleConnection (ws_new demo_ride) 6 ''c'' 1 RoleDriver (Some ''d1''))"

lemma demo_gate_service [simp]: "service demo_gate = demo_ride"
  by (simp add: demo_gate_def ws_new_def)

text \<open>The first ride of the demonstration while its driver is asked.\<close>

definition demo_asking :: WsManager where
  "demo_asking = ws_new demo_waiting"

theorem message_stays_with_sender_witness:
  "service (handleMessage demo_gate 7 ''u9'' ''q9'' 2 RoleObserver ''eve'' (Cancel_ride (Some ''r1'') None)) = demo_ride \<and>
   \<not> (\<exists>t'. getTrip (stateMachine (service (handleMessage demo_gate 7 ''u9'' ''q9'' 2 RoleDriver ''d2''
        (Driver_action ''arrived'' (Some ''trip_u1''))))) ''trip_u1'' = Some t' \<and> t_status t' = Arrived) \<and>
   (\<exists>offer. getActiveOffer demo_waiting ''r1'' = Some offer \<and>
      getActiveOffer (service (handleMessage demo_asking 7 ''u9'' ''q9'' 2 RoleRider ''eve'' (Cancel_ride (Some ''r1'') None))) ''r1'' = Some offer)"
proof -
  obtain h where h: "svc_run h (service demo_gate)" "used_tids h \<subseteq> {''trip_u1''}"
    using demo_run_ride by (auto simp: run_with_def)
  then have new: "''trip_'' @ ''u9'' \<notin> used_tids h" by auto
  have "map_option (\<lambda>t. (t_status t, t_driverId t)) (getTrip (stateMachine demo_ride) ''trip_u1'') = Some (Matched, Some ''d1'')"
    by code_simp
  then obtain t where t: "getTrip (stateMachine demo_ride) ''trip_u1'' = Some t" "t_status t = Matched" "t_driverId t = Some ''d1''" by auto
  let ?w' = "handleMessage demo_gate 7 ''u9'' ''q9'' 2 RoleDriver ''d2'' (Driver_action ''arrived'' (Some ''trip_u1''))"
  have "t' = t" if "getTrip (stateMachine (service ?w')) ''trip_u1'' = Some t'" for t'
  proof (rule ccontr)
    assume "t' \<noteq> t"
    then have "t_driverId t = Some ''d2''"
      using message_stays_with_sender [OF h(1) new, of 7 "''q9''" 2 RoleDriver "''d2''" "Driver_action ''arrived'' (Some ''trip_u1'')",
          unfolded Let_def, THEN conjunct2, THEN conjunct1, rule_format, of "''trip_u1''" t t'] t(1) that by simp
    then show False using t(3) by simp
  qed
  then have "\<not> (\<exists>t'. getTrip (stateMachine (service ?w')) ''trip_u1'' = Some t' \<and> t_status t' = Arrived)" using t(2) by auto
  moreover have "service (handleMessage demo_gate 7 ''u9'' ''q9'' 2 RoleObserver ''eve'' (Cancel_ride (Some ''r1'') None)) = demo_ride"
    using message_stays_with_sender [OF h(1) new, of 7 "''q9''" 2 RoleObserver "''eve''" "Cancel_ride (Some ''r1'') None",
        unfolded Let_def, THEN conjunct1] by simp
  moreover have "\<exists>offer. getActiveOffer demo_waiting ''r1'' = Some offer \<and>
      getActiveOffer (service (handleMessage demo_asking 7 ''u9'' ''q9'' 2 RoleRider ''eve'' (Cancel_ride (Some ''r1'') None))) ''r1'' = Some offer"
  proof -
    obtain h2 where h2: "svc_run h2 (service demo_asking)" "used_tids h2 \<subseteq> {''trip_u1''}"
      using demo_run_waiting by (auto simp: run_with_def demo_asking_def ws_new_def)
    then have new2: "''trip_'' @ ''u9'' \<notin> used_tids h2" by auto
    have offer: "getActiveOffer demo_waiting ''r1'' \<noteq> None"
      and rider: "map_option t_riderId (getTripByRequestId (stateMachine demo_waiting) ''r1'') = Some ''ann''" by code_simp+
    have serv: "service demo_asking = demo_waiting" by (simp add: demo_asking_def ws_new_def)
    let ?s' = "service (handleMessage demo_asking 7 ''u9'' ''q9'' 2 RoleRider ''eve'' (Cancel_ride (Some ''r1'') None))"
    have "getActiveOffer ?s' ''r1'' = getActiveOffer demo_waiting ''r1''"
    proof (rule ccontr)
      assume "getActiveOffer ?s' ''r1'' \<noteq> getActiveOffer demo_waiting ''r1''"
      then obtain t where "getTripByRequestId (stateMachine demo_waiting) ''r1'' = Some t" "t_riderId t = ''eve''"
        using message_stays_with_sender [OF h2(1) new2, of 7 "''q9''" 2 RoleRider "''eve''" "Cancel_ride (Some ''r1'') None",
            unfolded Let_def serv, THEN conjunct2, THEN conjunct2, THEN conjunct1, rule_format, of "''r1''"] by auto
      then show False using rider by simp
    qed
    then show ?thesis using offer by auto
  qed
  ultimately show ?thesis by blast
qed

theorem replacement_keeps_connection_witness:
  "let w2 = snd (handleConnection demo_gate 8 ''c'' 2 RoleDriver (Some ''d1'')) in
    socket_closed w2 9 1 RoleDriver ''d1'' = w2"
proof -
  have "registry_run (driverRegistry demo_ride)" using demo_run_ride svc_run_inv by (auto simp: run_with_def svc_inv_def)
  then have "reg_inv (driverRegistry (service demo_gate))" using registry_run_inv by simp
  from replacement_keeps_connection [OF _ _ _ this, of RoleDriver "''d1''" 1 2 8 "''c''" 9] show ?thesis
    unfolding Let_def by simp
qed

section \<open>An error\<close>

text \<open>
  A driver who reports the completion of a trip again, while carrying the next passenger, is
  made available: the trip is completed already, so the transition succeeds without effect, and the
  gateway frees the driver as after a first report; the driver is found by searches while the next
  trip is still its own.
\<close>

theorem replayed_complete_frees_driver:
  assumes "svc_run h (service w)" and "getTrip (stateMachine (service w)) tid = Some t" and "t_status t = Completed"
    and "t_driverId t = Some i" and "getDriver (driverRegistry (service w)) i = Some d" and "d_lockToken d = None"
    and "isWithinBounds (driverRegistry (service w)) (d_lat d) (d_lng d)"
  shows "let s' = service (handleMessage w now uuid rid so RoleDriver i (Driver_action ''complete_trip'' (Some tid))) in
    stateMachine s' = stateMachine (service w) \<and>
    (\<exists>d'. getDriver (driverRegistry s') i = Some d' \<and> d_status d' = Available \<and> d_lockToken d' = None \<and>
      qt_pos (spatialIndex (driverRegistry s')) i = position_of (qt_region (spatialIndex (driverRegistry s'))) (d_lat d) (d_lng d))"
proof -
  let ?s = "service w"
  have inv: "reg_inv (driverRegistry ?s)" using svc_run_inv [OF assms(1)] registry_run_inv by (simp add: svc_inv_def)
  have "tsm_completeTrip (stateMachine ?s) now tid = (Inr (t, None), stateMachine ?s)"
    using assms(2,3) by (simp add: tsm_completeTrip_def transition_def getTrip_def)
  then have "service (handleMessage w now uuid rid so RoleDriver i (Driver_action ''complete_trip'' (Some tid))) =
      ?s\<lparr>stateMachine := stateMachine ?s, driverRegistry := snd (completeTrip (driverRegistry ?s) now i)\<rparr>"
    using assms(2,4) by (simp add: action_service action_target_def driver_milestone_def milestone_call_def)
  then show ?thesis
    using completeTrip_frees [OF inv _ assms(6,7), of i now] assms(5) by (auto simp: getDriver_def Let_def)
qed

text \<open>The ride of the demonstration is finished, and its driver matched again.\<close>

definition demo_finished :: MatchingService where
  "demo_finished =
    (let m1 = snd (driverArrived (stateMachine demo_ride) 11 ''trip_u1'');
         m2 = snd (startTrip m1 12 ''trip_u1'');
         s3 = demo_ride\<lparr>stateMachine := m2\<rparr>
     in snd (driver_milestone s3 13 ''trip_u1'' ''d1'' Completed))"

definition demo_again :: MatchingService where
  "demo_again =
    (let s1 = demo_acquire demo_finished 20 ''u2'' ''r2'' ''bob'';
         s2 = demo_offer s1 20 1;
         s3 = snd (handleDriverResponse s2 25 ''d1'' ''r2'' (JStr ''accepted''));
         s4 = demo_commit s3 25 1
     in demo_match s4 25 1)"

definition again_steps :: "MatchingService \<Rightarrow> bool" where
  "again_steps s0 =
    (let s1 = demo_acquire s0 20 ''u2'' ''r2'' ''bob'';
         s2 = demo_offer s1 20 1;
         s3 = snd (handleDriverResponse s2 25 ''d1'' ''r2'' (JStr ''accepted''));
         s4 = demo_commit s3 25 1;
         s5 = demo_match s4 25 1
     in starts s0 20 ''u2'' ''r2'' ''bob'' \<and> at_offer s1 1 \<and> at_commit s3 1 \<and> at_match s4 1 25 \<and>
        map_option (\<lambda>d. (d_status d, d_lockToken d = None, isWithinBounds (driverRegistry s5) (d_lat d) (d_lng d)))
          (getDriver (driverRegistry s5) ''d1'') = Some (Busy, True, True) \<and>
        map_option (\<lambda>t. (t_status t, t_driverId t)) (getTrip (stateMachine s5) ''trip_u1'') = Some (Completed, Some ''d1'') \<and>
        jm_get (activeDriverTrips (stateMachine s5)) ''d1'' = Some ''trip_u2'')"

lemma demo_again_steps: "again_steps demo_finished"
  by code_simp

lemma run_with_quiet: "run_with U s \<Longrightarrow> quiet s s' \<Longrightarrow> run_with U s'"
  unfolding run_with_def quiet_def using svc_run_exec by metis

lemma demo_run_finished: "run_with {''trip_u1''} demo_finished"
proof -
  have q1: "quiet s (s\<lparr>stateMachine := snd (driverArrived (stateMachine s) now tid)\<rparr>)" for s now tid
    unfolding driverArrived_def by (rule quiet_step [OF step_trip [OF _ prod.collapse [symmetric]]]) simp_all
  have q2: "quiet s (s\<lparr>stateMachine := snd (startTrip (stateMachine s) now tid)\<rparr>)" for s now tid
    unfolding startTrip_def by (rule quiet_step [OF step_trip [OF _ prod.collapse [symmetric]]]) simp_all
  have "quiet demo_ride demo_finished"
    unfolding demo_finished_def Let_def
    using quiet_trans [OF quiet_trans [OF q1 q2] driver_milestone_quiet, of Completed demo_ride 11 "''trip_u1''" 12 "''trip_u1''" 13 "''trip_u1''" "''d1''"]
    by simp
  then show ?thesis by (rule run_with_quiet [OF demo_run_ride])
qed

lemma demo_run_again: "run_with {''trip_u2'', ''trip_u1''} demo_again"
proof -
  note st = demo_again_steps [unfolded again_steps_def Let_def]
  have r1: "run_with {''trip_u2'', ''trip_u1''} (demo_acquire demo_finished 20 ''u2'' ''r2'' ''bob'')"
    by (rule run_with_request [OF demo_run_finished demo_request_step]) (use st in simp_all)
  have r2: "run_with {''trip_u2'', ''trip_u1''} (demo_offer (demo_acquire demo_finished 20 ''u2'' ''r2'' ''bob'') 20 1)"
    by (rule run_with_step [OF r1 demo_resume_steps(1)]) (use st in simp_all)
  note r3 = run_with_quiet [OF r2 response_quiet, of 25 "''d1''" "''r2''" "JStr ''accepted''"]
  note r4 = run_with_step [OF r3 demo_resume_steps(2), of 1 25]
  show ?thesis
    unfolding demo_again_def Let_def
    by (rule run_with_step [OF r4 demo_resume_steps(3)]) (use st in simp_all)
qed

theorem replayed_complete_frees_driver_witness:
  "\<exists>d'. getDriver (driverRegistry (service (handleMessage (ws_new demo_again) 30 ''u9'' ''q9'' 1 RoleDriver ''d1''
      (Driver_action ''complete_trip'' (Some ''trip_u1''))))) ''d1'' = Some d' \<and> d_status d' = Available"
proof -
  obtain h where h: "svc_run h (service (ws_new demo_again))" using demo_run_again by (auto simp: run_with_def ws_new_def)
  note st = demo_again_steps [unfolded again_steps_def Let_def, folded demo_again_def [unfolded Let_def]]
  obtain t where t: "getTrip (stateMachine (service (ws_new demo_again))) ''trip_u1'' = Some t" "t_status t = Completed" "t_driverId t = Some ''d1''"
    using st by (auto simp: ws_new_def)
  obtain d where d: "getDriver (driverRegistry (service (ws_new demo_again))) ''d1'' = Some d" "d_lockToken d = None"
      "isWithinBounds (driverRegistry (service (ws_new demo_again))) (d_lat d) (d_lng d)"
    using st by (auto simp: ws_new_def)
  from replayed_complete_frees_driver [OF h t d, of 30 "''u9''" "''q9''" 1] show ?thesis by (auto simp: Let_def)
qed

end
