(* ===== verification/Simulator.thy ===== *)
theory Simulator
  imports MatchingService
begin

text \<open>
  The virtual drivers of \<open>src/simulation/driver_simulator.ts\<close>: their seeding, the tick that
  moves them, their answers to offers, and the assignment of a trip.  Random numbers are arguments;
  coordinates are real numbers.  A timer is an entry of \<open>boardings\<close> or \<open>answers\<close>; the
  timer of a boarding holds the driver object itself, which is in the map (\<open>Attached\<close>) or was
  dropped by a reset and does not change any more (\<open>Detached\<close>, with its active trip).
\<close>

section \<open>Data\<close>

datatype sim_phase = Wandering | SimEnRoute | SimInProgress

record VirtualDriver =
  v_id :: string
  v_lat :: real
  v_lng :: real
  v_vx :: real
  v_vy :: real
  v_activeTripId :: "string option"
  v_targetLat :: "real option"
  v_targetLng :: "real option"
  v_phase :: sim_phase

datatype boarding = Attached string | Detached "string option"

record Simulator =
  sim_bounds :: GeoBounds
  virtualDrivers :: "(string, VirtualDriver) jsmap"
  isRunning :: bool
  boardings :: "boarding list"
  answers :: "(string \<times> string \<times> bool) list"

definition sim_new :: "GeoBounds \<Rightarrow> Simulator" where
  "sim_new bounds = \<lparr>sim_bounds = bounds, virtualDrivers = [], isRunning = False, boardings = [], answers = []\<rparr>"

definition put_virtual :: "Simulator \<Rightarrow> VirtualDriver \<Rightarrow> Simulator" where
  "put_virtual sim d = sim\<lparr>virtualDrivers := jm_set (virtualDrivers sim) (v_id d) d\<rparr>"

section \<open>Seeding\<close>

text \<open>The decimal digits of a number.\<close>

fun show_nat :: "nat \<Rightarrow> string" where
  "show_nat n = (if n < 10 then [char_of (n + 48)] else show_nat (n div 10) @ [char_of (n mod 10 + 48)])"

declare show_nat.simps [simp del]

definition sim_driver_id :: "nat \<Rightarrow> string" where
  "sim_driver_id i = ''sim_driver_'' @ show_nat i"

text \<open>The four random numbers of one driver, each in \<open>[0, 1)\<close>.\<close>

type_synonym randoms = "real \<times> real \<times> real \<times> real"

definition seed_driver :: "GeoBounds \<Rightarrow> nat \<Rightarrow> randoms \<Rightarrow> VirtualDriver" where
  "seed_driver b i rnd =
    (case rnd of (r1, r2, r3, r4) \<Rightarrow>
      \<lparr>v_id = sim_driver_id i, v_lat = minLat b + r1 * (maxLat b - minLat b), v_lng = minLng b + r2 * (maxLng b - minLng b),
       v_vx = (r3 - 1/2) * 0.0003, v_vy = (r4 - 1/2) * 0.0003, v_activeTripId = None,
       v_targetLat = None, v_targetLng = None, v_phase = Wandering\<rparr>)"

definition seed_step :: "ms \<Rightarrow> (nat \<Rightarrow> randoms) \<Rightarrow> Simulator \<times> DriverRegistry \<Rightarrow> nat \<Rightarrow> Simulator \<times> DriverRegistry" where
  "seed_step now rnd st i =
    (case st of (sim, r) \<Rightarrow>
       let d = seed_driver (sim_bounds sim) i (rnd i)
       in (put_virtual sim d, snd (registerDriver r now (v_id d) (Fin (v_lat d)) (Fin (v_lng d)) Available)))"

definition sim_start :: "Simulator \<Rightarrow> DriverRegistry \<Rightarrow> ms \<Rightarrow> (nat \<Rightarrow> randoms) \<Rightarrow> nat \<Rightarrow> Simulator \<times> DriverRegistry" where
  "sim_start sim r now rnd driverCount =
    (if isRunning sim then (sim, r)
     else foldl (seed_step now rnd) (sim\<lparr>isRunning := True\<rparr>, r) [1..<Suc driverCount])"

definition sim_stop :: "Simulator \<Rightarrow> Simulator" where
  "sim_stop sim = sim\<lparr>isRunning := False\<rparr>"

fun detach :: "Simulator \<Rightarrow> boarding \<Rightarrow> boarding" where
  "detach sim (Attached i) = Detached (Option.bind (jm_get (virtualDrivers sim) i) v_activeTripId)"
| "detach sim (Detached t) = Detached t"

definition resetRegion ::
    "Simulator \<Rightarrow> DriverRegistry \<Rightarrow> ms \<Rightarrow> (nat \<Rightarrow> randoms) \<Rightarrow> GeoBounds \<Rightarrow> nat \<Rightarrow> Simulator \<times> DriverRegistry" where
  "resetRegion sim r now rnd bounds driverCount =
    sim_start ((sim_stop sim)\<lparr>sim_bounds := bounds, virtualDrivers := [], boardings := map (detach sim) (boardings sim)\<rparr>)
      r now rnd driverCount"

definition getAllVirtualDrivers :: "Simulator \<Rightarrow> VirtualDriver list" where
  "getAllVirtualDrivers sim = jm_values (virtualDrivers sim)"

section \<open>Offers and trips\<close>

definition handleIncomingOffer :: "Simulator \<Rightarrow> real \<Rightarrow> string \<Rightarrow> string \<Rightarrow> Simulator" where
  "handleIncomingOffer sim rnd driverId requestId =
    (case jm_get (virtualDrivers sim) driverId of
       None \<Rightarrow> sim
     | Some _ \<Rightarrow> sim\<lparr>answers := answers sim @ [(driverId, requestId, rnd < 0.85)]\<rparr>)"

text \<open>The timer of an answer.\<close>

definition give_answer :: "MatchingService \<Rightarrow> ms \<Rightarrow> string \<times> string \<times> bool \<Rightarrow> MatchingService" where
  "give_answer s now a =
    (case a of (driverId, requestId, willAccept) \<Rightarrow>
       snd (handleDriverResponse s now driverId requestId (JStr (if willAccept then ''accepted'' else ''rejected''))))"

definition onTripAssigned :: "Simulator \<Rightarrow> TSM \<Rightarrow> ms \<Rightarrow> string \<Rightarrow> Trip \<Rightarrow> Simulator \<times> TSM" where
  "onTripAssigned sim m now driverId trip =
    (case jm_get (virtualDrivers sim) driverId of
       None \<Rightarrow> (sim, m)
     | Some d \<Rightarrow>
         (put_virtual sim (d\<lparr>v_activeTripId := Some (t_id trip), v_targetLat := Some (lat (t_pickup trip)),
                            v_targetLng := Some (lng (t_pickup trip)), v_phase := SimEnRoute\<rparr>),
          snd (driverEnRoute m now (t_id trip))))"

section \<open>The tick\<close>

text \<open>
  \<open>d.targetLat && d.targetLng && d.activeTripId\<close>: a coordinate that is zero is no target.
\<close>

definition heading :: "VirtualDriver \<Rightarrow> (real \<times> real \<times> string) option" where
  "heading d =
    (case (v_targetLat d, v_targetLng d, v_activeTripId d) of
       (Some la, Some lo, Some t) \<Rightarrow> if la \<noteq> 0 \<and> lo \<noteq> 0 \<and> t \<noteq> [] then Some (la, lo, t) else None
     | _ \<Rightarrow> None)"

text \<open>\<open>Math.hypot(a, b) < 0.0004\<close>\<close>

definition close_by :: "real \<Rightarrow> real \<Rightarrow> bool" where
  "close_by a b = (sqrt (a\<^sup>2 + b\<^sup>2) < 0.0004)"

definition drive_towards :: "VirtualDriver \<Rightarrow> real \<Rightarrow> real \<Rightarrow> real \<Rightarrow> VirtualDriver" where
  "drive_towards d la lo f = d\<lparr>v_lat := v_lat d + (la - v_lat d) * f, v_lng := v_lng d + (lo - v_lng d) * f\<rparr>"

definition wander :: "GeoBounds \<Rightarrow> VirtualDriver \<Rightarrow> VirtualDriver" where
  "wander b d =
    (let la = v_lat d + v_vy d; lo = v_lng d + v_vx d
     in d\<lparr>v_lat := la, v_lng := lo,
          v_vy := (if la < minLat b \<or> maxLat b < la then - v_vy d else v_vy d),
          v_vx := (if lo < minLng b \<or> maxLng b < lo then - v_vx d else v_vx d)\<rparr>)"

type_synonym sim_world = "Simulator \<times> DriverRegistry \<times> TSM"

definition move_to :: "ms \<Rightarrow> DriverRegistry \<Rightarrow> VirtualDriver \<Rightarrow> DriverRegistry" where
  "move_to now r d = snd (updateLocation r now (v_id d) (Fin (v_lat d)) (Fin (v_lng d)))"

definition tick_driver :: "ms \<Rightarrow> sim_world \<Rightarrow> VirtualDriver \<Rightarrow> sim_world" where
  "tick_driver now world d =
    (case world of (sim, r, m) \<Rightarrow>
       (case v_phase d of
          Wandering \<Rightarrow> let d1 = wander (sim_bounds sim) d in (put_virtual sim d1, move_to now r d1, m)
        | SimEnRoute \<Rightarrow>
            (case heading d of
               None \<Rightarrow> (sim, r, m)
             | Some (la, lo, tripId) \<Rightarrow>
                 let d1 = drive_towards d la lo 0.15; r1 = move_to now r d1
                 in if \<not> close_by (la - v_lat d1) (lo - v_lng d1) then (put_virtual sim d1, r1, m)
                    else
                      let m1 = snd (driverArrived m now tripId); d2 = d1\<lparr>v_phase := SimInProgress\<rparr>
                      in (case getTrip m1 tripId of
                            None \<Rightarrow> (put_virtual sim d2, r1, m1)
                          | Some trip \<Rightarrow>
                              ((put_virtual sim (d2\<lparr>v_targetLat := Some (lat (t_dropoff trip)), v_targetLng := Some (lng (t_dropoff trip))\<rparr>))
                                 \<lparr>boardings := boardings sim @ [Attached (v_id d)]\<rparr>, r1, m1)))
        | SimInProgress \<Rightarrow>
            (case heading d of
               None \<Rightarrow> (sim, r, m)
             | Some (la, lo, tripId) \<Rightarrow>
                 let d1 = drive_towards d la lo 0.12; r1 = move_to now r d1
                 in if \<not> close_by (la - v_lat d1) (lo - v_lng d1) then (put_virtual sim d1, r1, m)
                    else
                      (put_virtual sim (d1\<lparr>v_phase := Wandering, v_activeTripId := None, v_targetLat := None, v_targetLng := None\<rparr>),
                       snd (completeTrip r1 now (v_id d)),
                       snd (tsm_completeTrip m now tripId)))))"

definition sim_tick :: "ms \<Rightarrow> sim_world \<Rightarrow> sim_world" where
  "sim_tick now world = foldl (tick_driver now) world (getAllVirtualDrivers (fst world))"

text \<open>The updates a tick reports.\<close>

definition tick_updates :: "sim_world \<Rightarrow> (string \<times> real \<times> real \<times> DriverStatus) list" where
  "tick_updates world =
    (case world of (sim, r, m) \<Rightarrow>
       map (\<lambda>d. (v_id d, v_lat d, v_lng d,
              case getDriver r (v_id d) of Some rec \<Rightarrow> d_status rec | None \<Rightarrow> Available)) (getAllVirtualDrivers sim))"

text \<open>Two seconds after the arrival: the trip the driver object has then is started.\<close>

definition boarded :: "ms \<Rightarrow> Simulator \<Rightarrow> TSM \<Rightarrow> boarding \<Rightarrow> TSM" where
  "boarded now sim m b =
    (let trip = (case b of Attached i \<Rightarrow> Option.bind (jm_get (virtualDrivers sim) i) v_activeTripId | Detached t \<Rightarrow> t)
     in if truthy trip then snd (startTrip m now (the trip)) else m)"

end
