(* ===== verification/SimulatorProperties.thy ===== *)
theory SimulatorProperties
  imports Simulator MatchingDemo
begin

text \<open>
  How virtual drivers carry out their trips: a driver on its way to the pickup point arrives, except
  to a point on the equator or the prime meridian, and a trip whose dropoff is next to the pickup is
  never finished.
\<close>

section \<open>One tick, seen from one driver\<close>

definition sim_ok :: "Simulator \<Rightarrow> bool" where
  "sim_ok sim = (jm_ok (virtualDrivers sim) \<and> (\<forall>k d. jm_get (virtualDrivers sim) k = Some d \<longrightarrow> v_id d = k))"

lemma drive_fields [simp]:
  "v_id (drive_towards d la lo f) = v_id d" "v_phase (drive_towards d la lo f) = v_phase d"
  "heading (drive_towards d la lo f) = heading d" "v_activeTripId (drive_towards d la lo f) = v_activeTripId d"
  by (simp_all add: drive_towards_def heading_def)

lemma wander_id [simp]: "v_id (wander b d) = v_id d"
  by (simp add: wander_def Let_def)

lemma put_virtual_get [simp]:
  "jm_get (virtualDrivers (put_virtual sim d)) i = (if i = v_id d then Some d else jm_get (virtualDrivers sim) i)"
  by (simp add: put_virtual_def)

lemma put_virtual_ok: "sim_ok sim \<Longrightarrow> sim_ok (put_virtual sim d)"
  by (simp add: sim_ok_def) (simp add: put_virtual_def)

lemma sim_ok_frame [simp]: "sim_ok (sim\<lparr>boardings := b\<rparr>) = sim_ok sim"
  by (simp add: sim_ok_def)

lemma tick_driver_others [simp]:
  "i \<noteq> v_id d \<Longrightarrow> jm_get (virtualDrivers (fst (tick_driver now w d))) i = jm_get (virtualDrivers (fst w)) i"
  by (auto simp: tick_driver_def Let_def split: prod.split sim_phase.split option.split)

lemma tick_driver_ok: "sim_ok (fst w) \<Longrightarrow> sim_ok (fst (tick_driver now w d))"
  by (auto simp: tick_driver_def Let_def put_virtual_ok split: prod.split sim_phase.split option.split)

lemma tick_fold_others:
  "i \<notin> v_id ` set ds \<Longrightarrow> jm_get (virtualDrivers (fst (foldl (tick_driver now) w ds))) i = jm_get (virtualDrivers (fst w)) i"
  by (induction ds arbitrary: w) simp_all

lemma tick_fold_ok: "sim_ok (fst w) \<Longrightarrow> sim_ok (fst (foldl (tick_driver now) w ds))"
  by (induction ds arbitrary: w) (simp_all add: tick_driver_ok)

lemma sim_tick_ok: "sim_ok (fst w) \<Longrightarrow> sim_ok (fst (sim_tick now w))"
  by (simp add: sim_tick_def tick_fold_ok)

text \<open>The drivers in front of this one, its own step, and the drivers after it.\<close>

lemma sim_tick_split:
  assumes "sim_ok (fst w)" and "jm_get (virtualDrivers (fst w)) i = Some d"
  obtains ds1 ds2 where "sim_tick now w = foldl (tick_driver now) (tick_driver now (foldl (tick_driver now) w ds1) d) ds2"
    "jm_get (virtualDrivers (fst (foldl (tick_driver now) w ds1))) i = Some d" "i \<notin> v_id ` set ds2"
proof -
  have ok: "jm_ok (virtualDrivers (fst w))" "\<And>k d. (k, d) \<in> set (virtualDrivers (fst w)) \<Longrightarrow> v_id d = k"
    using assms(1) by (auto simp: sim_ok_def)
  have ids: "map v_id (getAllVirtualDrivers (fst w)) = jm_keys (virtualDrivers (fst w))"
    using ok(2) by (auto simp: getAllVirtualDrivers_def)
  have "d \<in> set (getAllVirtualDrivers (fst w))"
    using assms(2) by (force simp: getAllVirtualDrivers_def dest: map_of_SomeD)
  then obtain ds1 ds2 where ds: "getAllVirtualDrivers (fst w) = ds1 @ d # ds2" by (meson split_list)
  have "v_id d = i" using assms by (simp add: sim_ok_def)
  then have "i \<notin> v_id ` set ds1" "i \<notin> v_id ` set ds2" using ids ok(1) ds by (metis (no_types, lifting) distinct_append distinct.simps(2) disjoint_iff list.set_intros(1) list.set_map list.simps(9) map_append)+
  then show thesis using that [of ds1 ds2] assms(2) by (simp add: sim_tick_def ds tick_fold_others)
qed

section \<open>The trip meanwhile\<close>

text \<open>A tick moves a trip on its way to the pickup at most to the arrival.\<close>

definition coming :: "TSM \<Rightarrow> string \<Rightarrow> bool" where
  "coming m k = (\<exists>t. getTrip m k = Some t \<and> t_status t \<in> {Matched, En_route, Arrived})"

definition arrived :: "TSM \<Rightarrow> string \<Rightarrow> bool" where
  "arrived m k = (\<exists>t. getTrip m k = Some t \<and> t_status t = Arrived)"

lemma step_coming:
  assumes "target \<in> {Arrived, Completed}" and "transition m now tid target Driver None JUndefined = (res, m')"
  shows "coming m k \<Longrightarrow> coming m' k" and "arrived m k \<Longrightarrow> arrived m' k"
  using transition_get [OF assms(2), of k] assms(1) by (auto simp: coming_def arrived_def getTrip_def)

lemma tick_calls:
  "coming m k \<Longrightarrow> coming (snd (driverArrived m now tid)) k" "arrived m k \<Longrightarrow> arrived (snd (driverArrived m now tid)) k"
  "coming m k \<Longrightarrow> coming (snd (tsm_completeTrip m now tid)) k" "arrived m k \<Longrightarrow> arrived (snd (tsm_completeTrip m now tid)) k"
  unfolding driverArrived_def tsm_completeTrip_def
  using step_coming [OF _ prod.collapse [symmetric]] by auto

lemma tick_driver_trips:
  "coming (snd (snd w)) k \<Longrightarrow> coming (snd (snd (tick_driver now w d))) k"
  "arrived (snd (snd w)) k \<Longrightarrow> arrived (snd (snd (tick_driver now w d))) k"
  by (auto simp: tick_driver_def Let_def tick_calls split: prod.split sim_phase.split option.split)

lemma tick_fold_trips:
  "coming (snd (snd w)) k \<Longrightarrow> coming (snd (snd (foldl (tick_driver now) w ds))) k"
  "arrived (snd (snd w)) k \<Longrightarrow> arrived (snd (snd (foldl (tick_driver now) w ds))) k"
  by (induction ds arbitrary: w) (simp_all add: tick_driver_trips)

lemma driverArrived_arrives: "coming m k \<Longrightarrow> arrived (snd (driverArrived m now k)) k"
  by (auto simp: coming_def arrived_def driverArrived_def transition_def getTrip_def Let_def)

section \<open>The way to the pickup point\<close>

definition gap :: "VirtualDriver \<Rightarrow> real \<Rightarrow> real \<Rightarrow> real" where
  "gap d la lo = sqrt ((la - v_lat d)\<^sup>2 + (lo - v_lng d)\<^sup>2)"

lemma close_by_gap: "close_by (la - v_lat d) (lo - v_lng d) \<longleftrightarrow> gap d la lo < 0.0004"
  by (simp add: close_by_def gap_def)

lemma drive_gap: "0 \<le> f \<Longrightarrow> f \<le> 1 \<Longrightarrow> gap (drive_towards d la lo f) la lo = (1 - f) * gap d la lo"
proof -
  assume f: "0 \<le> f" "f \<le> 1"
  have "la - v_lat (drive_towards d la lo f) = (1 - f) * (la - v_lat d)"
    "lo - v_lng (drive_towards d la lo f) = (1 - f) * (lo - v_lng d)"
    by (simp_all add: drive_towards_def algebra_simps)
  then have "gap (drive_towards d la lo f) la lo = sqrt ((1 - f)\<^sup>2 * ((la - v_lat d)\<^sup>2 + (lo - v_lng d)\<^sup>2))"
    by (simp add: gap_def power_mult_distrib distrib_left)
  then show ?thesis using f by (simp add: gap_def real_sqrt_mult)
qed

text \<open>Either the driver has arrived with this tick, or it is nearer by the factor 0.85.\<close>

lemma tick_en_route:
  assumes ok: "sim_ok (fst w)" and d: "jm_get (virtualDrivers (fst w)) i = Some d"
    and ph: "v_phase d = SimEnRoute" "heading d = Some (la, lo, k)" and m: "coming (snd (snd w)) k"
  shows "(\<exists>d'. jm_get (virtualDrivers (fst (sim_tick now w))) i = Some d' \<and> v_phase d' = SimInProgress \<and>
      arrived (snd (snd (sim_tick now w))) k \<and> 0.85 * gap d la lo < 0.0004) \<or>
    (\<exists>d'. jm_get (virtualDrivers (fst (sim_tick now w))) i = Some d' \<and> v_phase d' = SimEnRoute \<and> heading d' = Some (la, lo, k) \<and>
      gap d' la lo = 0.85 * gap d la lo \<and> 0.0004 \<le> gap d' la lo \<and> coming (snd (snd (sim_tick now w))) k)"
proof (rule sim_tick_split [OF ok d, of now])
  fix ds1 ds2
  let ?w1 = "foldl (tick_driver now) w ds1"
  assume s: "sim_tick now w = foldl (tick_driver now) (tick_driver now ?w1 d) ds2"
    "jm_get (virtualDrivers (fst ?w1)) i = Some d" "i \<notin> v_id ` set ds2"
  have id: "v_id d = i" using ok d by (simp add: sim_ok_def)
  have m1: "coming (snd (snd ?w1)) k" by (rule tick_fold_trips(1) [OF m])
  let ?d1 = "drive_towards d la lo 0.15"
  have g: "gap ?d1 la lo = 0.85 * gap d la lo" by (simp add: drive_gap)
  have sim: "jm_get (virtualDrivers (fst (sim_tick now w))) i = jm_get (virtualDrivers (fst (tick_driver now ?w1 d))) i"
    unfolding s(1) by (rule tick_fold_others [OF s(3)])
  obtain sim1 r1 m0 where w1: "?w1 = (sim1, r1, m0)" by (metis prod_cases3)
  show ?thesis
  proof (cases "close_by (la - v_lat ?d1) (lo - v_lng ?d1)")
    case True
    have arr: "arrived (snd (driverArrived m0 now k)) k" using driverArrived_arrives m1 w1 by simp
    then obtain t where t: "getTrip (snd (driverArrived m0 now k)) k = Some t" by (auto simp: arrived_def)
    have "arrived (snd (snd (sim_tick now w))) k"
      unfolding s(1) by (rule tick_fold_trips(2)) (use arr t True ph w1 in \<open>simp add: tick_driver_def Let_def\<close>)
    moreover have "\<exists>d'. jm_get (virtualDrivers (fst (sim_tick now w))) i = Some d' \<and> v_phase d' = SimInProgress"
      unfolding sim using True ph w1 id t by (simp add: tick_driver_def Let_def)
    moreover have "0.85 * gap d la lo < 0.0004" using True g close_by_gap [of la ?d1 lo] by simp
    ultimately show ?thesis by blast
  next
    case False
    then have "jm_get (virtualDrivers (fst (sim_tick now w))) i = Some ?d1"
      unfolding sim using ph w1 id by (simp add: tick_driver_def Let_def)
    moreover have "coming (snd (snd (sim_tick now w))) k"
      unfolding s(1) by (rule tick_fold_trips(1) [OF tick_driver_trips(1) [OF m1]])
    ultimately show ?thesis using g ph False close_by_gap [of la ?d1 lo] by auto
  qed
qed

text \<open>\<open>n\<close> ticks at the times \<open>f 0\<close>, \<open>f 1\<close>, \<dots>\<close>

fun sim_ticks :: "(nat \<Rightarrow> ms) \<Rightarrow> nat \<Rightarrow> sim_world \<Rightarrow> sim_world" where
  "sim_ticks f 0 w = w"
| "sim_ticks f (Suc n) w = sim_tick (f n) (sim_ticks f n w)"

lemma sim_ticks_ok: "sim_ok (fst w) \<Longrightarrow> sim_ok (fst (sim_ticks f n w))"
  by (induction n) (simp_all add: sim_tick_ok)

text \<open>How many ticks a driver needs at most to come from a distance, in degrees, to within 0.0004.\<close>

definition ticks_needed :: "real \<Rightarrow> nat" where
  "ticks_needed g = nat \<lceil>log 0.85 (0.0004 / g)\<rceil> + 1"

lemma ticks_needed_enough:
  assumes "0 \<le> g"
  shows "0 < ticks_needed g \<and> 0.85 ^ ticks_needed g * g < 0.0004"
proof (cases "g = 0")
  case False
  let ?x = "log 0.85 (0.0004 / g)"
  have pos: "0 < g" "0 < 0.0004 / g" using assms False by simp_all
  have "?x \<le> real (nat \<lceil>?x\<rceil>)" by linarith
  then have "?x < real (ticks_needed g)" by (simp add: ticks_needed_def)
  then have "(0.85::real) powr real (ticks_needed g) < 0.85 powr ?x" by (intro powr_less_mono') simp_all
  then have "(0.85::real) ^ ticks_needed g < 0.0004 / g" using pos by (simp add: powr_realpow)
  then have "0.85 ^ ticks_needed g * g < 0.0004" using pos(1) by (simp only: pos_less_divide_eq)
  then show ?thesis by (simp only: ticks_needed_def) simp
qed (simp add: ticks_needed_def)

lemma driver_under_way:
  assumes ok: "sim_ok sim" and d: "jm_get (virtualDrivers sim) i = Some d" "v_phase d = SimEnRoute" "heading d = Some (la, lo, k)"
    and m: "coming m k" and far: "\<And>l. 0 < l \<Longrightarrow> l \<le> n \<Longrightarrow> 0.0004 \<le> 0.85 ^ l * gap d la lo"
  shows "\<exists>d'. jm_get (virtualDrivers (fst (sim_ticks f n (sim, r, m)))) i = Some d' \<and> v_phase d' = SimEnRoute \<and>
    heading d' = Some (la, lo, k) \<and> gap d' la lo = 0.85 ^ n * gap d la lo \<and> coming (snd (snd (sim_ticks f n (sim, r, m)))) k"
  using far
proof (induction n)
  case 0
  then show ?case using d m by simp
next
  case (Suc n)
  then obtain d1 where d1: "jm_get (virtualDrivers (fst (sim_ticks f n (sim, r, m)))) i = Some d1" "v_phase d1 = SimEnRoute"
    "heading d1 = Some (la, lo, k)" "gap d1 la lo = 0.85 ^ n * gap d la lo" "coming (snd (snd (sim_ticks f n (sim, r, m)))) k"
    by fastforce
  have "sim_ok (fst (sim_ticks f n (sim, r, m)))" using sim_ticks_ok ok by simp
  moreover have "\<not> 0.85 * gap d1 la lo < 0.0004" using Suc.prems [of "Suc n"] d1(4) by (simp add: mult.assoc mult.commute mult.left_commute)
  ultimately show ?case using tick_en_route [OF _ d1(1-3,5), of "f n"] d1(4) by fastforce
qed

text \<open>
  C27. A virtual driver on its way to the pickup point of a trip, neither of whose coordinates is
  zero, arrives, and when is known: each tick takes it nearer by the factor 0.85, so it is on its
  way until the first tick that brings it to within 0.0004 degrees, and with that tick its trip is in
  the status arrived and the driver heads on.  Ticks alone are counted; the other virtual drivers do
  in them what they do.
\<close>

theorem simulated_driver_arrives:
  assumes "sim_ok sim" and "jm_get (virtualDrivers sim) i = Some d" and "v_phase d = SimEnRoute"
    and "v_targetLat d = Some la" and "v_targetLng d = Some lo" and "v_activeTripId d = Some k"
    and "la \<noteq> 0" and "lo \<noteq> 0" and "k \<noteq> []"
    and "getTrip m k = Some t" and "t_status t \<in> {Matched, En_route}"
  shows "\<exists>n d' t'. 0 < n \<and> n \<le> ticks_needed (gap d la lo) \<and> 0.85 ^ n * gap d la lo < 0.0004 \<and>
    (let w = sim_ticks f n (sim, r, m) in
     jm_get (virtualDrivers (fst w)) i = Some d' \<and> v_phase d' = SimInProgress \<and>
     getTrip (snd (snd w)) k = Some t' \<and> t_status t' = Arrived) \<and>
    (\<forall>l<n. (l = 0 \<or> 0.0004 \<le> 0.85 ^ l * gap d la lo) \<and>
       (\<exists>d1. jm_get (virtualDrivers (fst (sim_ticks f l (sim, r, m)))) i = Some d1 \<and> v_phase d1 = SimEnRoute \<and>
         gap d1 la lo = 0.85 ^ l * gap d la lo))"
proof -
  let ?near = "\<lambda>n. 0 < n \<and> 0.85 ^ n * gap d la lo < 0.0004"
  have head: "heading d = Some (la, lo, k)" using assms(4-9) by (simp add: heading_def)
  have m: "coming m k" using assms(10,11) by (auto simp: coming_def)
  have "?near (ticks_needed (gap d la lo))" by (rule ticks_needed_enough) (simp add: gap_def)
  then obtain n where n: "?near n" "n \<le> ticks_needed (gap d la lo)" "\<And>l. l < n \<Longrightarrow> \<not> ?near l"
    using exists_least_iff [of ?near] by (metis linorder_le_less_linear less_imp_le)
  have far: "0.0004 \<le> 0.85 ^ l * gap d la lo" if "0 < l" "l < n" for l
    using n(3) [of l] that by (simp add: linorder_not_less)
  note way = driver_under_way [OF assms(1-3) head m, where f = f and r = r]
  obtain n0 where n0: "n = Suc n0" using n(1) by (cases n) simp_all
  obtain d1 where d1: "jm_get (virtualDrivers (fst (sim_ticks f n0 (sim, r, m)))) i = Some d1" "v_phase d1 = SimEnRoute"
    "heading d1 = Some (la, lo, k)" "gap d1 la lo = 0.85 ^ n0 * gap d la lo" "coming (snd (snd (sim_ticks f n0 (sim, r, m)))) k"
    using way [of n0] far n0 by auto
  have "sim_ok (fst (sim_ticks f n0 (sim, r, m)))" using sim_ticks_ok assms(1) by simp
  moreover have "0.85 * gap d1 la lo < 0.0004" using n(1) n0 d1(4) by simp
  ultimately have "\<exists>d' t'. let w = sim_ticks f n (sim, r, m) in
      jm_get (virtualDrivers (fst w)) i = Some d' \<and> v_phase d' = SimInProgress \<and>
      getTrip (snd (snd w)) k = Some t' \<and> t_status t' = Arrived"
    using tick_en_route [OF _ d1(1-3,5), of "f n0"] n0 by (fastforce simp: arrived_def Let_def)
  moreover have "\<exists>d1. jm_get (virtualDrivers (fst (sim_ticks f l (sim, r, m)))) i = Some d1 \<and> v_phase d1 = SimEnRoute \<and>
      gap d1 la lo = 0.85 ^ l * gap d la lo" if "l < n" for l
    using way [of l] far that by fastforce
  ultimately show ?thesis using n(1,2) far by (metis gr0I)
qed

definition demo_sim :: Simulator where
  "demo_sim = put_virtual (sim_new demo_city)
     \<lparr>v_id = ''d1'', v_lat = 13, v_lng = 77.6, v_vx = 0, v_vy = 0, v_activeTripId = Some ''trip_u1'',
      v_targetLat = Some 13, v_targetLng = Some 77.5, v_phase = SimEnRoute\<rparr>"

text \<open>A driver a tenth of a degree away needs thirty-four ticks.\<close>

lemma tenth_of_a_degree:
  assumes "(0.85::real) ^ n * 0.1 < 0.0004" and "n < 34 \<or> (34 < n \<longrightarrow> 0.0004 \<le> (0.85::real) ^ 34 * 0.1)"
  shows "n = 34"
proof (cases "n \<le> 33")
  case True
  have "(0.0004::real) \<le> 0.85 ^ 33 * 0.1" by (simp add: power_divide divide_simps)
  also have "\<dots> \<le> 0.85 ^ n * 0.1" using power_decreasing [OF True, of "0.85::real"] by simp
  finally show ?thesis using assms(1) by linarith
next
  case False
  have "(0.85::real) ^ 34 * 0.1 < 0.0004" by (simp add: power_divide divide_simps)
  then show ?thesis using False assms(2) by linarith
qed

theorem simulated_driver_arrives_witness:
  "\<exists>t'. getTrip (snd (snd (sim_ticks real 34 (demo_sim, driverRegistry demo_ride, stateMachine demo_ride)))) ''trip_u1'' = Some t' \<and>
    t_status t' = Arrived"
proof -
  have "map_option t_status (getTrip (stateMachine demo_ride) ''trip_u1'') = Some Matched" by code_simp
  then obtain t where t: "getTrip (stateMachine demo_ride) ''trip_u1'' = Some t" "t_status t \<in> {Matched, En_route}" by auto
  define d where "d = \<lparr>v_id = ''d1'', v_lat = 13, v_lng = 77.6, v_vx = 0, v_vy = 0, v_activeTripId = Some ''trip_u1'',
      v_targetLat = Some 13, v_targetLng = Some 77.5, v_phase = SimEnRoute\<rparr>"
  have ok: "sim_ok demo_sim" by (simp add: sim_ok_def demo_sim_def sim_new_def put_virtual_def)
  have d: "jm_get (virtualDrivers demo_sim) ''d1'' = Some d" by (simp add: d_def demo_sim_def sim_new_def put_virtual_def)
  have g: "gap d 13 77.5 = 0.1" by (simp add: gap_def d_def)
  obtain n t' where n: "(0.85::real) ^ n * gap d 13 77.5 < 0.0004" "\<forall>l<n. l = 0 \<or> 0.0004 \<le> 0.85 ^ l * gap d 13 77.5"
    and t': "getTrip (snd (snd (sim_ticks real n (demo_sim, driverRegistry demo_ride, stateMachine demo_ride)))) ''trip_u1'' = Some t'"
      "t_status t' = Arrived"
    using simulated_driver_arrives [OF ok d _ _ _ _ _ _ _ t, of 13 "77.5" real "driverRegistry demo_ride"]
    unfolding Let_def by (auto simp: d_def)
  have "34 < n \<longrightarrow> 0.0004 \<le> (0.85::real) ^ 34 * 0.1" using n(2) [unfolded g, THEN spec, of 34] by simp
  then have "n = 34" by (intro tenth_of_a_degree disjI2 n(1) [unfolded g])
  then show ?thesis using t' by blast
qed

section \<open>Two errors\<close>

text \<open>
  A driver whose pickup point lies on the equator or the prime meridian never moves: the check
  for a target reads the coordinate zero as absent, so the assigned driver stays where it is and on
  its way, however many ticks pass.
\<close>

theorem zero_target_never_arrives:
  assumes "sim_ok sim" and "jm_get (virtualDrivers sim) i = Some d"
    and "lat (t_pickup trip) = 0 \<or> lng (t_pickup trip) = 0"
    and "onTripAssigned sim m now i trip = (sim1, m1)"
  shows "\<exists>d1. v_phase d1 = SimEnRoute \<and> v_activeTripId d1 = Some (t_id trip) \<and> v_lat d1 = v_lat d \<and> v_lng d1 = v_lng d \<and>
    jm_get (virtualDrivers (fst (sim_ticks f n (sim1, r, m1)))) i = Some d1"
proof -
  define d1 where "d1 = d\<lparr>v_activeTripId := Some (t_id trip), v_targetLat := Some (lat (t_pickup trip)),
      v_targetLng := Some (lng (t_pickup trip)), v_phase := SimEnRoute\<rparr>"
  have id: "v_id d = i" using assms(1,2) by (simp add: sim_ok_def)
  have sim1: "sim1 = put_virtual sim d1" using assms(2,4) by (simp add: onTripAssigned_def d1_def)
  have still: "v_phase d1 = SimEnRoute" "heading d1 = None" using assms(3) by (auto simp: d1_def heading_def)
  have "jm_get (virtualDrivers (fst (sim_ticks f n (sim1, r, m1)))) i = Some d1"
  proof (induction n)
    case 0
    then show ?case using id by (simp add: sim1 d1_def)
  next
    case (Suc n)
    let ?w = "sim_ticks f n (sim1, r, m1)"
    have ok: "sim_ok (fst ?w)" by (rule sim_ticks_ok) (simp add: sim1 put_virtual_ok assms(1))
    show ?case
    proof (rule sim_tick_split [OF ok Suc.IH, of "f n"])
      fix ds1 ds2
      let ?w1 = "foldl (tick_driver (f n)) ?w ds1"
      assume s: "sim_tick (f n) ?w = foldl (tick_driver (f n)) (tick_driver (f n) ?w1 d1) ds2"
        "jm_get (virtualDrivers (fst ?w1)) i = Some d1" "i \<notin> v_id ` set ds2"
      have "tick_driver (f n) ?w1 d1 = ?w1" using still by (simp add: tick_driver_def split: prod.split)
      then show ?case using s tick_fold_others [OF s(3)] by simp
    qed
  qed
  then show ?thesis using still by (intro exI [of _ d1]) (simp add: d1_def)
qed

definition demo_equator :: Trip where
  "demo_equator = newTrip 0 ''u1'' ''r1'' ''ann'' \<lparr>lat = 0, lng = 10\<rparr> \<lparr>lat = 1, lng = 10\<rparr>"

theorem zero_target_never_arrives_witness:
  "\<exists>d1. v_phase d1 = SimEnRoute \<and> v_lng d1 = 77.6 \<and>
    jm_get (virtualDrivers (fst (sim_ticks real 1000 (fst (onTripAssigned demo_sim tsm_new 0 ''d1'' demo_equator), driverRegistry demo_ride,
      snd (onTripAssigned demo_sim tsm_new 0 ''d1'' demo_equator))))) ''d1'' = Some d1"
proof -
  have ok: "sim_ok demo_sim" by (simp add: sim_ok_def demo_sim_def sim_new_def put_virtual_def)
  obtain d where d: "jm_get (virtualDrivers demo_sim) ''d1'' = Some d" "v_lng d = 77.6"
    by (simp add: demo_sim_def sim_new_def put_virtual_def)
  show ?thesis
    using zero_target_never_arrives [OF ok d(1) _ prod.collapse [symmetric], where trip = demo_equator and f = real and n = 1000 and
        r = "driverRegistry demo_ride" and m = tsm_new and now = 0] d(2)
    by (auto simp: demo_equator_def newTrip_def)
qed

text \<open>
  A trip whose dropoff point the driver reaches before the passenger's boarding time of two
  seconds is over is never finished: the tick drops the trip and frees the driver although the
  completion is refused, as the trip has only arrived, and when the boarding time ends no trip is
  started.  The trip stays in the status arrived with this driver, who is available and is refused
  every next match because of it.
\<close>

theorem short_trip_is_stranded:
  assumes "tsm_inv m" and "v_id d = i" and "v_phase d = SimInProgress"
    and "v_targetLat d = Some la" and "v_targetLng d = Some lo" and "v_activeTripId d = Some k"
    and "la \<noteq> 0" and "lo \<noteq> 0" and "k \<noteq> []"
    and "close_by (la - v_lat (drive_towards d la lo 0.12)) (lo - v_lng (drive_towards d la lo 0.12))"
    and "getTrip m k = Some t" and "t_status t = Arrived" and "t_driverId t = Some i"
    and "getTrip m k2 = Some t2" and "t_status t2 = Matching"
  shows "let (sim', r', m') = tick_driver now (sim, r, m) d in
    m' = m \<and> boarded later sim' m' (Attached i) = m \<and>
    r' = snd (completeTrip (move_to now r (drive_towards d la lo 0.12)) now i) \<and>
    fst (setMatched m later k2 i) = Inl (DriverHasActiveTrip i)"
proof -
  have head: "heading d = Some (la, lo, k)" using assms(4-9) by (simp add: heading_def)
  have refused: "snd (tsm_completeTrip m now k) = m"
    using assms(11,12) by (simp add: tsm_completeTrip_def transition_def getTrip_def Let_def)
  have dok: "driver_ok t" using tsm_invD(3) [OF assms(1)] assms(11) by (simp add: getTrip_def)
  have act: "jm_get (activeDriverTrips m) i = Some k"
    using assms(11-13) by (simp add: driver_indexD [OF assms(1)] getTrip_def active_def terminal_def)
  have k2: "k2 \<noteq> k" "t_id t2 = k2" using assms(11,12,14,15) tsm_invD(1) [OF assms(1)] by (auto simp: getTrip_def)
  have "js_trim i \<noteq> []" using dok assms(12,13) by (simp add: driver_ok_def)
  then have "fst (setMatched m later k2 i) = Inl (DriverHasActiveTrip i)"
    using assms(14,15) act k2 assms(9) by (simp add: setMatched_def transition_def getTrip_def Let_def)
  then show ?thesis
    using refused assms(2,3,10) head by (simp add: tick_driver_def Let_def boarded_def)
qed

text \<open>The first ride at its pickup point, and a second request being matched.\<close>

definition demo_at_pickup :: TSM where
  "demo_at_pickup =
    (let m1 = snd (driverArrived (stateMachine demo_ride) 11 ''trip_u1'');
         m2 = snd (createTrip m1 12 ''u2'' ''r2'' ''bob'' demo_pickup demo_pickup)
     in snd (startMatching m2 12 ''trip_u2''))"

lemma demo_at_pickup_view:
  "(map_option (\<lambda>t. (t_status t, t_driverId t)) (getTrip demo_at_pickup ''trip_u1''),
    map_option t_status (getTrip demo_at_pickup ''trip_u2''),
    getTrip (snd (driverArrived (stateMachine demo_ride) 11 ''trip_u1'')) ''trip_u2'' = None) =
   (Some (Arrived, Some ''d1''), Some Matching, True)"
  by code_simp

lemma demo_at_pickup_inv: "tsm_inv demo_at_pickup"
proof -
  have "tsm_inv (stateMachine demo_ride)" using demo_run_ride svc_run_inv tsm_runs_inv by (auto simp: run_with_def svc_inv_def)
  then have "tsm_inv (snd (driverArrived (stateMachine demo_ride) 11 ''trip_u1''))"
    unfolding driverArrived_def by (rule transition_inv [OF _ prod.collapse [symmetric]])
  then have "tsm_inv (snd (createTrip (snd (driverArrived (stateMachine demo_ride) 11 ''trip_u1'')) 12 ''u2'' ''r2'' ''bob'' demo_pickup demo_pickup))"
    by (rule createTrip_inv [OF _ _ prod.collapse [symmetric]]) (use demo_at_pickup_view in \<open>simp add: getTrip_def\<close>)
  then show ?thesis
    unfolding demo_at_pickup_def Let_def startMatching_def by (rule transition_inv [OF _ prod.collapse [symmetric]])
qed

definition demo_near :: VirtualDriver where
  "demo_near = \<lparr>v_id = ''d1'', v_lat = 13, v_lng = 77.5, v_vx = 0, v_vy = 0, v_activeTripId = Some ''trip_u1'',
     v_targetLat = Some 13, v_targetLng = Some 77.5, v_phase = SimInProgress\<rparr>"

theorem short_trip_is_stranded_witness:
  "let (sim', r', m') = tick_driver 13 (put_virtual (sim_new demo_city) demo_near, driverRegistry demo_ride, demo_at_pickup) demo_near in
    boarded 14 sim' m' (Attached ''d1'') = demo_at_pickup \<and>
    fst (setMatched m' 15 ''trip_u2'' ''d1'') = Inl (DriverHasActiveTrip ''d1'')"
proof -
  obtain t t2 where t: "getTrip demo_at_pickup ''trip_u1'' = Some t" "t_status t = Arrived" "t_driverId t = Some ''d1''"
    "getTrip demo_at_pickup ''trip_u2'' = Some t2" "t_status t2 = Matching"
    using demo_at_pickup_view by auto
  have v: "v_id demo_near = ''d1''" "v_phase demo_near = SimInProgress" "v_targetLat demo_near = Some 13" "v_targetLng demo_near = Some 77.5"
    "v_activeTripId demo_near = Some ''trip_u1''" and ne: "(13::real) \<noteq> 0" "(77.5::real) \<noteq> 0" "''trip_u1'' \<noteq> []"
    and c: "close_by (13 - v_lat (drive_towards demo_near 13 77.5 0.12)) (77.5 - v_lng (drive_towards demo_near 13 77.5 0.12))"
    by (simp_all add: demo_near_def drive_towards_def close_by_def)
  note p = short_trip_is_stranded [OF demo_at_pickup_inv v ne c t, of 13 "put_virtual (sim_new demo_city) demo_near" "driverRegistry demo_ride"]
  show ?thesis
    using p [of 14] p [of 15] by (auto simp: Let_def split: prod.splits)
qed

end
