(* ===== verification/Server.thy ===== *)
theory Server
  imports Gateway Simulator
begin

text \<open>
  The HTTP server of \<open>src/server.ts\<close>: access control, the wiring of the matching service
  with the gateway and the simulator, and the routes.  A request gives the fields of its body; a
  route returns the status code and the body of the reply and the new state.  The clock, random
  identifiers and the native engine's answers are arguments; metrics, logging, static files and the
  parsing of an origin as a URL (the argument \<open>url_host\<close>) are not modelled.
\<close>

section \<open>Access\<close>

record ServerConfig =
  sc_host :: string
  sc_token :: "string option"

definition LOOPBACK_HOSTS :: "string list" where
  "LOOPBACK_HOSTS = [''127.0.0.1'', ''localhost'', ''::1'', ''[::1]'']"

definition isLoopbackHost :: "ServerConfig \<Rightarrow> bool" where
  "isLoopbackHost cfg = (sc_host cfg \<in> set LOOPBACK_HOSTS)"

text \<open>The server starts, or throws at once.\<close>

definition may_start :: "ServerConfig \<Rightarrow> bool" where
  "may_start cfg = (isLoopbackHost cfg \<or> truthy (sc_token cfg))"

definition hasControlAccess :: "ServerConfig \<Rightarrow> string option \<Rightarrow> bool" where
  "hasControlAccess cfg authorization =
    (isLoopbackHost cfg \<or>
     authorization = Some (''Bearer '' @ (case sc_token cfg of Some t \<Rightarrow> t | None \<Rightarrow> ''undefined'')))"

definition is_digit :: "char \<Rightarrow> bool" where
  "is_digit c = (c \<in> set ''0123456789'')"

text \<open>\<open>host.replace(/:\d+$/, "")\<close>\<close>

definition strip_port :: "string \<Rightarrow> string" where
  "strip_port host =
    (let digits = takeWhile is_digit (rev host); front = dropWhile is_digit (rev host)
     in case front of
          c # cs \<Rightarrow> if digits \<noteq> [] \<and> c = CHR '':'' then rev cs else host
        | [] \<Rightarrow> host)"

definition isAllowedOrigin :: "(string \<Rightarrow> string option) \<Rightarrow> ServerConfig \<Rightarrow> string option \<Rightarrow> bool" where
  "isAllowedOrigin url_host cfg origin =
    (if \<not> truthy origin then True
     else
       (case url_host (the origin) of
          None \<Rightarrow> False
        | Some parsed \<Rightarrow>
            let host = strip_port parsed
            in if host \<in> set LOOPBACK_HOSTS then True else host = sc_host cfg))"

section \<open>State\<close>

datatype engine = TsEngine | CppEngine

record Server =
  config :: ServerConfig
  gateway :: WsManager
  simulator :: Simulator
  activeCityName :: string
  activeBounds :: GeoBounds
  activeEngine :: engine

definition BLR_BOUNDS :: GeoBounds where
  "BLR_BOUNDS = \<lparr>minLat = 12.86, maxLat = 13.06, minLng = 77.5, maxLng = 77.72\<rparr>"

definition server_registry :: "Server \<Rightarrow> DriverRegistry" where
  "server_registry v = driverRegistry (service (gateway v))"

definition put_registry :: "Server \<Rightarrow> DriverRegistry \<Rightarrow> Server" where
  "put_registry v r = v\<lparr>gateway := set_registry (gateway v) r\<rparr>"

definition broadcast :: "Server \<Rightarrow> ws_frame \<Rightarrow> Server" where
  "broadcast v f = v\<lparr>gateway := broadcastToObservers (gateway v) f\<rparr>"

text \<open>The server when it has started: the simulator has seeded forty drivers.\<close>

definition server_new :: "ServerConfig \<Rightarrow> ms \<Rightarrow> (nat \<Rightarrow> randoms) \<Rightarrow> Server" where
  "server_new cfg now rnd =
    (let (sim, r) = sim_start (sim_new BLR_BOUNDS) (registry_new (qt_new BLR_BOUNDS 8 7)) now rnd 40
     in \<lparr>config = cfg, gateway = ws_new (service_new r tsm_new), simulator = sim,
         activeCityName = ''Bengaluru'', activeBounds = BLR_BOUNDS, activeEngine = TsEngine\<rparr>)"

text \<open>
  The simulator's part of the callbacks: offers to virtual drivers, and assigned trips.  \<open>rnd\<close>
  is the random number that decides the answer.
\<close>

fun sim_event :: "real \<Rightarrow> ms \<Rightarrow> Server \<Rightarrow> service_event \<Rightarrow> Server" where
  "sim_event rnd now v (OfferDispatched notif) =
    (if take 11 (on_driverId notif) = ''sim_driver_''
     then v\<lparr>simulator := handleIncomingOffer (simulator v) rnd (on_driverId notif) (on_requestId notif)\<rparr> else v)"
| "sim_event rnd now v (TripMatched tripId driverId) =
    (case getTrip (stateMachine (service (gateway v))) tripId of
       None \<Rightarrow> v
     | Some trip \<Rightarrow>
         let (sim, m) = onTripAssigned (simulator v) (stateMachine (service (gateway v))) now driverId trip
         in v\<lparr>simulator := sim, gateway := set_machine (gateway v) m\<rparr>)"
| "sim_event rnd now v _ = v"

text \<open>A step of the gateway, and what it means to the simulator.\<close>

definition with_gateway :: "real \<Rightarrow> ms \<Rightarrow> Server \<Rightarrow> WsManager \<Rightarrow> Server" where
  "with_gateway rnd now v w =
    foldl (sim_event rnd now) (v\<lparr>gateway := w\<rparr>) (drop (length (out (service (gateway v)))) (out (service w)))"

section \<open>Replies\<close>

datatype http_error =
    Unauthorized
  | ForbiddenOrigin
  | InvalidBounds
  | InvalidDriverCount
  | InvalidEngine
  | EngineNotRunning
  | OutsideOperatingRegion
  | MissingRideFields
  | InvalidCoordinatesGiven
  | NoSuchTrip
  | OnlyTripsRider
  | OnlyAssignedDriver
  | InvalidDriverAction
  | MissingResponseFields
  | InvalidResponseText

datatype http_body =
    Failure http_error
  | RideResult "service_error + Trip"
  | CancelResult "service_error + unit"
  | ActionResult "tsm_error + Trip"
  | ResponseResult "service_error + unit"
  | Spawned string jsnum jsnum DriverStatus nat nat
  | RegionReset string GeoBounds nat nat
  | EngineSelected engine
  | RaceResult race_result
  | DriverList "(driver_view \<times> bool) list"
  | Health string GeoBounds nat nat nat
  | Config string GeoBounds nat nat nat

type_synonym reply = "nat \<times> http_body"

definition reject :: "nat \<Rightarrow> http_error \<Rightarrow> Server \<Rightarrow> reply \<times> Server" where
  "reject code e v = ((code, Failure e), v)"

section \<open>Reading\<close>

definition get_health :: "Server \<Rightarrow> reply" where
  "get_health v =
    (200, Health (activeCityName v) (activeBounds v) (totalDrivers (server_registry v))
       (qt_size (spatialIndex (server_registry v))) (observerCount (gateway v)))"

definition drivers_snapshot :: "Server \<Rightarrow> (driver_view \<times> bool) list" where
  "drivers_snapshot v =
    map (\<lambda>d. case getDriver (server_registry v) (v_id d) of
               Some reg \<Rightarrow> ((v_id d, v_lat d, v_lng d, d_status reg), d_lockToken reg \<noteq> None)
             | None \<Rightarrow> ((v_id d, v_lat d, v_lng d, Available), False)) (getAllVirtualDrivers (simulator v))"

definition get_drivers :: "Server \<Rightarrow> reply" where
  "get_drivers v = (200, DriverList (drivers_snapshot v))"

definition get_config :: "Server \<Rightarrow> reply" where
  "get_config v =
    (200, Config (activeCityName v) (activeBounds v) (totalDrivers (server_registry v))
       (qt_size (spatialIndex (server_registry v))) (observerCount (gateway v)))"

section \<open>Region and engine\<close>

text \<open>\<open>Number.isInteger(count) && 0 <= count <= 10000\<close>\<close>

definition driver_count :: "jsval \<Rightarrow> nat option" where
  "driver_count v =
    (case v of
       JNum (Fin x) \<Rightarrow> if x = of_int \<lfloor>x\<rfloor> \<and> 0 \<le> x \<and> x \<le> 10000 then Some (nat \<lfloor>x\<rfloor>) else None
     | JNum _ \<Rightarrow> None
     | _ \<Rightarrow> Some 40)"

definition post_reset ::
    "Server \<Rightarrow> ms \<Rightarrow> (nat \<Rightarrow> randoms) \<Rightarrow> string option \<Rightarrow> jsval \<Rightarrow> string option \<Rightarrow> jsval \<Rightarrow> reply \<times> Server" where
  "post_reset v now rnd authorization bounds cityName driverCount =
    (if \<not> hasControlAccess (config v) authorization then reject 401 Unauthorized v
     else
       (case (if js_truthy bounds then geo_bounds_of bounds else Some BLR_BOUNDS) of
          None \<Rightarrow> reject 400 InvalidBounds v
        | Some newBounds \<Rightarrow>
            (case driver_count driverCount of
               None \<Rightarrow> reject 400 InvalidDriverCount v
             | Some n \<Rightarrow>
                 let s1 = reset_service (service (gateway v)) now ''Operating region was reset'';
                     v1 = with_gateway 0 now v (with_service (gateway v) s1);
                     newCity = (if truthy cityName then the cityName else ''Custom Region'');
                     v2 = v1\<lparr>activeCityName := newCity, activeBounds := newBounds\<rparr>;
                     r1 = registry_reset (server_registry v2) (qt_new newBounds 8 7);
                     (sim1, r2) = resetRegion (simulator v2) r1 now rnd newBounds n;
                     v3 = broadcast (put_registry (v2\<lparr>simulator := sim1\<rparr>) r2) (RegionUpdated newCity newBounds n)
                 in ((200, RegionReset newCity newBounds n (qt_size (spatialIndex r2))), v3))))"

text \<open>\<open>cppAvailable\<close> is the answer of the bridge to the native engine.\<close>

definition post_engine_select :: "Server \<Rightarrow> bool \<Rightarrow> string option \<Rightarrow> jsval \<Rightarrow> reply \<times> Server" where
  "post_engine_select v cppAvailable authorization engine =
    (if engine \<noteq> JStr ''ts'' \<and> engine \<noteq> JStr ''cpp'' then reject 400 InvalidEngine v
     else if engine = JStr ''cpp'' \<and> \<not> cppAvailable then reject 503 EngineNotRunning v
     else
       (let e = (if engine = JStr ''ts'' then TsEngine else CppEngine)
        in ((200, EngineSelected e), broadcast (v\<lparr>activeEngine := e\<rparr>) (EngineChanged (e = CppEngine)))))"

section \<open>Rides\<close>

definition post_rides ::
    "Server \<Rightarrow> ms \<Rightarrow> real \<Rightarrow> string \<Rightarrow> string \<Rightarrow> string option \<Rightarrow> string option \<Rightarrow> string option \<Rightarrow> jsval \<Rightarrow> jsval \<Rightarrow> jsval \<Rightarrow>
     reply \<times> Server" where
  "post_rides v now rnd uuid reqUuid authorization riderId requestId pickup dropoff offerTimeoutMs =
    (if \<not> hasControlAccess (config v) authorization then reject 401 Unauthorized v
     else if \<not> truthy riderId \<or> \<not> js_truthy pickup \<or> \<not> js_truthy dropoff then reject 400 MissingRideFields v
     else if \<not> isValidGeoPoint pickup \<or> \<not> isValidGeoPoint dropoff then reject 400 InvalidCoordinatesGiven v
     else
       (let req = (if truthy requestId then the requestId else ''req_'' @ reqUuid);
            (res, s1) = requestRide (service (gateway v)) now uuid req (the riderId) pickup dropoff (request_config offerTimeoutMs);
            v1 = with_gateway rnd now v (with_service (gateway v) s1)
        in case res of
             Inl e \<Rightarrow> ((409, RideResult (Inl e)), v1)
           | Inr trip \<Rightarrow> ((202, RideResult (Inr (trip\<lparr>t_status := shown_status s1 trip\<rparr>))), v1)))"

text \<open>No reply yet when the cancellation is suspended; it carries what the call returns then.\<close>

definition post_cancel ::
    "Server \<Rightarrow> ms \<Rightarrow> string option \<Rightarrow> string \<Rightarrow> string option \<Rightarrow> string option \<Rightarrow> reply option \<times> Server" where
  "post_cancel v now authorization tripId riderId reason =
    (if \<not> hasControlAccess (config v) authorization then map_prod Some (\<lambda>x. x) (reject 401 Unauthorized v)
     else
       (case getTrip (stateMachine (service (gateway v))) tripId of
          None \<Rightarrow> map_prod Some (\<lambda>x. x) (reject 404 NoSuchTrip v)
        | Some trip \<Rightarrow>
            if \<not> truthy riderId \<or> riderId \<noteq> Some (t_riderId trip) then map_prod Some (\<lambda>x. x) (reject 403 OnlyTripsRider v)
            else
              let (res, s1) = cancelRide (service (gateway v)) now (t_requestId trip) Rider
                    (Some (if truthy reason then the reason else ''Cancelled via HTTP API''));
                  v1 = with_gateway 0 now v (with_service (gateway v) s1)
              in (map_option (\<lambda>r. (200, CancelResult r)) res, v1)))"

definition post_driver_action ::
    "Server \<Rightarrow> ms \<Rightarrow> string option \<Rightarrow> string \<Rightarrow> string \<Rightarrow> string option \<Rightarrow> reply \<times> Server" where
  "post_driver_action v now authorization tripId action driverId =
    (if \<not> hasControlAccess (config v) authorization then reject 401 Unauthorized v
     else
       (case getTrip (stateMachine (service (gateway v))) tripId of
          None \<Rightarrow> reject 404 NoSuchTrip v
        | Some trip \<Rightarrow>
            if \<not> truthy driverId \<or> t_driverId trip \<noteq> driverId then reject 403 OnlyAssignedDriver v
            else
              (case action_target action of
                 None \<Rightarrow> reject 400 InvalidDriverAction v
               | Some target \<Rightarrow>
                   let (res, s1) = driver_milestone (service (gateway v)) now tripId (the driverId) target;
                       v1 = with_gateway 0 now v (with_service (gateway v) s1)
                   in ((case res of Inl _ \<Rightarrow> 400 | Inr _ \<Rightarrow> 200, ActionResult res), v1))))"

definition post_driver_response ::
    "Server \<Rightarrow> ms \<Rightarrow> string option \<Rightarrow> string option \<Rightarrow> string option \<Rightarrow> jsval \<Rightarrow> reply \<times> Server" where
  "post_driver_response v now authorization driverId requestId response =
    (if \<not> hasControlAccess (config v) authorization then reject 401 Unauthorized v
     else if \<not> truthy driverId \<or> \<not> truthy requestId \<or> \<not> js_truthy response then reject 400 MissingResponseFields v
     else if response_of response = None then reject 400 InvalidResponseText v
     else
       (let (res, s1) = handleDriverResponse (service (gateway v)) now (the driverId) (the requestId) response
        in ((200, ResponseResult res), with_gateway 0 now v (with_service (gateway v) s1))))"

text \<open>\<open>fresh\<close> is the identifier made up when the body gives none.\<close>

definition post_spawn ::
    "Server \<Rightarrow> ms \<Rightarrow> string \<Rightarrow> string option \<Rightarrow> string option \<Rightarrow> jsval \<Rightarrow> jsval \<Rightarrow> reply \<times> Server" where
  "post_spawn v now fresh authorization i la lo =
    (if \<not> hasControlAccess (config v) authorization then reject 401 Unauthorized v
     else
       (case geo_point_of (JObj [(''lat'', la), (''lng'', lo)]) of
          None \<Rightarrow> reject 400 InvalidCoordinatesGiven v
        | Some p \<Rightarrow>
            if \<not> isWithinBounds (server_registry v) (Fin (lat p)) (Fin (lng p)) then reject 400 OutsideOperatingRegion v
            else
              let driverId = (if truthy i then the i else fresh);
                  (d, r1) = registerDriver (server_registry v) now driverId (Fin (lat p)) (Fin (lng p)) Available;
                  v1 = broadcast (put_registry v r1) (TelemetryUpdate driverId p Available)
              in ((200, Spawned (d_id d) (d_lat d) (d_lng d) (d_status d) (totalDrivers r1) (qt_size (spatialIndex r1))), v1)))"

section \<open>The race of two riders\<close>

text \<open>The loop over the other candidates: the first that can be reserved.\<close>

fun cascade ::
    "DriverRegistry \<Rightarrow> ms \<Rightarrow> string \<Rightarrow> string \<Rightarrow> CandidateDriver list \<Rightarrow> string option \<times> race_attempt list \<times> DriverRegistry" where
  "cascade r now prime req [] = (None, [], r)"
| "cascade r now prime req (c # cs) =
    (if c_id c = prime then cascade r now prime req cs
     else
       (let (ok, r1) = acquireLock r now (c_id c) req 15000; att = \<lparr>ra_driverId = c_id c, ra_locked = ok\<rparr>
        in if ok then (Some (c_id c), [att], r1)
           else (let (got, atts, r2) = cascade r1 now prime req cs in (got, att # atts, r2))))"

text \<open>One rider: the contended driver first, then, if that fails, the others.\<close>

definition try_prime :: "DriverRegistry \<Rightarrow> ms \<Rightarrow> string \<Rightarrow> string \<Rightarrow> bool \<times> race_attempt \<times> DriverRegistry" where
  "try_prime r now prime req =
    (let (ok, r1) = acquireLock r now prime req 15000 in (ok, \<lparr>ra_driverId = prime, ra_locked = ok\<rparr>, r1))"

definition run_race ::
    "DriverRegistry \<Rightarrow> ms \<Rightarrow> string \<Rightarrow> CandidateDriver \<Rightarrow> race_result \<times> DriverRegistry" where
  "run_race r now stamp prime =
    (let aliceRequestId = ''race_alice_'' @ stamp; bobRequestId = ''race_bob_'' @ stamp;
         aliceCandidates = findNearbyCandidates r (c_lat prime + 0.0003) (c_lng prime + 0.0003) 4 15000;
         bobCandidates = findNearbyCandidates r (c_lat prime + 0.0004) (c_lng prime + 0.0004) 4 15000;
         (aliceOk, aliceAtt, r1) = try_prime r now (c_id prime) aliceRequestId;
         (bobOk, bobAtt, r2) = try_prime r1 now (c_id prime) bobRequestId;
         (bobAssigned, bobMore, r3) =
           (if bobOk then (Some (c_id prime), [], r2) else cascade r2 now (c_id prime) bobRequestId bobCandidates);
         (aliceAssigned, aliceMore, r4) =
           (if aliceOk then (Some (c_id prime), [], r3) else cascade r3 now (c_id prime) aliceRequestId aliceCandidates)
     in (\<lparr>rr_target = c_id prime, rr_alice = aliceAssigned, rr_aliceAttempts = aliceAtt # aliceMore,
          rr_bob = bobAssigned, rr_bobAttempts = bobAtt # bobMore,
          rr_duplicateDispatchCount = (if aliceAssigned = bobAssigned \<and> aliceAssigned \<noteq> None then 1 else 0),
          rr_isolationVerified = (aliceAssigned \<noteq> bobAssigned)\<rparr>, r4))"

text \<open>
  The candidates at the centre, from the native engine when it is selected and available, and with
  two more drivers registered there when they are fewer than two.
\<close>

definition race_candidates ::
    "Server \<Rightarrow> ms \<Rightarrow> string \<Rightarrow> bool \<Rightarrow> CandidateDriver list \<Rightarrow> real \<Rightarrow> real \<Rightarrow> CandidateDriver list \<times> DriverRegistry" where
  "race_candidates v now stamp cppAvailable cppCandidates la lo =
    (let r = server_registry v;
         candidates = (if activeEngine v = CppEngine \<and> cppAvailable then cppCandidates else findNearbyCandidates r la lo 10 50000)
     in if length candidates < 2 then
          (let r1 = snd (registerDriver r now (''sim_driver_prime_'' @ stamp) (Fin la) (Fin lo) Available);
               r2 = snd (registerDriver r1 now (''sim_driver_backup_'' @ stamp) (Fin (la + 0.005)) (Fin (lo + 0.005)) Available)
           in (findNearbyCandidates r2 la lo 10 50000, r2))
        else (candidates, r))"

definition center_coord :: "jsval \<Rightarrow> real \<Rightarrow> real \<Rightarrow> jsnum" where
  "center_coord c lo hi = (case c of JNum x \<Rightarrow> x | _ \<Rightarrow> Fin ((lo + hi) / 2))"

definition show_race :: "Server \<Rightarrow> race_result \<Rightarrow> Server" where
  "show_race v res = broadcast (broadcast v (RaceShown res)) (DriversUpdated (drivers_snapshot v))"

text \<open>No result when there is still no candidate: the route throws.\<close>

definition post_race ::
    "Server \<Rightarrow> ms \<Rightarrow> string \<Rightarrow> bool \<Rightarrow> CandidateDriver list \<Rightarrow> string option \<Rightarrow> jsval \<Rightarrow> jsval \<Rightarrow> reply option \<times> Server" where
  "post_race v now stamp cppAvailable cppCandidates authorization centerLat centerLng =
    (if \<not> hasControlAccess (config v) authorization then map_prod Some (\<lambda>x. x) (reject 401 Unauthorized v)
     else
       (let la = center_coord centerLat (minLat (activeBounds v)) (maxLat (activeBounds v));
            lo = center_coord centerLng (minLng (activeBounds v)) (maxLng (activeBounds v))
        in if \<not> isWithinBounds (server_registry v) la lo
           then map_prod Some (\<lambda>x. x) (reject 400 OutsideOperatingRegion v)
           else
             (case (la, lo) of
                (Fin a, Fin b) \<Rightarrow>
                  (case race_candidates v now stamp cppAvailable cppCandidates a b of
                     ([], r1) \<Rightarrow> (None, put_registry v r1)
                   | (prime # _, r1) \<Rightarrow>
                       let (res, r2) = run_race r1 now stamp prime
                       in (Some (200, RaceResult res), show_race (put_registry v r2) res))
              | _ \<Rightarrow> (None, v))))"

text \<open>Fifteen seconds later the demonstration's reservations are given back.\<close>

definition release_race :: "string \<Rightarrow> string option \<Rightarrow> DriverRegistry \<Rightarrow> DriverRegistry" where
  "release_race req assigned r =
    (case assigned of Some i \<Rightarrow> if i = [] then r else snd (releaseLock r i req) | None \<Rightarrow> r)"

definition race_timeout :: "Server \<Rightarrow> string \<Rightarrow> race_result \<Rightarrow> Server" where
  "race_timeout v stamp res =
    (let v1 = put_registry v (release_race (''race_bob_'' @ stamp) (rr_bob res)
                (release_race (''race_alice_'' @ stamp) (rr_alice res) (server_registry v)))
     in broadcast v1 (DriversUpdated (drivers_snapshot v1)))"

section \<open>The simulator's timers\<close>

text \<open>A tick; and the callback that shows the new positions to the observers.\<close>

definition server_tick :: "Server \<Rightarrow> ms \<Rightarrow> Server" where
  "server_tick v now =
    (case sim_tick now (simulator v, server_registry v, stateMachine (service (gateway v))) of
       (sim, r, m) \<Rightarrow>
         broadcast (v\<lparr>simulator := sim, gateway := set_machine (set_registry (gateway v) r) m\<rparr>)
           (TelemetryBatch (tick_updates (sim, r, m))))"

definition drop_at :: "nat \<Rightarrow> 'a list \<Rightarrow> 'a list" where
  "drop_at n xs = take n xs @ drop (Suc n) xs"

text \<open>The \<open>n\<close>-th pending answer, and the \<open>n\<close>-th boarding passenger.\<close>

definition server_answer :: "Server \<Rightarrow> ms \<Rightarrow> nat \<Rightarrow> Server" where
  "server_answer v now n =
    (if n < length (answers (simulator v)) then
       let s1 = give_answer (service (gateway v)) now (answers (simulator v) ! n);
           v1 = v\<lparr>simulator := (simulator v)\<lparr>answers := drop_at n (answers (simulator v))\<rparr>\<rparr>
       in with_gateway 0 now v1 (with_service (gateway v1) s1)
     else v)"

definition server_boarded :: "Server \<Rightarrow> ms \<Rightarrow> nat \<Rightarrow> Server" where
  "server_boarded v now n =
    (if n < length (boardings (simulator v)) then
       v\<lparr>gateway := set_machine (gateway v)
            (boarded now (simulator v) (stateMachine (service (gateway v))) (boardings (simulator v) ! n)),
         simulator := (simulator v)\<lparr>boardings := drop_at n (boardings (simulator v))\<rparr>\<rparr>
     else v)"

section \<open>The WebSocket route and the eviction timer\<close>

text \<open>The check before the upgrade: \<open>None\<close> lets the client in.\<close>

definition ws_prevalidate :: "(string \<Rightarrow> string option) \<Rightarrow> Server \<Rightarrow> string option \<Rightarrow> string option \<Rightarrow> reply option" where
  "ws_prevalidate url_host v authorization origin =
    (if \<not> hasControlAccess (config v) authorization then Some (401, Failure Unauthorized)
     else if \<not> isAllowedOrigin url_host (config v) origin then Some (403, Failure ForbiddenOrigin)
     else None)"

definition client_role :: "string option \<Rightarrow> ClientRole option" where
  "client_role role =
    (if \<not> truthy role then Some RoleObserver
     else if role = Some ''rider'' then Some RoleRider
     else if role = Some ''driver'' then Some RoleDriver
     else if role = Some ''observer'' then Some RoleObserver
     else None)"

definition ws_upgrade :: "Server \<Rightarrow> ms \<Rightarrow> string \<Rightarrow> nat \<Rightarrow> string option \<Rightarrow> string option \<Rightarrow> Server" where
  "ws_upgrade v now fresh socket role i =
    (case client_role role of
       None \<Rightarrow> v\<lparr>gateway := (gateway v)\<lparr>openSockets := openSockets (gateway v) - {socket}\<rparr>\<rparr>
     | Some ro \<Rightarrow> v\<lparr>gateway := snd (handleConnection (gateway v) now fresh socket ro i)\<rparr>)"

definition stale_eviction :: "Server \<Rightarrow> ms \<Rightarrow> Server" where
  "stale_eviction v now =
    (let (evicted, r) = evictStaleDrivers (server_registry v) now 30000; v1 = put_registry v r
     in if evicted \<noteq> [] then broadcast v1 (DriversEvicted evicted) else v1)"

end
