(* ===== verification/ServerRuns.thy ===== *)
theory ServerRuns
  imports Server GatewayRuns
begin

text \<open>
  The server as a transition system: every route, every message, every timer and every suspended
  call is a step, in any order; and each of them is, for the matching service behind it, a sequence
  of the service's own steps.
\<close>

section \<open>Registry operations\<close>

lemma quiet_ops: "registry_ops (driverRegistry s) r \<Longrightarrow> quiet s (s\<lparr>driverRegistry := r\<rparr>)"
proof (induction rule: rtranclp_induct)
  case (step r1 r2)
  then show ?case using quiet_trans [OF step.IH quiet_change [of "s\<lparr>driverRegistry := r1\<rparr>" r2]] by simp
qed simp

lemma register_ops [simp, intro]: "registry_ops r (snd (registerDriver r now i la lo st))"
  by (auto intro: registry_op.intros)

lemma acquire_ops: "acquireLock r now i req ttl = (ok, r') \<Longrightarrow> registry_ops r r'"
  by (metis registry_op_ops(1) snd_conv)

lemma try_prime_ops: "try_prime r now prime req = (ok, att, r') \<Longrightarrow> registry_ops r r'"
  using acquire_ops by (auto simp: try_prime_def Let_def split: prod.splits)

lemma cascade_ops: "cascade r now prime req cs = (got, atts, r') \<Longrightarrow> registry_ops r r'"
proof (induction cs arbitrary: r got atts r')
  case (Cons c cs)
  obtain ok r1 where a: "acquireLock r now (c_id c) req 15000 = (ok, r1)" by fastforce
  obtain got1 atts1 r2 where c: "cascade r1 now prime req cs = (got1, atts1, r2)" by (metis prod_cases3)
  have "registry_ops r r1" "registry_ops r r2" using acquire_ops [OF a] Cons.IH [OF c] by (auto intro: rtranclp_trans)
  then show ?case using Cons.IH [of r got atts r'] Cons.prems a c by (auto simp: Let_def split: if_splits)
qed simp

lemma run_race_ops: "run_race r now stamp prime = (res, r') \<Longrightarrow> registry_ops r r'"
proof -
  assume race: "run_race r now stamp prime = (res, r')"
  let ?p = "c_id prime" and ?A = "''race_alice_'' @ stamp" and ?B = "''race_bob_'' @ stamp"
  obtain aok aatt r1 where 1: "try_prime r now ?p ?A = (aok, aatt, r1)" by (metis prod_cases3)
  obtain bok batt r2 where 2: "try_prime r1 now ?p ?B = (bok, batt, r2)" by (metis prod_cases3)
  obtain bob bmore r3 where 3: "(if bok then (Some ?p, [], r2) else cascade r2 now ?p ?B
      (findNearbyCandidates r (c_lat prime + 0.0004) (c_lng prime + 0.0004) 4 15000)) = (bob, bmore, r3)" by (metis prod_cases3)
  obtain alice amore r4 where 4: "(if aok then (Some ?p, [], r3) else cascade r3 now ?p ?A
      (findNearbyCandidates r (c_lat prime + 0.0003) (c_lng prime + 0.0003) 4 15000)) = (alice, amore, r4)" by (metis prod_cases3)
  have "r' = r4" using race unfolding run_race_def Let_def 1 2 3 4 case_prod_conv by simp
  moreover have "registry_ops r2 r3" using 3 cascade_ops [of r2 now ?p ?B] by (auto split: if_splits)
  moreover have "registry_ops r3 r4" using 4 cascade_ops [of r3 now ?p ?A] by (auto split: if_splits)
  ultimately show ?thesis using try_prime_ops [OF 1] try_prime_ops [OF 2] by (meson rtranclp_trans)
qed

lemma race_candidates_ops: "race_candidates v now stamp cpp cands la lo = (cs, r') \<Longrightarrow> registry_ops (server_registry v) r'"
  using rtranclp_trans [OF register_ops [of "server_registry v" now "''sim_driver_prime_'' @ stamp" "Fin la" "Fin lo" Available] register_ops]
  by (auto simp: race_candidates_def Let_def split: if_splits)

lemma release_race_ops: "registry_ops r (release_race req assigned r)"
  by (simp add: release_race_def split: option.split)

lemma seed_steps_ops: "foldl (seed_step now rnd) (sim, r) ks = (sim', r') \<Longrightarrow> registry_ops r r'"
proof (induction ks arbitrary: sim r)
  case (Cons k ks)
  obtain sim1 r1 where s: "seed_step now rnd (sim, r) k = (sim1, r1)" by fastforce
  have "registry_ops r r1" using s register_ops by (auto simp: seed_step_def Let_def simp del: register_ops)
  then show ?case using Cons.IH [of sim1 r1] Cons.prems s by simp
qed simp

lemma start_ops: "sim_start sim r now rnd n = (sim', r') \<Longrightarrow> registry_ops r r'"
  using seed_steps_ops by (auto simp: sim_start_def split: if_splits)

lemma reset_region_ops: "resetRegion sim r now rnd b n = (sim', r') \<Longrightarrow> registry_ops r r'"
  using start_ops by (auto simp: resetRegion_def)

section \<open>The callbacks\<close>

lemma driverEnRoute_quiet: "quiet s (s\<lparr>stateMachine := snd (driverEnRoute (stateMachine s) now tid)\<rparr>)"
  unfolding driverEnRoute_def by (rule quiet_step [OF step_trip [OF _ prod.collapse [symmetric]]]) simp_all

lemma on_assigned_quiet:
  "onTripAssigned sim (stateMachine s) now i trip = (sim', m) \<Longrightarrow> quiet s (s\<lparr>stateMachine := m\<rparr>)"
  using driverEnRoute_quiet by (auto simp: onTripAssigned_def split: option.splits)

lemma sim_event_quiet: "quiet (service (gateway v)) (service (gateway (sim_event rnd now v e)))"
  using on_assigned_quiet by (cases e) (auto simp: set_machine_def split: option.split prod.split)

lemma sim_events_quiet: "quiet (service (gateway v)) (service (gateway (foldl (sim_event rnd now) v es)))"
proof (induction es arbitrary: v)
  case (Cons e es)
  show ?case using quiet_trans [OF sim_event_quiet Cons] by simp
qed simp

lemma with_gateway_quiet: "quiet (service w) (service (gateway (with_gateway rnd now v w)))"
  unfolding with_gateway_def using sim_events_quiet [of "v\<lparr>gateway := w\<rparr>"] by simp

lemma service_put [simp]:
  "service (gateway (broadcast v f)) = service (gateway v)"
  "service (gateway (put_registry v r)) = (service (gateway v))\<lparr>driverRegistry := r\<rparr>"
  by (simp_all add: broadcast_def put_registry_def set_registry_def)

lemma put_quiet: "registry_ops (server_registry v) r \<Longrightarrow> quiet (service (gateway v)) (service (gateway (put_registry v r)))"
  using quiet_ops [of "service (gateway v)" r] by (simp add: server_registry_def)

lemma with_service_quiet:
  "quiet (service (gateway v)) s1 \<Longrightarrow> quiet (service (gateway v)) (service (gateway (with_gateway rnd now v' (with_service w s1))))"
  by (rule quiet_trans [OF _ with_gateway_quiet]) simp

section \<open>The routes\<close>

lemma reject_state [simp]: "snd (reject code e v) = v"
  by (simp add: reject_def)

lemma reset_quiet:
  assumes "post_reset v now rnd auth bounds city dc = (rep, v')"
  shows "quiet (service (gateway v)) (service (gateway v'))"
proof -
  consider "v' = v" | nb n where "(if js_truthy bounds then geo_bounds_of bounds else Some BLR_BOUNDS) = Some nb"
      and "driver_count dc = Some n" and "hasControlAccess (config v) auth"
    using assms by (auto simp: post_reset_def reject_def simp del: geo_bounds_of_eq_None split: if_splits option.splits)
  then show ?thesis
  proof cases
    case 2
    have ok: "bounds_ok nb"
      using 2(1) geo_bounds_of_Some [of bounds nb] by (auto simp: BLR_BOUNDS_def bounds_ok_def split: if_splits)
    define s1 where "s1 = reset_service (service (gateway v)) now ''Operating region was reset''"
    define v1 where "v1 = with_gateway 0 now v (with_service (gateway v) s1)"
    define name where "name = (if truthy city then the city else ''Custom Region'')"
    define v2 where "v2 = v1\<lparr>activeCityName := name, activeBounds := nb\<rparr>"
    define r1 where "r1 = registry_reset (server_registry v2) (qt_new nb 8 7)"
    obtain sim1 r2 where sr: "resetRegion (simulator v2) r1 now rnd nb n = (sim1, r2)" by fastforce
    have v': "v' = broadcast (put_registry (v2\<lparr>simulator := sim1\<rparr>) r2) (RegionUpdated name nb n)"
      using assms 2 sr unfolding post_reset_def s1_def [symmetric] v1_def [symmetric] name_def [symmetric] Let_def
      by (auto simp: r1_def v2_def simp del: geo_bounds_of_eq_None)
    have "quiet (service (gateway v)) s1" unfolding s1_def by (rule quiet_step [OF step_reset]) simp
    then have q1: "quiet (service (gateway v)) (service (gateway v1))" unfolding v1_def by (rule with_service_quiet)
    have "registry_ops (server_registry v2) r1" unfolding r1_def using change_region [OF ok] by blast
    then have "registry_ops (driverRegistry (service (gateway v1))) r2"
      using reset_region_ops [OF sr] by (simp add: server_registry_def v2_def)
    then have "quiet (service (gateway v1)) (service (gateway v'))"
      unfolding v' using quiet_ops by (simp add: v2_def)
    with q1 show ?thesis by (rule quiet_trans)
  qed simp
qed

lemma engine_select_quiet: "service (gateway (snd (post_engine_select v cpp auth e))) = service (gateway v)"
  by (simp add: post_engine_select_def)

lemma race_quiet: "quiet (service (gateway v)) (service (gateway (snd (post_race v now stamp cpp cands auth cla clo))))"
proof -
  have "quiet (service (gateway v)) (service (gateway (snd (case race_candidates v now stamp cpp cands a b of
      ([], r1) \<Rightarrow> (None, put_registry v r1)
    | (prime # xs, r1) \<Rightarrow> let (res, r2) = run_race r1 now stamp prime
        in (Some ((200, RaceResult res) :: reply), show_race (put_registry v r2) res)))))" for a b
  proof -
    obtain cs r1 where c: "race_candidates v now stamp cpp cands a b = (cs, r1)" by fastforce
    note ops = race_candidates_ops [OF c]
    show ?thesis
    proof (cases cs)
      case Nil
      then show ?thesis using c put_quiet [OF ops] by simp
    next
      case (Cons prime xs)
      obtain res r2 where r: "run_race r1 now stamp prime = (res, r2)" by fastforce
      have "registry_ops (server_registry v) r2" using ops run_race_ops [OF r] by (rule rtranclp_trans)
      then show ?thesis using c r Cons put_quiet by (simp add: show_race_def)
    qed
  qed
  then show ?thesis by (simp add: post_race_def Let_def split: jsnum.split)
qed

lemma race_timeout_quiet: "quiet (service (gateway v)) (service (gateway (race_timeout v stamp res)))"
  using put_quiet [OF rtranclp_trans [OF release_race_ops release_race_ops]] by (simp add: race_timeout_def Let_def)

lemma call_quiet:
  "cancelRide s now req by reason = (cres, s1) \<Longrightarrow> quiet s s1"
  "action_target a = Some target \<Longrightarrow> driver_milestone s now tid i target = (mres, s1) \<Longrightarrow> quiet s s1"
  "handleDriverResponse s now i req resp = (hres, s1) \<Longrightarrow> quiet s s1"
  by (metis cancel_ride_quiet snd_conv, metis driver_milestone_quiet action_target_range snd_conv, metis response_quiet snd_conv)

lemma cancel_route_quiet: "quiet (service (gateway v)) (service (gateway (snd (post_cancel v now auth tid rider reason))))"
  by (auto simp: post_cancel_def Let_def intro!: with_service_quiet intro: call_quiet split: option.split prod.split)

lemma action_route_quiet: "quiet (service (gateway v)) (service (gateway (snd (post_driver_action v now auth tid action i))))"
  by (auto simp: post_driver_action_def Let_def intro!: with_service_quiet intro: call_quiet split: option.split prod.split)

lemma response_route_quiet: "quiet (service (gateway v)) (service (gateway (snd (post_driver_response v now auth i req resp))))"
  by (auto simp: post_driver_response_def Let_def intro!: with_service_quiet intro: call_quiet split: prod.split)

lemma spawn_quiet: "quiet (service (gateway v)) (service (gateway (snd (post_spawn v now fresh auth i la lo))))"
proof (cases "geo_point_of (JObj [(''lat'', la), (''lng'', lo)])")
  case None
  then show ?thesis by (simp add: post_spawn_def del: geo_point_of_eq_None)
next
  case (Some p)
  let ?i = "if truthy i then the i else fresh"
  obtain d r1 where r: "registerDriver (server_registry v) now ?i (Fin (lat p)) (Fin (lng p)) Available = (d, r1)" by fastforce
  have "registry_ops (server_registry v) r1" by (metis r register_ops snd_conv)
  then show ?thesis using put_quiet Some r by (simp add: post_spawn_def Let_def)
qed

lemma eviction_quiet: "quiet (service (gateway v)) (service (gateway (stale_eviction v now)))"
proof -
  obtain ev r where e: "evictStaleDrivers (server_registry v) now 30000 = (ev, r)" by fastforce
  have "registry_ops (server_registry v) r" by (metis change_op e op_evict r_into_rtranclp snd_conv)
  then show ?thesis using put_quiet e by (simp add: stale_eviction_def Let_def)
qed

section \<open>Ticks and timers\<close>

definition put_world :: "MatchingService \<Rightarrow> sim_world \<Rightarrow> MatchingService" where
  "put_world s world = s\<lparr>driverRegistry := fst (snd world), stateMachine := snd (snd world)\<rparr>"

lemma put_world_same [simp]: "put_world s (sim, driverRegistry s, stateMachine s) = s"
  by (simp add: put_world_def)

lemma put_world_registry: "(put_world s (sim, r, m))\<lparr>driverRegistry := r'\<rparr> = put_world s (sim', r', m)"
  by (cases s) (simp add: put_world_def)

lemma put_world_machine: "(put_world s (sim, r, m))\<lparr>stateMachine := m'\<rparr> = put_world s (sim', r, m')"
  by (simp add: put_world_def)

lemma milestone_trip:
  "quiet s (s\<lparr>stateMachine := snd (driverArrived (stateMachine s) now tid)\<rparr>)"
  "quiet s (s\<lparr>stateMachine := snd (startTrip (stateMachine s) now tid)\<rparr>)"
  "quiet s (s\<lparr>stateMachine := snd (tsm_completeTrip (stateMachine s) now tid)\<rparr>)"
  unfolding driverArrived_def startTrip_def tsm_completeTrip_def
  by (rule quiet_step [OF step_trip [OF _ prod.collapse [symmetric]]]; simp)+

lemma move_to_ops: "registry_ops r (move_to now r d)"
  unfolding move_to_def by (auto intro: op_location)

lemma tick_parts:
  assumes "registry_ops r r'" and "m' = m \<or> (\<exists>tid. m' = snd (driverArrived m now tid) \<or> m' = snd (tsm_completeTrip m now tid))"
  shows "quiet (put_world s (sim, r, m)) (put_world s (sim', r', m'))"
proof -
  have "quiet (put_world s (sim, r, m)) (put_world s (sim, r', m))"
    using quiet_ops [of "put_world s (sim, r, m)" r', unfolded put_world_registry [where sim' = sim]] assms(1)
    by (simp add: put_world_def)
  moreover have "quiet (put_world s (sim, r', m)) (put_world s (sim', r', m'))"
    using assms(2) milestone_trip [of "put_world s (sim, r', m)", unfolded put_world_machine [where sim' = sim']]
    by (auto simp: put_world_def)
  ultimately show ?thesis by (rule quiet_trans)
qed

lemma tick_driver_quiet: "quiet (put_world s world) (put_world s (tick_driver now world d))"
proof -
  obtain sim r m where w: "world = (sim, r, m)" by (metis prod_cases3)
  have comp: "registry_ops r (snd (completeTrip (move_to now r d1) now i))" for d1 i
    by (rule rtranclp_trans [OF move_to_ops [of r now d1]]) simp
  show ?thesis
    unfolding w
    by (auto simp: tick_driver_def Let_def intro!: tick_parts move_to_ops comp
        split: sim_phase.split option.split prod.split)
qed

lemma sim_tick_quiet: "quiet (put_world s world) (put_world s (sim_tick now world))"
proof -
  have "quiet (put_world s w) (put_world s (foldl (tick_driver now) w ds))" for w ds
  proof (induction ds arbitrary: w)
    case (Cons d ds)
    show ?case using quiet_trans [OF tick_driver_quiet Cons] by simp
  qed simp
  then show ?thesis by (simp add: sim_tick_def)
qed

lemma server_tick_quiet: "quiet (service (gateway v)) (service (gateway (server_tick v now)))"
proof -
  obtain sim r m where t: "sim_tick now (simulator v, server_registry v, stateMachine (service (gateway v))) = (sim, r, m)"
    by (metis prod_cases3)
  have "quiet (service (gateway v)) (put_world (service (gateway v)) (sim, r, m))"
    using sim_tick_quiet [of "service (gateway v)" "(simulator v, server_registry v, stateMachine (service (gateway v)))" now] t
    by (simp add: server_registry_def)
  then show ?thesis using t by (simp add: server_tick_def put_world_def set_machine_def set_registry_def)
qed

lemma server_answer_quiet: "quiet (service (gateway v)) (service (gateway (server_answer v now n)))"
  by (auto simp: server_answer_def give_answer_def Let_def intro!: with_service_quiet response_quiet split: prod.split)

lemma server_boarded_quiet: "quiet (service (gateway v)) (service (gateway (server_boarded v now n)))"
  using milestone_trip(2) by (auto simp: server_boarded_def boarded_def set_machine_def Let_def)

section \<open>Runs of the server\<close>

text \<open>
  A step carries the identifier of the trip it may create.  A tick, an eviction or a timer may come
  at any time, and the sockets open and close as the clients like.
\<close>

inductive server_step :: "Server \<Rightarrow> string option \<Rightarrow> Server \<Rightarrow> bool" where
  sv_sockets: "server_step v None (v\<lparr>gateway := (gateway v)\<lparr>openSockets := S\<rparr>\<rparr>)"
| sv_upgrade: "server_step v None (ws_upgrade v now fresh so role i)"
| sv_close: "server_step v None (v\<lparr>gateway := socket_closed (gateway v) now so ro i\<rparr>)"
| sv_message: "server_step v (Some (''trip_'' @ uuid)) (with_gateway rnd now v (socket_message (gateway v) now uuid rid so ro i raw))"
| sv_cancel_resume: "jm_get (cancels (service (gateway v))) n = Some cc \<Longrightarrow>
     server_step v None (with_gateway rnd now v (ws_cancel_resume (gateway v) now n cc))"
| sv_offer_timer: "l \<in> timers (service (gateway v)) \<Longrightarrow> jm_get (loops (service (gateway v))) l = Some lp \<Longrightarrow>
     server_step v None (with_gateway rnd now v (with_service (gateway v) (offer_timeout (service (gateway v)) l lp)))"
| sv_loop: "jm_get (loops (service (gateway v))) l = Some lp \<Longrightarrow> \<nexists>c. lp_pc lp = Waiting c \<Longrightarrow>
     server_step v None (with_gateway rnd now v (with_service (gateway v) (loop_resume (service (gateway v)) now l lp)))"
| sv_evict: "server_step v None (stale_eviction v now)"
| sv_tick: "server_step v None (server_tick v now)"
| sv_answer: "server_step v None (server_answer v now n)"
| sv_boarded: "server_step v None (server_boarded v now n)"
| sv_reset: "post_reset v now rnds auth bounds city dc = (rep, v') \<Longrightarrow> server_step v None v'"
| sv_engine: "server_step v None (snd (post_engine_select v cpp auth e))"
| sv_race: "server_step v None (snd (post_race v now stamp cpp cands auth cla clo))"
| sv_race_timeout: "server_step v None (race_timeout v stamp res)"
| sv_rides: "server_step v (Some (''trip_'' @ uuid)) (snd (post_rides v now rnd uuid rid auth rider req pk dr tmo))"
| sv_cancel: "server_step v None (snd (post_cancel v now auth tid rider reason))"
| sv_action: "server_step v None (snd (post_driver_action v now auth tid action i'))"
| sv_response: "server_step v None (snd (post_driver_response v now auth i' req' resp))"
| sv_spawn: "server_step v None (snd (post_spawn v now fresh auth i' la lo))"

text \<open>
  \<open>U\<close> holds the identifiers of trips handed out; a random identifier never repeats.
\<close>

inductive server_run :: "string set \<Rightarrow> Server \<Rightarrow> bool" where
  sv_start: "server_run {} (server_new cfg now rnds)"
| sv_step: "server_run U v \<Longrightarrow> server_step v new v' \<Longrightarrow> set_option new \<inter> U = {} \<Longrightarrow> server_run (set_option new \<union> U) v'"

lemma upgrade_service [simp]: "service (gateway (ws_upgrade v now fresh so role i)) = service (gateway v)"
  by (simp add: ws_upgrade_def split: option.split)

lemma rides_serves:
  assumes "serves U (service (gateway v))" and "''trip_'' @ uuid \<notin> U"
  shows "serves (insert (''trip_'' @ uuid) U) (service (gateway (snd (post_rides v now rnd uuid rid auth rider req pk dr tmo))))"
proof (cases "hasControlAccess (config v) auth \<and> truthy rider \<and> js_truthy pk \<and> js_truthy dr \<and> isValidGeoPoint pk \<and> isValidGeoPoint dr")
  case False
  then have "snd (post_rides v now rnd uuid rid auth rider req pk dr tmo) = v" by (auto simp: post_rides_def)
  then show ?thesis using serves_mono [OF assms(1) subset_insertI] by simp
next
  case True
  let ?req = "if truthy req then the req else ''req_'' @ rid"
  obtain res s1 where r: "requestRide (service (gateway v)) now uuid ?req (the rider) pk dr (request_config tmo) = (res, s1)" by fastforce
  have "serves (insert (''trip_'' @ uuid) U) s1" by (rule serves_step [OF assms(1) step_request [OF r] _ assms(2)]) simp
  then have "serves (insert (''trip_'' @ uuid) U) (service (gateway (with_gateway rnd now v (with_service (gateway v) s1))))"
    using serves_quiet [OF _ with_gateway_quiet] by simp
  then show ?thesis using True r by (simp add: post_rides_def Let_def split: sum.split)
qed

lemma server_new_serves: "serves {} (service (gateway (server_new cfg now rnds)))"
proof -
  obtain sim r where s: "sim_start (sim_new BLR_BOUNDS) (registry_new (qt_new BLR_BOUNDS 8 7)) now rnds 40 = (sim, r)" by fastforce
  have "registry_run r"
    by (rule registry_run_ops [OF start_ops [OF s] run_new]) (simp add: BLR_BOUNDS_def bounds_ok_def)
  then have "svc_run [] (service_new r tsm_new)" unfolding svc_run_def using exec_refl by blast
  then show ?thesis using s unfolding serves_def by (intro exI [of _ "[]"]) (simp add: server_new_def ws_new_def)
qed

lemma server_step_serves:
  assumes "server_step v new v'" and "serves U (service (gateway v))" and "set_option new \<inter> U = {}"
  shows "serves (set_option new \<union> U) (service (gateway v'))"
  using assms
proof (cases rule: server_step.cases)
  case (sv_close now so ro i)
  then show ?thesis using serves_quiet [OF assms(2) close_quiet] by simp
next
  case (sv_message uuid rnd now rid so ro i raw)
  then show ?thesis using serves_quiet [OF serves_socket [OF assms(2)] with_gateway_quiet] assms(3) by simp
next
  case (sv_cancel_resume n cc rnd now)
  then show ?thesis using serves_quiet [OF assms(2)] quiet_trans [OF cancel_resume_quiet [OF sv_cancel_resume(3)] with_gateway_quiet] by simp
next
  case (sv_offer_timer l lp rnd now)
  then show ?thesis
    using serves_quiet [OF assms(2)] with_service_quiet [OF quiet_step [OF step_timer [OF sv_offer_timer(3,4), of 0]]] by simp
next
  case (sv_loop l lp rnd now)
  then show ?thesis
    using serves_quiet [OF assms(2)] with_service_quiet [OF quiet_step [OF step_resume [OF sv_loop(3,4), of now]]] by simp
next
  case (sv_reset now rnds auth bounds city dc rep)
  then show ?thesis using serves_quiet [OF assms(2) reset_quiet [OF sv_reset(2)]] by simp
next
  case (sv_rides uuid now rnd rid auth rider req pk dr tmo)
  then show ?thesis using rides_serves [OF assms(2)] assms(3) by simp
qed (simp_all add: engine_select_quiet serves_quiet [OF _ eviction_quiet] serves_quiet [OF _ server_tick_quiet]
    serves_quiet [OF _ server_answer_quiet] serves_quiet [OF _ server_boarded_quiet] serves_quiet [OF _ race_quiet]
    serves_quiet [OF _ race_timeout_quiet] serves_quiet [OF _ cancel_route_quiet] serves_quiet [OF _ action_route_quiet]
    serves_quiet [OF _ response_route_quiet] serves_quiet [OF _ spawn_quiet])

lemma server_run_serves: "server_run U v \<Longrightarrow> serves U (service (gateway v))"
  by (induction rule: server_run.induct) (use server_new_serves server_step_serves in blast)+

lemma server_run_invs:
  assumes "server_run U v"
  shows "reg_inv (server_registry v)" and "tsm_inv (stateMachine (service (gateway v)))"
proof -
  obtain h where h: "svc_run h (service (gateway v))" using server_run_serves [OF assms] by (auto simp: serves_def)
  show "reg_inv (server_registry v)" and "tsm_inv (stateMachine (service (gateway v)))"
    using svc_run_inv [OF h] tsm_runs_inv registry_run_inv by (auto simp: svc_inv_def server_registry_def)
qed

end
