(* ===== verification/Observers.thy ===== *)
theory Observers
  imports ServerRuns "HOL-Library.Sublist"
begin

text \<open>
  What the observers hear: the state machine reports every transition, the server broadcasts it, and
  an observer that stays connected receives each of them once and in their order, through every
  route, message, timer and tick.
\<close>

section \<open>The trips report every transition\<close>

lemma milestone_notices: "milestone m now t target by reason payload = Inr (t1, m1) \<Longrightarrow> notices m1 = notices m"
  by (cases target) (auto simp: clearActiveIndices_def Let_def split: option.splits if_splits jsval.splits prod.splits)

lemma transition_notices: "prefix (notices m) (notices (snd (transition m now tid target by reason payload)))"
proof -
  obtain r m' where t: "transition m now tid target by reason payload = (r, m')" by fastforce
  have "prefix (notices m) (notices m')"
  proof (rule transition_cases [OF t])
    fix t0 t1 s1 ev
    assume "milestone m now t0 target by reason payload = Inr (t1, s1)"
      "m' = notifyTransition (recordEvent (s1\<lparr>trips := jm_set (trips s1) tid (t1\<lparr>t_status := target\<rparr>)\<rparr>) ev) ev (t1\<lparr>t_status := target\<rparr>)"
    then show ?thesis using milestone_notices by (simp add: notifyTransition_def recordEvent_def)
  qed simp_all
  then show ?thesis using t by simp
qed

lemma create_notices: "notices (snd (createTrip m now uuid req rider pk dr)) = notices m"
  by (auto simp: createTrip_def Let_def recordEvent_def evictOldestTerminal_def split: option.split)

lemma moves_notices: "tsm_moves m m' \<Longrightarrow> prefix (notices m) (notices m')"
proof (induction rule: rtranclp_induct)
  case (step m1 m2)
  then show ?case using transition_notices unfolding tsm_move_def by (metis prefix_order.trans)
qed simp

definition tells_more :: "MatchingService \<Rightarrow> MatchingService \<Rightarrow> bool" where
  "tells_more s s' = prefix (notices (stateMachine s)) (notices (stateMachine s'))"

lemma step_tells: "svc_step s c s' \<Longrightarrow> tells_more s s'"
  unfolding tells_more_def
proof (erule svc_step_moves)
  fix now uuid req rider pk dr r m1
  assume a: "createTrip (stateMachine s) now uuid req rider pk dr = (r, m1)" "tsm_moves m1 (stateMachine s')"
  have "notices m1 = notices (stateMachine s)" using create_notices a(1) by (metis snd_conv)
  then show "prefix (notices (stateMachine s)) (notices (stateMachine s'))" using moves_notices [OF a(2)] by simp
qed (rule moves_notices)

lemma exec_tells: "svc_exec h s h' s' \<Longrightarrow> tells_more s s'"
proof (induction rule: svc_exec.induct)
  case exec_step
  then show ?case using step_tells unfolding tells_more_def by (metis prefix_order.trans)
qed (simp add: tells_more_def)

lemma quiet_tells: "quiet s s' \<Longrightarrow> tells_more s s'"
  using exec_tells unfolding quiet_def by meson

section \<open>An observer's frames\<close>

fun is_transition :: "ws_frame \<Rightarrow> bool" where
  "is_transition (TransitionEvent a b c d e f) = True"
| "is_transition _ = False"

definition transition_frame :: "StateTransitionEvent \<times> Trip \<Rightarrow> ws_frame" where
  "transition_frame et = (case et of (ev, t) \<Rightarrow>
     TransitionEvent (t_id t) (t_requestId t) (t_status t) (t_driverId t) (t_riderId t) (e_fromStatus ev))"

definition told :: "nat \<Rightarrow> WsManager \<Rightarrow> ws_frame list" where
  "told so w = map snd (filter (\<lambda>(x, f). x = so \<and> is_transition f) (frames w))"

text \<open>The observer is listed once, is open, and has heard what was reported since \<open>base\<close>.\<close>

definition follows :: "nat \<Rightarrow> ws_frame list \<Rightarrow> (StateTransitionEvent \<times> Trip) list \<Rightarrow> WsManager \<Rightarrow> bool" where
  "follows so old base w =
    (count_list (observerSockets w) so = 1 \<and> so \<in> openSockets w \<and>
     (\<exists>ts. notices (stateMachine (service w)) = base @ ts \<and> told so w = old @ map transition_frame ts))"

lemma told_send: "told so (send w x f) = told so w @ (if x = so \<and> so \<in> openSockets w \<and> is_transition f then [f] else [])"
  by (simp add: told_def send_def)

lemma told_send_opt [simp]: "\<not> is_transition f \<Longrightarrow> told so (send_opt w x f) = told so w"
  by (simp add: send_opt_def told_send split: option.split)

lemma told_send_all: "told so (foldl (\<lambda>w x. send w x f) w xs) =
    told so w @ (if so \<in> openSockets w \<and> is_transition f then replicate (count_list xs so) f else [])"
proof (induction xs arbitrary: w)
  case (Cons x xs)
  show ?case using Cons [of "send w x f"] by (simp add: told_send replicate_append_same)
qed simp

lemma told_broadcast: "told so (broadcastToObservers w f) =
    told so w @ (if so \<in> openSockets w \<and> is_transition f then replicate (count_list (observerSockets w) so) f else [])"
  by (simp add: broadcastToObservers_def told_send_all)

lemma told_event [simp]: "told so (on_service_event w e) = told so w"
  by (cases e) (simp_all add: notifyDriverOffer_def notifyOfferRevoked_def notifyTripMatched_def Let_def told_broadcast
      split: option.split)

fun transitions_of :: "('e + 't) list \<Rightarrow> 't list" where
  "transitions_of [] = []"
| "transitions_of (Inl e # cs) = transitions_of cs"
| "transitions_of (Inr t # cs) = t # transitions_of cs"

lemma transitions_of_append [simp]: "transitions_of (cs @ ds) = transitions_of cs @ transitions_of ds"
  by (induction cs rule: transitions_of.induct) simp_all

lemma transitions_of_Inr [simp]: "transitions_of (map Inr ts) = ts"
  by (induction ts) simp_all

lemma callbacks_transitions: "transitions_of (callbacks n es ts) = ts"
  by (induction n es ts rule: callbacks.induct) simp_all

lemma told_callbacks:
  assumes "count_list (observerSockets w) so = 1" and "so \<in> openSockets w"
  shows "told so (foldl on_callback w cs) = told so w @ map transition_frame (transitions_of cs)"
  using assms
proof (induction cs arbitrary: w rule: transitions_of.induct)
  case (2 e cs)
  then show ?case using "2.IH" [of "on_callback w (Inl e)"] by (simp add: on_callback_def)
next
  case (3 t cs)
  then show ?case using "3.IH" [of "on_callback w (Inr t)"]
    by (cases t) (simp add: on_callback_def on_transition_def told_broadcast transition_frame_def)
qed simp

lemma told_service [simp]: "told so (w\<lparr>service := s\<rparr>) = told so w"
  by (simp add: told_def)

lemma with_service_follows:
  assumes "follows so old base w" and "tells_more (service w) s"
  shows "follows so old base (with_service w s)"
proof -
  obtain ts where ts: "notices (stateMachine s) = notices (stateMachine (service w)) @ ts"
    using assms(2) by (auto simp: tells_more_def prefix_def)
  obtain us where us: "notices (stateMachine (service w)) = base @ us" "told so w = old @ map transition_frame us"
    using assms(1) by (auto simp: follows_def)
  show ?thesis using assms(1) ts us
    by (simp add: follows_def with_service_def Let_def told_callbacks callbacks_transitions exI [of _ "us @ ts"])
qed

lemma follows_frame [simp]:
  "\<not> is_transition f \<Longrightarrow> follows so old base (send w x f) = follows so old base w"
  "\<not> is_transition f \<Longrightarrow> follows so old base (send_opt w y f) = follows so old base w"
  "\<not> is_transition f \<Longrightarrow> follows so old base (broadcastToObservers w f) = follows so old base w"
  "follows so old base (set_registry w r) = follows so old base w"
  "follows so old base (w\<lparr>riderSockets := R\<rparr>) = follows so old base w"
  "follows so old base (w\<lparr>driverSockets := D\<rparr>) = follows so old base w"
  "follows so old base (w\<lparr>pendingReplies := P\<rparr>) = follows so old base w"
  by (simp_all add: follows_def told_send told_broadcast) (simp_all add: told_def set_registry_def)

lemma set_machine_follows:
  "follows so old base w \<Longrightarrow> prefix (notices (stateMachine (service w))) (notices m) \<Longrightarrow> follows so old base (set_machine w m)"
  unfolding set_machine_def by (rule with_service_follows) (simp_all add: tells_more_def)

section \<open>Messages\<close>

lemma request_tells: "requestRide s now uuid req rider pk dr cf = (r, s1) \<Longrightarrow> tells_more s s1"
  by (rule step_tells [OF step_request])

lemma message_follows:
  assumes "follows so old base w"
  shows "follows so old base (socket_message w now uuid rid x role i raw)"
proof (cases raw)
  case (Some msg)
  note intro = with_service_follows [OF assms] quiet_tells call_quiet request_tells
  have "follows so old base (handleMessage w now uuid rid x role i msg)"
  proof (cases msg)
    case (Ride_request req pk dr tmo)
    then show ?thesis using assms
      by (auto simp: ws_ride_request_def Let_def split: option.split prod.split sum.split intro: intro simp del: geo_point_of_eq_None)
  next
    case (Cancel_ride req reason)
    then show ?thesis using assms
      by (auto simp: ws_cancel_ride_def cancel_reply_def Let_def split: option.split prod.split sum.split intro: intro)
  next
    case (Driver_telemetry la lo)
    then show ?thesis using assms
      by (auto simp: ws_driver_telemetry_def telemetry_tail_def Let_def split: option.split prod.split)
  next
    case (Ride_response req resp)
    then show ?thesis using assms
      by (auto simp: ws_ride_response_def Let_def split: option.split prod.split intro: intro)
  next
    case (Driver_action action tid)
    then show ?thesis using assms
      by (auto simp: ws_driver_action_def Let_def split: option.split prod.split sum.split intro: intro)
  next
    case Sync_state
    then show ?thesis using assms by (auto simp: ws_sync_state_def split: ClientRole.split)
  qed (use assms in simp_all)
  then show ?thesis using Some by (simp add: socket_message_def)
qed (use assms in \<open>simp add: socket_message_def\<close>)

section \<open>The server\<close>

abbreviation hears :: "nat \<Rightarrow> ws_frame list \<Rightarrow> (StateTransitionEvent \<times> Trip) list \<Rightarrow> Server \<Rightarrow> bool" where
  "hears so old base v \<equiv> follows so old base (gateway v)"

lemma broadcast_hears [simp]:
  "\<not> is_transition f \<Longrightarrow> hears so old base (broadcast v f) = hears so old base v"
  "hears so old base (put_registry v r) = hears so old base v"
  by (simp_all add: broadcast_def put_registry_def)

lemma sim_event_hears: "hears so old base v \<Longrightarrow> hears so old base (sim_event rnd now v e)"
  by (cases e) (auto simp: onTripAssigned_def driverEnRoute_def intro!: set_machine_follows transition_notices split: option.split)

lemma with_gateway_hears: "follows so old base w \<Longrightarrow> hears so old base (with_gateway rnd now v w)"
proof -
  assume w: "follows so old base w"
  have "hears so old base (foldl (sim_event rnd now) v' es)" if "hears so old base v'" for v' es
    using that by (induction es arbitrary: v') (simp_all add: sim_event_hears)
  then show ?thesis using w by (simp add: with_gateway_def)
qed

lemma service_hears:
  "hears so old base v \<Longrightarrow> tells_more (service (gateway v)) s \<Longrightarrow> hears so old base (with_gateway rnd now v' (with_service (gateway v) s))"
  by (rule with_gateway_hears [OF with_service_follows])

lemma reset_hears:
  assumes "post_reset v now rnd auth bounds city dc = (rep, v')" and "hears so old base v"
  shows "hears so old base v'"
proof -
  have q: "tells_more (service (gateway v)) (reset_service (service (gateway v)) now r)" for r
    by (rule step_tells [OF step_reset])
  show ?thesis using assms service_hears [OF assms(2) q]
    by (auto simp: post_reset_def reject_def Let_def simp del: geo_bounds_of_eq_None split: if_splits option.splits prod.splits)
qed

lemma tick_driver_notices: "prefix (notices m) (notices (snd (snd (tick_driver now (sim, r, m) d))))"
  by (auto simp: tick_driver_def Let_def driverArrived_def tsm_completeTrip_def intro: transition_notices
      split: sim_phase.split option.split prod.split)

lemma sim_tick_notices: "prefix (notices m) (notices (snd (snd (sim_tick now (sim, r, m)))))"
proof -
  have "prefix (notices (snd (snd w))) (notices (snd (snd (foldl (tick_driver now) w ds))))" for w ds
  proof (induction ds arbitrary: w)
    case (Cons d ds)
    have "prefix (notices (snd (snd w))) (notices (snd (snd (tick_driver now w d))))"
      using tick_driver_notices by (cases w) auto
    then show ?case using prefix_order.trans [OF _ Cons] by simp
  qed simp
  from this [of "(sim, r, m)"] show ?thesis by (simp add: sim_tick_def)
qed

lemma server_tick_hears: "hears so old base v \<Longrightarrow> hears so old base (server_tick v now)"
  using sim_tick_notices [of "stateMachine (service (gateway v))" now "simulator v" "server_registry v"]
  by (auto simp: server_tick_def intro!: set_machine_follows split: prod.splits)

lemma boarded_hears: "hears so old base v \<Longrightarrow> hears so old base (server_boarded v now n)"
  by (auto simp: server_boarded_def boarded_def startTrip_def Let_def intro!: set_machine_follows transition_notices)

lemma count_one [dest]: "count_list xs so = 1 \<Longrightarrow> so \<in> set xs"
  by (induction xs) (auto split: if_splits)

lemma upgrade_hears:
  assumes "hears so old base v" and "so \<in> openSockets (gateway (ws_upgrade v now fresh x role i))"
  shows "hears so old base (ws_upgrade v now fresh x role i)"
proof (cases "client_role role")
  case None
  then show ?thesis using assms by (simp add: ws_upgrade_def follows_def told_def)
next
  case (Some ro)
  have "follows so old base (w\<lparr>observerSockets := observerSockets w @ [x]\<rparr>)"
    if "follows so old base w" "x \<notin> set (observerSockets w)" for w
    using that count_one [of "observerSockets w" so] by (auto simp: follows_def told_def)
  then show ?thesis using Some assms(1)
    by (cases ro) (auto simp: ws_upgrade_def handleConnection_def Let_def)
qed

lemma close_follows:
  assumes "follows so old base w" and "so \<in> set (observerSockets (socket_closed w now x role i))"
  shows "follows so old base (socket_closed w now x role i)"
proof (cases role)
  case RoleObserver
  then have "x \<noteq> so" using assms(2) by (auto simp: socket_closed_def)
  then have "count_list (filter (\<lambda>y. y \<noteq> x) xs) so = count_list xs so" for xs by (induction xs) auto
  then show ?thesis using assms(1) RoleObserver by (simp add: socket_closed_def follows_def told_def)
qed (use assms(1) in \<open>auto simp: socket_closed_def Let_def\<close>)

lemma cancel_resume_hears:
  assumes "hears so old base v" and "jm_get (cancels (service (gateway v))) n = Some cc"
  shows "hears so old base (with_gateway rnd now v (ws_cancel_resume (gateway v) now n cc))"
proof (rule with_gateway_hears)
  obtain res s1 where r: "cancelRide_resume (service (gateway v)) now n cc = (res, s1)" by fastforce
  have "tells_more (service (gateway v)) s1" by (rule step_tells [OF step_cancel_resume [OF assms(2) r]])
  then have "hears so old base (v\<lparr>gateway := with_service (gateway v) s1\<rparr>)" using with_service_follows [OF assms(1)] by simp
  then show "follows so old base (ws_cancel_resume (gateway v) now n cc)"
    by (auto simp: ws_cancel_resume_def cancel_reply_def r Let_def split: option.split sum.split)
qed

lemma route_hears:
  assumes "hears so old base v"
  shows "hears so old base (stale_eviction v now)" "hears so old base (server_answer v now n)"
    "hears so old base (snd (post_engine_select v cpp auth e))"
    "hears so old base (snd (post_race v now stamp cpp cands auth cla clo))" "hears so old base (race_timeout v stamp res)"
    "hears so old base (snd (post_rides v now rnd uuid rid auth rider req pk dr tmo))"
    "hears so old base (snd (post_cancel v now auth tid rider reason))"
    "hears so old base (snd (post_driver_action v now auth tid action i))"
    "hears so old base (snd (post_driver_response v now auth i req resp))"
    "hears so old base (snd (post_spawn v now fresh auth i la lo))"
  using assms
  by (auto simp: stale_eviction_def server_answer_def give_answer_def post_engine_select_def post_race_def show_race_def race_timeout_def
      post_rides_def post_cancel_def post_driver_action_def post_driver_response_def post_spawn_def Let_def
      intro!: service_hears intro: quiet_tells call_quiet request_tells response_quiet
      simp del: geo_point_of_eq_None split: option.split prod.split list.split jsnum.split sum.split)

text \<open>Every step of the program, as long as the observer stays connected.\<close>

lemma server_step_hears:
  assumes "server_step v new v'" and "hears so old base v"
    and "so \<in> set (observerSockets (gateway v'))" "so \<in> openSockets (gateway v')"
  shows "hears so old base v'"
  using assms
proof (cases rule: server_step.cases)
  case (sv_sockets S)
  then show ?thesis using assms(2,4) by (simp add: follows_def told_def)
next
  case (sv_close now x ro i)
  then show ?thesis using close_follows [OF assms(2)] assms(3) by simp
next
  case (sv_message uuid rnd now rid x ro i raw)
  then show ?thesis using with_gateway_hears [OF message_follows [OF assms(2)]] by simp
next
  case (sv_offer_timer l lp rnd now)
  then show ?thesis using service_hears [OF assms(2) step_tells [OF step_timer [OF sv_offer_timer(3,4), of 0]]] by simp
next
  case (sv_loop l lp rnd now)
  then show ?thesis using service_hears [OF assms(2) step_tells [OF step_resume [OF sv_loop(3,4), of now]]] by simp
next
  case (sv_reset now rnds auth bounds city dc rep)
  then show ?thesis using reset_hears [OF sv_reset(2) assms(2)] by simp
next
  case (sv_tick now)
  then show ?thesis using server_tick_hears [OF assms(2)] by simp
next
  case (sv_boarded now n)
  then show ?thesis using boarded_hears [OF assms(2)] by simp
next
  case (sv_upgrade now fresh x role i)
  then show ?thesis using upgrade_hears [OF assms(2)] assms(4) by simp
next
  case (sv_cancel_resume n cc rnd now)
  then show ?thesis using cancel_resume_hears [OF assms(2)] by simp
qed (use route_hears [OF assms(2)] in simp_all)

text \<open>The program goes on while an observer stays connected.\<close>

inductive stays :: "nat \<Rightarrow> Server \<Rightarrow> Server \<Rightarrow> bool" for so v0 where
  stays_refl: "so \<in> openSockets (gateway v0) \<Longrightarrow> stays so v0 v0"
| stays_step: "stays so v0 v \<Longrightarrow> server_step v new v' \<Longrightarrow> so \<in> set (observerSockets (gateway v')) \<Longrightarrow>
     so \<in> openSockets (gateway v') \<Longrightarrow> stays so v0 v'"

lemma stays_hears: "stays so v0 v \<Longrightarrow> hears so old base v0 \<Longrightarrow> hears so old base v"
  by (induction rule: stays.induct) (use server_step_hears in blast)+

lemma joined_hears:
  assumes "so \<notin> set (observerSockets (gateway v))" and "client_role role = Some RoleObserver"
    and "so \<in> openSockets (gateway v)"
  shows "hears so (told so (gateway v)) (notices (stateMachine (service (gateway v)))) (ws_upgrade v now fresh so role i)"
  using assms by (simp add: ws_upgrade_def handleConnection_def follows_def told_send Let_def) (simp add: told_def)

end
