(* ===== verification/ServerProperties.thy ===== *)
theory ServerProperties
  imports Observers DriverLease MatchingDemo
begin

text \<open>
  The server's routes: who may use them, what the demonstration of two racing riders shows, and what
  a change of the operating region leaves.
\<close>

section \<open>The server without the lock service\<close>

text \<open>
  \<open>server_new\<close> leaves out the lock service and the trip store, which \<open>server.ts\<close> 102 to 140
  always pass to the registry and to the matching service: the theorem is of that smaller
  composition, and the part on the registry is false of the larger one (see
  \<open>RegistryRedisProperties\<close>).  Whatever requests and messages arrive, whatever sockets open and
  close, and however the timers, the simulator's ticks, region resets and suspended calls interleave
  with them, the service behind the routes is in a state that a run of the service reaches.
\<close>

theorem server_refines_service:
  assumes "server_run U v"
  shows "reg_inv (server_registry v) \<and>
    (\<exists>h. svc_run h (service (gateway v)) \<and> used_tids h \<subseteq> U) \<and>
    (\<forall>t1 t2. let m = stateMachine (service (gateway v)) in
       getTrip m (t_id t1) = Some t1 \<and> getTrip m (t_id t2) = Some t2 \<and>
       \<not> terminal (t_status t1) \<and> \<not> terminal (t_status t2) \<and>
       (t_riderId t1 = t_riderId t2 \<or> t_driverId t1 = t_driverId t2 \<and> t_driverId t1 \<noteq> None) \<longrightarrow> t1 = t2)"
proof -
  obtain h where h: "svc_run h (service (gateway v))" "used_tids h \<subseteq> U"
    and reg: "registry_run (driverRegistry (service (gateway v)))"
    and one: "\<And>t1 t2. getTrip (stateMachine (service (gateway v))) (t_id t1) = Some t1 \<and>
       getTrip (stateMachine (service (gateway v))) (t_id t2) = Some t2 \<and> \<not> terminal (t_status t1) \<and> \<not> terminal (t_status t2) \<and>
       (t_riderId t1 = t_riderId t2 \<or> t_driverId t1 = t_driverId t2 \<and> t_driverId t1 \<noteq> None) \<Longrightarrow> t1 = t2"
    using serves_summary [OF server_run_serves [OF assms]] by blast
  show ?thesis
    unfolding Let_def server_registry_def using registry_run_inv [OF reg] h one by (intro conjI exI [of _ h] allI impI)
qed

theorem server_refines_service_witness:
  "let v = server_tick (server_new \<lparr>sc_host = ''localhost'', sc_token = None\<rparr> 0 (\<lambda>_. (1/2, 1/2, 0, 1))) 1000 in
     reg_inv (server_registry v) \<and> (\<exists>h. svc_run h (service (gateway v)) \<and> used_tids h = {})"
proof -
  let ?v = "server_tick (server_new \<lparr>sc_host = ''localhost'', sc_token = None\<rparr> 0 (\<lambda>_. (1/2, 1/2, 0, 1))) 1000"
  have "server_run {} ?v" using sv_step [OF sv_start sv_tick] by simp
  from server_refines_service [OF this] show ?thesis unfolding Let_def by blast
qed

section \<open>Observers\<close>






section \<open>Access\<close>

text \<open>
  C14. The routes that control the system are closed to everyone without access: reset, race, ride
  requests, cancellations, driver actions, driver responses, spawning and the WebSocket upgrade
  answer 401, and the state is unchanged.  On a host that is not the loopback one a server that
  started has a token, and access means exactly this token as a bearer; the selection of the spatial
  engine alone asks for no access.
\<close>

theorem control_routes_are_guarded:
  assumes "may_start (config v)"
  shows "(\<not> hasControlAccess (config v) auth \<longrightarrow>
      post_reset v now rnds auth bounds city dc = ((401, Failure Unauthorized), v) \<and>
      post_race v now stamp cpp cands auth cla clo = (Some (401, Failure Unauthorized), v) \<and>
      post_rides v now rnd uuid rid auth rider req pickup dropoff tmo = ((401, Failure Unauthorized), v) \<and>
      post_cancel v now auth tid rider reason = (Some (401, Failure Unauthorized), v) \<and>
      post_driver_action v now auth tid action i = ((401, Failure Unauthorized), v) \<and>
      post_driver_response v now auth i req resp = ((401, Failure Unauthorized), v) \<and>
      post_spawn v now fresh auth i la lo = ((401, Failure Unauthorized), v) \<and>
      ws_prevalidate url v auth origin = Some (401, Failure Unauthorized)) \<and>
    (\<not> isLoopbackHost (config v) \<longrightarrow>
      (\<exists>token. token \<noteq> [] \<and> sc_token (config v) = Some token \<and>
         (hasControlAccess (config v) auth \<longleftrightarrow> auth = Some (''Bearer '' @ token)))) \<and>
    (isLoopbackHost (config v) \<longrightarrow> hasControlAccess (config v) auth) \<and>
    activeEngine (snd (post_engine_select v True auth (JStr ''cpp''))) = CppEngine"
proof -
  have "\<exists>token. token \<noteq> [] \<and> sc_token (config v) = Some token \<and>
      (hasControlAccess (config v) auth \<longleftrightarrow> auth = Some (''Bearer '' @ token))" if "\<not> isLoopbackHost (config v)"
    using assms that by (auto simp: may_start_def hasControlAccess_def elim!: truthyE)
  moreover have "hasControlAccess (config v) auth" if "isLoopbackHost (config v)"
    using that by (simp add: hasControlAccess_def)
  ultimately show ?thesis
    by (simp add: post_reset_def post_race_def post_rides_def post_cancel_def post_driver_action_def post_driver_response_def
        post_spawn_def ws_prevalidate_def reject_def post_engine_select_def broadcast_def)
qed

definition demo_server :: Server where
  "demo_server = \<lparr>config = \<lparr>sc_host = ''0.0.0.0'', sc_token = Some ''secret''\<rparr>, gateway = ws_new demo_waiting,
     simulator = sim_new demo_city, activeCityName = ''Bengaluru'', activeBounds = BLR_BOUNDS, activeEngine = TsEngine\<rparr>"

theorem control_routes_are_guarded_witness:
  "post_cancel demo_server 0 (Some ''Bearer guess'') ''trip_u1'' (Some ''ann'') None = (Some (401, Failure Unauthorized), demo_server) \<and>
   hasControlAccess (config demo_server) (Some ''Bearer secret'')"
proof -
  have s: "may_start (config demo_server)" by (simp add: demo_server_def may_start_def isLoopbackHost_def LOOPBACK_HOSTS_def)
  have l: "\<not> isLoopbackHost (config demo_server)" by (simp add: demo_server_def isLoopbackHost_def LOOPBACK_HOSTS_def)
  have "\<not> hasControlAccess (config demo_server) (Some ''Bearer guess'')"
    using l by (simp add: hasControlAccess_def demo_server_def)
  then show ?thesis
    using control_routes_are_guarded [OF s, of "Some ''Bearer guess''" 0] control_routes_are_guarded [OF s, of "Some ''Bearer secret''"] l
    by (auto simp: demo_server_def)
qed

section \<open>The race\<close>

lemma cascade_lease:
  assumes "reg_inv r" and "cascade r now prime req cs = (got, atts, r')"
  shows "reg_inv r' \<and> (\<forall>i. got = Some i \<longrightarrow> i \<noteq> prime \<and> table_holder r now i = None) \<and>
    (\<forall>t i. now \<le> t \<and> t < now + 15000 \<longrightarrow> table_holder r' t i = (if got = Some i then Some req else table_holder r t i))"
  using assms
proof (induction cs arbitrary: r got atts r')
  case Nil
  then show ?case by simp
next
  case (Cons c cs)
  show ?case
  proof (cases "c_id c = prime")
    case True
    then show ?thesis using Cons by simp
  next
    case False
    obtain ok r1 where a: "acquireLock r now (c_id c) req 15000 = (ok, r1)" by fastforce
    have inv1: "reg_inv r1" using table.good_step(1) [OF Cons.prems(1), of now "c_id c" req 15000] a by simp
    show ?thesis
    proof (cases ok)
      case True
      then show ?thesis
        using Cons.prems(2) False a inv1 table.acquire_free [OF Cons.prems(1), of now "c_id c" req 15000 r1]
          table.acquire_grants [OF Cons.prems(1), of now "c_id c" req 15000 r1] by auto
    next
      case refused: False
      obtain got1 atts1 r2 where c: "cascade r1 now prime req cs = (got1, atts1, r2)" by (metis prod_cases3)
      have "table_holder r1 t i = table_holder r t i" if "now \<le> t" for t i
        using table.acquire_refuses [OF Cons.prems(1), of now "c_id c" req 15000 r1 t i] a refused that by simp
      then show ?thesis using Cons.IH [OF inv1 c] Cons.prems(2) False refused a c by auto
    qed
  qed
qed

lemma try_prime_lease:
  assumes "reg_inv r" and "try_prime r now prime req = (ok, att, r')"
  shows "reg_inv r' \<and> (ok \<longrightarrow> table_holder r now prime = None) \<and>
    (\<forall>t i. now \<le> t \<and> t < now + 15000 \<longrightarrow> table_holder r' t i = (if ok \<and> i = prime then Some req else table_holder r t i))"
proof -
  obtain r1 where a: "acquireLock r now prime req 15000 = (ok, r1)" and r1: "r' = r1"
    using assms(2) by (auto simp: try_prime_def Let_def split: prod.splits)
  have "reg_inv r1" using table.good_step(1) [OF assms(1), of now prime req 15000] a by simp
  then show ?thesis
    using a table.acquire_free [OF assms(1), of now prime req 15000 r1] table.acquire_grants [OF assms(1), of now prime req 15000 r1]
      table.acquire_refuses [OF assms(1), of now prime req 15000 r1]
    unfolding r1 by (cases ok) auto
qed

text \<open>
  The race over a registry without the lock service, whose calls do not suspend, so that the route
  is one step; the race that the program runs, over the lock service and with other clients of it
  in between, is in \<open>SharedRace\<close>.  Whoever is assigned
  holds that driver's reservation for fifteen seconds, two assigned riders hold two different
  drivers, the reported number of duplicate dispatches is zero, and the contended driver, when it is
  free, goes to the rider who asks first.
\<close>

theorem local_race_is_isolated:
  assumes "reg_inv r" and "run_race r now stamp prime = (res, r')"
  shows "rr_duplicateDispatchCount res = 0 \<and>
    (\<forall>a b. rr_alice res = Some a \<and> rr_bob res = Some b \<longrightarrow> a \<noteq> b) \<and>
    (\<forall>t. now \<le> t \<and> t < now + 15000 \<longrightarrow>
      (\<forall>a. rr_alice res = Some a \<longrightarrow> table_holder r' t a = Some (''race_alice_'' @ stamp)) \<and>
      (\<forall>b. rr_bob res = Some b \<longrightarrow> table_holder r' t b = Some (''race_bob_'' @ stamp))) \<and>
    (\<forall>d. getDriver r (c_id prime) = Some d \<and> d_status d = Available \<and> d_lockToken d = None \<longrightarrow> rr_alice res = Some (c_id prime))"
proof -
  let ?p = "c_id prime" and ?A = "''race_alice_'' @ stamp" and ?B = "''race_bob_'' @ stamp"
  obtain aok aatt r1 where 1: "try_prime r now ?p ?A = (aok, aatt, r1)" by (metis prod_cases3)
  obtain bok batt r2 where 2: "try_prime r1 now ?p ?B = (bok, batt, r2)" by (metis prod_cases3)
  obtain bob bmore r3 where 3: "(if bok then (Some ?p, [], r2) else cascade r2 now ?p ?B
      (findNearbyCandidates r (c_lat prime + 0.0004) (c_lng prime + 0.0004) 4 15000)) = (bob, bmore, r3)" by (metis prod_cases3)
  obtain alice amore r4 where 4: "(if aok then (Some ?p, [], r3) else cascade r3 now ?p ?A
      (findNearbyCandidates r (c_lat prime + 0.0003) (c_lng prime + 0.0003) 4 15000)) = (alice, amore, r4)" by (metis prod_cases3)
  have res: "rr_alice res = alice" "rr_bob res = bob" "r' = r4"
    "rr_duplicateDispatchCount res = (if alice = bob \<and> alice \<noteq> None then 1 else 0)"
    using assms(2) unfolding run_race_def Let_def 1 2 3 4 case_prod_conv by (force simp only: prod.inject race_result.simps)+
  note l1 = try_prime_lease [OF assms(1) 1]
  note l2 = try_prime_lease [OF conjunct1 [OF l1] 2]
  have noB: "\<not> (aok \<and> bok)" using l1 l2 by (metis less_add_same_cancel1 option.distinct(1) order_refl zero_less_numeral)
  have l3: "reg_inv r3" "\<And>i. bob = Some i \<Longrightarrow> (if bok then i = ?p else i \<noteq> ?p)"
    "\<And>t i. now \<le> t \<Longrightarrow> t < now + 15000 \<Longrightarrow> table_holder r3 t i = (if bob = Some i then Some ?B else table_holder r1 t i)"
    using 3 l2 cascade_lease [of r2 now ?p ?B _ bob bmore r3] by (auto split: if_splits)
  have l4: "\<And>i. alice = Some i \<Longrightarrow> (if aok then i = ?p else table_holder r3 now i = None)"
    "\<And>t i. now \<le> t \<Longrightarrow> t < now + 15000 \<Longrightarrow> table_holder r4 t i = (if alice = Some i then Some ?A else table_holder r3 t i)"
    using 4 l1 l3 noB cascade_lease [OF l3(1), of now ?p ?A _ alice amore r4] by (auto split: if_splits)
  have diff: "a \<noteq> b" if "alice = Some a" "bob = Some b" for a b
    using l3(2) [OF that(2)] l4(1) [OF that(1)] l3(3) [of now b] that(2) noB by (auto split: if_splits)
  have free: "alice = Some ?p" if "getDriver r ?p = Some d" "d_status d = Available" "d_lockToken d = None" for d
  proof -
    have "aok"
      using that 1 by (auto simp: try_prime_def acquireLock_def cleanExpiredLockIfAny_def getDriver_def Let_def split: prod.splits)
    then show ?thesis using 4 by simp
  qed
  have holdA: "table_holder r4 t a = Some ?A" if "alice = Some a" "now \<le> t" "t < now + 15000" for t a
    using l4(2) [OF that(2,3), of a] that(1) by simp
  have holdB: "table_holder r4 t b = Some ?B" if "bob = Some b" "now \<le> t" "t < now + 15000" for t b
    using l4(2) [OF that(2,3), of b] l3(3) [OF that(2,3), of b] that(1) diff [OF _ that(1), of b] by auto
  have "\<not> (alice = bob \<and> alice \<noteq> None)" using diff by (cases alice) auto
  then show ?thesis
    unfolding res using diff free holdA holdB by (intro conjI allI impI) simp_all
qed

theorem local_race_is_isolated_witness:
  "let (res, r') = run_race demo_registry 100 ''7'' demo_candidate in
    rr_alice res = Some ''d1'' \<and> rr_duplicateDispatchCount res = 0 \<and> table_holder r' 200 ''d1'' = Some ''race_alice_7''"
proof -
  have inv: "reg_inv demo_registry" using demo_registry_run registry_run_inv by blast
  have "map_option (\<lambda>d. (d_status d, d_lockToken d)) (getDriver demo_registry ''d1'') = Some (Available, None)" by code_simp
  then obtain d where d: "getDriver demo_registry ''d1'' = Some d" "d_status d = Available" "d_lockToken d = None" by auto
  obtain res r' where r: "run_race demo_registry 100 ''7'' demo_candidate = (res, r')" by fastforce
  from local_race_is_isolated [OF inv r] d show ?thesis unfolding r by simp
qed

section \<open>A new region\<close>

lemma seed_in_region:
  assumes "minLat b \<le> maxLat b" "minLng b \<le> maxLng b" and "0 \<le> r1" "r1 \<le> 1" "0 \<le> r2" "r2 \<le> 1"
  shows "in_region b (Fin (minLat b + r1 * (maxLat b - minLat b))) (Fin (minLng b + r2 * (maxLng b - minLng b)))"
proof -
  have "r1 * (maxLat b - minLat b) \<le> 1 * (maxLat b - minLat b)" "r2 * (maxLng b - minLng b) \<le> 1 * (maxLng b - minLng b)"
    using assms by (intro mult_right_mono; simp)+
  moreover have "0 \<le> r1 * (maxLat b - minLat b)" "0 \<le> r2 * (maxLng b - minLng b)" using assms by simp_all
  ultimately show ?thesis by (simp add: in_box_def)
qed

definition unit_randoms :: "(nat \<Rightarrow> randoms) \<Rightarrow> bool" where
  "unit_randoms rnds = (\<forall>i. case rnds i of (a, b, c, d) \<Rightarrow> 0 \<le> a \<and> a \<le> 1 \<and> 0 \<le> b \<and> b \<le> 1)"

text \<open>The registry and the simulator while the drivers of the new region are seeded.\<close>

definition seeded :: "GeoBounds \<Rightarrow> string set \<Rightarrow> Simulator \<times> DriverRegistry \<Rightarrow> bool" where
  "seeded b N st = (case st of (sim, r) \<Rightarrow>
     sim_bounds sim = b \<and> reg_inv r \<and> reg_region r = b \<and>
     (\<forall>i. jm_get (virtualDrivers sim) i \<noteq> None \<longleftrightarrow> i \<in> N) \<and> (\<forall>i. jm_get (drivers r) i \<noteq> None \<longleftrightarrow> i \<in> N) \<and>
     (\<forall>i d. jm_get (drivers r) i = Some d \<longrightarrow> searchable d))"

lemma seed_step_seeded:
  assumes "bounds_ok b" and "unit_randoms rnds" and "seeded b N st"
  shows "seeded b (insert (sim_driver_id k) N) (seed_step now rnds st k)"
proof -
  obtain sim r where st: "st = (sim, r)" by fastforce
  obtain a1 a2 a3 a4 where rnd: "rnds k = (a1, a2, a3, a4)" by (metis prod_cases4)
  have S: "sim_bounds sim = b" "reg_inv r" "reg_region r = b" "\<And>i. jm_get (virtualDrivers sim) i \<noteq> None \<longleftrightarrow> i \<in> N"
    "\<And>i. jm_get (drivers r) i \<noteq> None \<longleftrightarrow> i \<in> N" "\<And>i d. jm_get (drivers r) i = Some d \<Longrightarrow> searchable d"
    using assms(3) by (auto simp: seeded_def st)
  define d where "d = seed_driver b k (rnds k)"
  define r' where "r' = snd (registerDriver r now (v_id d) (Fin (v_lat d)) (Fin (v_lng d)) Available)"
  have "0 \<le> a1" "a1 \<le> 1" "0 \<le> a2" "a2 \<le> 1" using spec [OF assms(2) [unfolded unit_randoms_def], of k] by (simp_all add: rnd)
  then have inr: "isWithinBounds r (Fin (v_lat d)) (Fin (v_lng d))"
    using seed_in_region [of b a1 a2] assms(1) S(3) by (simp add: d_def seed_driver_def rnd bounds_ok_def)
  have vid: "v_id d = sim_driver_id k" by (simp add: d_def seed_driver_def rnd)
  have step: "registry_step r r'" unfolding r'_def by (rule registerDriver_step [OF S(2)])
  have others: "jm_get (drivers r') i = jm_get (drivers r) i" if "i \<noteq> v_id d" for i
    using that by (simp add: r'_def)
  have own: "\<exists>e. jm_get (drivers r') (v_id d) = Some e \<and> searchable e"
  proof (cases "jm_get (drivers r) (v_id d)")
    case None
    then show ?thesis using inr by (simp add: r'_def registerDriver_def Let_def searchable_def del: isWithinBounds_iff)
  next
    case (Some e)
    then show ?thesis using S(6) [OF Some] by (simp add: r'_def registerDriver_def Let_def searchable_def)
  qed
  have "seed_step now rnds st k = (put_virtual sim d, r')"
    by (simp add: seed_step_def st S(1) d_def r'_def Let_def)
  moreover have "searchable e" if "jm_get (drivers r') i = Some e" for i e
    using own others [of i] S(6) [of i e] that by (cases "i = v_id d") auto
  moreover have "jm_get (drivers r') i \<noteq> None \<longleftrightarrow> i \<in> insert (sim_driver_id k) N" for i
    using own others [of i] S(5) [of i] vid by (cases "i = v_id d") auto
  moreover have "jm_get (virtualDrivers (put_virtual sim d)) i \<noteq> None \<longleftrightarrow> i \<in> insert (sim_driver_id k) N" for i
    using S(4) [of i] vid by (auto simp: put_virtual_def)
  moreover have "sim_bounds (put_virtual sim d) = b" using S(1) by (simp add: put_virtual_def)
  ultimately show ?thesis using step S(3) by (simp add: seeded_def registry_step_def)
qed

lemma seed_steps_seeded:
  "bounds_ok b \<Longrightarrow> unit_randoms rnds \<Longrightarrow> seeded b N st \<Longrightarrow>
    seeded b (N \<union> sim_driver_id ` set ks) (foldl (seed_step now rnds) st ks)"
proof (induction ks arbitrary: N st)
  case (Cons k ks)
  show ?case using Cons.IH [OF Cons.prems(1,2) seed_step_seeded [OF Cons.prems]] by (simp add: Un_commute)
qed simp

text \<open>The number in a driver's name can be read back.\<close>

definition read_nat :: "string \<Rightarrow> nat" where
  "read_nat s = foldl (\<lambda>n c. 10 * n + (of_char c - 48)) 0 s"

lemma read_show_nat: "read_nat (show_nat n) = n"
proof (induction n rule: show_nat.induct)
  case (1 n)
  show ?case
  proof (cases "n < 10")
    case True
    then show ?thesis by (simp add: show_nat.simps [of n] read_nat_def)
  next
    case False
    then have "read_nat (show_nat n) = 10 * read_nat (show_nat (n div 10)) + (of_char (char_of (n mod 10 + 48) :: char) - 48)"
      by (simp add: show_nat.simps [of n] read_nat_def)
    also have "\<dots> = 10 * (n div 10) + n mod 10" using 1 [OF False] by simp
    finally show ?thesis by simp
  qed
qed

lemma sim_driver_id_inj: "inj sim_driver_id"
proof (rule injI)
  fix a b assume "sim_driver_id a = sim_driver_id b"
  then have "show_nat a = show_nat b" by (simp add: sim_driver_id_def)
  then show "a = b" by (metis read_show_nat)
qed

text \<open>The virtual drivers stand where the registry has them.\<close>

definition placed :: "Simulator \<times> DriverRegistry \<Rightarrow> bool" where
  "placed st = (case st of (sim, r) \<Rightarrow>
     jm_ok (virtualDrivers sim) \<and>
     (\<forall>i v. jm_get (virtualDrivers sim) i = Some v \<longrightarrow>
        v_id v = i \<and> i \<in> range sim_driver_id \<and>
        (\<exists>e. jm_get (drivers r) i = Some e \<and> d_lat e = Fin (v_lat v) \<and> d_lng e = Fin (v_lng v))))"

lemma seed_step_placed:
  assumes "placed (sim, r)" and "jm_get (drivers r) (sim_driver_id k) = None" and "seed_step now rnds (sim, r) k = (sim', r')"
  shows "placed (sim', r') \<and> (\<forall>i. i \<noteq> sim_driver_id k \<longrightarrow> jm_get (drivers r') i = jm_get (drivers r) i)"
proof -
  define d where "d = seed_driver (sim_bounds sim) k (rnds k)"
  have vid: "v_id d = sim_driver_id k" by (simp add: d_def seed_driver_def split: prod.split)
  have eq: "sim' = put_virtual sim d" "r' = snd (registerDriver r now (v_id d) (Fin (v_lat d)) (Fin (v_lng d)) Available)"
    using assms(3) by (simp_all add: seed_step_def d_def Let_def)
  have "\<exists>e. jm_get (drivers r') (v_id d) = Some e \<and> d_lat e = Fin (v_lat d) \<and> d_lng e = Fin (v_lng d)"
    using assms(2) by (simp add: eq vid registerDriver_def Let_def)
  moreover have others: "jm_get (drivers r') i = jm_get (drivers r) i" if "i \<noteq> v_id d" for i using that by (simp add: eq)
  ultimately show ?thesis using assms(1) vid unfolding placed_def eq(1) by (auto simp: put_virtual_def)
qed

lemma seed_steps_placed:
  assumes "placed (sim, r)" and "distinct ks" and "\<forall>k\<in>set ks. jm_get (drivers r) (sim_driver_id k) = None"
  shows "placed (foldl (seed_step now rnds) (sim, r) ks)"
  using assms
proof (induction ks arbitrary: sim r)
  case (Cons k ks)
  obtain sim1 r1 where s: "seed_step now rnds (sim, r) k = (sim1, r1)" by fastforce
  have k: "jm_get (drivers r) (sim_driver_id k) = None" using Cons.prems(3) by simp
  have "jm_get (drivers r1) (sim_driver_id k') = None" if "k' \<in> set ks" for k'
  proof -
    have "sim_driver_id k' \<noteq> sim_driver_id k" using that Cons.prems(2) inj_eq [OF sim_driver_id_inj] by auto
    then show ?thesis using seed_step_placed [OF Cons.prems(1) k s] Cons.prems(3) that by simp
  qed
  moreover have "placed (sim1, r1)" using seed_step_placed [OF Cons.prems(1) k s] by blast
  ultimately show ?case using Cons.IH Cons.prems(2) s by simp
qed simp

lemma jm_length: "jm_ok m \<Longrightarrow> length m = card {i. jm_get m i \<noteq> None}"
proof -
  assume "jm_ok m"
  then have "length m = card (set (map fst m))" by (metis distinct_card length_map)
  also have "set (map fst m) = {i. jm_get m i \<noteq> None}" by (simp add: map_of_eq_None_iff)
  finally show ?thesis .
qed

lemma seeded_counts:
  assumes "bounds_ok b" and "seeded b (sim_driver_id ` {1..n}) (sim, r)"
  shows "totalDrivers r = n \<and> qt_size (spatialIndex r) = n"
proof -
  have S: "reg_inv r" "reg_region r = b" "{i. jm_get (drivers r) i \<noteq> None} = sim_driver_id ` {1..n}"
    "\<And>i d. jm_get (drivers r) i = Some d \<Longrightarrow> searchable d"
    using assms(2) by (auto simp: seeded_def)
  have "jm_get (driverMap (spatialIndex r)) i \<noteq> None \<longleftrightarrow> jm_get (drivers r) i \<noteq> None" for i
  proof (cases "jm_get (drivers r) i")
    case None
    then show ?thesis using reg_invD(4) [OF S(1), of i] by (simp add: qt_pos_def)
  next
    case (Some d)
    have "in_region b (d_lat d) (d_lng d)"
      using reg_invD(3) [OF S(1) Some] S(2) S(4) [OF Some] by (simp add: record_ok_def searchable_def)
    then have "qt_pos (spatialIndex r) i \<noteq> None"
      using reg_invD(4) [OF S(1), of i] Some S(2) S(4) [OF Some] by (simp add: record_pos_def)
    then show ?thesis using Some by (simp add: qt_pos_def)
  qed
  then have "{i. jm_get (driverMap (spatialIndex r)) i \<noteq> None} = sim_driver_id ` {1..n}" using S(3) by simp
  moreover have "jm_ok (driverMap (spatialIndex r))" using reg_invD(2) [OF S(1)] by (simp add: qt_inv_def)
  moreover have "card (sim_driver_id ` {1..n}) = n" using card_image [OF inj_on_subset [OF sim_driver_id_inj subset_UNIV]] by simp
  ultimately show ?thesis using reg_invD(1) [OF S(1)] S(3) unfolding totalDrivers_def qt_size_def by (metis jm_length)
qed

lemma post_reset_seeded:
  assumes "unit_randoms rnds" and "post_reset v now rnds auth bounds city dc = ((200, body), v')"
  shows "\<exists>n name. driver_count dc = Some n \<and> body = RegionReset name (activeBounds v') n n \<and>
    (if js_truthy bounds then geo_bounds_of bounds else Some BLR_BOUNDS) = Some (activeBounds v') \<and>
    bounds_ok (activeBounds v') \<and> seeded (activeBounds v') (sim_driver_id ` {1..n}) (simulator v', server_registry v') \<and>
    placed (simulator v', server_registry v') \<and>
    totalDrivers (server_registry v') = n"
proof -
  obtain nb n where nb: "(if js_truthy bounds then geo_bounds_of bounds else Some BLR_BOUNDS) = Some nb" and n: "driver_count dc = Some n"
    using assms(2) by (auto simp: post_reset_def reject_def simp del: geo_bounds_of_eq_None split: if_splits option.splits)
  have ok: "bounds_ok nb"
    using nb geo_bounds_of_Some [of bounds nb] by (auto simp: BLR_BOUNDS_def bounds_ok_def split: if_splits)
  define s1 where "s1 = reset_service (service (gateway v)) now ''Operating region was reset''"
  define v1 where "v1 = with_gateway 0 now v (with_service (gateway v) s1)"
  define name where "name = (if truthy city then the city else ''Custom Region'')"
  define r1 where "r1 = registry_reset (server_registry (v1\<lparr>activeCityName := name, activeBounds := nb\<rparr>)) (qt_new nb 8 7)"
  obtain sim1 r2 where sr: "resetRegion (simulator v1) r1 now rnds nb n = (sim1, r2)" by fastforce
  have v': "v' = broadcast (put_registry (v1\<lparr>activeCityName := name, activeBounds := nb, simulator := sim1\<rparr>) r2) (RegionUpdated name nb n)"
    and body: "body = RegionReset name nb n (qt_size (spatialIndex r2))"
    using assms(2) nb n sr unfolding post_reset_def s1_def [symmetric] v1_def [symmetric] name_def [symmetric] Let_def
    by (auto simp: reject_def r1_def simp del: geo_bounds_of_eq_None split: if_splits)
  have "qt_pos (qt_new nb 8 7) = (\<lambda>_. None)" by (simp add: qt_pos_def qt_new_def fun_eq_iff)
  then have "reg_inv r1" unfolding r1_def by (rule registry_reset_inv [OF qt_inv_new [OF ok]])
  moreover have "reg_region r1 = nb" "drivers r1 = []" by (simp_all add: r1_def registry_reset_def qt_region_def qt_new_def)
  ultimately have "seeded nb {} (sim_stop (simulator v1)\<lparr>sim_bounds := nb, virtualDrivers := [], boardings := B, isRunning := True\<rparr>, r1)" for B
    by (simp add: seeded_def)
  note start = seed_steps_seeded [OF ok assms(1) this, of "[1..<Suc n]" now]
  have "seeded nb ({} \<union> sim_driver_id ` set [1..<Suc n]) (sim1, r2)"
    using start [of "map (detach (simulator v1)) (boardings (simulator v1))"] sr
    by (simp add: resetRegion_def sim_start_def sim_stop_def del: upt_Suc)
  moreover have pl: "placed (sim1, r2)"
    using seed_steps_placed [of "sim_stop (simulator v1)\<lparr>sim_bounds := nb, virtualDrivers := [],
        boardings := map (detach (simulator v1)) (boardings (simulator v1)), isRunning := True\<rparr>" r1 "[1..<Suc n]" now rnds] sr \<open>drivers r1 = []\<close>
    by (simp add: resetRegion_def sim_start_def sim_stop_def placed_def del: upt_Suc)
  moreover have "{} \<union> sim_driver_id ` set [1..<Suc n] = sim_driver_id ` {1..n}" by (simp only: set_upt atLeastLessThanSuc_atLeastAtMost Un_empty_left)
  ultimately have S: "seeded nb (sim_driver_id ` {1..n}) (sim1, r2)" by simp
  have eq: "server_registry v' = r2" "simulator v' = sim1" "activeBounds v' = nb"
    by (simp_all add: v' server_registry_def broadcast_def put_registry_def)
  show ?thesis
    using nb n ok body seeded_counts [OF ok S] S pl unfolding eq
    by (intro exI [of _ n] exI [of _ name]) simp
qed

text \<open>
  C28. A reset of the region takes the bounds of the request, if they are valid, or the default ones,
  and leaves a registry over exactly them that holds exactly the asked number of simulated drivers,
  all of them available, unreserved and found by searches, and as many as the reply says; no driver
  of the old region remains, in the registry or in the simulator.
\<close>

theorem region_reset_reseeds:
  assumes "unit_randoms rnds" and "post_reset v now rnds auth bounds city dc = ((200, body), v')"
  shows "\<exists>n name. driver_count dc = Some n \<and> body = RegionReset name (activeBounds v') n n \<and>
    (if js_truthy bounds then geo_bounds_of bounds else Some BLR_BOUNDS) = Some (activeBounds v') \<and>
    bounds_ok (activeBounds v') \<and> reg_region (server_registry v') = activeBounds v' \<and> reg_inv (server_registry v') \<and>
    totalDrivers (server_registry v') = n \<and>
    (\<forall>i. getDriver (server_registry v') i \<noteq> None \<longleftrightarrow> (\<exists>k. 1 \<le> k \<and> k \<le> n \<and> i = sim_driver_id k)) \<and>
    (\<forall>i d. getDriver (server_registry v') i = Some d \<longrightarrow> searchable d) \<and>
    (\<forall>i. jm_get (virtualDrivers (simulator v')) i \<noteq> None \<longleftrightarrow> getDriver (server_registry v') i \<noteq> None)"
proof -
  obtain n name where n: "driver_count dc = Some n" "body = RegionReset name (activeBounds v') n n" "totalDrivers (server_registry v') = n"
      "(if js_truthy bounds then geo_bounds_of bounds else Some BLR_BOUNDS) = Some (activeBounds v')" "bounds_ok (activeBounds v')"
    and S: "seeded (activeBounds v') (sim_driver_id ` {1..n}) (simulator v', server_registry v')"
    using post_reset_seeded [OF assms] by blast
  show ?thesis using n S by (intro exI [of _ n] exI [of _ name]) (auto simp: seeded_def getDriver_def)
qed

theorem region_reset_reseeds_witness:
  "\<exists>body v'. post_reset demo_server 0 (\<lambda>_. (1/2, 1/2, 0, 0)) (Some ''Bearer secret'') JUndefined None (JNum (Fin 2)) = ((200, body), v') \<and>
    totalDrivers (server_registry v') = 2 \<and> getDriver (server_registry v') ''sim_driver_2'' \<noteq> None"
proof -
  let ?p = "post_reset demo_server 0 (\<lambda>_. (1/2, 1/2, 0, 0)) (Some ''Bearer secret'') JUndefined None (JNum (Fin 2))"
  have rnd: "unit_randoms (\<lambda>_. (1/2, 1/2, 0, 0))" by (simp add: unit_randoms_def)
  have acc: "hasControlAccess (config demo_server) (Some ''Bearer secret'')" by (simp add: hasControlAccess_def demo_server_def)
  have cnt: "driver_count (JNum (Fin 2)) = Some 2" by (simp add: driver_count_def)
  have "fst (fst ?p) = 200" by (simp add: post_reset_def acc cnt Let_def split: prod.split)
  then obtain body v' where p: "?p = ((200, body), v')" by (metis prod.collapse)
  have two: "sim_driver_id 2 = ''sim_driver_2''" by (simp add: sim_driver_id_def show_nat.simps) code_simp
  from region_reset_reseeds [OF rnd p] cnt two have "totalDrivers (server_registry v') = 2"
    "\<forall>i. getDriver (server_registry v') i \<noteq> None \<longleftrightarrow> (\<exists>k. 1 \<le> k \<and> k \<le> 2 \<and> i = sim_driver_id k)" by auto
  then show ?thesis using p two by (metis one_le_numeral order_refl)
qed

end
