(* ===== verification/RegistryRedis.thy ===== *)
theory RegistryRedis
  imports RedisLock RegistryInv
begin

text \<open>
  The driver registry of \<open>src/core/driver_registry.ts\<close> when it shares a lock service
  (\<open>redisLock\<close>): the methods wait for each Redis command, so each is cut into what it does
  before the first command, the commands with what the other clients do to the server in between
  (\<open>env n\<close> runs before the \<open>n\<close>-th command), and what it does to the registry at the end.
  The driver object is looked up once, at the beginning: at the end it may have been dropped by a
  reset of the registry, and is then given as \<open>detached\<close>.  A reservation whose time to live is
  no positive whole number of milliseconds is an error of the script, which rejects the promise of
  \<open>acquireLock\<close>: its outcome is \<open>None\<close>.
\<close>

section \<open>acquireLock\<close>

definition acquire_begin :: "DriverRegistry \<Rightarrow> string \<Rightarrow> bool" where
  "acquire_begin r driverId =
    (case jm_get (drivers r) driverId of None \<Rightarrow> False | Some driver \<Rightarrow> d_status driver = Available)"

text \<open>The script gets to the \<open>SET\<close>, and that is an error.\<close>

definition acquire_rejects :: "'s redis_api \<Rightarrow> 's \<Rightarrow> ms \<Rightarrow> string \<Rightarrow> ms \<Rightarrow> bool" where
  "acquire_rejects R s now driverId ttlMs =
    (rd_hget R s now (stateKey driverId) ''status'' \<noteq> Some ''busy'' \<and> \<not> whole_ms ttlMs)"

definition eval_acquire :: "'s redis_api \<Rightarrow> 's \<Rightarrow> ms \<Rightarrow> string \<Rightarrow> string \<Rightarrow> ms \<Rightarrow> bool option \<times> 's" where
  "eval_acquire R s now driverId requestId ttlMs =
    (if acquire_rejects R s now driverId ttlMs then (None, s)
     else (let (ok, s1) = rl_acquireLock R s now driverId requestId ttlMs in (Some ok, s1)))"

definition redis_acquire ::
    "'s redis_api \<Rightarrow> (nat \<Rightarrow> 's \<Rightarrow> 's) \<Rightarrow> (nat \<Rightarrow> ms) \<Rightarrow> 's \<Rightarrow> string \<Rightarrow> string \<Rightarrow> ms \<Rightarrow> bool option \<times> 's" where
  "redis_acquire R env time s driverId requestId ttlMs =
    (let (acquired, s1) = eval_acquire R (env 0 s) (time 0) driverId requestId ttlMs
     in if acquired \<noteq> Some False then (acquired, s1)
        else
          (let s2 = env 1 s1
           in if getLockHolder R s2 (time 1) driverId \<noteq> None then (Some False, s2)
              else eval_acquire R (env 3 (snd (releaseCommittedDriver R (env 2 s2) (time 2) driverId ''available'')))
                     (time 3) driverId requestId ttlMs))"

definition acquire_finish ::
    "DriverRegistry \<Rightarrow> ms \<Rightarrow> string \<Rightarrow> string \<Rightarrow> ms \<Rightarrow> DriverRecord option \<Rightarrow> DriverRegistry" where
  "acquire_finish r now driverId requestId ttlMs detached =
    (case (detached, jm_get (drivers r) driverId) of
       (None, Some driver) \<Rightarrow>
         idxRemove (put_driver r driverId (driver\<lparr>d_lockToken := Some \<lparr>lt_requestId = requestId, lt_expiresAt = now + ttlMs\<rparr>\<rparr>)) driverId
     | _ \<Rightarrow> idxRemove r driverId)"

section \<open>releaseLock\<close>

definition release_begin :: "DriverRegistry \<Rightarrow> string \<Rightarrow> string \<Rightarrow> bool" where
  "release_begin r driverId requestId =
    (case jm_get (drivers r) driverId of
       None \<Rightarrow> False
     | Some driver \<Rightarrow> (case d_lockToken driver of Some tok \<Rightarrow> lt_requestId tok = requestId | None \<Rightarrow> True))"

definition redis_release ::
    "'s redis_api \<Rightarrow> (nat \<Rightarrow> 's \<Rightarrow> 's) \<Rightarrow> (nat \<Rightarrow> ms) \<Rightarrow> 's \<Rightarrow> string \<Rightarrow> string \<Rightarrow> bool \<times> 's" where
  "redis_release R env time s driverId requestId =
    (let (released, s1) = rl_releaseLock R (env 0 s) (time 0) driverId requestId
     in if released then (True, s1)
        else
          (let s2 = env 1 s1
           in (case getLockHolder R s2 (time 1) driverId of
                 Some holder \<Rightarrow> (holder = requestId, s2)
               | None \<Rightarrow> (True, s2))))"

definition release_finish :: "DriverRegistry \<Rightarrow> string \<Rightarrow> DriverRecord option \<Rightarrow> DriverRegistry" where
  "release_finish r driverId detached =
    (let r1 = (case (detached, jm_get (drivers r) driverId) of
                 (None, Some driver) \<Rightarrow> put_driver r driverId (driver\<lparr>d_lockToken := None\<rparr>)
               | _ \<Rightarrow> r)
     in (case (case detached of Some d \<Rightarrow> Some d | None \<Rightarrow> jm_get (drivers r) driverId) of
           Some driver \<Rightarrow>
             if d_status driver = Available then snd (idxInsert r1 driverId (d_lat driver) (d_lng driver)) else r1
         | None \<Rightarrow> r1))"

section \<open>commitTrip and completeTrip\<close>

definition redis_commit ::
    "'s redis_api \<Rightarrow> (nat \<Rightarrow> 's \<Rightarrow> 's) \<Rightarrow> (nat \<Rightarrow> ms) \<Rightarrow> 's \<Rightarrow> string \<Rightarrow> string \<Rightarrow> bool \<times> 's" where
  "redis_commit R env time s driverId requestId = rl_commitTrip R (env 0 s) (time 0) driverId requestId"

definition commit_finish :: "DriverRegistry \<Rightarrow> string \<Rightarrow> DriverRecord option \<Rightarrow> DriverRegistry" where
  "commit_finish r driverId detached =
    (case (detached, jm_get (drivers r) driverId) of
       (None, Some driver) \<Rightarrow> put_driver r driverId (driver\<lparr>d_lockToken := None, d_status := Busy\<rparr>)
     | _ \<Rightarrow> r)"

section \<open>acquireLock, while other things happen to the registry\<close>

text \<open>
  \<open>meanwhile\<close> is what happens to the registry until the lock service has answered; \<open>detached\<close> is
  the driver object, if it has been dropped by then.
\<close>

definition acquireLock_meanwhile ::
    "'s redis_api \<Rightarrow> (nat \<Rightarrow> 's \<Rightarrow> 's) \<Rightarrow> (nat \<Rightarrow> ms) \<Rightarrow> (DriverRegistry \<Rightarrow> DriverRegistry) \<Rightarrow> DriverRecord option \<Rightarrow>
     's \<Rightarrow> DriverRegistry \<Rightarrow> ms \<Rightarrow> string \<Rightarrow> string \<Rightarrow> ms \<Rightarrow> (bool option \<times> DriverRegistry) \<times> 's" where
  "acquireLock_meanwhile R env time meanwhile detached s r now driverId requestId ttlMs =
    (if \<not> acquire_begin r driverId then ((Some False, meanwhile r), s)
     else
       (let (ok, s1) = redis_acquire R env time s driverId requestId ttlMs; r1 = meanwhile r
        in ((ok, if ok = Some True then acquire_finish r1 now driverId requestId ttlMs detached else r1), s1)))"

section \<open>The methods, while nothing else happens to the registry\<close>

definition acquireLock_shared ::
    "'s redis_api \<Rightarrow> (nat \<Rightarrow> 's \<Rightarrow> 's) \<Rightarrow> (nat \<Rightarrow> ms) \<Rightarrow> 's \<Rightarrow> DriverRegistry \<Rightarrow> ms \<Rightarrow> string \<Rightarrow> string \<Rightarrow> ms \<Rightarrow>
     (bool option \<times> DriverRegistry) \<times> 's" where
  "acquireLock_shared R env time s r now driverId requestId ttlMs =
    (if \<not> acquire_begin r driverId then ((Some False, r), s)
     else
       (let (ok, s1) = redis_acquire R env time s driverId requestId ttlMs
        in ((ok, if ok = Some True then acquire_finish r now driverId requestId ttlMs None else r), s1)))"

definition releaseLock_shared ::
    "'s redis_api \<Rightarrow> (nat \<Rightarrow> 's \<Rightarrow> 's) \<Rightarrow> (nat \<Rightarrow> ms) \<Rightarrow> 's \<Rightarrow> DriverRegistry \<Rightarrow> string \<Rightarrow> string \<Rightarrow> (bool \<times> DriverRegistry) \<times> 's" where
  "releaseLock_shared R env time s r driverId requestId =
    (if \<not> release_begin r driverId requestId then ((False, r), s)
     else
       (let (ok, s1) = redis_release R env time s driverId requestId
        in if ok then ((True, release_finish r driverId None), s1) else ((False, r), s1)))"

definition commitTrip_shared ::
    "'s redis_api \<Rightarrow> (nat \<Rightarrow> 's \<Rightarrow> 's) \<Rightarrow> (nat \<Rightarrow> ms) \<Rightarrow> 's \<Rightarrow> DriverRegistry \<Rightarrow> string \<Rightarrow> string \<Rightarrow> (bool \<times> DriverRegistry) \<times> 's" where
  "commitTrip_shared R env time s r driverId requestId =
    (if getDriver r driverId = None then ((False, r), s)
     else
       (let (ok, s1) = redis_commit R env time s driverId requestId
        in if ok then ((True, commit_finish r driverId None), s1) else ((False, r), s1)))"

definition completeTrip_shared ::
    "'s redis_api \<Rightarrow> (nat \<Rightarrow> 's \<Rightarrow> 's) \<Rightarrow> (nat \<Rightarrow> ms) \<Rightarrow> 's \<Rightarrow> DriverRegistry \<Rightarrow> ms \<Rightarrow> string \<Rightarrow> (bool \<times> DriverRegistry) \<times> 's" where
  "completeTrip_shared R env time s r now driverId =
    (setStatus r now driverId Available, snd (releaseCommittedDriver R (env 0 s) (time 0) driverId ''available''))"

lemma acquireLock_alone: "acquireLock_meanwhile R env time (\<lambda>r. r) None = acquireLock_shared R env time"
  by (simp add: fun_eq_iff acquireLock_meanwhile_def acquireLock_shared_def Let_def split: prod.split)

lemma eval_acquire_whole: "whole_ms ttl \<Longrightarrow> eval_acquire R s t i req ttl = map_prod Some (\<lambda>s. s) (rl_acquireLock R s t i req ttl)"
  by (simp add: eval_acquire_def acquire_rejects_def map_prod_def split: prod.split)

lemma eval_acquire_Some: "eval_acquire R s t i req ttl = (Some ok, s') \<Longrightarrow> rl_acquireLock R s t i req ttl = (ok, s')"
  by (auto simp: eval_acquire_def split: if_splits prod.splits)

text \<open>What the lock service answers about a driver whom nobody holds, and who is not busy.\<close>

context redis_server
begin

lemma redis_acquire_free:
  assumes "rd_hget R s (time 0) (stateKey i) ''status'' \<noteq> Some ''busy''" and "rd_get R s (time 0) (lockKey i) = None"
  shows "\<not> whole_ms ttl \<Longrightarrow> redis_acquire R (\<lambda>_ x. x) time s i req ttl = (None, s)"
    and "whole_ms ttl \<Longrightarrow> \<exists>s1. redis_acquire R (\<lambda>_ x. x) time s i req ttl = (Some True, s1) \<and>
      (\<forall>u. time 0 \<le> u \<and> u < time 0 + ttl \<longrightarrow> rd_get R s1 u (lockKey i) = Some (Raw req))"
proof -
  show "redis_acquire R (\<lambda>_ x. x) time s i req ttl = (None, s)" if "\<not> whole_ms ttl"
    using assms that by (simp add: redis_acquire_def eval_acquire_def acquire_rejects_def)
  show "\<exists>s1. redis_acquire R (\<lambda>_ x. x) time s i req ttl = (Some True, s1) \<and>
      (\<forall>u. time 0 \<le> u \<and> u < time 0 + ttl \<longrightarrow> rd_get R s1 u (lockKey i) = Some (Raw req))" if w: "whole_ms ttl"
  proof -
    obtain s1 where a: "rl_acquireLock R s (time 0) i req ttl = (True, s1)"
      using assms w acquire_fst [of s "time 0" i req ttl] by (metis prod.collapse)
    then have "rd_get R s1 u (lockKey i) = Some (Raw req)" if "time 0 \<le> u" "u < time 0 + ttl" for u
      by (cases rule: acquire_cases) (use that in simp_all)
    then show ?thesis using a w by (simp add: redis_acquire_def eval_acquire_whole)
  qed
qed

end

section \<open>Against the registry without a lock service\<close>

lemma acquire_finish_local:
  "getDriver r i = Some d \<Longrightarrow> d_status d = Available \<Longrightarrow> d_lockToken d = None \<Longrightarrow>
    acquireLock r now i req ttl = (True, acquire_finish r now i req ttl None)"
  by (simp add: acquireLock_def cleanExpiredLockIfAny_def acquire_finish_def getDriver_def)

lemma release_finish_local:
  "release_begin r i req \<Longrightarrow> releaseLock r i req = (True, release_finish r i None)"
  by (auto simp: release_begin_def releaseLock_def release_finish_def Let_def split: option.splits)

lemma commit_finish_local:
  "getDriver r i = Some d \<Longrightarrow> d_lockToken d = Some tok \<Longrightarrow> lt_requestId tok = req \<Longrightarrow> now < lt_expiresAt tok \<Longrightarrow>
    commitTrip r now i req = (True, commit_finish r i None)"
  by (simp add: commitTrip_def commit_finish_def getDriver_def)

end
