(* ===== verification/RegistryRedisProperties.thy ===== *)
theory RegistryRedisProperties
  imports RegistryRedis RegistryProperties
begin

text \<open>
  The registry with a shared lock service: where it agrees with the registry without one, and where
  its repair of stale state takes a driver away from another process.
\<close>

section \<open>Agreement\<close>

context redis_server
begin

lemma redis_acquire_granted:
  assumes "redis_acquire R env time s i req ttl = (Some True, s')"
  obtains s0 t where "t \<in> {time 0, time 3}" "rl_acquireLock R s0 t i req ttl = (True, s')"
  using assms by (auto simp: redis_acquire_def Let_def dest: eval_acquire_Some split: prod.splits if_splits)

lemma granted_holds:
  assumes "rl_acquireLock R s0 t i req ttl = (True, s')" and "t \<le> u" and "u < t + ttl"
  shows "lock_holder R s' u i = Some req"
  using assms(1) by (cases rule: acquire_cases) (use assms(2,3) in \<open>simp_all add: lock_holder_def\<close>)

lemma heal_takes:
  assumes "rd_hget R s (time 0) (stateKey i) ''status'' = Some ''busy''" and "whole_ms ttl"
    and "\<forall>t. rd_get R s t (lockKey i) = None" and "time 0 \<le> time 1" "time 1 \<le> time 2" "time 2 \<le> time 3"
  shows "\<exists>s'. redis_acquire R (\<lambda>_ x. x) time s i req ttl = (Some True, s') \<and>
    (\<forall>u. time 3 \<le> u \<and> u < time 3 + ttl \<longrightarrow> lock_holder R s' u i = Some req)"
proof -
  let ?s2 = "snd (releaseCommittedDriver R s (time 2) i ''available'')"
  have 1: "rl_acquireLock R s (time 0) i req ttl = (False, s)" using assms(1) by (simp add: rl_acquireLock_def acquire_lock_lua_def)
  have 2: "getLockHolder R s (time 1) i = None" using assms(3) by (simp add: getLockHolder_def)
  have "rd_hget R ?s2 (time 3) (stateKey i) ''status'' = Some ''available''" "rd_get R ?s2 (time 3) (lockKey i) = None"
    using assms(3,6) by (simp_all add: releaseCommittedDriver_def hget_hset get_others)
  then have 3: "fst (rl_acquireLock R ?s2 (time 3) i req ttl)" using assms(2) by (simp add: acquire_fst)
  then obtain s' where s': "rl_acquireLock R ?s2 (time 3) i req ttl = (True, s')" by (metis prod.collapse)
  show ?thesis
    using 1 2 s' granted_holds [OF s'] assms(2) by (intro exI [of _ s']) (simp add: redis_acquire_def eval_acquire_whole)
qed

end

text \<open>
  What the registry holds of a driver and what the server holds of it are in step: the lock key holds
  the request of the reservation until the reservation ends, and nothing otherwise.
\<close>

definition in_step :: "'s redis_api \<Rightarrow> 's \<Rightarrow> DriverRegistry \<Rightarrow> ms \<Rightarrow> bool" where
  "in_step R s r now =
    (\<forall>i d. getDriver r i = Some d \<longrightarrow> (\<forall>u\<ge>now. rd_get R s u (lockKey i) =
       (case d_lockToken d of
          Some tok \<Rightarrow> if u < lt_expiresAt tok then Some (Raw (lt_requestId tok)) else None
        | None \<Rightarrow> None)))"

text \<open>The same records, and every driver at the same place of the index.\<close>

definition same_registry :: "DriverRegistry \<Rightarrow> DriverRegistry \<Rightarrow> bool" where
  "same_registry r r' = (getDriver r = getDriver r' \<and> qt_pos (spatialIndex r) = qt_pos (spatialIndex r') \<and>
     reg_region r = reg_region r')"

lemma same_registryI:
  assumes "reg_inv r" and "reg_inv r'" and "reg_region r = reg_region r'" and "\<And>i. jm_get (drivers r) i = jm_get (drivers r') i"
  shows "same_registry r r'"
  using reg_invD(4) [OF assms(1)] reg_invD(4) [OF assms(2)] assms(3,4) by (simp add: same_registry_def getDriver_def fun_eq_iff)

lemma in_stepD:
  "in_step R s r now \<Longrightarrow> getDriver r i = Some d \<Longrightarrow> now \<le> u \<Longrightarrow> rd_get R s u (lockKey i) =
     (case d_lockToken d of Some tok \<Rightarrow> if u < lt_expiresAt tok then Some (Raw (lt_requestId tok)) else None | None \<Rightarrow> None)"
  unfolding in_step_def by blast

lemma in_step_later: "in_step R s r now \<Longrightarrow> now \<le> t \<Longrightarrow> in_step R s r t"
  unfolding in_step_def by fastforce

lemma in_step_update:
  assumes "in_step R s r now"
    and "\<And>j u. j \<noteq> i \<Longrightarrow> now \<le> u \<Longrightarrow> rd_get R s' u (lockKey j) = rd_get R s u (lockKey j)"
    and "\<And>j. j \<noteq> i \<Longrightarrow> getDriver r' j = getDriver r j"
    and "\<And>d u. getDriver r' i = Some d \<Longrightarrow> now \<le> u \<Longrightarrow> rd_get R s' u (lockKey i) =
       (case d_lockToken d of Some tok \<Rightarrow> if u < lt_expiresAt tok then Some (Raw (lt_requestId tok)) else None | None \<Rightarrow> None)"
  shows "in_step R s' r' now"
  unfolding in_step_def
proof (intro allI impI)
  fix j d u assume "getDriver r' j = Some d" and "now \<le> u"
  then show "rd_get R s' u (lockKey j) =
      (case d_lockToken d of Some tok \<Rightarrow> if u < lt_expiresAt tok then Some (Raw (lt_requestId tok)) else None | None \<Rightarrow> None)"
    using assms in_stepD [OF assms(1), of j d u] by (cases "j = i") auto
qed

context redis_server
begin

lemma acquire_alone_free:
  assumes "rd_get R s now (lockKey i) = None" and "whole_ms ttl"
  obtains s' where "redis_acquire R (\<lambda>_ x. x) (\<lambda>_. now) s i req ttl = (Some True, s')"
    "\<And>j u. now \<le> u \<Longrightarrow> rd_get R s' u (lockKey j) =
      (if j = i then if u < now + ttl then Some (Raw req) else None else rd_get R s u (lockKey j))"
proof -
  let ?s2 = "snd (releaseCommittedDriver R s now i ''available'')"
  have g2: "rd_get R ?s2 u (lockKey j) = rd_get R s u (lockKey j)" if "now \<le> u" for u j
    using that by (simp add: releaseCommittedDriver_def get_others)
  have h2: "rd_hget R ?s2 now (stateKey i) ''status'' = Some ''available''"
    by (simp add: releaseCommittedDriver_def hget_hset)
  note granted = that
  have fin: thesis
    if "rl_acquireLock R s0 now i req ttl = (True, s')" "redis_acquire R (\<lambda>_ x. x) (\<lambda>_. now) s i req ttl = (Some True, s')"
      "\<And>j u. now \<le> u \<Longrightarrow> rd_get R s0 u (lockKey j) = rd_get R s u (lockKey j)" for s0 s'
    using that(1) by (cases rule: acquire_cases) (use granted [OF that(2)] that(3) in auto)
  obtain ok s1 where f: "rl_acquireLock R s now i req ttl = (ok, s1)" by fastforce
  show thesis
  proof (cases ok)
    case True
    then show thesis using f assms(2) by (intro fin [of s s1]) (simp_all add: redis_acquire_def eval_acquire_whole)
  next
    case False
    from f have s1: "s1 = s" by (cases rule: acquire_cases) (use False in auto)
    have "fst (rl_acquireLock R ?s2 now i req ttl)" using g2 h2 assms by (simp add: acquire_fst)
    then obtain s' where s': "rl_acquireLock R ?s2 now i req ttl = (True, s')" by (metis prod.collapse)
    then show thesis
      using f s1 False assms g2 by (intro fin [of ?s2 s']) (simp_all add: redis_acquire_def eval_acquire_whole getLockHolder_def)
  qed
qed

lemma acquire_alone_taken:
  assumes "rd_get R s now (lockKey i) \<noteq> None" and "whole_ms ttl"
  obtains s' where "redis_acquire R (\<lambda>_ x. x) (\<lambda>_. now) s i req ttl = (Some False, s')"
    "\<And>j u. now \<le> u \<Longrightarrow> rd_get R s' u (lockKey j) = rd_get R s u (lockKey j)"
proof -
  let ?s2 = "snd (releaseCommittedDriver R s now i ''available'')"
  have g2: "rd_get R ?s2 u (lockKey j) = rd_get R s u (lockKey j)" if "now \<le> u" for u j
    using that by (simp add: releaseCommittedDriver_def get_others)
  have refused: "rl_acquireLock R s0 now i req ttl = (False, s0)" if "rd_get R s0 now (lockKey i) \<noteq> None" for s0
  proof (cases "rl_acquireLock R s0 now i req ttl")
    case (Pair ok s')
    from Pair show ?thesis by (cases rule: acquire_cases) (use that Pair in auto)
  qed
  have "redis_acquire R (\<lambda>_ x. x) (\<lambda>_. now) s i req ttl = (Some False, if getLockHolder R s now i \<noteq> None then s else ?s2)"
    using refused [OF assms(1)] refused [of ?s2] g2 [of now i] assms
    by (simp add: redis_acquire_def eval_acquire_whole)
  then show thesis using g2 by (intro that [of "if getLockHolder R s now i \<noteq> None then s else ?s2"]) simp_all
qed

lemma acquire_agrees:
  assumes inv: "reg_inv r" and step: "in_step R s r now" and w: "whole_ms ttl"
    and sh: "acquireLock_shared R (\<lambda>_ x. x) (\<lambda>_. now) s r now i req ttl = ((ok, r1), s1)"
    and loc: "acquireLock r now i req ttl = (ok', r1')"
  shows "ok = Some ok' \<and> same_registry r1 r1' \<and> reg_inv r1 \<and> in_step R s1 r1 now"
proof (cases "acquire_begin r i")
  case False
  then have "ok' = False" "r1' = r" using loc by (auto simp: acquire_begin_def acquireLock_def split: option.splits)
  then show ?thesis using False sh inv step by (simp add: acquireLock_shared_def same_registry_def)
next
  case True
  then obtain d where d: "jm_get (drivers r) i = Some d" "d_status d = Available"
    by (auto simp: acquire_begin_def split: option.splits)
  have held: "rd_get R s now (lockKey i) = None \<longleftrightarrow> d_lockToken d = None \<or> lock_expired d now"
    using in_stepD [OF step, of i d now] d by (auto simp: getDriver_def lock_expired_def split: option.splits)
  show ?thesis
  proof (cases "rd_get R s now (lockKey i) = None")
    case free: True
    let ?d = "d\<lparr>d_lockToken := Some \<lparr>lt_requestId = req, lt_expiresAt = now + ttl\<rparr>\<rparr>"
    obtain s' where s': "redis_acquire R (\<lambda>_ x. x) (\<lambda>_. now) s i req ttl = (Some True, s')"
      "\<And>j u. now \<le> u \<Longrightarrow> rd_get R s' u (lockKey j) =
        (if j = i then if u < now + ttl then Some (Raw req) else None else rd_get R s u (lockKey j))"
      using acquire_alone_free [OF free w] by blast
    have r1: "ok = Some True" "s1 = s'" "r1 = idxRemove (put_driver r i ?d) i"
      using sh True s'(1) d by (simp_all add: acquireLock_shared_def acquire_finish_def)
    have "record_ok (reg_region r) i ?d" "\<not> searchable ?d"
      using reg_invD(3) [OF inv d(1)] d(2) by (simp_all add: record_ok_def searchable_def)
    from remove_step [OF inv this] have st: "reg_inv r1" "reg_region r1 = reg_region r" by (simp_all add: r1 registry_step_def)
    have g1: "jm_get (drivers r1) j = (if j = i then Some ?d else jm_get (drivers r) j)" for j by (simp add: r1)
    have "in_step R s1 r1 now"
      by (rule in_step_update [OF step, of i]) (auto simp: r1(2) s'(2) getDriver_def g1)
    moreover from inv loc have "ok' \<and> same_registry r1 r1'"
    proof (cases rule: acquireLock_cases)
      case (reserve d0)
      then show ?thesis using d(1) g1 st by (auto intro!: same_registryI simp: registry_step_def)
    qed (use d held free in auto)
    ultimately show ?thesis using st r1 by blast
  next
    case taken: False
    obtain s' where s': "redis_acquire R (\<lambda>_ x. x) (\<lambda>_. now) s i req ttl = (Some False, s')"
      "\<And>j u. now \<le> u \<Longrightarrow> rd_get R s' u (lockKey j) = rd_get R s u (lockKey j)"
      using acquire_alone_taken [OF taken w] by blast
    have r1: "ok = Some False" "s1 = s'" "r1 = r" using sh True s'(1) by (simp_all add: acquireLock_shared_def)
    have "in_step R s1 r1 now" using in_stepD [OF step] s'(2) unfolding r1 in_step_def by simp
    moreover from inv loc have "\<not> ok' \<and> r1' = r"
      by (cases rule: acquireLock_cases) (use d held taken in auto)
    ultimately show ?thesis using r1 inv by (simp add: same_registry_def)
  qed
qed

end

context redis_server
begin

lemma release_agrees:
  assumes inv: "reg_inv r" and step: "in_step R s r now"
    and sh: "releaseLock_shared R (\<lambda>_ x. x) (\<lambda>_. now) s r i req = ((ok, r1), s1)"
  shows "releaseLock r i req = (ok, r1) \<and> in_step R s1 r1 now"
proof (cases "release_begin r i req")
  case False
  then show ?thesis
    using sh step by (auto simp: releaseLock_shared_def release_begin_def releaseLock_def split: option.splits)
next
  case True
  then obtain d where d: "jm_get (drivers r) i = Some d" "\<not> held_by_other d req"
    by (auto simp: release_begin_def held_by_other_def split: option.splits)
  have lock: "rd_get R s now (lockKey i) \<in> {None, Some (Raw req)}"
    using in_stepD [OF step, of i d now] d by (auto simp: getDriver_def held_by_other_def split: option.splits)
  let ?s1 = "snd (rl_releaseLock R s now i req)"
  have get1: "rd_get R ?s1 u (lockKey j) = (if j = i then None else rd_get R s u (lockKey j))" if "now \<le> u" for u j
  proof (cases "rd_get R s now (lockKey i)")
    case None
    have "rd_get R s u (lockKey i) = None"
      using in_stepD [OF step, of i d u] in_stepD [OF step, of i d now] d None that
      by (auto simp: getDriver_def split: option.splits if_splits)
    then show ?thesis using release_get [OF that, of s i req] None by auto
  next
    case (Some v)
    then show ?thesis using release_get [OF that, of s i req] lock by auto
  qed
  have red: "redis_release R (\<lambda>_ x. x) (\<lambda>_. now) s i req = (True, ?s1)"
    using lock by (auto simp: redis_release_def rl_releaseLock_def release_lock_lua_def getLockHolder_def)
  then have r1: "ok" "s1 = ?s1" "r1 = release_finish r i None" using sh True by (simp_all add: releaseLock_shared_def)
  then have loc: "releaseLock r i req = (ok, r1)" using release_finish_local [OF True] by simp
  from inv loc have "in_step R s1 r1 now"
  proof (cases rule: releaseLock_cases)
    case (release d0)
    then show ?thesis by (intro in_step_update [OF step, of i]) (auto simp: r1(2) get1 getDriver_def)
  qed (use r1 in simp)
  then show ?thesis using loc by blast
qed

text \<open>A commit that comes too late is refused by both; only the local one gives the driver back at once.\<close>

lemma commit_agrees:
  assumes inv: "reg_inv r" and step: "in_step R s r now"
    and sh: "commitTrip_shared R (\<lambda>_ x. x) (\<lambda>_. now) s r i req = ((ok, r1), s1)"
    and loc: "commitTrip r now i req = (ok', r1')"
  shows "ok = ok' \<and> (r1 = r1' \<or> (\<not> ok \<and> r1 = r \<and> r1' = snd (releaseLock r i req))) \<and> in_step R s1 r1 now"
proof (cases "jm_get (drivers r) i")
  case None
  then show ?thesis using sh loc step by (simp add: commitTrip_shared_def commitTrip_def getDriver_def)
next
  case (Some d)
  have red: "redis_commit R (\<lambda>_ x. x) (\<lambda>_. now) s i req = rl_commitTrip R s now i req" by (simp add: redis_commit_def)
  have lock: "rd_get R s now (lockKey i) = Some (Raw req) \<longleftrightarrow>
      (\<exists>tok. d_lockToken d = Some tok \<and> lt_requestId tok = req \<and> now < lt_expiresAt tok)"
    using in_stepD [OF step, of i d now] Some by (auto simp: getDriver_def split: option.splits)
  show ?thesis
  proof (cases "rd_get R s now (lockKey i) = Some (Raw req)")
    case True
    then obtain tok where tok: "d_lockToken d = Some tok" "lt_requestId tok = req" "now < lt_expiresAt tok" using lock by blast
    have "fst (rl_commitTrip R s now i req)" using True by (simp add: commit_fst)
    then have r1: "ok" "s1 = snd (rl_commitTrip R s now i req)" "r1 = commit_finish r i None"
      using sh Some red by (auto simp: commitTrip_shared_def getDriver_def split: prod.splits if_splits)
    have "(ok', r1') = (True, commit_finish r i None)"
      using commit_finish_local [of r i d tok req now] tok Some loc by (simp add: getDriver_def)
    moreover have "in_step R s1 r1 now"
      by (rule in_step_update [OF step, of i]) (auto simp: r1(2,3) commit_get True getDriver_def commit_finish_def Some)
    ultimately show ?thesis using r1 by simp
  next
    case False
    have "\<not> fst (rl_commitTrip R s now i req)" "snd (rl_commitTrip R s now i req) = s"
      using False by (simp_all add: commit_fst) (simp add: rl_commitTrip_def commit_trip_lua_def)
    then have r1: "\<not> ok" "s1 = s" "r1 = r"
      using sh Some red by (auto simp: commitTrip_shared_def getDriver_def split: prod.splits if_splits)
    from inv loc show ?thesis by (cases rule: commitTrip_cases) (use r1 step lock False Some in auto)
  qed
qed

lemma insert_drivers: "idxInsert r i la lo = (ok, r') \<Longrightarrow> drivers r' = drivers r"
  by (metis index_ops_drivers(1) snd_conv)

lemma complete_agrees:
  assumes inv: "reg_inv r" and step: "in_step R s r now"
    and sh: "completeTrip_shared R (\<lambda>_ x. x) (\<lambda>_. now) s r now i = ((ok, r1), s1)"
  shows "completeTrip r now i = (ok, r1) \<and> in_step R s1 r1 now"
proof -
  have r1: "completeTrip r now i = (ok, r1)" "s1 = snd (releaseCommittedDriver R s now i ''available'')"
    using sh by (simp_all add: completeTrip_shared_def completeTrip_def)
  have get1: "rd_get R s1 u (lockKey j) = rd_get R s u (lockKey j)" if "now \<le> u" for u j
    using that by (simp add: r1(2) releaseCommittedDriver_def get_others)
  have tok: "d_lockToken d1 = d_lockToken d" if "jm_get (drivers r) i = Some d" "jm_get (drivers r1) i = Some d1" for d d1
    using r1(1) that
    by (auto simp: completeTrip_def setStatus_def Let_def dest!: insert_drivers split: if_splits option.splits prod.splits)
  have dom: "jm_get (drivers r) i = None \<Longrightarrow> r1 = r" using r1(1) by (simp add: completeTrip_def setStatus_def)
  have "in_step R s1 r1 now"
  proof (rule in_step_update [OF step, of i])
    fix d1 u assume d1: "getDriver r1 i = Some d1" and u: "now \<le> u"
    then obtain d where d: "jm_get (drivers r) i = Some d" using dom by (cases "jm_get (drivers r) i") (auto simp: getDriver_def)
    then show "rd_get R s1 u (lockKey i) =
        (case d_lockToken d1 of Some tok \<Rightarrow> if u < lt_expiresAt tok then Some (Raw (lt_requestId tok)) else None | None \<Rightarrow> None)"
      using in_stepD [OF step, of i d u] tok [of d d1] d1 get1 u by (simp add: getDriver_def)
  next
    fix j assume "j \<noteq> i"
    then show "getDriver r1 j = getDriver r j" using r1(1) completeTrip_others [of j i r now] by (simp add: getDriver_def)
  qed (simp add: get1)
  then show ?thesis using r1 by blast
qed

end





text \<open>
  Whatever other clients do to the server in between: a reservation the service grants leaves the
  registry as a local reservation of an available, unreserved driver does, and the service names this
  request as the holder until the time to live ends; releasing it and committing it, when the service
  agrees, have the effect of the local operations, so the registry keeps its invariant.
\<close>

theorem granted_calls_agree:
  assumes "redis_server R" and "reg_inv r" and "getDriver r i = Some d" and "d_lockToken d = None"
    and "acquireLock_shared R env time s r now i req ttl = ((Some True, r1), s1)"
  shows "acquireLock r now i req ttl = (True, r1) \<and> reg_inv r1 \<and>
    (\<exists>t\<in>{time 0, time 3}. \<forall>u. t \<le> u \<and> u < t + ttl \<longrightarrow> getLockHolder R s1 u i = (if req = [] then None else Some req)) \<and>
    (\<forall>env' time' s2 r2 s3. releaseLock_shared R env' time' s2 r1 i req = ((True, r2), s3) \<longrightarrow> releaseLock r1 i req = (True, r2) \<and> reg_inv r2) \<and>
    (\<forall>env' time' s2 r2 s3 now'. commitTrip_shared R env' time' s2 r1 i req = ((True, r2), s3) \<and> now' < now + ttl \<longrightarrow>
       commitTrip r1 now' i req = (True, r2) \<and> reg_inv r2)"
proof -
  have beg: "acquire_begin r i" and r1: "r1 = acquire_finish r now i req ttl None"
    and red: "redis_acquire R env time s i req ttl = (Some True, s1)"
    using assms(5) by (auto simp: acquireLock_shared_def Let_def split: if_splits prod.splits)
  have av: "d_status d = Available" using beg assms(3) by (simp add: acquire_begin_def getDriver_def)
  have loc: "acquireLock r now i req ttl = (True, r1)" unfolding r1 by (rule acquire_finish_local [OF assms(3) av assms(4)])
  have inv1: "reg_inv r1" using acquireLock_step [OF assms(2), of now i req ttl] loc by (simp add: registry_step_def)
  have d1: "getDriver r1 i = Some (d\<lparr>d_lockToken := Some \<lparr>lt_requestId = req, lt_expiresAt = now + ttl\<rparr>\<rparr>)"
    using assms(3) by (simp add: r1 acquire_finish_def getDriver_def)
  obtain s0 t where t: "t \<in> {time 0, time 3}" and g: "rl_acquireLock R s0 t i req ttl = (True, s1)"
    using redis_server.redis_acquire_granted [OF assms(1) red] by blast
  have hold: "getLockHolder R s1 u i = (if req = [] then None else Some req)" if "t \<le> u" "u < t + ttl" for u
    using redis_server.granted_holds [OF assms(1) g that] by (auto simp: getLockHolder_def lock_holder_def split: option.splits rval.splits)
  have rel: "releaseLock r1 i req = (True, r2) \<and> reg_inv r2"
    if "releaseLock_shared R env' time' s2 r1 i req = ((True, r2), s3)" for env' time' s2 r2 s3
  proof -
    have "release_begin r1 i req" "r2 = release_finish r1 i None"
      using that by (auto simp: releaseLock_shared_def Let_def split: if_splits prod.splits)
    then have "releaseLock r1 i req = (True, r2)" using release_finish_local by simp
    then show ?thesis using releaseLock_step [OF inv1, of i req] by (simp add: registry_step_def)
  qed
  have com: "commitTrip r1 now' i req = (True, r2) \<and> reg_inv r2"
    if "commitTrip_shared R env' time' s2 r1 i req = ((True, r2), s3)" "now' < now + ttl" for env' time' s2 r2 s3 now'
  proof -
    have "r2 = commit_finish r1 i None" using that(1) by (auto simp: commitTrip_shared_def Let_def split: if_splits prod.splits)
    then have "commitTrip r1 now' i req = (True, r2)" using commit_finish_local [OF d1] that(2) by simp
    then show ?thesis using commitTrip_step [OF inv1, of now' i req] by (simp add: registry_step_def)
  qed
  show ?thesis using loc inv1 t hold rel com by blast
qed

theorem granted_calls_agree_witness:
  "let ((ok, r1), s1) = acquireLock_shared mem_redis (\<lambda>_ x. x) real mem_empty demo_registry 0 ''d1'' ''r1'' 15000 in
     ok = Some True \<and> acquireLock demo_registry 0 ''d1'' ''r1'' 15000 = (True, r1) \<and> getLockHolder mem_redis s1 3 ''d1'' = Some ''r1''"
proof -
  have "fst (redis_acquire mem_redis (\<lambda>_ x. x) real mem_empty ''d1'' ''r1'' 15000) = Some True"
    by (simp add: redis_acquire_def eval_acquire_whole mem.acquire_fst) (simp add: mem_redis_def mem_empty_def mem_get_def rl_acquireLock_def acquire_lock_lua_def)
  moreover have "acquire_begin demo_registry ''d1''" by code_simp
  ultimately obtain r1 s1 where sh: "acquireLock_shared mem_redis (\<lambda>_ x. x) real mem_empty demo_registry 0 ''d1'' ''r1'' 15000 = ((Some True, r1), s1)"
    by (cases "redis_acquire mem_redis (\<lambda>_ x. x) real mem_empty ''d1'' ''r1'' 15000") (simp add: acquireLock_shared_def)
  have "map_option d_lockToken (getDriver demo_registry ''d1'') = Some None" by code_simp
  then obtain d where d: "getDriver demo_registry ''d1'' = Some d" "d_lockToken d = None" by auto
  have inv: "reg_inv demo_registry" using demo_registry_run registry_run_inv by blast
  from granted_calls_agree [OF mem.redis_server_axioms inv d sh] show ?thesis by (auto simp: sh)
qed

section \<open>The repair\<close>

text \<open>
  C40. The repair of stale state undoes the commit of another process: the lock service refuses a
  driver who is busy on another process's trip, nobody holds a lease on it, and so a process that
  believes the driver available declares it available for everybody and takes it, while the other
  trip goes on.
\<close>

theorem repair_overrides_commit:
  assumes "redis_server R" and "whole_ms ttl" and "rl_commitTrip R s0 now0 i other = (True, s)" and "\<forall>t. rd_get R s t (lockKey i) = None"
    and "now0 \<le> time 0" "time 0 \<le> time 1" "time 1 \<le> time 2" "time 2 \<le> time 3"
    and "getDriver r i = Some d" and "d_status d = Available"
  shows "\<exists>r1 s1. acquireLock_shared R (\<lambda>_ x. x) time s r now i req ttl = ((Some True, r1), s1) \<and>
    (\<forall>u. time 3 \<le> u \<and> u < time 3 + ttl \<longrightarrow> lock_holder R s1 u i = Some req)"
proof -
  have "engaged R now0 s i" by (rule redis_server.commit_engages [OF assms(1,3)])
  then have "rd_hget R s (time 0) (stateKey i) ''status'' = Some ''busy''"
    using redis_server.engagedD [OF assms(1) _ assms(5)] by blast
  from redis_server.heal_takes [OF assms(1) this assms(2,4,6-8), of req] obtain s1 where
    s1: "redis_acquire R (\<lambda>_ x. x) time s i req ttl = (Some True, s1)" "\<forall>u. time 3 \<le> u \<and> u < time 3 + ttl \<longrightarrow> lock_holder R s1 u i = Some req"
    by blast
  moreover have "acquire_begin r i" using assms(9,10) by (simp add: acquire_begin_def getDriver_def)
  ultimately show ?thesis by (auto simp: acquireLock_shared_def)
qed

theorem repair_overrides_commit_witness:
  "let s = snd (rl_commitTrip mem_redis (snd (rl_acquireLock mem_redis mem_empty 0 ''d1'' ''other'' 15000)) 5 ''d1'' ''other'') in
    rd_hget mem_redis s 10 (stateKey ''d1'') ''status'' = Some ''busy'' \<and>
    (\<exists>r1 s1. acquireLock_shared mem_redis (\<lambda>_ x. x) (\<lambda>n. 10 + real n) s demo_registry 10 ''d1'' ''r1'' 15000 = ((Some True, r1), s1))"
proof -
  let ?s = "snd (rl_commitTrip mem_redis (snd (rl_acquireLock mem_redis mem_empty 0 ''d1'' ''other'' 15000)) 5 ''d1'' ''other'')"
  have c: "rl_commitTrip mem_redis (snd (rl_acquireLock mem_redis mem_empty 0 ''d1'' ''other'' 15000)) 5 ''d1'' ''other'' = (True, ?s)"
    and free: "\<forall>t. rd_get mem_redis ?s t (lockKey ''d1'') = None"
    and busy: "rd_hget mem_redis ?s 10 (stateKey ''d1'') ''status'' = Some ''busy''"
    by (simp_all add: rl_commitTrip_def commit_trip_lua_def rl_acquireLock_def acquire_lock_lua_def mem_redis_def mem_empty_def mem_get_def mem_live_def)
  have "map_option d_status (getDriver demo_registry ''d1'') = Some Available" by code_simp
  then obtain d where d: "getDriver demo_registry ''d1'' = Some d" "d_status d = Available" by auto
  from repair_overrides_commit [OF mem.redis_server_axioms _ c free _ _ _ _ d, of 15000 "\<lambda>n. 10 + real n" "10" "''r1''"] busy
  show ?thesis by (auto simp: Let_def)
qed

section \<open>What may happen while a reservation waits\<close>

text \<open>
  C1. The check of the driver's status and the reservation are apart: a driver who goes offline while the
  lock service is asked is reserved all the same, which breaks the invariant of the registry (only an
  available driver carries a reservation), and as long as the reservation lasts its commit succeeds
  and makes the driver busy, for this process and for the others.
\<close>

theorem offline_driver_is_reserved:
  assumes "redis_server R" and "whole_ms ttl" and "getDriver r i = Some d" and "d_status d = Available"
    and "rd_hget R s (time 0) (stateKey i) ''status'' \<noteq> Some ''busy''" and "rd_get R s (time 0) (lockKey i) = None"
    and "time 0 \<le> t" and "t < time 0 + ttl"
  shows "let ((ok, r1), s1) =
      acquireLock_meanwhile R (\<lambda>_ x. x) time (\<lambda>r. snd (setStatus r later i Offline)) None s r now i req ttl;
      ((committed, r2), s2) = commitTrip_shared R (\<lambda>_ x. x) (\<lambda>_. t) s1 r1 i req
    in ok = Some True \<and> \<not> reg_inv r1 \<and>
      map_option (\<lambda>d. (d_status d, d_lockToken d)) (getDriver r1 i) = Some (Offline, Some \<lparr>lt_requestId = req, lt_expiresAt = now + ttl\<rparr>) \<and>
      committed \<and> map_option d_status (getDriver r2 i) = Some Busy \<and> rd_hget R s2 t (stateKey i) ''status'' = Some ''busy''"
proof -
  define r0 where "r0 = snd (setStatus r later i Offline)"
  define r1 where "r1 = acquire_finish r0 now i req ttl None"
  have "acquire_begin r i" using assms(3,4) by (simp add: acquire_begin_def getDriver_def)
  moreover obtain s1 where "redis_acquire R (\<lambda>_ x. x) time s i req ttl = (Some True, s1)" and held: "rd_get R s1 t (lockKey i) = Some (Raw req)"
    using redis_server.redis_acquire_free(2) [where time = time, OF assms(1,5,6,2)] assms(7,8) by blast
  ultimately have call: "acquireLock_meanwhile R (\<lambda>_ x. x) time (\<lambda>r. snd (setStatus r later i Offline)) None s r now i req ttl = ((Some True, r1), s1)"
    by (simp add: acquireLock_meanwhile_def r1_def r0_def)
  obtain d0 where "jm_get (drivers r0) i = Some d0" "d_status d0 = Offline"
    using assms(3,4) by (simp add: r0_def setStatus_def getDriver_def Let_def)
  then obtain d1 where d1: "jm_get (drivers r1) i = Some d1" "d_status d1 = Offline"
      "d_lockToken d1 = Some \<lparr>lt_requestId = req, lt_expiresAt = now + ttl\<rparr>"
    by (simp add: r1_def acquire_finish_def)
  have "\<not> reg_inv r1"
  proof
    assume "reg_inv r1"
    then have "record_ok (reg_region r1) i d1" using reg_invD(3) d1(1) by blast
    then show False using d1 by (simp add: record_ok_def)
  qed
  moreover obtain s2 where "rl_commitTrip R s1 t i req = (True, s2)" "rd_hget R s2 t (stateKey i) ''status'' = Some ''busy''"
    using held redis_server.commit_fst [OF assms(1), of s1 t i req] redis_server.commit_state [OF assms(1), of t t s1 i req i]
    by (metis order_refl prod.collapse)
  ultimately show ?thesis
    using d1 by (simp add: call commitTrip_shared_def redis_commit_def commit_finish_def getDriver_def)
qed

theorem offline_driver_is_reserved_witness:
  "let ((ok, r1), s1) =
      acquireLock_meanwhile mem_redis (\<lambda>_ x. x) (\<lambda>n. 10 + real n) (\<lambda>r. snd (setStatus r 10 ''d1'' Offline)) None mem_empty demo_registry 10 ''d1'' ''r1'' 15000;
      ((committed, r2), s2) = commitTrip_shared mem_redis (\<lambda>_ x. x) (\<lambda>_. 500) s1 r1 ''d1'' ''r1''
    in ok = Some True \<and> \<not> reg_inv r1 \<and> committed \<and> map_option d_status (getDriver r2 ''d1'') = Some Busy"
proof -
  have "map_option d_status (getDriver demo_registry ''d1'') = Some Available" by code_simp
  then obtain d where d: "getDriver demo_registry ''d1'' = Some d" "d_status d = Available" by auto
  have "rd_hget mem_redis mem_empty 10 k f = None" "rd_get mem_redis mem_empty 10 k = None" for k f
    by (simp_all add: mem_redis_def mem_empty_def mem_get_def)
  then show ?thesis
    using offline_driver_is_reserved [OF mem.redis_server_axioms _ d, of 15000 mem_empty "\<lambda>n. 10 + real n" 500 10 10 "''r1''"]
    by (simp add: Let_def case_prod_beta)
qed

text \<open>
  A reset of the region while the lock service is asked: the reservation of the old driver takes the
  driver of the new region with the same name out of the index, although his record is free.
\<close>

theorem reset_hides_new_driver:
  assumes "reg_inv r1" and "getDriver r1 i = Some e" and "searchable e"
  shows "let r2 = acquire_finish r1 now i req ttl (Some old) in
    getDriver r2 i = Some e \<and> qt_pos (spatialIndex r1) i \<noteq> None \<and> qt_pos (spatialIndex r2) i = None \<and> \<not> reg_inv r2"
proof -
  define r2 where "r2 = acquire_finish r1 now i req ttl (Some old)"
  obtain ok t where rm: "qt_remove (spatialIndex r1) i = (ok, t)" by (cases "qt_remove (spatialIndex r1) i")
  note L = qt_remove_law [OF reg_invD(2) [OF assms(1)] rm]
  have r2: "drivers r2 = drivers r1" "spatialIndex r2 = t" using rm by (simp_all add: r2_def acquire_finish_def idxRemove_def)
  have e: "jm_get (drivers r1) i = Some e" using assms(2) by (simp add: getDriver_def)
  have pos: "record_pos (reg_region r1) e \<noteq> None"
    using reg_invD(3) [OF assms(1) e] assms(3) by (simp add: record_pos_def record_ok_def searchable_def)
  have "\<not> reg_inv r2"
  proof
    assume "reg_inv r2"
    from reg_invD(4) [OF this, of i] show False using L pos e by (simp add: r2)
  qed
  then show ?thesis using reg_invD(4) [OF assms(1), of i] pos L assms(2) e r2
    unfolding Let_def r2_def [symmetric] by (simp add: getDriver_def)
qed

theorem reset_hides_new_driver_witness:
  "\<exists>old. \<not> reg_inv (acquire_finish demo_registry 5 ''d1'' ''r1'' 15000 (Some old))"
proof -
  have "map_option (\<lambda>d. (d_status d, d_lockToken d)) (getDriver demo_registry ''d1'') = Some (Available, None)" by code_simp
  then obtain e where e: "getDriver demo_registry ''d1'' = Some e" "searchable e" by (auto simp: searchable_def)
  have inv: "reg_inv demo_registry" using demo_registry_run registry_run_inv by blast
  from reset_hides_new_driver [OF inv e, of 5 "''r1''" 15000] show ?thesis
    by (simp add: Let_def)
qed

end
