(* ===== verification/SharedDispatch.thy ===== *)
theory SharedDispatch
  imports RegistryRedis RegistryProperties Gateway MatchingDemo
begin

text \<open>
  The offer loop of \<open>src/core/matching_service.ts\<close> over the registry that shares a lock service:
  one iteration up to the answer of the service, which here may also be an error.  Then the promise of
  \<open>acquireLock\<close> is rejected, nothing in the loop catches that, and the loop is left through its
  \<open>finally\<close> block.  It shows what an answer time with a fraction of a millisecond does.
\<close>

section \<open>An iteration\<close>

definition iteration_shared ::
    "'s redis_api \<Rightarrow> (nat \<Rightarrow> 's \<Rightarrow> 's) \<Rightarrow> (nat \<Rightarrow> ms) \<Rightarrow> 's \<Rightarrow> MatchingService \<Rightarrow> ms \<Rightarrow> nat \<Rightarrow> OfferLoop \<Rightarrow> MatchingService \<times> 's" where
  "iteration_shared R env time st s now l lp =
    (let trip = lp_trip lp; cf = lp_config lp in
     if \<not> lp_i lp < cf_k cf then (loop_exhausted s now l lp, st)
     else if t_requestId trip \<in> abortedRequests s then (end_loop s l lp, st)
     else
       let budgetMs = lp_deadline lp - now;
           minOfferBudgetMs = min MIN_OFFER_BUDGET_MS (cf_offerTimeoutMs cf)
       in if budgetMs < minOfferBudgetMs then (loop_exhausted s now l lp, st)
       else
         (case filter (\<lambda>c. c_id c \<notin> set (lp_tried lp))
                 (findNearbyCandidates (driverRegistry s) (lat (t_pickup trip)) (lng (t_pickup trip))
                    (cf_k cf) (cf_maxRadiusMeters cf)) of
            [] \<Rightarrow> (loop_exhausted s now l lp, st)
          | candidate # _ \<Rightarrow>
              let offerTimeoutMs = min (cf_offerTimeoutMs cf) budgetMs;
                  lockTtlMs = offerTimeoutMs + LOCK_SAFETY_MARGIN_MS;
                  ((answer, r1), st1) =
                    acquireLock_shared R env time st (driverRegistry s) now (c_id candidate) (t_requestId trip) lockTtlMs;
                  s1 = s\<lparr>driverRegistry := r1\<rparr>
              in (case answer of
                    None \<Rightarrow> (end_loop s1 l lp, st1)
                  | Some locked \<Rightarrow>
                      (put_loop s1 l
                         (lp\<lparr>lp_tried := lp_tried lp @ [c_id candidate], lp_hadCandidates := True,
                             lp_pc := Acquiring candidate offerTimeoutMs locked\<rparr>), st1))))"

definition dispatch_shared ::
    "'s redis_api \<Rightarrow> (nat \<Rightarrow> 's \<Rightarrow> 's) \<Rightarrow> (nat \<Rightarrow> ms) \<Rightarrow> 's \<Rightarrow> MatchingService \<Rightarrow> ms \<Rightarrow> Trip \<Rightarrow> MatchConfig \<Rightarrow> MatchingService \<times> 's" where
  "dispatch_shared R env time st s now trip config =
    (let l = nextLoop s;
         lp = \<lparr>lp_trip = trip, lp_config = config, lp_deadline = now + MAX_MATCH_WAIT_MS, lp_tried = [],
               lp_hadCandidates = False, lp_i = 0, lp_pc = AbortReleasing\<rparr>
     in iteration_shared R env time st (s\<lparr>nextLoop := Suc l\<rparr>) now l lp)"

section \<open>Answer times\<close>

lemma whole_shift: "whole_ms (x + 3000) \<longleftrightarrow> of_int \<lfloor>x\<rfloor> = x" if "0 < x"
proof -
  have "\<lfloor>x + 3000\<rfloor> = \<lfloor>x\<rfloor> + 3000" by linarith
  then show ?thesis using that by (simp add: whole_ms_def)
qed

lemma request_config_fin:
  "1000 \<le> x \<Longrightarrow> x \<le> 60000 \<Longrightarrow> request_config (JNum (Fin x)) = \<lparr>cf_k = 4, cf_maxRadiusMeters = 10000, cf_offerTimeoutMs = x\<rparr>"
  using clampTimeout_idem [of 1000 x 60000 15000] by (simp add: request_config_def clampTimeout_default_def)

text \<open>The first round of a new ride whose nearest driver is available.\<close>

lemma dispatch_shared_first:
  assumes "1000 \<le> x" "x < 30000" and "t_requestId trip \<notin> abortedRequests s"
    and "findNearbyCandidates (driverRegistry s) (lat (t_pickup trip)) (lng (t_pickup trip)) 4 10000 = c # cs"
    and "acquireLock_shared R env time st (driverRegistry s) now (c_id c) (t_requestId trip) (x + 3000) = ((answer, r1), st1)"
  shows "dispatch_shared R env time st s now trip (request_config (JNum (Fin x))) =
    (let l = nextLoop s;
         lp = \<lparr>lp_trip = trip, lp_config = request_config (JNum (Fin x)), lp_deadline = now + 30000, lp_tried = [],
               lp_hadCandidates = False, lp_i = 0, lp_pc = AbortReleasing\<rparr>;
         s1 = s\<lparr>nextLoop := Suc l, driverRegistry := r1\<rparr>
     in (case answer of
           None \<Rightarrow> (end_loop s1 l lp, st1)
         | Some locked \<Rightarrow> (put_loop s1 l (lp\<lparr>lp_tried := [c_id c], lp_hadCandidates := True, lp_pc := Acquiring c x locked\<rparr>), st1)))"
proof -
  have "min x 30000 = x" using assms(2) by simp
  then show ?thesis using assms
    by (cases answer) (simp_all add: dispatch_shared_def iteration_shared_def request_config_fin MAX_MATCH_WAIT_MS_def MIN_OFFER_BUDGET_MS_def
        LOCK_SAFETY_MARGIN_MS_def Let_def)
qed

lemma busy_rider_refused:
  assumes "tsm_inv m" and "getTrip m (t_id trip) = Some trip" and "active trip" and "jm_get (requestToTrip m) q = None"
  shows "fst (createTrip m now uuid q (t_riderId trip) p d) \<in> {Inl (RiderHasActiveTrip (t_riderId trip)), Inl InvalidCoordinates}"
proof -
  have "jm_get (activeRiderTrips m) (t_riderId trip) = Some (t_id trip) \<longleftrightarrow>
      (\<exists>t. jm_get (trips m) (t_id trip) = Some t \<and> t_riderId t = t_riderId trip \<and> active t)"
    using assms(1) unfolding tsm_inv_def rider_index_def by blast
  then have "jm_has (activeRiderTrips m) (t_riderId trip)" using assms(2,3) by (simp add: getTrip_def jm_has_def)
  then show ?thesis using assms(4) by (simp add: createTrip_def Let_def truthy_def split: option.split)
qed

text \<open>What the lock service answers about a driver whom nobody holds, and who is not busy.\<close>

context redis_server
begin

lemma free_driver_answer:
  assumes "acquire_begin r i" and "rd_hget R s (time 0) (stateKey i) ''status'' \<noteq> Some ''busy''" and "rd_get R s (time 0) (lockKey i) = None"
  shows "\<not> whole_ms ttl \<Longrightarrow> acquireLock_shared R (\<lambda>_ x. x) time s r now i req ttl = ((None, r), s)"
    and "whole_ms ttl \<Longrightarrow> \<exists>s1. acquireLock_shared R (\<lambda>_ x. x) time s r now i req ttl = ((Some True, acquire_finish r now i req ttl None), s1) \<and>
      (\<forall>u. time 0 \<le> u \<and> u < time 0 + ttl \<longrightarrow> lock_holder R s1 u i = Some req)"
proof -
  note answer = redis_acquire_free [where time = time, OF assms(2,3), of ttl req]
  show "acquireLock_shared R (\<lambda>_ x. x) time s r now i req ttl = ((None, r), s)" if "\<not> whole_ms ttl"
    using assms(1) answer(1) [OF that] by (simp add: acquireLock_shared_def)
  show "\<exists>s1. acquireLock_shared R (\<lambda>_ x. x) time s r now i req ttl = ((Some True, acquire_finish r now i req ttl None), s1) \<and>
      (\<forall>u. time 0 \<le> u \<and> u < time 0 + ttl \<longrightarrow> lock_holder R s1 u i = Some req)" if w: "whole_ms ttl"
  proof -
    obtain s1 where s1: "redis_acquire R (\<lambda>_ x. x) time s i req ttl = (Some True, s1)"
      and held: "\<forall>u. time 0 \<le> u \<and> u < time 0 + ttl \<longrightarrow> rd_get R s1 u (lockKey i) = Some (Raw req)"
      using answer(2) [OF w] by blast
    have "acquireLock_shared R (\<lambda>_ x. x) time s r now i req ttl = ((Some True, acquire_finish r now i req ttl None), s1)"
      using assms(1) s1 by (simp add: acquireLock_shared_def)
    moreover have "\<forall>u. time 0 \<le> u \<and> u < time 0 + ttl \<longrightarrow> lock_holder R s1 u i = Some req"
      using held by (simp add: lock_holder_def)
    ultimately show ?thesis by blast
  qed
qed

text \<open>Whatever other clients do meanwhile, and whatever is held: such a time to live never gets a driver.\<close>

lemma fraction_never_granted: "\<not> whole_ms ttl \<Longrightarrow> fst (redis_acquire R env time s i req ttl) \<noteq> Some True"
  using acquire_fst [of _ _ i req ttl]
  by (auto simp: redis_acquire_def eval_acquire_def Let_def split: prod.splits if_splits) (metis fst_conv)+

end

text \<open>
  C36. An answer time with a fraction of a millisecond, which \<open>clampTimeout\<close> lets through, strands the
  rider: the first driver asked for the ride may be free, but the lock service takes no such time to
  live, the error ends the offer loop, and nothing else happens.  The trip stays in matching without
  a loop, nobody is offered the ride, no failure is reported, and the rider cannot ask for another
  ride.  With the whole milliseconds of the same answer time the driver is reserved.
\<close>

theorem fractional_timeout_strands_rider:
  assumes "redis_server R" and "1000 < x" "x < 30000" "of_int \<lfloor>x\<rfloor> \<noteq> x"
    and "tsm_inv (stateMachine s)" "getTrip (stateMachine s) (t_id trip) = Some trip" "t_status trip = Matching"
    and "t_requestId trip \<notin> abortedRequests s"
    and "findNearbyCandidates (driverRegistry s) (lat (t_pickup trip)) (lng (t_pickup trip)) 4 10000 = c # cs"
    and "getDriver (driverRegistry s) (c_id c) = Some d" "d_status d = Available"
    and "rd_hget R st (time 0) (stateKey (c_id c)) ''status'' \<noteq> Some ''busy''" "rd_get R st (time 0) (lockKey (c_id c)) = None"
  shows "(let (s', st') = dispatch_shared R (\<lambda>_ w. w) time st s now trip (request_config (JNum (Fin x))) in
      st' = st \<and> driverRegistry s' = driverRegistry s \<and> stateMachine s' = stateMachine s \<and> jm_get (loops s') (nextLoop s) = None \<and>
      activeOffers s' = activeOffers s \<and> timers s' = timers s \<and> out s' = out s \<and>
      (\<forall>later uuid q p z. jm_get (requestToTrip (stateMachine s')) q = None \<longrightarrow>
         fst (createTrip (stateMachine s') later uuid q (t_riderId trip) p z)
           \<in> {Inl (RiderHasActiveTrip (t_riderId trip)), Inl InvalidCoordinates})) \<and>
    (let (s', st') = dispatch_shared R (\<lambda>_ w. w) time st s now trip (request_config (JNum (Fin (of_int \<lfloor>x\<rfloor>)))) in
      map_option lp_pc (jm_get (loops s') (nextLoop s)) = Some (Acquiring c (of_int \<lfloor>x\<rfloor>) True) \<and>
      (\<forall>u. time 0 \<le> u \<and> u < time 0 + of_int \<lfloor>x\<rfloor> + 3000 \<longrightarrow> lock_holder R st' u (c_id c) = Some (t_requestId trip)))"
proof (intro conjI)
  note f = assms(8,9)
  have free: "acquire_begin (driverRegistry s) (c_id c)" using assms(10,11) by (simp add: acquire_begin_def getDriver_def)
  note answer = redis_server.free_driver_answer [where time = time and s = st, OF assms(1) free assms(12,13)]
  note refused = busy_rider_refused [OF assms(5,6)]
  show "let (s', st') = dispatch_shared R (\<lambda>_ w. w) time st s now trip (request_config (JNum (Fin x))) in
      st' = st \<and> driverRegistry s' = driverRegistry s \<and> stateMachine s' = stateMachine s \<and> jm_get (loops s') (nextLoop s) = None \<and>
      activeOffers s' = activeOffers s \<and> timers s' = timers s \<and> out s' = out s \<and>
      (\<forall>later uuid q p z. jm_get (requestToTrip (stateMachine s')) q = None \<longrightarrow>
         fst (createTrip (stateMachine s') later uuid q (t_riderId trip) p z)
           \<in> {Inl (RiderHasActiveTrip (t_riderId trip)), Inl InvalidCoordinates})"
    using dispatch_shared_first [OF _ assms(3) f answer(1)] assms(2,4,7) refused
    by (simp add: whole_shift end_loop_def active_def terminal_def Let_def)
  have x: "1000 \<le> real_of_int \<lfloor>x\<rfloor>" "real_of_int \<lfloor>x\<rfloor> < 30000" using assms(2,3) by simp_all
  then have "whole_ms (real_of_int \<lfloor>x\<rfloor> + 3000)" by (simp add: whole_shift)
  then obtain st1 where a: "acquireLock_shared R (\<lambda>_ w. w) time st (driverRegistry s) now (c_id c) (t_requestId trip) (real_of_int \<lfloor>x\<rfloor> + 3000) =
      ((Some True, acquire_finish (driverRegistry s) now (c_id c) (t_requestId trip) (real_of_int \<lfloor>x\<rfloor> + 3000) None), st1)"
    and held: "\<forall>u. time 0 \<le> u \<and> u < time 0 + (real_of_int \<lfloor>x\<rfloor> + 3000) \<longrightarrow> lock_holder R st1 u (c_id c) = Some (t_requestId trip)"
    using answer(2) by blast
  show "let (s', st') = dispatch_shared R (\<lambda>_ w. w) time st s now trip (request_config (JNum (Fin (of_int \<lfloor>x\<rfloor>)))) in
      map_option lp_pc (jm_get (loops s') (nextLoop s)) = Some (Acquiring c (of_int \<lfloor>x\<rfloor>) True) \<and>
      (\<forall>u. time 0 \<le> u \<and> u < time 0 + of_int \<lfloor>x\<rfloor> + 3000 \<longrightarrow> lock_holder R st' u (c_id c) = Some (t_requestId trip))"
    unfolding dispatch_shared_first [OF x f a] using held by (simp add: put_loop_def Let_def add.assoc)
qed

text \<open>A ride just requested; its drivers have 5000.5 milliseconds to answer.\<close>

definition fresh_ride :: MatchingService where
  "fresh_ride = demo_idle\<lparr>stateMachine := stateMachine demo_acquired\<rparr>"

lemma fresh_ride_facts:
  "tsm_inv (stateMachine fresh_ride)" "getTrip (stateMachine fresh_ride) ''trip_u1'' = Some (demo_trip ''u1'' ''r1'' ''ann'' 0)"
  "driverRegistry fresh_ride = demo_registry" "abortedRequests fresh_ride = {}" "loops fresh_ride = []" "nextLoop fresh_ride = 0" "out fresh_ride = []"
proof -
  have "tsm_inv (stateMachine demo_acquired)"
    using demo_run_acquired svc_run_inv tsm_runs_inv unfolding run_with_def svc_inv_def by blast
  then show "tsm_inv (stateMachine fresh_ride)" by (simp add: fresh_ride_def)
  show "getTrip (stateMachine fresh_ride) ''trip_u1'' = Some (demo_trip ''u1'' ''r1'' ''ann'' 0)" by code_simp
qed (simp_all add: fresh_ride_def demo_idle_def service_new_def)

theorem fractional_timeout_strands_rider_witness:
  "let (s', st') = dispatch_shared mem_redis (\<lambda>_ w. w) (\<lambda>_. 0) mem_empty fresh_ride 0 (demo_trip ''u1'' ''r1'' ''ann'' 0) (request_config (JNum (Fin 5000.5)))
   in jm_get (loops s') 0 = None \<and> out s' = [] \<and> getTrip (stateMachine s') ''trip_u1'' = Some (demo_trip ''u1'' ''r1'' ''ann'' 0) \<and>
     st' = mem_empty"
proof -
  let ?t = "demo_trip ''u1'' ''r1'' ''ann'' 0"
  have "map_option d_status (getDriver demo_registry ''d1'') = Some Available" by code_simp
  then obtain d where d: "getDriver demo_registry ''d1'' = Some d" "d_status d = Available" by auto
  have t: "t_id ?t = ''trip_u1''" "t_status ?t = Matching" "t_requestId ?t = ''r1''" "t_pickup ?t = \<lparr>lat = 13, lng = 77.5\<rparr>"
    by (simp_all add: demo_trip_def newTrip_def)
  have near: "findNearbyCandidates demo_registry 13 77.5 4 10000 = [demo_candidate]"
    using demo_search [OF demo_root] by (simp add: findNearbyCandidates_def)
  have "\<lfloor>5000.5 :: real\<rfloor> = 5000" by linarith
  then have x: "of_int \<lfloor>5000.5 :: real\<rfloor> \<noteq> (5000.5 :: real)" by simp
  have "rd_hget mem_redis mem_empty 0 k f = None" "rd_get mem_redis mem_empty 0 k = None" for k f
    by (simp_all add: mem_redis_def mem_empty_def mem_get_def)
  moreover note fractional_timeout_strands_rider [OF mem.redis_server_axioms _ _ x fresh_ride_facts(1), of ?t demo_candidate "[]" d mem_empty "\<lambda>_. 0" 0]
  ultimately show ?thesis using t near d fresh_ride_facts by (simp add: Let_def case_prod_beta)
qed

end
