(* ===== verification/SharedRace.thy ===== *)
theory SharedRace
  imports RegistryRedis Server MatchingDemo
begin

text \<open>
  The race of two riders of \<open>src/server.ts\<close> as the program runs it: each of its reservations is a
  call of \<open>acquireLock\<close> that waits for the lock service in Redis, and while it waits everything
  else goes on, in the registry and, by other processes, in Redis.  \<open>Server.run_race\<close> is the
  same route over a registry without the service, in one step.
\<close>

section \<open>The race\<close>

text \<open>
  One call of \<open>acquireLock\<close>: what others do to the server before each of its commands and when
  the commands run; the time at its beginning; what happens to the registry until it returns; and the
  driver object, if it has been dropped by then.
\<close>

record 's call_env =
  ce_redis :: "nat \<Rightarrow> 's \<Rightarrow> 's"
  ce_time :: "nat \<Rightarrow> ms"
  ce_now :: ms
  ce_registry :: "DriverRegistry \<Rightarrow> DriverRegistry"
  ce_detached :: "DriverRecord option"

definition shared_attempt ::
    "'s redis_api \<Rightarrow> 's call_env \<Rightarrow> string \<Rightarrow> string \<Rightarrow> 's \<times> DriverRegistry \<Rightarrow> bool \<times> 's \<times> DriverRegistry" where
  "shared_attempt R e driverId req w =
    (case w of (s, r) \<Rightarrow>
       (let ((ok, r1), s1) = acquireLock_meanwhile R (ce_redis e) (ce_time e) (ce_registry e) (ce_detached e) s r (ce_now e) driverId req 15000
        in (ok = Some True, s1, r1)))"

text \<open>The calls are numbered; \<open>n\<close> is the number of the next one.\<close>

fun cascade_shared ::
    "'s redis_api \<Rightarrow> (nat \<Rightarrow> 's call_env) \<Rightarrow> nat \<Rightarrow> string \<Rightarrow> string \<Rightarrow> CandidateDriver list \<Rightarrow> 's \<times> DriverRegistry \<Rightarrow>
     string option \<times> race_attempt list \<times> nat \<times> 's \<times> DriverRegistry" where
  "cascade_shared R E n prime req [] w = (None, [], n, w)"
| "cascade_shared R E n prime req (c # cs) w =
    (if c_id c = prime then cascade_shared R E n prime req cs w
     else
       (let (ok, w1) = shared_attempt R (E n) (c_id c) req w; att = \<lparr>ra_driverId = c_id c, ra_locked = ok\<rparr>
        in if ok then (Some (c_id c), [att], Suc n, w1)
           else (let (got, atts, n', w2) = cascade_shared R E (Suc n) prime req cs w1 in (got, att # atts, n', w2))))"

definition run_race_shared ::
    "'s redis_api \<Rightarrow> (nat \<Rightarrow> 's call_env) \<Rightarrow> 's \<times> DriverRegistry \<Rightarrow> string \<Rightarrow> string \<Rightarrow> CandidateDriver \<Rightarrow>
     race_result \<times> nat \<times> 's \<times> DriverRegistry" where
  "run_race_shared R E w aliceStamp bobStamp prime =
    (let aliceRequestId = ''race_alice_'' @ aliceStamp; bobRequestId = ''race_bob_'' @ bobStamp;
         aliceCandidates = findNearbyCandidates (snd w) (c_lat prime + 0.0003) (c_lng prime + 0.0003) 4 15000;
         bobCandidates = findNearbyCandidates (snd w) (c_lat prime + 0.0004) (c_lng prime + 0.0004) 4 15000;
         (aliceOk, w1) = shared_attempt R (E 0) (c_id prime) aliceRequestId w;
         (bobOk, w2) = shared_attempt R (E 1) (c_id prime) bobRequestId w1;
         (bobAssigned, bobMore, n3, w3) =
           (if bobOk then (Some (c_id prime), [], 2, w2)
            else cascade_shared R E 2 (c_id prime) bobRequestId bobCandidates w2);
         (aliceAssigned, aliceMore, n4, w4) =
           (if aliceOk then (Some (c_id prime), [], n3, w3)
            else cascade_shared R E n3 (c_id prime) aliceRequestId aliceCandidates w3)
     in (\<lparr>rr_target = c_id prime,
          rr_alice = aliceAssigned, rr_aliceAttempts = \<lparr>ra_driverId = c_id prime, ra_locked = aliceOk\<rparr> # aliceMore,
          rr_bob = bobAssigned, rr_bobAttempts = \<lparr>ra_driverId = c_id prime, ra_locked = bobOk\<rparr> # bobMore,
          rr_duplicateDispatchCount = (if aliceAssigned = bobAssigned \<and> aliceAssigned \<noteq> None then 1 else 0),
          rr_isolationVerified = (aliceAssigned \<noteq> bobAssigned)\<rparr>, n4, w4))"

section \<open>What the other clients keep\<close>

text \<open>From the time \<open>t\<close> to the time \<open>T\<close> the request \<open>q\<close> holds the driver.\<close>

definition held :: "'s redis_api \<Rightarrow> 's \<Rightarrow> ms \<Rightarrow> ms \<Rightarrow> string \<Rightarrow> string \<Rightarrow> bool" where
  "held R s t T j q = (\<forall>u. t \<le> u \<and> u < T \<longrightarrow> rd_get R s u (lockKey j) = Some (Raw q))"

text \<open>The time of the command before command \<open>k\<close> of call \<open>n\<close>.\<close>

definition time_before :: "(nat \<Rightarrow> 's call_env) \<Rightarrow> nat \<Rightarrow> nat \<Rightarrow> ms" where
  "time_before E n k = (if k = 0 then if n = 0 then ce_time (E 0) 0 else ce_time (E (n - 1)) 3 else ce_time (E n) (k - 1))"

text \<open>What others do between two commands leaves a lock of \<open>q\<close> alone.\<close>

definition spares :: "'s redis_api \<Rightarrow> (nat \<Rightarrow> 's call_env) \<Rightarrow> string \<Rightarrow> bool" where
  "spares R E q = (\<forall>n k s j T. held R s (time_before E n k) T j q \<longrightarrow> held R (ce_redis (E n) k s) (ce_time (E n) k) T j q)"

definition in_order :: "(nat \<Rightarrow> 's call_env) \<Rightarrow> bool" where
  "in_order E = (\<forall>n k. time_before E n k \<le> ce_time (E n) k)"

lemma held_later: "held R s t T j q \<Longrightarrow> t \<le> t' \<Longrightarrow> T' \<le> T \<Longrightarrow> held R s t' T' j q"
  by (auto simp: held_def)

lemma held_now: "held R s t T j q \<Longrightarrow> t \<le> u \<Longrightarrow> u < T \<Longrightarrow> rd_get R s u (lockKey j) = Some (Raw q)"
  by (simp add: held_def)

context redis_server
begin

text \<open>Every lock command of another request, and every write of a driver's state, is such.\<close>

lemma command_keeps:
  assumes h: "held R s p T j q" and t: "p \<le> lc_time c" and o: "lc_driver c = j \<longrightarrow> lc_request c \<noteq> q"
  shows "held R (snd (lock_exec R s c)) (lc_time c) T j q"
  unfolding held_def
proof (intro allI impI, elim conjE)
  fix u assume u: "lc_time c \<le> u" "u < T"
  have now: "rd_get R s (lc_time c) (lockKey j) = Some (Raw q)" "rd_get R s u (lockKey j) = Some (Raw q)"
    using held_now [OF h] t u by simp_all
  show "rd_get R (snd (lock_exec R s c)) u (lockKey j) = Some (Raw q)"
  proof (cases c)
    case (Acquire a d r ttl)
    obtain ok s' where x: "rl_acquireLock R s a d r ttl = (ok, s')" by fastforce
    from x show ?thesis by (cases rule: acquire_cases) (use now u x Acquire in auto)
  next
    case (Release a d r)
    then show ?thesis using now u o by (auto simp: release_get)
  next
    case (Commit a d r)
    then show ?thesis using now u o by (auto simp: commit_get)
  qed
qed

lemma commands_keep:
  "held R s p T j q \<Longrightarrow> sorted (p # map lc_time cs @ [t]) \<Longrightarrow> \<forall>c\<in>set cs. lc_driver c = j \<longrightarrow> lc_request c \<noteq> q \<Longrightarrow>
    held R (snd (lock_run R s cs)) t T j q"
proof (induction cs arbitrary: s p)
  case Nil
  then show ?case using held_later [of R s p T j q t T] by simp
next
  case (Cons c cs)
  have "held R (snd (lock_exec R s c)) (lc_time c) T j q" by (rule command_keeps [OF Cons.prems(1)]) (use Cons.prems in auto)
  from Cons.IH [OF this] Cons.prems show ?case by (auto split: prod.split)
qed

lemma state_write_keeps: "held R s p T j q \<Longrightarrow> p \<le> t \<Longrightarrow> held R (snd (releaseCommittedDriver R s t d st)) t T j q"
  by (simp add: held_def releaseCommittedDriver_def get_others)

end

text \<open>What one call does to the leases of the race.\<close>

lemma in_orderD:
  assumes "in_order E"
  shows "ce_time (E n) 0 \<le> ce_time (E n) 1" "ce_time (E n) 1 \<le> ce_time (E n) 2" "ce_time (E n) 2 \<le> ce_time (E n) 3"
    and "time_before E n 0 \<le> ce_time (E n) 0" "ce_time (E n) 3 \<le> ce_time (E (Suc n)) 0"
proof -
  have le: "time_before E n k \<le> ce_time (E n) k" for n k using assms by (simp add: in_order_def)
  from le [of n 1] le [of n 2] le [of n 3] le [of n 0] le [of "Suc n" 0]
  show "ce_time (E n) 0 \<le> ce_time (E n) 1" "ce_time (E n) 1 \<le> ce_time (E n) 2" "ce_time (E n) 2 \<le> ce_time (E n) 3"
    "time_before E n 0 \<le> ce_time (E n) 0" "ce_time (E n) 3 \<le> ce_time (E (Suc n)) 0"
    by (simp_all add: time_before_def)
qed

lemma in_order_mono: "in_order E \<Longrightarrow> ce_time (E 0) 0 \<le> ce_time (E n) 0"
proof (induction n)
  case (Suc n)
  then show ?case using in_orderD [of E n] by simp
qed simp

lemma sparesD:
  assumes "spares R E q"
  shows "held R s (time_before E n 0) T j q \<Longrightarrow> held R (ce_redis (E n) 0 s) (ce_time (E n) 0) T j q"
    and "held R s (ce_time (E n) k) T j q \<Longrightarrow> held R (ce_redis (E n) (Suc k) s) (ce_time (E n) (Suc k)) T j q"
proof -
  have "held R s (time_before E n k) T j q \<longrightarrow> held R (ce_redis (E n) k s) (ce_time (E n) k) T j q" for k s
    using assms unfolding spares_def by blast
  from this [where k = 0] this [where k = "Suc k"] show
    "held R s (time_before E n 0) T j q \<Longrightarrow> held R (ce_redis (E n) 0 s) (ce_time (E n) 0) T j q"
    "held R s (ce_time (E n) k) T j q \<Longrightarrow> held R (ce_redis (E n) (Suc k) s) (ce_time (E n) (Suc k)) T j q"
    by (simp_all add: time_before_def)
qed

context redis_server
begin

lemma eval_keeps:
  assumes "held R s t T j q" and "t \<le> now" and "eval_acquire R s now i req ttl = (x, s')"
  shows "held R s' now T j q"
proof (cases "acquire_rejects R s now i ttl")
  case True
  then show ?thesis using assms held_later [OF assms(1,2)] by (simp add: eval_acquire_def)
next
  case False
  obtain ok s1 where a: "rl_acquireLock R s now i req ttl = (ok, s1)" by fastforce
  have s': "s' = s1" using assms(3) a False by (simp add: eval_acquire_def)
  have "rd_get R s1 u (lockKey j) = Some (Raw q)" if "now \<le> u" "u < T" for u
    using a by (cases rule: acquire_cases) (use held_now [OF assms(1), of u] held_now [OF assms(1), of now] assms(2) that in auto)
  then show ?thesis by (simp add: held_def s')
qed

lemma eval_granted:
  assumes "eval_acquire R s now i req ttl = (Some True, s')"
  shows "held R s' now (now + ttl) i req \<and> rd_get R s now (lockKey i) = None"
  using eval_acquire_Some [OF assms] by (cases rule: acquire_cases) (auto simp: held_def)

text \<open>Call \<open>n\<close> of the race keeps the leases of the race and grants none that is held.\<close>

lemma call_keeps:
  assumes ord: "in_order E" and sp: "spares R E q" and h: "held R s (time_before E n 0) T j q"
    and call: "redis_acquire R (ce_redis (E n)) (ce_time (E n)) s i req ttl = (x, s')"
  shows "held R s' (ce_time (E n) 3) T j q" and "x = Some True \<Longrightarrow> ce_time (E n) 3 < T \<Longrightarrow> i \<noteq> j"
proof -
  let ?t = "ce_time (E n)" and ?e = "ce_redis (E n)"
  note le = in_orderD [OF ord, of n]
  obtain a0 s1 where 0: "eval_acquire R (?e 0 s) (?t 0) i req ttl = (a0, s1)" by fastforce
  have h0: "held R (?e 0 s) (?t 0) T j q" by (rule sparesD(1) [OF sp h])
  have h1: "held R s1 (?t 0) T j q" by (rule eval_keeps [OF h0 order_refl 0])
  let ?s2 = "?e 1 s1" let ?s3 = "?e 2 ?s2" let ?s4 = "?e 3 (snd (releaseCommittedDriver R ?s3 (?t 2) i ''available''))"
  have h2: "held R ?s2 (?t 1) T j q" using sparesD(2) [OF sp h1] by simp
  have h3: "held R ?s3 (?t 2) T j q" using sparesD(2) [OF sp h2] by (simp add: numeral_2_eq_2)
  have h4: "held R ?s4 (?t 3) T j q"
    using sparesD(2) [OF sp state_write_keeps [OF h3 order_refl]] by (simp add: numeral_3_eq_3 numeral_2_eq_2)
  obtain a4 s5 where 4: "eval_acquire R ?s4 (?t 3) i req ttl = (a4, s5)" by fastforce
  have h5: "held R s5 (?t 3) T j q" by (rule eval_keeps [OF h4 order_refl 4])
  have cases: "x = a0 \<and> a0 \<noteq> Some False \<and> s' = s1 \<or> x = Some False \<and> s' = ?s2 \<or> x = a4 \<and> s' = s5"
    using call 0 4 by (simp add: redis_acquire_def Let_def split: if_splits)
  show "held R s' (?t 3) T j q"
    using cases held_later [OF h1, of "?t 3" T] held_later [OF h2, of "?t 3" T] h5 le by auto
  show "i \<noteq> j" if "x = Some True" "?t 3 < T"
  proof
    assume "i = j"
    then have "a0 \<noteq> Some True" "a4 \<noteq> Some True"
      using eval_granted 0 4 held_now [OF h0, of "?t 0"] held_now [OF h4, of "?t 3"] that(2) le by fastforce+
    then show False using cases that(1) by auto
  qed
qed

lemma call_grants:
  assumes ord: "in_order E" and call: "redis_acquire R (ce_redis (E n)) (ce_time (E n)) s i req ttl = (Some True, s')"
    and T: "T \<le> ce_time (E n) 0 + ttl"
  shows "held R s' (ce_time (E n) 3) T i req"
proof -
  note le = in_orderD [OF ord, of n]
  have "\<exists>k\<in>{0, 3}. \<exists>s0. eval_acquire R s0 (ce_time (E n) k) i req ttl = (Some True, s')"
    using call by (auto simp: redis_acquire_def Let_def split: prod.splits if_splits)
  then obtain k s0 where k: "k \<in> {0, 3}" "eval_acquire R s0 (ce_time (E n) k) i req ttl = (Some True, s')" by blast
  then have "held R s' (ce_time (E n) k) (ce_time (E n) k + ttl) i req" using eval_granted by blast
  then show ?thesis by (rule held_later) (use k(1) le T in auto)
qed

end

section \<open>Nobody gets a driver twice\<close>

text \<open>The race is over before the first reservation that it may have made ends.\<close>

definition in_time :: "(nat \<Rightarrow> 's call_env) \<Rightarrow> bool" where
  "in_time E = (\<forall>n. ce_time (E n) 3 < ce_time (E 0) 0 + 15000)"

abbreviation race_end :: "(nat \<Rightarrow> 's call_env) \<Rightarrow> ms" where
  "race_end E \<equiv> ce_time (E 0) 0 + 15000"

lemma time_before_Suc [simp]: "time_before E (Suc n) 0 = ce_time (E n) 3"
  by (simp add: time_before_def)

context redis_server
begin

lemma attempt_keeps:
  assumes "in_order E" and "in_time E" and "spares R E q" and h: "held R (fst w) (time_before E n 0) (race_end E) j q"
    and a: "shared_attempt R (E n) i req w = (ok, w')"
  shows "held R (fst w') (ce_time (E n) 3) (race_end E) j q \<and> (ok \<longrightarrow> i \<noteq> j)"
proof -
  obtain s r where w: "w = (s, r)" by fastforce
  note le = in_orderD [OF assms(1), of n]
  show ?thesis
  proof (cases "acquire_begin r i")
    case False
    then show ?thesis using a h le held_later [OF h, of "ce_time (E n) 3" "race_end E"] by (auto simp: shared_attempt_def acquireLock_meanwhile_def w)
  next
    case True
    obtain x s1 where c: "redis_acquire R (ce_redis (E n)) (ce_time (E n)) s i req 15000 = (x, s1)" by fastforce
    have "ce_time (E n) 3 < race_end E" using assms(2) by (simp add: in_time_def)
    then show ?thesis
      using call_keeps [OF assms(1,3) h [unfolded w fst_conv] c] a True c by (auto simp: shared_attempt_def acquireLock_meanwhile_def w Let_def)
  qed
qed

lemma attempt_grants:
  assumes "in_order E" and a: "shared_attempt R (E n) i req w = (True, w')"
  shows "held R (fst w') (ce_time (E n) 3) (race_end E) i req"
proof -
  obtain s r where w: "w = (s, r)" by fastforce
  obtain s1 where "redis_acquire R (ce_redis (E n)) (ce_time (E n)) s i req 15000 = (Some True, s1)" "fst w' = s1"
    using a by (auto simp: shared_attempt_def acquireLock_meanwhile_def w Let_def split: if_splits prod.splits)
  then show ?thesis using call_grants [OF assms(1)] in_order_mono [OF assms(1), of n] by simp
qed

lemma cascade_keeps:
  assumes "in_order E" and "in_time E" and "spares R E q"
  shows "held R (fst w) (time_before E n 0) (race_end E) j q \<Longrightarrow> cascade_shared R E n prime req cs w = (got, atts, n', w') \<Longrightarrow>
    held R (fst w') (time_before E n' 0) (race_end E) j q \<and> got \<noteq> Some j"
proof (induction cs arbitrary: n w atts)
  case (Cons c cs)
  show ?case
  proof (cases "c_id c = prime")
    case True
    then show ?thesis using Cons by simp
  next
    case False
    obtain ok w1 where a: "shared_attempt R (E n) (c_id c) req w = (ok, w1)" by (metis surj_pair)
    note k = attempt_keeps [OF assms Cons.prems(1) a]
    show ?thesis
    proof (cases ok)
      case True
      then show ?thesis using Cons.prems(2) k a False by auto
    next
      case refused: False
      obtain got1 atts1 n1 w2 where rest: "cascade_shared R E (Suc n) prime req cs w1 = (got1, atts1, n1, w2)"
        by (metis prod_cases4)
      then show ?thesis using Cons.IH [of w1 "Suc n"] k Cons.prems(2) a False refused by simp
    qed
  qed
qed simp

lemma cascade_grants:
  assumes "in_order E"
  shows "cascade_shared R E n prime req cs w = (Some i, atts, n', w') \<Longrightarrow>
    held R (fst w') (time_before E n' 0) (race_end E) i req \<and> i \<noteq> prime"
proof (induction cs arbitrary: n w atts)
  case (Cons c cs)
  show ?case
  proof (cases "c_id c = prime")
    case True
    then show ?thesis using Cons by simp
  next
    case False
    obtain ok w1 where a: "shared_attempt R (E n) (c_id c) req w = (ok, w1)" by (metis surj_pair)
    show ?thesis
    proof (cases ok)
      case True
      then have "c_id c = i" "w1 = w'" "n' = Suc n" using Cons.prems a False by auto
      then show ?thesis using attempt_grants [OF assms, of n "c_id c" req w w'] a True False by simp
    next
      case refused: False
      obtain got1 atts1 n1 w2 where rest: "cascade_shared R E (Suc n) prime req cs w1 = (got1, atts1, n1, w2)"
        by (metis prod_cases4)
      then show ?thesis using Cons.IH [of "Suc n" w1] Cons.prems a False refused by simp
    qed
  qed
qed simp

end

text \<open>The end of a race in which at most one of the riders has the contended driver.\<close>

context redis_server
begin

lemma race_outcome:
  assumes ord: "in_order E" "in_time E" and A: "spares R E A" and B: "spares R E B"
    and 1: "shared_attempt R (E 0) p A w = (aok, w1)" and 2: "shared_attempt R (E 1) p B w1 = (bok, w2)"
    and 3: "(if bok then (Some p, [], 2, w2) else cascade_shared R E 2 p B bs w2) = (bob, batts, n3, w3)"
    and 4: "(if aok then (Some p, [], n3, w3) else cascade_shared R E n3 p A as w3) = (alice, aatts, n4, w4)"
  shows "(alice = Some j \<longrightarrow> held R (fst w4) (time_before E n4 0) (race_end E) j A \<and> bob \<noteq> Some j) \<and>
    (bob = Some j \<longrightarrow> held R (fst w4) (time_before E n4 0) (race_end E) j B)"
proof -
  have t: "time_before E 1 0 = ce_time (E 0) 3" "time_before E 2 0 = ce_time (E 1) 3" by (simp_all add: time_before_def)
  note keep = cascade_keeps [OF ord] and grant = cascade_grants [OF ord(1)]
  show ?thesis
  proof (cases aok)
    case True
    then have "held R (fst w1) (time_before E 1 0) (race_end E) p A" using attempt_grants [OF ord(1)] 1 t by simp
    from attempt_keeps [OF ord A this 2] have w2: "held R (fst w2) (time_before E 2 0) (race_end E) p A" "\<not> bok" using t by auto
    then have "held R (fst w3) (time_before E n3 0) (race_end E) p A \<and> bob \<noteq> Some p" using keep [OF A w2(1)] 3 by simp
    moreover have "bob = Some j \<Longrightarrow> held R (fst w3) (time_before E n3 0) (race_end E) j B" using grant 3 w2(2) by fastforce
    ultimately show ?thesis using 4 True by auto
  next
    case False
    have bob: "held R (fst w3) (time_before E n3 0) (race_end E) i B" if "bob = Some i" for i
      using 3 that attempt_grants [OF ord(1), of 1 p B w1 w2] 2 t grant by (fastforce split: if_splits)
    have keepB: "held R (fst w4) (time_before E n4 0) (race_end E) i B \<and> alice \<noteq> Some i" if "bob = Some i" for i
      using keep [OF B bob [OF that]] 4 False by simp
    then show ?thesis using 4 False grant by fastforce
  qed
qed

end

text \<open>
  C29. Two riders never get the same driver in the race, as the program runs it: whatever happens in
  the registry while a reservation waits, even a reset of the region, and whatever others send to
  Redis that leaves locks of other requests alone (every lock command of another request and every
  write of a driver's state does), if the race takes less than the fifteen seconds of its first
  reservation, no driver is assigned to both riders, the answer says so, and at the end each rider
  holds the lock of the driver assigned.
\<close>

theorem race_is_isolated:
  assumes "redis_server R" and "in_order E" and "in_time E"
    and "spares R E (''race_alice_'' @ aliceStamp)" and "spares R E (''race_bob_'' @ bobStamp)"
    and "run_race_shared R E w aliceStamp bobStamp prime = (res, n, s', r')"
  shows "(rr_alice res = None \<or> rr_alice res \<noteq> rr_bob res) \<and> rr_duplicateDispatchCount res = 0 \<and>
    (rr_isolationVerified res \<longleftrightarrow> rr_alice res \<noteq> None \<or> rr_bob res \<noteq> None) \<and>
    (\<forall>j u. time_before E n 0 \<le> u \<and> u < race_end E \<longrightarrow>
       (rr_alice res = Some j \<longrightarrow> getLockHolder R s' u j = Some (''race_alice_'' @ aliceStamp)) \<and>
       (rr_bob res = Some j \<longrightarrow> getLockHolder R s' u j = Some (''race_bob_'' @ bobStamp)))"
proof -
  let ?p = "c_id prime" and ?A = "''race_alice_'' @ aliceStamp" and ?B = "''race_bob_'' @ bobStamp"
  let ?as = "findNearbyCandidates (snd w) (c_lat prime + 0.0003) (c_lng prime + 0.0003) 4 15000"
  let ?bs = "findNearbyCandidates (snd w) (c_lat prime + 0.0004) (c_lng prime + 0.0004) 4 15000"
  obtain aok w1 where 1: "shared_attempt R (E 0) ?p ?A w = (aok, w1)" by (metis surj_pair)
  obtain bok w2 where 2: "shared_attempt R (E 1) ?p ?B w1 = (bok, w2)" by (metis surj_pair)
  obtain bob batts n3 w3 where 3: "(if bok then (Some ?p, [], 2, w2) else cascade_shared R E 2 ?p ?B ?bs w2) = (bob, batts, n3, w3)"
    by (metis prod_cases4)
  obtain alice aatts n4 w4 where 4: "(if aok then (Some ?p, [], n3, w3) else cascade_shared R E n3 ?p ?A ?as w3) = (alice, aatts, n4, w4)"
    by (metis prod_cases4)
  have res: "rr_alice res = alice" "rr_bob res = bob" "n = n4" "s' = fst w4"
      "rr_duplicateDispatchCount res = (if alice = bob \<and> alice \<noteq> None then 1 else 0)" "rr_isolationVerified res = (alice \<noteq> bob)"
    using assms(6) unfolding run_race_shared_def Let_def 1 2 3 4 case_prod_conv prod.inject by (auto simp: prod_eq_iff)
  note o = redis_server.race_outcome [OF assms(1-5) 1 2 3 4]
  have "getLockHolder R s' u j = Some q"
    if "held R (fst w4) (time_before E n4 0) (race_end E) j q" "time_before E n4 0 \<le> u" "u < race_end E" "q \<noteq> []" for u j q
    using held_now [OF that(1-3)] that(4) by (simp add: getLockHolder_def res(4))
  then show ?thesis using o unfolding res by (cases alice; cases bob) auto
qed

text \<open>
  A race for the driver of the demonstration, while another client tries to get the same driver
  before every command from Bob's first on.
\<close>

definition demo_calls :: "nat \<Rightarrow> mem_store call_env" where
  "demo_calls n =
    \<lparr>ce_redis = (\<lambda>k s. if n = 0 then s else snd (lock_run mem_redis s [Acquire 5 ''d1'' ''other'' 15000, Commit 5 ''d1'' ''other''])),
     ce_time = (\<lambda>k. if n = 0 then real (min k 3) else 5), ce_now = 0, ce_registry = (\<lambda>r. r), ce_detached = None\<rparr>"

lemma demo_calls_order: "in_order demo_calls" "in_time demo_calls"
  by (auto simp: in_order_def in_time_def time_before_def demo_calls_def)

lemma demo_calls_spare:
  assumes "q \<noteq> ''other''"
  shows "spares mem_redis demo_calls q"
  unfolding spares_def
proof (intro allI impI)
  fix n k s j T
  assume h: "held mem_redis s (time_before demo_calls n k) T j q"
  have le: "time_before demo_calls n k \<le> ce_time (demo_calls n) k" using demo_calls_order(1) by (simp add: in_order_def)
  show "held mem_redis (ce_redis (demo_calls n) k s) (ce_time (demo_calls n) k) T j q"
  proof (cases "n = 0")
    case True
    then show ?thesis using held_later [OF h le order_refl] by (simp add: demo_calls_def)
  next
    case False
    then show ?thesis
      using mem.commands_keep [OF h, of "[Acquire 5 ''d1'' ''other'' 15000, Commit 5 ''d1'' ''other'']" 5] assms le
      by (simp add: demo_calls_def)
  qed
qed

lemma first_has_prime:
  assumes "fst (shared_attempt R (E 0) (c_id prime) (''race_alice_'' @ sa) w)"
  shows "rr_alice (fst (run_race_shared R E w sa sb prime)) = Some (c_id prime)"
  using assms by (auto simp: run_race_shared_def Let_def split: prod.split)

theorem race_is_isolated_witness:
  "let (res, n, s', r') = run_race_shared mem_redis demo_calls (mem_empty, demo_registry) ''7'' ''7'' demo_candidate in
    rr_alice res = Some ''d1'' \<and> rr_bob res \<noteq> Some ''d1'' \<and> rr_isolationVerified res"
proof -
  obtain res n s' r' where r: "run_race_shared mem_redis demo_calls (mem_empty, demo_registry) ''7'' ''7'' demo_candidate = (res, n, s', r')"
    by (metis prod_cases4)
  have "acquire_begin demo_registry ''d1''" and c: "c_id demo_candidate = ''d1''" by code_simp+
  moreover have "fst (redis_acquire mem_redis (ce_redis (demo_calls 0)) (ce_time (demo_calls 0)) mem_empty ''d1'' (''race_alice_'' @ ''7'') 15000) =
      Some True"
    by (simp add: redis_acquire_def eval_acquire_whole demo_calls_def rl_acquireLock_def acquire_lock_lua_def mem_redis_def mem_empty_def mem_get_def)
  ultimately have "fst (shared_attempt mem_redis (demo_calls 0) (c_id demo_candidate) (''race_alice_'' @ ''7'') (mem_empty, demo_registry))"
    by (simp add: shared_attempt_def acquireLock_meanwhile_def split_def Let_def)
  from first_has_prime [of mem_redis demo_calls demo_candidate "''7''" "(mem_empty, demo_registry)" "''7''", OF this]
  have "rr_alice res = Some ''d1''" using r c by simp
  moreover have "''race_alice_'' @ ''7'' \<noteq> ''other''" "''race_bob_'' @ ''7'' \<noteq> ''other''" by simp_all
  note iso = race_is_isolated [OF mem.redis_server_axioms demo_calls_order demo_calls_spare [OF this(1)] demo_calls_spare [OF this(2)] r]
  ultimately show ?thesis using iso r by auto
qed

end
