(* ===== verification/CppBridge.thy ===== *)
theory CppBridge
  imports DriverRegistry
begin

text \<open>
  The pipe to the native engine: \<open>src/spatial/cpp_spatial_bridge.ts\<close>, and the command loop of
  \<open>cpp-engine/engine_bridge.cpp\<close> at its other end, over any index (\<open>native_index\<close>).
  Lines are represented by what they say; a command is known by its position among the commands
  written, and so is the promise that waits for its answer.  \<open>answered\<close> collects the promises in
  the order they are resolved.
\<close>

section \<open>Commands and answers\<close>

datatype bridge_command =
    PING
  | INIT GeoBounds nat nat
  | INSERT string jsnum jsnum
  | UPDATE string jsnum jsnum
  | BATCH_UPDATE "(string \<times> jsnum \<times> jsnum) list"
  | REMOVE string
  | KNN real real int real
  | QUIT

datatype cpp_response =
    Pong
  | InitDone
  | Success string bool
  | Candidates real "CandidateDriver list"
  | Bye
  | ErrorResponse string

text \<open>A line of the engine is an answer, or a text that is no JSON.\<close>

datatype engine_line = Reply cpp_response | Garbled

record CppSpatialBridge =
  hasProcess :: bool
  isReady :: bool
  pendingQueue :: "nat list"
  lastLatencyUs :: real
  totalQueries :: nat
  written :: "bridge_command list"
  answered :: "(nat \<times> cpp_response) list"

definition bridge_new :: CppSpatialBridge where
  "bridge_new = \<lparr>hasProcess = False, isReady = False, pendingQueue = [], lastLatencyUs = 0, totalQueries = 0,
     written = [], answered = []\<rparr>"

text \<open>\<open>/^[a-zA-Z0-9_-]+$/\<close>\<close>

definition safe_char :: "char \<Rightarrow> bool" where
  "safe_char c = (let n = of_char c :: nat in
     (97 \<le> n \<and> n \<le> 122) \<or> (65 \<le> n \<and> n \<le> 90) \<or> (48 \<le> n \<and> n \<le> 57) \<or> n = 95 \<or> n = 45)"

definition isValidId :: "string \<Rightarrow> bool" where
  "isValidId i = (i \<noteq> [] \<and> list_all safe_char i)"

section \<open>Sending and receiving\<close>

definition drainPendingQueue :: "CppSpatialBridge \<Rightarrow> string \<Rightarrow> CppSpatialBridge" where
  "drainPendingQueue b reason =
    b\<lparr>pendingQueue := [], answered := answered b @ map (\<lambda>p. (p, ErrorResponse reason)) (pendingQueue b)\<rparr>"

definition write_line :: "CppSpatialBridge \<Rightarrow> bridge_command \<Rightarrow> CppSpatialBridge" where
  "write_line b c = b\<lparr>written := written b @ [c]\<rparr>"

text \<open>\<open>None\<close> is the answer that there is no engine, given at once.\<close>

definition sendCommand :: "CppSpatialBridge \<Rightarrow> bridge_command \<Rightarrow> nat option \<times> CppSpatialBridge" where
  "sendCommand b c =
    (if \<not> hasProcess b then (None, b)
     else (Some (length (written b)), write_line (b\<lparr>pendingQueue := pendingQueue b @ [length (written b)]\<rparr>) c))"

definition isAvailable :: "CppSpatialBridge \<Rightarrow> bool" where
  "isAvailable b = (isReady b \<and> hasProcess b)"

definition line_received :: "CppSpatialBridge \<Rightarrow> engine_line \<Rightarrow> CppSpatialBridge" where
  "line_received b line =
    (case pendingQueue b of
       [] \<Rightarrow> b
     | p # ps \<Rightarrow> b\<lparr>pendingQueue := ps,
         answered := answered b @ [(p, case line of Reply r \<Rightarrow> r | Garbled \<Rightarrow> ErrorResponse ''JSON_PARSE_ERROR'')]\<rparr>)"

definition stdin_error :: "CppSpatialBridge \<Rightarrow> CppSpatialBridge" where
  "stdin_error b = drainPendingQueue b ''stdin write failed''"

definition process_exit :: "CppSpatialBridge \<Rightarrow> CppSpatialBridge" where
  "process_exit b = drainPendingQueue (b\<lparr>isReady := False, hasProcess := False\<rparr>) ''C++ process exited''"

definition bridge_start :: "CppSpatialBridge \<Rightarrow> bool \<Rightarrow> nat option \<times> CppSpatialBridge" where
  "bridge_start b binaryExists =
    (if \<not> binaryExists then (None, b) else sendCommand (b\<lparr>hasProcess := True\<rparr>) PING)"

definition start_resume :: "CppSpatialBridge \<Rightarrow> cpp_response \<Rightarrow> bool \<times> CppSpatialBridge" where
  "start_resume b r = (if r = Pong then (True, b\<lparr>isReady := True\<rparr>) else (False, b))"

definition bridge_stop :: "CppSpatialBridge \<Rightarrow> CppSpatialBridge" where
  "bridge_stop b =
    (if hasProcess b
     then drainPendingQueue ((write_line b QUIT)\<lparr>hasProcess := False, isReady := False\<rparr>) ''C++ engine bridge stopped''
     else b)"

section \<open>The operations\<close>

definition bridge_initRegion :: "CppSpatialBridge \<Rightarrow> GeoBounds \<Rightarrow> nat \<Rightarrow> nat \<Rightarrow> nat option \<times> CppSpatialBridge" where
  "bridge_initRegion b bounds cap depth =
    (if \<not> isAvailable b then (None, b) else sendCommand b (INIT bounds cap depth))"

definition bridge_insert :: "CppSpatialBridge \<Rightarrow> string \<Rightarrow> jsnum \<Rightarrow> jsnum \<Rightarrow> nat option \<times> CppSpatialBridge" where
  "bridge_insert b i la lo =
    (if \<not> isAvailable b \<or> \<not> isValidId i then (None, b) else sendCommand b (INSERT i la lo))"

definition bridge_update :: "CppSpatialBridge \<Rightarrow> string \<Rightarrow> jsnum \<Rightarrow> jsnum \<Rightarrow> CppSpatialBridge" where
  "bridge_update b i la lo = (if \<not> isAvailable b \<or> \<not> isValidId i then b else write_line b (UPDATE i la lo))"

definition batchUpdate :: "CppSpatialBridge \<Rightarrow> (string \<times> jsnum \<times> jsnum) list \<Rightarrow> CppSpatialBridge" where
  "batchUpdate b updates =
    (if \<not> isAvailable b \<or> updates = [] then b
     else
       (let validUpdates = filter (\<lambda>u. isValidId (fst u)) updates
        in if validUpdates = [] then b else write_line b (BATCH_UPDATE validUpdates)))"

definition bridge_remove :: "CppSpatialBridge \<Rightarrow> string \<Rightarrow> nat option \<times> CppSpatialBridge" where
  "bridge_remove b i = (if \<not> isAvailable b \<or> \<not> isValidId i then (None, b) else sendCommand b (REMOVE i))"

definition bridge_knn :: "CppSpatialBridge \<Rightarrow> real \<Rightarrow> real \<Rightarrow> int \<Rightarrow> real \<Rightarrow> nat option \<times> CppSpatialBridge" where
  "bridge_knn b la lo k radius = (if \<not> isAvailable b then (None, b) else sendCommand b (KNN la lo k radius))"

text \<open>What the callers make of the answers.\<close>

fun success_of :: "cpp_response \<Rightarrow> bool" where
  "success_of (Success i ok) = ok"
| "success_of _ = False"

fun init_ok :: "cpp_response \<Rightarrow> bool" where
  "init_ok (ErrorResponse _) = False"
| "init_ok _ = True"

definition knn_resume :: "CppSpatialBridge \<Rightarrow> cpp_response \<Rightarrow> (CandidateDriver list \<times> real) \<times> CppSpatialBridge" where
  "knn_resume b r =
    (case r of
       ErrorResponse _ \<Rightarrow> (([], 0), b)
     | Candidates latency cs \<Rightarrow> ((cs, latency), b\<lparr>lastLatencyUs := latency, totalQueries := Suc (totalQueries b)\<rparr>)
     | _ \<Rightarrow> (([], 0), b\<lparr>lastLatencyUs := 0, totalQueries := Suc (totalQueries b)\<rparr>))"

section \<open>The engine's command loop\<close>

record 't native_index =
  ni_new :: "GeoBounds \<Rightarrow> nat \<Rightarrow> nat \<Rightarrow> 't"
  ni_insert :: "'t \<Rightarrow> string \<Rightarrow> jsnum \<Rightarrow> jsnum \<Rightarrow> bool \<times> 't"
  ni_update :: "'t \<Rightarrow> string \<Rightarrow> jsnum \<Rightarrow> jsnum \<Rightarrow> bool \<times> 't"
  ni_remove :: "'t \<Rightarrow> string \<Rightarrow> bool \<times> 't"
  ni_knn :: "'t \<Rightarrow> real \<Rightarrow> real \<Rightarrow> int \<Rightarrow> real \<Rightarrow> CandidateDriver list"
  ni_latency :: "'t \<Rightarrow> real"

text \<open>The line a command is answered with, if any, and the index after it.\<close>

fun engine_reply :: "'t native_index \<Rightarrow> 't \<Rightarrow> bridge_command \<Rightarrow> cpp_response option" where
  "engine_reply E t PING = Some Pong"
| "engine_reply E t (INIT b cap depth) = Some InitDone"
| "engine_reply E t (INSERT i la lo) = Some (Success i (fst (ni_insert E t i la lo)))"
| "engine_reply E t (UPDATE i la lo) = None"
| "engine_reply E t (BATCH_UPDATE us) = None"
| "engine_reply E t (REMOVE i) = Some (Success i (fst (ni_remove E t i)))"
| "engine_reply E t (KNN la lo k radius) = Some (Candidates (ni_latency E t) (ni_knn E t la lo k radius))"
| "engine_reply E t QUIT = Some Bye"

fun engine_next :: "'t native_index \<Rightarrow> 't \<Rightarrow> bridge_command \<Rightarrow> 't" where
  "engine_next E t (INIT b cap depth) = ni_new E b cap depth"
| "engine_next E t (INSERT i la lo) = snd (ni_insert E t i la lo)"
| "engine_next E t (UPDATE i la lo) = snd (ni_update E t i la lo)"
| "engine_next E t (BATCH_UPDATE us) = foldl (\<lambda>t (i, la, lo). snd (ni_update E t i la lo)) t us"
| "engine_next E t (REMOVE i) = snd (ni_remove E t i)"
| "engine_next E t _ = t"

section \<open>The mirror of the registry\<close>

text \<open>A call of the registry to its mirror (\<open>setMirror(cppBridge)\<close>).\<close>

fun bridge_mirror :: "CppSpatialBridge \<Rightarrow> index_command \<Rightarrow> CppSpatialBridge" where
  "bridge_mirror b (Insert i la lo) = snd (bridge_insert b i la lo)"
| "bridge_mirror b (Update i la lo) = bridge_update b i la lo"
| "bridge_mirror b (Remove i) = snd (bridge_remove b i)"

end
