(* ===== verification/CppBridgeProperties.thy ===== *)
theory CppBridgeProperties
  imports CppBridge RegistryProperties
begin

text \<open>
  The pipe between the bridge and the engine: answers come back in the order of their commands, each
  promise is resolved once, with the answer to its own command, and the engine's index follows the
  registry's.
\<close>

section \<open>The pipe\<close>

text \<open>
  The bridge, the engine's index, the commands it has read, and the lines on their way back (with the
  position of the command each answers, which the bridge does not see).
\<close>

record 't pipe =
  host :: CppSpatialBridge
  engine_index :: 't
  consumed :: nat
  out_lines :: "(nat \<times> cpp_response) list"
  engine_up :: bool

inductive bridge_op :: "CppSpatialBridge \<Rightarrow> CppSpatialBridge \<Rightarrow> bool" where
  b_start: "bridge_op b (snd (start_resume b r))"
| b_init: "bridge_op b (snd (bridge_initRegion b bounds cap depth))"
| b_insert: "bridge_op b (snd (bridge_insert b i la lo))"
| b_update: "bridge_op b (bridge_update b i la lo)"
| b_batch: "bridge_op b (batchUpdate b us)"
| b_remove: "bridge_op b (snd (bridge_remove b i))"
| b_knn: "bridge_op b (snd (bridge_knn b qla qlo k radius))"
| b_result: "bridge_op b (snd (knn_resume b r))"

text \<open>The flag says whether no write has failed so far.\<close>

inductive pipe_run :: "'t native_index \<Rightarrow> 't \<Rightarrow> bool \<Rightarrow> 't pipe \<Rightarrow> bool" for E :: "'t native_index" and t0 :: 't where
  p_start: "pipe_run E t0 True \<lparr>host = snd (bridge_start bridge_new True), engine_index = t0, consumed = 0, out_lines = [], engine_up = True\<rparr>"
| p_op: "pipe_run E t0 ok p \<Longrightarrow> bridge_op (host p) b' \<Longrightarrow> pipe_run E t0 ok (p\<lparr>host := b'\<rparr>)"
| p_engine: "pipe_run E t0 ok p \<Longrightarrow> engine_up p \<Longrightarrow> consumed p < length (written (host p)) \<Longrightarrow> c = written (host p) ! consumed p \<Longrightarrow>
     pipe_run E t0 ok (p\<lparr>engine_index := engine_next E (engine_index p) c, consumed := Suc (consumed p),
       out_lines := out_lines p @ (case engine_reply E (engine_index p) c of Some r \<Rightarrow> [(consumed p, r)] | None \<Rightarrow> []),
       engine_up := (c \<noteq> QUIT)\<rparr>)"
| p_line: "pipe_run E t0 ok p \<Longrightarrow> out_lines p = (q, r) # ls \<Longrightarrow> l = Reply r \<or> l = Garbled \<Longrightarrow>
     pipe_run E t0 ok (p\<lparr>host := line_received (host p) l, out_lines := ls\<rparr>)"
| p_exit: "pipe_run E t0 ok p \<Longrightarrow> pipe_run E t0 ok (p\<lparr>host := process_exit (host p), engine_up := False\<rparr>)"
| p_stop: "pipe_run E t0 ok p \<Longrightarrow> pipe_run E t0 ok (p\<lparr>host := bridge_stop (host p)\<rparr>)"
| p_write_error: "pipe_run E t0 ok p \<Longrightarrow> pipe_run E t0 False (p\<lparr>host := stdin_error (host p), engine_up := False\<rparr>)"

definition index_at :: "'t native_index \<Rightarrow> 't \<Rightarrow> bridge_command list \<Rightarrow> nat \<Rightarrow> 't" where
  "index_at E t0 cs n = foldl (engine_next E) t0 (take n cs)"

text \<open>The commands that are sent with a promise.\<close>

fun awaits :: "bridge_command \<Rightarrow> bool" where
  "awaits (UPDATE i la lo) = False"
| "awaits (BATCH_UPDATE us) = False"
| "awaits QUIT = False"
| "awaits _ = True"

definition promises :: "bridge_command list \<Rightarrow> nat list" where
  "promises cs = filter (\<lambda>q. awaits (cs ! q)) [0..<length cs]"

definition answers :: "'t native_index \<Rightarrow> 't \<Rightarrow> bridge_command list \<Rightarrow> nat \<times> cpp_response \<Rightarrow> bool" where
  "answers E t0 cs a = (fst a < length cs \<and> engine_reply E (index_at E t0 cs (fst a)) (cs ! fst a) = Some (snd a))"

lemma promises_snoc [simp]: "promises (cs @ [c]) = promises cs @ (if awaits c then [length cs] else [])"
proof -
  have "filter (\<lambda>q. awaits ((cs @ [c]) ! q)) [0..<length cs] = filter (\<lambda>q. awaits (cs ! q)) [0..<length cs]"
    by (rule filter_cong) (simp_all add: nth_append)
  then show ?thesis by (simp add: promises_def)
qed

lemma answers_snoc: "answers E t0 cs a \<Longrightarrow> answers E t0 (cs @ [c]) a"
  by (simp add: answers_def index_at_def nth_append)

lemma answers_awaits: "answers E t0 cs (q, r) \<Longrightarrow> q \<in> set (promises cs) \<or> cs ! q = QUIT"
  by (cases "cs ! q") (auto simp: answers_def promises_def)

section \<open>What a bridge operation writes\<close>

lemma bridge_op_cases:
  assumes "bridge_op b b'"
  shows "(written b' = written b \<and> pendingQueue b' = pendingQueue b \<or>
      (\<exists>c. c \<noteq> QUIT \<and> hasProcess b \<and> written b' = written b @ [c] \<and>
         pendingQueue b' = pendingQueue b @ (if awaits c then [length (written b)] else []))) \<and>
    answered b' = answered b \<and> hasProcess b' = hasProcess b"
  using assms
  by cases (auto simp: start_resume_def bridge_initRegion_def bridge_insert_def bridge_update_def batchUpdate_def bridge_remove_def
      bridge_knn_def knn_resume_def sendCommand_def isAvailable_def write_line_def Let_def split: cpp_response.split)

text \<open>Every promise is resolved or waits, in the order of the commands; without a process none waits.\<close>

definition queue_ok :: "CppSpatialBridge \<Rightarrow> bool" where
  "queue_ok b = (map fst (answered b) @ pendingQueue b = promises (written b) \<and> (\<not> hasProcess b \<longrightarrow> pendingQueue b = []))"

lemma queue_ok_op: "queue_ok b \<Longrightarrow> bridge_op b b' \<Longrightarrow> queue_ok b'"
  using bridge_op_cases [of b b'] by (auto simp: queue_ok_def simp del: append_assoc simp flip: append_assoc)

lemma pipe_queue_ok: "pipe_run E t0 ok p \<Longrightarrow> queue_ok (host p)"
proof (induction rule: pipe_run.induct)
  case p_start
  show ?case by (simp add: queue_ok_def bridge_start_def sendCommand_def bridge_new_def write_line_def promises_def)
next
  case (p_op ok p b')
  then show ?case using queue_ok_op by simp
next
  case (p_line ok p q r ls l)
  then show ?case by (auto simp: queue_ok_def line_received_def split: list.split)
next
  case (p_stop ok p)
  then show ?case by (auto simp: queue_ok_def bridge_stop_def drainPendingQueue_def write_line_def comp_def)
qed (auto simp: queue_ok_def process_exit_def stdin_error_def drainPendingQueue_def comp_def)

section \<open>Runs without a failed write\<close>

lemma index_at_snoc: "n \<le> length cs \<Longrightarrow> index_at E t0 (cs @ [c]) n = index_at E t0 cs n"
  by (simp add: index_at_def)

lemma index_at_Suc: "n < length cs \<Longrightarrow> index_at E t0 cs (Suc n) = engine_next E (index_at E t0 cs n) (cs ! n)"
  by (simp add: index_at_def take_Suc_conv_app_nth)

lemma reply_awaits: "c \<noteq> QUIT \<Longrightarrow> (engine_reply E t c = None) = (\<not> awaits c)"
  by (cases c) simp_all

definition waiting_from :: "bridge_command list \<Rightarrow> nat \<Rightarrow> nat list" where
  "waiting_from cs n = filter (\<lambda>q. awaits (cs ! q)) [n..<length cs]"

lemma waiting_snoc: "n \<le> length cs \<Longrightarrow> waiting_from (cs @ [c]) n = waiting_from cs n @ (if awaits c then [length cs] else [])"
proof -
  have "filter (\<lambda>q. awaits ((cs @ [c]) ! q)) [n..<length cs] = filter (\<lambda>q. awaits (cs ! q)) [n..<length cs]"
    by (rule filter_cong) (simp_all add: nth_append)
  then show "n \<le> length cs \<Longrightarrow> ?thesis" by (simp add: waiting_from_def)
qed

lemma waiting_Cons: "n < length cs \<Longrightarrow> waiting_from cs n = (if awaits (cs ! n) then [n] else []) @ waiting_from cs (Suc n)"
  by (simp add: waiting_from_def upt_conv_Cons)

definition fine :: "'t native_index \<Rightarrow> 't \<Rightarrow> bridge_command list \<Rightarrow> nat \<times> cpp_response \<Rightarrow> bool" where
  "fine E t0 cs a = (answers E t0 cs a \<or> (\<exists>e. snd a = ErrorResponse e))"

definition pipe_inv :: "'t native_index \<Rightarrow> 't \<Rightarrow> 't pipe \<Rightarrow> bool" where
  "pipe_inv E t0 p =
    (consumed p \<le> length (written (host p)) \<and> engine_index p = index_at E t0 (written (host p)) (consumed p) \<and>
     list_all (answers E t0 (written (host p))) (out_lines p) \<and> list_all (fine E t0 (written (host p))) (answered (host p)) \<and>
     (hasProcess (host p) \<longrightarrow> QUIT \<notin> set (written (host p)) \<and>
        pendingQueue (host p) = map fst (out_lines p) @ waiting_from (written (host p)) (consumed p)))"

lemma fine_errors: "list_all (fine E t0 cs) (map (\<lambda>p. (p, ErrorResponse e)) ps)"
  by (induction ps) (simp_all add: fine_def)

lemma all_snoc:
  "list_all (answers E t0 cs) as \<Longrightarrow> list_all (answers E t0 (cs @ [c])) as"
  "list_all (fine E t0 cs) as \<Longrightarrow> list_all (fine E t0 (cs @ [c])) as"
  using answers_snoc by (auto simp: fine_def elim!: list.pred_mono_strong)

lemma pipe_inv_op:
  assumes inv: "pipe_inv E t0 p" and op: "bridge_op (host p) b'"
  shows "pipe_inv E t0 (p\<lparr>host := b'\<rparr>)"
proof -
  note C = bridge_op_cases [OF op]
  consider "written b' = written (host p)" "pendingQueue b' = pendingQueue (host p)"
    | c where "c \<noteq> QUIT" "hasProcess (host p)" "written b' = written (host p) @ [c]"
      "pendingQueue b' = pendingQueue (host p) @ (if awaits c then [length (written (host p))] else [])"
    using C by blast
  then show ?thesis
  proof cases
    case 1
    then show ?thesis using inv C by (simp add: pipe_inv_def)
  next
    case 2
    then show ?thesis
      using inv C all_snoc [of E t0 "written (host p)" _ c] waiting_snoc [of "consumed p" "written (host p)" c]
        index_at_snoc [of "consumed p" "written (host p)" E t0 c]
      by (simp add: pipe_inv_def)
  qed
qed

lemma pipe_inv_engine:
  assumes inv: "pipe_inv E t0 p" and n: "consumed p < length (written (host p))" and c: "c = written (host p) ! consumed p"
  shows "pipe_inv E t0 (p\<lparr>engine_index := engine_next E (engine_index p) c, consumed := Suc (consumed p),
       out_lines := out_lines p @ (case engine_reply E (engine_index p) c of Some r \<Rightarrow> [(consumed p, r)] | None \<Rightarrow> []),
       engine_up := (c \<noteq> QUIT)\<rparr>)"
proof -
  let ?l = "case engine_reply E (engine_index p) c of Some r \<Rightarrow> [(consumed p, r)] | None \<Rightarrow> []"
  have idx: "engine_index p = index_at E t0 (written (host p)) (consumed p)" using inv by (simp add: pipe_inv_def)
  have "list_all (answers E t0 (written (host p))) ?l" using n c idx by (simp add: answers_def split: option.split)
  moreover have "map fst ?l = (if awaits c then [consumed p] else [])" if "QUIT \<notin> set (written (host p))"
  proof -
    have "c \<noteq> QUIT" using that nth_mem [OF n] c by auto
    then show ?thesis using reply_awaits [of c E "engine_index p"] by (cases "engine_reply E (engine_index p) c") auto
  qed
  ultimately show ?thesis
    using inv n c idx index_at_Suc [OF n, of E t0] waiting_Cons [OF n] by (simp add: pipe_inv_def)
qed

lemma pipe_run_inv: "pipe_run E t0 ok p \<Longrightarrow> ok \<Longrightarrow> pipe_inv E t0 p"
proof (induction rule: pipe_run.induct)
  case p_start
  show ?case
    by (simp add: pipe_inv_def bridge_start_def sendCommand_def bridge_new_def write_line_def index_at_def waiting_from_def)
next
  case (p_op ok p b')
  show ?case by (rule pipe_inv_op [OF p_op.IH [OF p_op.prems] p_op.hyps(2)])
next
  case (p_engine ok p c)
  show ?case by (rule pipe_inv_engine [OF p_engine.IH [OF p_engine.prems] p_engine.hyps(3,4)])
next
  case (p_line ok p q r ls l)
  have inv: "pipe_inv E t0 p" using p_line by simp
  show ?case
  proof (cases "hasProcess (host p)")
    case True
    then have "pendingQueue (host p) = q # map fst ls @ waiting_from (written (host p)) (consumed p)"
      using inv p_line.hyps(2) by (simp add: pipe_inv_def)
    then show ?thesis using inv p_line.hyps(2,3) by (auto simp: pipe_inv_def line_received_def fine_def)
  next
    case False
    then have "pendingQueue (host p) = []" using pipe_queue_ok [OF p_line.hyps(1)] by (simp add: queue_ok_def)
    then show ?thesis using inv False p_line.hyps(2) by (simp add: pipe_inv_def line_received_def)
  qed
next
  case (p_exit ok p)
  then show ?case by (simp add: pipe_inv_def process_exit_def drainPendingQueue_def fine_errors)
next
  case (p_stop ok p)
  then show ?case
    using all_snoc [of E t0 "written (host p)" _ QUIT] index_at_snoc [of "consumed p" "written (host p)" E t0 QUIT]
    by (auto simp: pipe_inv_def bridge_stop_def drainPendingQueue_def write_line_def fine_errors simp flip: map_map)
qed simp

section \<open>Properties\<close>


text \<open>An engine whose index is the quadtree of the server itself.\<close>

definition quad_engine :: "QuadTree native_index" where
  "quad_engine = \<lparr>ni_new = qt_new, ni_insert = qt_insert, ni_update = qt_update, ni_remove = qt_remove,
     ni_knn = (\<lambda>t la lo k r. []), ni_latency = (\<lambda>_. 1)\<rparr>"

text \<open>Started; an insertion; the engine answers both commands, the second answer still on its way.\<close>

definition demo_started :: "QuadTree pipe" where
  "demo_started = \<lparr>host = snd (start_resume (line_received (snd (bridge_start bridge_new True)) (Reply Pong)) Pong),
     engine_index = qt_new demo_city 2 3, consumed = 1, out_lines = [], engine_up = True\<rparr>"

lemma demo_started_run: "pipe_run quad_engine (qt_new demo_city 2 3) True demo_started"
proof -
  let ?p0 = "\<lparr>host = snd (bridge_start bridge_new True), engine_index = qt_new demo_city 2 3, consumed = 0, out_lines = [], engine_up = True\<rparr>"
  let ?p1 = "?p0\<lparr>consumed := 1, out_lines := [(0, Pong)]\<rparr>"
  have w: "written (snd (bridge_start bridge_new True)) = [PING]"
    by (simp add: bridge_start_def sendCommand_def bridge_new_def write_line_def)
  have "pipe_run quad_engine (qt_new demo_city 2 3) True ?p1"
    using p_engine [OF p_start, where c = PING and E = quad_engine and ?t0.0 = "qt_new demo_city 2 3"] w by simp
  from p_op [OF p_line [OF this, of 0 Pong "[]" "Reply Pong"] b_start [of _ Pong]] show ?thesis
    by (simp add: demo_started_def)
qed

definition demo_inserted :: "QuadTree pipe" where
  "demo_inserted = (let p = demo_started\<lparr>host := snd (bridge_insert (host demo_started) ''d1'' (Fin 13) (Fin 77.5))\<rparr> in
     p\<lparr>engine_index := snd (qt_insert (engine_index p) ''d1'' (Fin 13) (Fin 77.5)), consumed := 2, out_lines := [(1, Success ''d1'' True)]\<rparr>)"

lemma demo_bridge_view:
  "written (host demo_inserted) = [PING, INSERT ''d1'' (Fin 13) (Fin 77.5)]" "pendingQueue (host demo_inserted) = [1]"
  "isReady (host demo_inserted)" "hasProcess (host demo_inserted)" "answered (host demo_inserted) = [(0, Pong)]"
  by (simp_all add: demo_inserted_def demo_started_def bridge_start_def sendCommand_def bridge_new_def write_line_def line_received_def
      start_resume_def bridge_insert_def isAvailable_def isValidId_def safe_char_def Let_def)

lemma demo_inserted_run: "pipe_run quad_engine (qt_new demo_city 2 3) True demo_inserted"
proof -
  let ?p = "demo_started\<lparr>host := snd (bridge_insert (host demo_started) ''d1'' (Fin 13) (Fin 77.5))\<rparr>"
  have w: "written (host ?p) = [PING, INSERT ''d1'' (Fin 13) (Fin 77.5)]"
    using demo_bridge_view(1) by (simp add: demo_inserted_def Let_def)
  have ok: "fst (qt_insert (qt_new demo_city 2 3) ''d1'' (Fin 13) (Fin 77.5))" by code_simp
  have p: "pipe_run quad_engine (qt_new demo_city 2 3) True ?p" by (rule p_op [OF demo_started_run b_insert])
  have up: "engine_up ?p" and n: "consumed ?p < length (written (host ?p))"
    and c: "INSERT ''d1'' (Fin 13) (Fin 77.5) = written (host ?p) ! consumed ?p"
    unfolding w by (simp_all add: demo_started_def)
  show ?thesis
    using p_engine [OF p up n c] ok by (simp add: demo_inserted_def Let_def quad_engine_def demo_started_def numeral_2_eq_2)
qed


lemma mirror_writes:
  "isAvailable b \<Longrightarrow> isAvailable (bridge_mirror b c)"
  "isAvailable b \<Longrightarrow> (\<forall>i la lo. c = Insert i la lo \<or> c = Update i la lo \<or> c = Remove i \<longrightarrow> isValidId i) \<Longrightarrow>
    written (bridge_mirror b c) = written b @ [case c of Insert i la lo \<Rightarrow> INSERT i la lo | Update i la lo \<Rightarrow> UPDATE i la lo | Remove i \<Rightarrow> REMOVE i]"
  by (cases c; simp add: bridge_insert_def bridge_update_def bridge_remove_def sendCommand_def write_line_def isAvailable_def)+

text \<open>
  C24. Through the pipe the engine's index follows the registry: when the registry's calls to its
  mirror go to an available bridge, all drivers' names can be sent, the engine's index keeps
  the laws of a mirror and holds what the registry's index holds, then, once the engine has read
  everything, it holds again what the registry's index holds after the operation.
\<close>

theorem mirror_through_pipe:
  assumes "registry_run r" and "registry_op r r'" and "mirrorLog r' = mirrorLog r @ cs"
    and "mirrored_index (ni_insert E) (ni_update E) (ni_remove E) pos region good"
    and "good t" and "region t = qt_region (spatialIndex r)" and "pos t = qt_pos (spatialIndex r)"
    and "isAvailable b" and "\<forall>c\<in>set cs. \<forall>i la lo. c = Insert i la lo \<or> c = Update i la lo \<or> c = Remove i \<longrightarrow> isValidId i"
  shows "\<exists>ws. written (foldl bridge_mirror b cs) = written b @ ws \<and>
    pos (foldl (engine_next E) t ws) = qt_pos (spatialIndex r')"
proof -
  let ?cmd = "\<lambda>c. case c of Insert i la lo \<Rightarrow> INSERT i la lo | Update i la lo \<Rightarrow> UPDATE i la lo | Remove i \<Rightarrow> REMOVE i"
  let ?exec = "mirrored_index.exec (ni_insert E) (ni_update E) (ni_remove E)"
  have w: "written (foldl bridge_mirror b cs) = written b @ map ?cmd cs" if "isAvailable b"
      "\<forall>c\<in>set cs. \<forall>i la lo. c = Insert i la lo \<or> c = Update i la lo \<or> c = Remove i \<longrightarrow> isValidId i" for b cs
    using that
  proof (induction cs arbitrary: b)
    case (Cons c cs)
    show ?case using Cons.IH [OF mirror_writes(1) [OF Cons.prems(1), of c]] Cons.prems mirror_writes(2) [OF Cons.prems(1), of c] by simp
  qed simp
  have e: "engine_next E x (?cmd c) = ?exec x c" for x c
    by (cases c) (simp_all add: mirrored_index.exec.simps [OF assms(4)])
  have f: "foldl (engine_next E) x (map ?cmd cs) = foldl ?exec x cs" for x cs
    by (induction cs arbitrary: x) (simp_all add: e)
  have "registry_step r r'" using registry_op_step [OF assms(2) registry_run_inv [OF assms(1)]] .
  then have "list_all (inside (reg_region r)) cs"
      "qt_pos (spatialIndex r') = foldl (\<lambda>m c. abstract_command (reg_region r) c m) (qt_pos (spatialIndex r)) cs"
    using assms(3) by (auto simp: registry_step_def)
  then have "pos (foldl ?exec t cs) = qt_pos (spatialIndex r')"
    using mirrored_index.exec_all_inside [OF assms(4,5), of cs] assms(6,7) by auto
  then show ?thesis using w [OF assms(8,9)] f by auto
qed

theorem mirror_through_pipe_witness:
  "let b = foldl bridge_mirror (host demo_started) [Remove ''d1''] in
     (\<exists>ws. written b = [PING] @ ws \<and>
        qt_pos (foldl (engine_next quad_engine) (spatialIndex demo_registry) ws) =
          qt_pos (spatialIndex (snd (acquireLock demo_registry 5 ''d1'' ''r1'' 100))))"
proof -
  have log: "mirrorLog (snd (acquireLock demo_registry 5 ''d1'' ''r1'' 100)) = mirrorLog demo_registry @ [Remove ''d1'']" by code_simp
  have idx: "mirrored_index (ni_insert quad_engine) (ni_update quad_engine) (ni_remove quad_engine) qt_pos qt_region qt_inv"
    using qt.mirrored_index_axioms by (simp add: quad_engine_def)
  have inv: "qt_inv (spatialIndex demo_registry)" using registry_run_inv [OF demo_registry_run] by (simp add: reg_inv_def)
  have b: "isAvailable (host demo_started)" "written (host demo_started) = [PING]"
    by (simp_all add: demo_started_def bridge_start_def sendCommand_def bridge_new_def write_line_def line_received_def start_resume_def isAvailable_def)
  have ids: "\<forall>c\<in>set [Remove ''d1'']. \<forall>i la lo. c = Insert i la lo \<or> c = Update i la lo \<or> c = Remove i \<longrightarrow> isValidId i"
    by (simp add: isValidId_def safe_char_def)
  from mirror_through_pipe [OF demo_registry_run op_acquire log idx inv refl refl b(1) ids] show ?thesis
    unfolding b(2) Let_def .
qed

text \<open>
  After a failed write the pairing can be lost: the waiting promises are resolved with errors, but
  the lines the engine had already sent still arrive, and the first of them resolves the next call
  with the answer to an earlier command.
\<close>

theorem late_line_answers_other_call:
  assumes "pipe_run E t0 True p" and "out_lines p = (q, r) # ls" and "isAvailable (host p)" and "isValidId i"
  shows "\<exists>p'. pipe_run E t0 False p' \<and> (length (written (host p)), r) \<in> set (answered (host p')) \<and>
    written (host p') = written (host p) @ [INSERT i la lo] \<and> q < length (written (host p)) \<and>
    engine_reply E (foldl (engine_next E) t0 (take q (written (host p)))) (written (host p) ! q) = Some r"
proof -
  let ?e = "p\<lparr>host := stdin_error (host p), engine_up := False\<rparr>"
  let ?i = "?e\<lparr>host := snd (bridge_insert (host ?e) i la lo)\<rparr>"
  have host: "host ?i = (write_line (stdin_error (host p)) (INSERT i la lo))\<lparr>pendingQueue := [length (written (host p))]\<rparr>"
    using assms(3,4) by (simp add: bridge_insert_def isAvailable_def stdin_error_def drainPendingQueue_def sendCommand_def write_line_def)
  have "pipe_run E t0 False (?i\<lparr>host := line_received (host ?i) (Reply r), out_lines := ls\<rparr>)"
    by (rule p_line [OF p_op [OF p_write_error [OF assms(1)] b_insert]]) (use assms(2) in simp_all)
  moreover have "(length (written (host p)), r) \<in> set (answered (line_received (host ?i) (Reply r)))"
    "written (line_received (host ?i) (Reply r)) = written (host p) @ [INSERT i la lo]"
    unfolding host by (simp_all add: line_received_def write_line_def stdin_error_def drainPendingQueue_def)
  moreover have "answers E t0 (written (host p)) (q, r)"
    using pipe_run_inv [OF assms(1)] assms(2) by (simp add: pipe_inv_def)
  ultimately show ?thesis
    by (intro exI [of _ "?i\<lparr>host := line_received (host ?i) (Reply r), out_lines := ls\<rparr>"]) (simp add: answers_def index_at_def)
qed

theorem late_line_answers_other_call_witness:
  "\<exists>p'. pipe_run quad_engine (qt_new demo_city 2 3) False p' \<and> (2, Success ''d1'' True) \<in> set (answered (host p')) \<and>
    written (host p') ! 2 = INSERT ''d2'' (Fin 13) (Fin 77.5)"
proof -
  have out: "out_lines demo_inserted = (1, Success ''d1'' True) # []" by (simp add: demo_inserted_def Let_def)
  have av: "isAvailable (host demo_inserted)" by (simp add: isAvailable_def demo_bridge_view)
  have v: "isValidId ''d2''" by (simp add: isValidId_def safe_char_def)
  from late_line_answers_other_call [OF demo_inserted_run out av v, of "Fin 13" "Fin 77.5"] obtain p' where
    "pipe_run quad_engine (qt_new demo_city 2 3) False p'" "(length (written (host demo_inserted)), Success ''d1'' True) \<in> set (answered (host p'))"
    "written (host p') = written (host demo_inserted) @ [INSERT ''d2'' (Fin 13) (Fin 77.5)]" by blast
  then show ?thesis by (intro exI [of _ p']) (simp add: demo_bridge_view numeral_2_eq_2)
qed

end
