(* ===== verification/EngineFeed.thy ===== *)
theory EngineFeed
  imports CppBridgeProperties ServerProperties
begin

text \<open>
  How the server fills the native engine (\<open>src/server.ts\<close>): once the engine has started, and
  after every reset of the region, it is told the region and the positions of all virtual drivers.
  A reset brings the engine's index in step with the registry's, from where the mirror keeps it; an
  engine that starts later than the first rides gets drivers that are not free as well.
\<close>

section \<open>The commands\<close>

definition feed_driver :: "CppSpatialBridge \<Rightarrow> VirtualDriver \<Rightarrow> CppSpatialBridge" where
  "feed_driver b d = snd (bridge_insert b (v_id d) (Fin (v_lat d)) (Fin (v_lng d)))"

definition feed_region :: "CppSpatialBridge \<Rightarrow> GeoBounds \<Rightarrow> Simulator \<Rightarrow> CppSpatialBridge" where
  "feed_region b bounds sim = foldl feed_driver (snd (bridge_initRegion b bounds 8 7)) (getAllVirtualDrivers sim)"

definition engine_started :: "CppSpatialBridge \<Rightarrow> bool \<Rightarrow> GeoBounds \<Rightarrow> Simulator \<Rightarrow> CppSpatialBridge" where
  "engine_started b ok bounds sim = (if ok then feed_region b bounds sim else b)"

definition reset_engine :: "CppSpatialBridge \<Rightarrow> GeoBounds \<Rightarrow> Simulator \<Rightarrow> CppSpatialBridge" where
  "reset_engine b bounds sim = (if isAvailable b then feed_region b bounds sim else b)"

lemma feed_drivers_written:
  assumes "isAvailable b" and "\<forall>d\<in>set ds. isValidId (v_id d)"
  shows "isAvailable (foldl feed_driver b ds) \<and>
    written (foldl feed_driver b ds) = written b @ map (\<lambda>d. INSERT (v_id d) (Fin (v_lat d)) (Fin (v_lng d))) ds"
  using assms
proof (induction ds arbitrary: b)
  case (Cons d ds)
  have "isAvailable (feed_driver b d)" "written (feed_driver b d) = written b @ [INSERT (v_id d) (Fin (v_lat d)) (Fin (v_lng d))]"
    using Cons.prems by (simp_all add: feed_driver_def bridge_insert_def sendCommand_def write_line_def isAvailable_def)
  then show ?case using Cons.IH [of "feed_driver b d"] Cons.prems(2) by simp
qed simp

lemma feed_region_written:
  assumes "isAvailable b" and "\<forall>d\<in>set (getAllVirtualDrivers sim). isValidId (v_id d)"
  shows "written (feed_region b bounds sim) =
    written b @ INIT bounds 8 7 # map (\<lambda>d. INSERT (v_id d) (Fin (v_lat d)) (Fin (v_lng d))) (getAllVirtualDrivers sim)"
proof -
  have "isAvailable (snd (bridge_initRegion b bounds 8 7))" "written (snd (bridge_initRegion b bounds 8 7)) = written b @ [INIT bounds 8 7]"
    using assms(1) by (simp_all add: bridge_initRegion_def sendCommand_def write_line_def isAvailable_def)
  then show ?thesis using feed_drivers_written [OF _ assms(2)] by (simp add: feed_region_def)
qed

section \<open>The engine's index afterwards\<close>

text \<open>What a new index of the engine is.\<close>

definition fresh_index :: "'t native_index \<Rightarrow> ('t \<Rightarrow> string \<Rightarrow> (real \<times> real) option) \<Rightarrow> ('t \<Rightarrow> GeoBounds) \<Rightarrow> ('t \<Rightarrow> bool) \<Rightarrow> bool" where
  "fresh_index E pos region good = (\<forall>b cap depth. bounds_ok b \<longrightarrow>
     good (ni_new E b cap depth) \<and> region (ni_new E b cap depth) = b \<and> pos (ni_new E b cap depth) = (\<lambda>_. None))"

lemma inserts_map:
  assumes "jm_ok m" and "\<And>i v. jm_get m i = Some v \<Longrightarrow> v_id v = i"
  shows "foldl (\<lambda>p c. abstract_command b c p) (\<lambda>_. None) (map (\<lambda>d. Insert (v_id d) (Fin (v_lat d)) (Fin (v_lng d))) (jm_values m)) i =
    Option.bind (jm_get m i) (\<lambda>v. position_of b (Fin (v_lat v)) (Fin (v_lng v)))"
  using assms
proof (induction m rule: rev_induct)
  case (snoc kv m)
  obtain k v where kv: "kv = (k, v)" by fastforce
  have fresh: "jm_get m k = None" using snoc.prems(1) by (simp add: kv map_of_eq_None_iff)
  have "v_id v = k" using snoc.prems(2) [of k v] fresh by (simp add: kv map_add_def)
  moreover have "v_id w = j" if "jm_get m j = Some w" for j w
    using snoc.prems(2) [of j w] that fresh by (auto simp: kv map_add_def)
  moreover have "jm_get (m @ [(k, v)]) i = (if i = k then Some v else jm_get m i)"
    using fresh by (auto simp: map_add_def split: option.split)
  ultimately show ?case using snoc.IH snoc.prems(1) unfolding kv by simp
qed simp

lemma engine_after_feed:
  assumes "mirrored_index (ni_insert E) (ni_update E) (ni_remove E) pos region good" and "fresh_index E pos region good" and "bounds_ok b"
    and "jm_ok (virtualDrivers sim)" and "\<And>i v. jm_get (virtualDrivers sim) i = Some v \<Longrightarrow> v_id v = i"
    and "\<And>d. d \<in> set (getAllVirtualDrivers sim) \<Longrightarrow> in_region b (Fin (v_lat d)) (Fin (v_lng d))"
  shows "pos (foldl (engine_next E) t (INIT b 8 7 # map (\<lambda>d. INSERT (v_id d) (Fin (v_lat d)) (Fin (v_lng d))) (getAllVirtualDrivers sim))) i =
    Option.bind (jm_get (virtualDrivers sim) i) (\<lambda>v. position_of b (Fin (v_lat v)) (Fin (v_lng v)))"
proof -
  let ?exec = "mirrored_index.exec (ni_insert E) (ni_update E) (ni_remove E)"
  let ?cs = "map (\<lambda>d. Insert (v_id d) (Fin (v_lat d)) (Fin (v_lng d))) (getAllVirtualDrivers sim)"
  have run: "foldl (engine_next E) x (map (\<lambda>d. INSERT (v_id d) (Fin (v_lat d)) (Fin (v_lng d))) ds) =
      foldl ?exec x (map (\<lambda>d. Insert (v_id d) (Fin (v_lat d)) (Fin (v_lng d))) ds)" for x ds
    by (induction ds arbitrary: x) (simp_all add: mirrored_index.exec.simps [OF assms(1)])
  have new: "good (ni_new E b 8 7)" "region (ni_new E b 8 7) = b" "pos (ni_new E b 8 7) = (\<lambda>_. None)"
    using assms(2,3) by (simp_all add: fresh_index_def)
  have ins: "list_all (inside (region (ni_new E b 8 7))) ?cs" using assms(6) new(2) by (simp add: list_all_iff)
  have "pos (foldl ?exec (ni_new E b 8 7) ?cs) = foldl (\<lambda>m c. abstract_command b c m) (\<lambda>_. None) ?cs"
    using mirrored_index.exec_all_inside [OF assms(1) new(1) ins] unfolding new(2,3) by blast
  then show ?thesis
    using inserts_map [OF assms(4,5), of b i] by (simp only: foldl.simps engine_next.simps run getAllVirtualDrivers_def)
qed

text \<open>
  An engine that becomes ready while a virtual driver is not free: the engine's index has the driver,
  the registry's has not, until a command of the mirror happens to name him.
\<close>

lemma late_engine_holds_reserved_driver:
  assumes "mirrored_index (ni_insert E) (ni_update E) (ni_remove E) pos region good" and "fresh_index E pos region good"
    and "reg_inv r" and "bounds_ok (reg_region r)"
    and "jm_ok (virtualDrivers sim)" and "\<And>i v. jm_get (virtualDrivers sim) i = Some v \<Longrightarrow> v_id v = i \<and> isValidId i"
    and "\<And>d. d \<in> set (getAllVirtualDrivers sim) \<Longrightarrow> in_region (reg_region r) (Fin (v_lat d)) (Fin (v_lng d))"
    and "isAvailable b" and "jm_get (virtualDrivers sim) i \<noteq> None" and "getDriver r i = Some d" and "\<not> searchable d"
  shows "\<exists>ws. written (engine_started b True (reg_region r) sim) = written b @ ws \<and>
    pos (foldl (engine_next E) t ws) i \<noteq> None \<and> qt_pos (spatialIndex r) i = None"
proof -
  obtain v where v: "jm_get (virtualDrivers sim) i = Some v" using assms(9) by blast
  then have "v \<in> set (getAllVirtualDrivers sim)" by (force simp: getAllVirtualDrivers_def dest: map_of_SomeD)
  then have "position_of (reg_region r) (Fin (v_lat v)) (Fin (v_lng v)) \<noteq> None" using assms(7) by simp
  moreover have "isValidId (v_id d)" if "d \<in> set (getAllVirtualDrivers sim)" for d
  proof -
    obtain k where "(k, d) \<in> set (virtualDrivers sim)" using \<open>d \<in> set (getAllVirtualDrivers sim)\<close> by (auto simp: getAllVirtualDrivers_def)
    then have "jm_get (virtualDrivers sim) k = Some d" using assms(5) by simp
    then show ?thesis using assms(6) by metis
  qed
  moreover have "qt_pos (spatialIndex r) i = None"
    using reg_invD(4) [OF assms(3), of i] assms(10,11) by (simp add: record_pos_def getDriver_def)
  moreover have "v_id w = j" if "jm_get (virtualDrivers sim) j = Some w" for j w using assms(6) that by blast
  ultimately show ?thesis
    using feed_region_written [OF assms(8), of sim "reg_region r"] engine_after_feed [OF assms(1,2,4,5) _ assms(7), of t i] v
    by (simp add: engine_started_def)
qed

section \<open>After a reset\<close>

lemma show_nat_digits: "list_all safe_char (show_nat n) \<and> show_nat n \<noteq> []"
proof (induction n rule: show_nat.induct)
  case (1 n)
  have "safe_char (char_of (m + 48))" if "m < 10" for m :: nat
    using that by (simp add: safe_char_def Let_def)
  then show ?case using 1 by (simp add: show_nat.simps [of n])
qed

lemma sim_driver_id_valid: "isValidId (sim_driver_id k)"
  using show_nat_digits [of k] by (simp add: isValidId_def sim_driver_id_def) (simp add: safe_char_def)

text \<open>
  C34. A reset puts the engine right: whatever the engine held, once it has read the commands that a reset
  sends to an available bridge, its index holds the drivers at the positions that the registry's new
  index holds, all of them and no others.
\<close>

theorem reset_realigns_engine:
  assumes "unit_randoms rnds" and "post_reset v now rnds auth bounds city dc = ((200, body), v')"
    and "mirrored_index (ni_insert E) (ni_update E) (ni_remove E) pos region good" and "fresh_index E pos region good"
    and "isAvailable b"
  shows "\<exists>ws. written (reset_engine b (activeBounds v') (simulator v')) = written b @ ws \<and>
    pos (foldl (engine_next E) t ws) = qt_pos (spatialIndex (server_registry v'))"
proof -
  let ?B = "activeBounds v'" and ?sim = "simulator v'" and ?r = "server_registry v'"
  obtain n where ok: "bounds_ok ?B" and S: "seeded ?B (sim_driver_id ` {1..n}) (?sim, ?r)" and P: "placed (?sim, ?r)"
    using post_reset_seeded [OF assms(1,2)] by blast
  have m: "jm_ok (virtualDrivers ?sim)" using P by (simp add: placed_def)
  have vd: "v_id w = i \<and> i \<in> range sim_driver_id \<and>
      (\<exists>e. jm_get (drivers ?r) i = Some e \<and> searchable e \<and> d_lat e = Fin (v_lat w) \<and> d_lng e = Fin (v_lng w))"
    if "jm_get (virtualDrivers ?sim) i = Some w" for i w
  proof -
    have free: "\<And>i e. jm_get (drivers ?r) i = Some e \<Longrightarrow> searchable e" using S by (simp add: seeded_def)
    have "v_id w = i \<and> i \<in> range sim_driver_id \<and> (\<exists>e. jm_get (drivers ?r) i = Some e \<and> d_lat e = Fin (v_lat w) \<and> d_lng e = Fin (v_lng w))"
      using P that by (simp add: placed_def)
    then show ?thesis using free by blast
  qed
  have inv: "reg_inv ?r" "reg_region ?r = ?B" using S by (simp_all add: seeded_def)
  have all: "isValidId (v_id w) \<and> in_region ?B (Fin (v_lat w)) (Fin (v_lng w))" if w: "w \<in> set (getAllVirtualDrivers ?sim)" for w
  proof -
    obtain i where "(i, w) \<in> set (virtualDrivers ?sim)" using w by (auto simp: getAllVirtualDrivers_def)
    then have i: "jm_get (virtualDrivers ?sim) i = Some w" using m by simp
    obtain e where e: "jm_get (drivers ?r) i = Some e" "searchable e" "d_lat e = Fin (v_lat w)" "d_lng e = Fin (v_lng w)" using vd [OF i] by blast
    then show ?thesis using vd [OF i] sim_driver_id_valid reg_invD(3) [OF inv(1) e(1)] inv(2) by (auto simp: record_ok_def searchable_def)
  qed
  have "Option.bind (jm_get (virtualDrivers ?sim) i) (\<lambda>w. position_of ?B (Fin (v_lat w)) (Fin (v_lng w))) = qt_pos (spatialIndex ?r) i" for i
  proof (cases "jm_get (virtualDrivers ?sim) i")
    case None
    then have "jm_get (drivers ?r) i = None" using S by (simp add: seeded_def del: not_None_eq) (metis option.exhaust)
    then show ?thesis using None reg_invD(4) [OF inv(1), of i] by simp
  next
    case (Some w)
    obtain e where e: "jm_get (drivers ?r) i = Some e" "searchable e" "d_lat e = Fin (v_lat w)" "d_lng e = Fin (v_lng w)" using vd [OF Some] by blast
    then show ?thesis using Some reg_invD(4) [OF inv(1), of i] inv(2) by (simp add: record_pos_def)
  qed
  then have "pos (foldl (engine_next E) t (INIT ?B 8 7 # map (\<lambda>d. INSERT (v_id d) (Fin (v_lat d)) (Fin (v_lng d))) (getAllVirtualDrivers ?sim))) =
      qt_pos (spatialIndex ?r)"
    using engine_after_feed [OF assms(3,4) ok m _ conjunct2 [OF all], of t] vd by (intro ext) simp
  then show ?thesis using feed_region_written [OF assms(5), of ?sim ?B] all assms(5) by (auto simp: reset_engine_def)
qed

theorem reset_realigns_engine_witness:
  "\<exists>v' ws. activeBounds v' = BLR_BOUNDS \<and>
    written (reset_engine (host demo_started) BLR_BOUNDS (simulator v')) = [PING] @ ws \<and>
    qt_pos (foldl (engine_next quad_engine) (qt_new demo_city 2 3) ws) = qt_pos (spatialIndex (server_registry v'))"
proof -
  let ?p = "post_reset demo_server 0 (\<lambda>_. (1/2, 1/2, 0, 0)) (Some ''Bearer secret'') JUndefined None (JNum (Fin 2))"
  have rnd: "unit_randoms (\<lambda>_. (1/2, 1/2, 0, 0))" by (simp add: unit_randoms_def)
  have acc: "hasControlAccess (config demo_server) (Some ''Bearer secret'')" by (simp add: hasControlAccess_def demo_server_def)
  have cnt: "driver_count (JNum (Fin 2)) = Some 2" by (simp add: driver_count_def)
  have "fst (fst ?p) = 200" by (simp add: post_reset_def acc cnt Let_def split: prod.split)
  then obtain body v' where p: "?p = ((200, body), v')" by (metis prod.collapse)
  have v': "activeBounds v' = BLR_BOUNDS" using post_reset_seeded [OF rnd p] by auto
  have idx: "mirrored_index (ni_insert quad_engine) (ni_update quad_engine) (ni_remove quad_engine) qt_pos qt_region qt_inv"
    using qt.mirrored_index_axioms by (simp add: quad_engine_def)
  have new: "fresh_index quad_engine qt_pos qt_region qt_inv"
    by (simp add: fresh_index_def quad_engine_def qt_inv_new) (simp add: qt_region_def qt_new_def qt_pos_def fun_eq_iff)
  have b: "isAvailable (host demo_started)" "written (host demo_started) = [PING]"
    by (simp_all add: demo_started_def bridge_start_def sendCommand_def bridge_new_def write_line_def line_received_def start_resume_def isAvailable_def)
  show ?thesis using reset_realigns_engine [OF rnd p idx new b(1), of "qt_new demo_city 2 3"] v' unfolding b(2) by (intro exI [of _ v']) simp
qed

end
