(* ===== verification/FlightRecorder.thy ===== *)
theory FlightRecorder
  imports Gateway Simulator
begin

text \<open>
  The flight recorder of \<open>src/infra/flight_recorder.ts\<close>: positions and transitions are
  buffered and handed to Cassandra in batches.  A flush is one step up to its \<open>await\<close>; its calls
  then settle one by one, in any order, each with success or failure, and \<open>Promise.all\<close> ends the
  flush at the last success or the first failure.  \<open>issued\<close>, \<open>stored\<close> and \<open>lost\<close>
  are the calls made so far, those the database accepted, and those that failed.
\<close>

section \<open>Dates\<close>

text \<open>The day of a time stamp in the proleptic Gregorian calendar, as \<open>toISOString\<close> shows it.\<close>

text \<open>Years and days of a year start with March; 400 years are 146097 days.\<close>

definition year_of_era :: "int \<Rightarrow> int" where
  "year_of_era doe = (doe - doe div 1460 + doe div 36524 - doe div 146096) div 365"

definition day_of_year :: "int \<Rightarrow> int" where
  "day_of_year doe = doe - (365 * year_of_era doe + year_of_era doe div 4 - year_of_era doe div 100)"

definition month_from_march :: "int \<Rightarrow> int" where
  "month_from_march doy = (5 * doy + 2) div 153"

definition civil :: "int \<Rightarrow> int \<times> int \<times> int" where
  "civil days =
    (let era = (days + 719468) div 146097; doe = (days + 719468) mod 146097; doy = day_of_year doe; mp = month_from_march doy;
         m = (if mp < 10 then mp + 3 else mp - 9)
     in (year_of_era doe + era * 400 + (if m \<le> 2 then 1 else 0), m, doy - (153 * mp + 2) div 5 + 1))"

definition padded :: "nat \<Rightarrow> int \<Rightarrow> string" where
  "padded w x = (let s = show_nat (nat x) in replicate (w - length s) (CHR ''0'') @ s)"

text \<open>\<open>now.toISOString().slice(0, 10)\<close>, for the years from 0 to 9999\<close>

definition iso_date :: "ms \<Rightarrow> string" where
  "iso_date t = (case civil \<lfloor>t / 86400000\<rfloor> of (y, m, d) \<Rightarrow> padded 4 y @ ''-'' @ padded 2 m @ ''-'' @ padded 2 d)"

section \<open>Data\<close>

record BreadcrumbRecord =
  br_driverId :: string
  br_date :: string
  br_timestamp :: ms
  br_lat :: real
  br_lng :: real
  br_speed :: real
  br_heading :: real
  br_status :: DriverStatus

text \<open>The parameters of the two statements.\<close>

record audit_row =
  ar_tripId :: string
  ar_timestamp :: ms
  ar_from :: TripStatus
  ar_to :: TripStatus
  ar_by :: ActorRole
  ar_reason :: string
  ar_payload :: "jsval option"

datatype cql_call = InsertBreadcrumbs "BreadcrumbRecord list" | InsertAudit audit_row

record CassandraFlightRecorder =
  breadcrumbBuffer :: "BreadcrumbRecord list"
  auditBuffer :: "StateTransitionEvent list"
  flushTimer :: bool
  isFlushing :: bool
  batchSize :: nat
  flushNo :: nat
  inflight :: "(nat \<times> cql_call) list"
  issued :: "cql_call list"
  stored :: "cql_call list"
  lost :: "cql_call list"

definition recorder_new :: "nat option \<Rightarrow> CassandraFlightRecorder" where
  "recorder_new given =
    \<lparr>breadcrumbBuffer = [], auditBuffer = [], flushTimer = True, isFlushing = False,
     batchSize = (case given of Some n \<Rightarrow> if n = 0 then 100 else n | None \<Rightarrow> 100),
     flushNo = 0, inflight = [], issued = [], stored = [], lost = []\<rparr>"

section \<open>Flushing\<close>

definition partition_key :: "BreadcrumbRecord \<Rightarrow> string" where
  "partition_key r = br_driverId r @ '':'' @ br_date r"

definition add_to_group :: "(string, BreadcrumbRecord list) jsmap \<Rightarrow> BreadcrumbRecord \<Rightarrow> (string, BreadcrumbRecord list) jsmap" where
  "add_to_group groups r =
    jm_set groups (partition_key r) ((case jm_get groups (partition_key r) of Some rs \<Rightarrow> rs | None \<Rightarrow> []) @ [r])"

definition partition_groups :: "BreadcrumbRecord list \<Rightarrow> (string, BreadcrumbRecord list) jsmap" where
  "partition_groups rs = foldl add_to_group [] rs"

definition audit_params :: "StateTransitionEvent \<Rightarrow> audit_row" where
  "audit_params e =
    \<lparr>ar_tripId = e_tripId e, ar_timestamp = e_timestamp e, ar_from = e_fromStatus e, ar_to = e_toStatus e,
     ar_by = e_triggeredBy e, ar_reason = (case e_reason e of Some s \<Rightarrow> s | None \<Rightarrow> []),
     ar_payload = (if js_truthy (e_payload e) then Some (e_payload e) else None)\<rparr>"

definition flush_calls :: "CassandraFlightRecorder \<Rightarrow> cql_call list" where
  "flush_calls s = map (\<lambda>g. InsertBreadcrumbs (snd g)) (partition_groups (breadcrumbBuffer s)) @
     map (\<lambda>e. InsertAudit (audit_params e)) (auditBuffer s)"

definition flush :: "CassandraFlightRecorder \<Rightarrow> CassandraFlightRecorder" where
  "flush s =
    (if isFlushing s then s
     else if breadcrumbBuffer s = [] \<and> auditBuffer s = [] then s
     else s\<lparr>isFlushing := True, breadcrumbBuffer := [], auditBuffer := [], flushNo := Suc (flushNo s),
            inflight := inflight s @ map (Pair (Suc (flushNo s))) (flush_calls s),
            issued := issued s @ flush_calls s\<rparr>)"

text \<open>The \<open>n\<close>-th call under way settles.\<close>

definition settle :: "CassandraFlightRecorder \<Rightarrow> nat \<Rightarrow> bool \<Rightarrow> CassandraFlightRecorder" where
  "settle s n ok =
    (if n < length (inflight s) then
       (let (k, c) = inflight s ! n;
            rest = take n (inflight s) @ drop (Suc n) (inflight s);
            over = (k = flushNo s \<and> (\<not> ok \<or> k \<notin> set (map fst rest)))
        in s\<lparr>inflight := rest, stored := (if ok then stored s @ [c] else stored s),
             lost := (if ok then lost s else lost s @ [c]),
             isFlushing := (isFlushing s \<and> \<not> over)\<rparr>)
     else s)"

section \<open>Recording\<close>

definition breadcrumb :: "ms \<Rightarrow> driver_view \<times> real option \<times> real option \<Rightarrow> BreadcrumbRecord" where
  "breadcrumb now update =
    (case update of ((i, la, lo, status), spd, hdg) \<Rightarrow>
      \<lparr>br_driverId = i, br_date = iso_date now, br_timestamp = now, br_lat = la, br_lng = lo,
       br_speed = (case spd of Some x \<Rightarrow> x | None \<Rightarrow> 0), br_heading = (case hdg of Some x \<Rightarrow> x | None \<Rightarrow> 0),
       br_status = status\<rparr>)"

definition recordBreadcrumbs ::
    "CassandraFlightRecorder \<Rightarrow> (driver_view \<times> real option \<times> real option) list \<Rightarrow> ms \<Rightarrow> CassandraFlightRecorder" where
  "recordBreadcrumbs s updates now =
    (let s1 = s\<lparr>breadcrumbBuffer := breadcrumbBuffer s @ map (breadcrumb now) updates\<rparr>
     in if batchSize s1 \<le> length (breadcrumbBuffer s1) then flush s1 else s1)"

definition recordTripTransition :: "CassandraFlightRecorder \<Rightarrow> StateTransitionEvent \<Rightarrow> CassandraFlightRecorder" where
  "recordTripTransition s event =
    (let s1 = s\<lparr>auditBuffer := auditBuffer s @ [event]\<rparr>
     in if batchSize s1 \<le> length (auditBuffer s1) then flush s1 else s1)"

text \<open>The timer fires.\<close>

definition auto_flush :: "CassandraFlightRecorder \<Rightarrow> CassandraFlightRecorder" where
  "auto_flush s = (if flushTimer s then flush s else s)"

definition recorder_shutdown :: "CassandraFlightRecorder \<Rightarrow> CassandraFlightRecorder" where
  "recorder_shutdown s = flush (s\<lparr>flushTimer := False\<rparr>)"

end
