(* ===== verification/FlightRecorderProperties.thy ===== *)
theory FlightRecorderProperties
  imports FlightRecorder
begin

text \<open>
  What becomes of a recorded position or transition: it is handed to the database exactly once, in
  the order of its partition; a flush always ends; and what a shutdown during a flush leaves behind.
\<close>

section \<open>Grouping\<close>

definition in_part :: "string \<Rightarrow> BreadcrumbRecord list \<Rightarrow> BreadcrumbRecord list" where
  "in_part k rs = filter (\<lambda>r. partition_key r = k) rs"

lemma in_part_simps [simp]:
  "in_part k [] = []" "in_part k (rs @ rs') = in_part k rs @ in_part k rs'"
  "in_part k (r # rs) = (if partition_key r = k then r # in_part k rs else in_part k rs)"
  by (simp_all add: in_part_def)

lemma in_part_all: "\<forall>r\<in>set rs. partition_key r = j \<Longrightarrow> in_part k rs = (if k = j then rs else [])"
  by (induction rs) (auto simp: in_part_def)

definition group_of :: "(string, BreadcrumbRecord list) jsmap \<Rightarrow> string \<Rightarrow> BreadcrumbRecord list" where
  "group_of g k = (case jm_get g k of Some rs \<Rightarrow> rs | None \<Rightarrow> [])"

definition groups_ok :: "(string, BreadcrumbRecord list) jsmap \<Rightarrow> bool" where
  "groups_ok g = (jm_ok g \<and> (\<forall>k rs. jm_get g k = Some rs \<longrightarrow> rs \<noteq> [] \<and> (\<forall>r\<in>set rs. partition_key r = k)))"

lemma add_to_group_ok: "groups_ok g \<Longrightarrow> groups_ok (add_to_group g r)"
  by (auto simp: groups_ok_def add_to_group_def split: option.splits)

lemma add_to_group_of: "group_of (add_to_group g r) k = group_of g k @ in_part k [r]"
  by (simp add: group_of_def add_to_group_def)

lemma groups_fold: "groups_ok g \<Longrightarrow> groups_ok (foldl add_to_group g rs) \<and> group_of (foldl add_to_group g rs) k = group_of g k @ in_part k rs"
proof (induction rs arbitrary: g)
  case (Cons r rs)
  show ?case using Cons.IH [OF add_to_group_ok [OF Cons.prems]] by (simp add: add_to_group_of)
qed simp

lemma partition_groups_ok: "groups_ok (partition_groups rs)" "group_of (partition_groups rs) k = in_part k rs"
  using groups_fold [of "[]" rs k] by (simp_all add: partition_groups_def groups_ok_def group_of_def)

lemma groups_concat: "groups_ok g \<Longrightarrow> in_part k (concat (map snd g)) = group_of g k"
proof (induction g)
  case (Cons e g)
  obtain j rs where e: "e = (j, rs)" by fastforce
  have jk: "jm_get g j = None" using Cons.prems by (auto simp: groups_ok_def e map_of_eq_None_iff)
  have "groups_ok g" unfolding groups_ok_def
  proof (intro conjI allI impI)
    show "jm_ok g" using Cons.prems by (simp add: groups_ok_def)
    fix i rs' assume "jm_get g i = Some rs'"
    then have "jm_get (e # g) i = Some rs'" using jk by (auto simp: e)
    then show "rs' \<noteq> []" "\<forall>r\<in>set rs'. partition_key r = i" using Cons.prems by (auto simp: groups_ok_def)
  qed
  moreover have "\<forall>r\<in>set rs. partition_key r = j" using Cons.prems by (simp add: groups_ok_def e)
  ultimately show ?case using Cons.IH jk in_part_all [of rs j k] by (auto simp: e group_of_def)
qed (simp add: group_of_def)

section \<open>Histories\<close>

fun call_crumbs :: "cql_call \<Rightarrow> BreadcrumbRecord list" where
  "call_crumbs (InsertBreadcrumbs rs) = rs"
| "call_crumbs (InsertAudit a) = []"

fun call_audits :: "cql_call \<Rightarrow> audit_row list" where
  "call_audits (InsertBreadcrumbs rs) = []"
| "call_audits (InsertAudit a) = [a]"

definition crumbs_of :: "cql_call list \<Rightarrow> BreadcrumbRecord list" where
  "crumbs_of cs = concat (map call_crumbs cs)"

definition audits_of :: "cql_call list \<Rightarrow> audit_row list" where
  "audits_of cs = concat (map call_audits cs)"

lemma calls_append [simp]: "crumbs_of (a @ b) = crumbs_of a @ crumbs_of b" "audits_of (a @ b) = audits_of a @ audits_of b"
  by (simp_all add: crumbs_of_def audits_of_def)

lemma flush_calls_of:
  "in_part k (crumbs_of (flush_calls s)) = in_part k (breadcrumbBuffer s)"
  "audits_of (flush_calls s) = map audit_params (auditBuffer s)"
proof -
  have "crumbs_of (map (\<lambda>g. InsertBreadcrumbs (snd g)) gs) = concat (map snd gs)"
    for gs :: "(string, BreadcrumbRecord list) jsmap" by (simp add: crumbs_of_def comp_def)
  moreover have "crumbs_of (map (\<lambda>e. InsertAudit (audit_params e)) es) = []" for es by (simp add: crumbs_of_def)
  ultimately show "in_part k (crumbs_of (flush_calls s)) = in_part k (breadcrumbBuffer s)"
    using groups_concat [OF partition_groups_ok(1)] by (simp add: flush_calls_def partition_groups_ok(2))
  have "audits_of (map (\<lambda>g. InsertBreadcrumbs (snd g)) gs) = []" for gs :: "(string, BreadcrumbRecord list) jsmap"
    by (simp add: audits_of_def)
  moreover have "audits_of (map (\<lambda>e. InsertAudit (audit_params e)) es) = map audit_params es" for es
    by (induction es) (simp_all add: audits_of_def)
  ultimately show "audits_of (flush_calls s) = map audit_params (auditBuffer s)" by (simp add: flush_calls_def)
qed

definition one_partition :: "cql_call \<Rightarrow> bool" where
  "one_partition c = (\<forall>rs. c = InsertBreadcrumbs rs \<longrightarrow> rs \<noteq> [] \<and> (\<exists>k. \<forall>r\<in>set rs. partition_key r = k))"

lemma flush_calls_one: "c \<in> set (flush_calls s) \<Longrightarrow> one_partition c"
  using partition_groups_ok(1) [of "breadcrumbBuffer s"]
  by (fastforce simp: flush_calls_def one_partition_def groups_ok_def dest: map_of_is_SomeI)

lemma flush_calls_some: "breadcrumbBuffer s \<noteq> [] \<or> auditBuffer s \<noteq> [] \<Longrightarrow> flush_calls s \<noteq> []"
proof -
  have "partition_groups rs \<noteq> []" if "rs = r # rs'" for rs r rs'
    using partition_groups_ok(2) [of rs "partition_key r"] that by (auto simp: group_of_def)
  then show "breadcrumbBuffer s \<noteq> [] \<or> auditBuffer s \<noteq> [] \<Longrightarrow> flush_calls s \<noteq> []"
    by (cases "breadcrumbBuffer s") (auto simp: flush_calls_def)
qed

text \<open>The run of a recorder that was given the positions \<open>B\<close> and the transitions \<open>A\<close>.\<close>

inductive fr_run :: "BreadcrumbRecord list \<Rightarrow> StateTransitionEvent list \<Rightarrow> CassandraFlightRecorder \<Rightarrow> bool" where
  fr_new: "fr_run [] [] (recorder_new given)"
| fr_record: "fr_run B A s \<Longrightarrow> fr_run (B @ map (breadcrumb now) updates) A (recordBreadcrumbs s updates now)"
| fr_transition: "fr_run B A s \<Longrightarrow> fr_run B (A @ [e]) (recordTripTransition s e)"
| fr_flush: "fr_run B A s \<Longrightarrow> fr_run B A (flush s)"
| fr_timer: "fr_run B A s \<Longrightarrow> fr_run B A (auto_flush s)"
| fr_settle: "fr_run B A s \<Longrightarrow> fr_run B A (settle s n ok)"
| fr_shutdown: "fr_run B A s \<Longrightarrow> fr_run B A (recorder_shutdown s)"

definition fr_inv :: "BreadcrumbRecord list \<Rightarrow> StateTransitionEvent list \<Rightarrow> CassandraFlightRecorder \<Rightarrow> bool" where
  "fr_inv B A s =
    ((\<forall>k. in_part k B = in_part k (crumbs_of (issued s)) @ in_part k (breadcrumbBuffer s)) \<and>
     map audit_params A = audits_of (issued s) @ map audit_params (auditBuffer s) \<and>
     mset (issued s) = mset (stored s) + mset (lost s) + mset (map snd (inflight s)) \<and>
     (\<forall>c\<in>set (issued s). one_partition c) \<and>
     (isFlushing s \<longrightarrow> flushNo s \<in> set (map fst (inflight s))))"

lemma flush_inv: "fr_inv B A s \<Longrightarrow> fr_inv B A (flush s)"
proof -
  assume inv: "fr_inv B A s"
  show ?thesis
  proof (cases "isFlushing s \<or> breadcrumbBuffer s = [] \<and> auditBuffer s = []")
    case False
    then have some: "flush_calls s \<noteq> []" using flush_calls_some by blast
    have eq: "flush s = s\<lparr>isFlushing := True, breadcrumbBuffer := [], auditBuffer := [], flushNo := Suc (flushNo s),
            inflight := inflight s @ map (Pair (Suc (flushNo s))) (flush_calls s), issued := issued s @ flush_calls s\<rparr>"
      using False by (auto simp: flush_def)
    have "map snd (map (Pair (Suc (flushNo s))) cs) = cs" for cs :: "cql_call list" by (induction cs) simp_all
    moreover have "Suc (flushNo s) \<in> set (map fst (map (Pair (Suc (flushNo s))) (flush_calls s)))"
      using some by (cases "flush_calls s") auto
    ultimately show ?thesis
      using inv flush_calls_of(1) [of _ s] flush_calls_of(2) [of s] flush_calls_one [of _ s] unfolding eq by (auto simp: fr_inv_def simp del: map_map)
  qed (use inv in \<open>auto simp: flush_def\<close>)
qed

lemma settle_inv: "fr_inv B A s \<Longrightarrow> fr_inv B A (settle s n ok)"
proof (cases "n < length (inflight s)")
  case True
  assume inv: "fr_inv B A s"
  obtain k c where kc: "inflight s ! n = (k, c)" by fastforce
  let ?rest = "take n (inflight s) @ drop (Suc n) (inflight s)"
  have split: "inflight s = take n (inflight s) @ (k, c) # drop (Suc n) (inflight s)" using id_take_nth_drop [OF True] kc by simp
  have "mset (map snd (inflight s)) = add_mset c (mset (map snd ?rest))"
    by (subst split) (simp add: mset_map [symmetric] del: mset_map)
  moreover have "flushNo s \<in> set (map fst ?rest)" if "isFlushing s" "flushNo s \<noteq> k"
  proof -
    have "flushNo s \<in> set (map fst (take n (inflight s) @ (k, c) # drop (Suc n) (inflight s)))"
      using inv that(1) split unfolding fr_inv_def by metis
    then show ?thesis using that(2) by auto
  qed
  ultimately show ?thesis using inv True kc by (auto simp: fr_inv_def settle_def Let_def)
qed (simp add: settle_def)

lemma fr_run_inv: "fr_run B A s \<Longrightarrow> fr_inv B A s"
proof (induction rule: fr_run.induct)
  case (fr_new given)
  show ?case by (simp add: fr_inv_def recorder_new_def crumbs_of_def audits_of_def)
next
  case (fr_record B A s now updates)
  have "fr_inv (B @ map (breadcrumb now) updates) A (s\<lparr>breadcrumbBuffer := breadcrumbBuffer s @ map (breadcrumb now) updates\<rparr>)"
    using fr_record.IH by (simp add: fr_inv_def)
  then show ?case using flush_inv by (simp add: recordBreadcrumbs_def Let_def)
next
  case (fr_transition B A s e)
  have "fr_inv B (A @ [e]) (s\<lparr>auditBuffer := auditBuffer s @ [e]\<rparr>)" using fr_transition.IH by (simp add: fr_inv_def)
  then show ?case using flush_inv by (simp add: recordTripTransition_def Let_def)
next
  case (fr_shutdown B A s)
  have "fr_inv B A (s\<lparr>flushTimer := False\<rparr>)" using fr_shutdown.IH by (simp add: fr_inv_def)
  then show ?case using flush_inv by (simp add: recorder_shutdown_def)
qed (simp_all add: flush_inv settle_inv auto_flush_def)

lemma in_part_mset: "(\<And>k. in_part k rs = in_part k rs') \<Longrightarrow> mset rs = mset rs'"
proof -
  assume eq: "\<And>k. in_part k rs = in_part k rs'"
  have "Multiset.count (mset rs) r = Multiset.count (mset (in_part (partition_key r) rs)) r" for r and rs :: "BreadcrumbRecord list"
    by (simp add: in_part_def)
  then show ?thesis using eq by (metis multiset_eqI)
qed

lemma crumbs_mset: "mset cs = mset cs' + mset cs'' + mset cs3 \<Longrightarrow>
    mset (crumbs_of cs) = mset (crumbs_of cs') + mset (crumbs_of cs'') + mset (crumbs_of cs3)"
proof -
  have "mset (crumbs_of cs) = (\<Sum>c\<in>#mset cs. mset (call_crumbs c))" for cs
    by (induction cs) (simp_all add: crumbs_of_def)
  then show "mset cs = mset cs' + mset cs'' + mset cs3 \<Longrightarrow> ?thesis" by simp
qed

section \<open>Properties\<close>

text \<open>
  C25. The recorder hands everything over exactly once: what it was given is what it has issued to the
  database followed by what is still buffered, for the transitions as one sequence and for the
  positions within every partition (a driver on a day), and every batch it issues is of one
  partition; so each given position is stored, or lost with a failed call, or under way, or buffered,
  and none is stored twice.
\<close>

theorem recorder_hands_over_once:
  assumes "fr_run B A s"
  shows "map audit_params A = audits_of (issued s) @ map audit_params (auditBuffer s) \<and>
    (\<forall>k. filter (\<lambda>r. partition_key r = k) B = filter (\<lambda>r. partition_key r = k) (crumbs_of (issued s) @ breadcrumbBuffer s)) \<and>
    (\<forall>c\<in>set (issued s). one_partition c) \<and>
    mset B = mset (crumbs_of (stored s)) + mset (crumbs_of (lost s)) + mset (crumbs_of (map snd (inflight s))) + mset (breadcrumbBuffer s)"
proof -
  have inv: "fr_inv B A s" by (rule fr_run_inv [OF assms])
  then have "in_part k B = in_part k (crumbs_of (issued s) @ breadcrumbBuffer s)" for k by (simp add: fr_inv_def)
  moreover from this have "mset B = mset (crumbs_of (issued s) @ breadcrumbBuffer s)" by (rule in_part_mset)
  moreover have "mset (crumbs_of (issued s)) = mset (crumbs_of (stored s)) + mset (crumbs_of (lost s)) + mset (crumbs_of (map snd (inflight s)))"
    by (rule crumbs_mset) (use inv in \<open>simp add: fr_inv_def\<close>)
  ultimately show ?thesis using inv by (simp add: fr_inv_def in_part_def)
qed

text \<open>Two drivers seen at midday, then one of them, with batches of two.\<close>

definition demo_recorder :: CassandraFlightRecorder where
  "demo_recorder = recordBreadcrumbs (settle (recordBreadcrumbs (recorder_new (Some 2))
     [((''d1'', 13, 77, Available), None, None), ((''d2'', 12, 78, Busy), Some 5, None)] 1709208000000) 0 False)
     [((''d1'', 14, 77, Available), None, None)] 1709208001000"

lemma demo_recorder_run:
  "fr_run (map (breadcrumb 1709208000000) [((''d1'', 13, 77, Available), None, None), ((''d2'', 12, 78, Busy), Some 5, None)] @
     map (breadcrumb 1709208001000) [((''d1'', 14, 77, Available), None, None)]) [] demo_recorder"
  unfolding demo_recorder_def using fr_record [OF fr_settle [OF fr_record [OF fr_new]]] by (metis append_Nil)

lemma demo_civil: "civil 19782 = (2024, 2, 29)" "civil 0 = (1970, 1, 1)"
proof -
  have y: "year_of_era 8765 = 23" "year_of_era 135080 = 369" by (simp_all add: year_of_era_def)
  have d: "day_of_year 8765 = 365" "day_of_year 135080 = 306" by (simp_all add: day_of_year_def y)
  have m: "month_from_march 365 = 11" "month_from_march 306 = 10" by (simp_all add: month_from_march_def)
  show "civil 19782 = (2024, 2, 29)" "civil 0 = (1970, 1, 1)" by (simp_all add: civil_def Let_def y d m)
qed

lemma demo_dates: "iso_date 1709208000000 = ''2024-02-29''" "iso_date 1709208001000 = ''2024-02-29''" "iso_date 0 = ''1970-01-01''"
proof -
  have day: "\<lfloor>1709208000000 / 86400000 :: real\<rfloor> = 19782" "\<lfloor>1709208001000 / 86400000 :: real\<rfloor> = 19782" by (simp_all add: floor_eq_iff)
  have pad: "padded 4 2024 @ ''-'' @ padded 2 2 @ ''-'' @ padded 2 29 = ''2024-02-29''"
    "padded 4 1970 @ ''-'' @ padded 2 1 @ ''-'' @ padded 2 1 = ''1970-01-01''" by code_simp+
  show "iso_date 1709208000000 = ''2024-02-29''" "iso_date 1709208001000 = ''2024-02-29''" "iso_date 0 = ''1970-01-01''"
    using demo_civil pad by (simp_all only: iso_date_def day case_prod_conv div_0 floor_zero)
qed

lemmas recorder_eval = demo_recorder_def recordBreadcrumbs_def flush_def settle_def recorder_new_def breadcrumb_def
  flush_calls_def partition_groups_def add_to_group_def partition_key_def crumbs_of_def recorder_shutdown_def Let_def

theorem recorder_hands_over_once_witness:
  "map br_driverId (crumbs_of (lost demo_recorder)) = [''d1''] \<and> map br_lat (breadcrumbBuffer demo_recorder) = [14] \<and>
   size (crumbs_of (stored demo_recorder) @ crumbs_of (map snd (inflight demo_recorder))) = 1"
proof -
  have "map br_driverId (crumbs_of (lost demo_recorder)) = [''d1''] \<and> map br_lat (breadcrumbBuffer demo_recorder) = [14]"
    by (simp add: recorder_eval)
  moreover from this have "length (crumbs_of (lost demo_recorder)) = 1" "length (breadcrumbBuffer demo_recorder) = 1"
    by (metis length_map length_Cons list.size(3) One_nat_def)+
  moreover have "size (mset (map (breadcrumb 1709208000000) [((''d1'', 13, 77, Available), None, None), ((''d2'', 12, 78, Busy), Some 5, None)] @
     map (breadcrumb 1709208001000) [((''d1'', 14, 77, Available), None, None)])) =
     size (mset (crumbs_of (stored demo_recorder)) + mset (crumbs_of (lost demo_recorder)) +
       mset (crumbs_of (map snd (inflight demo_recorder))) + mset (breadcrumbBuffer demo_recorder))"
    using recorder_hands_over_once [OF demo_recorder_run] by metis
  ultimately show ?thesis by simp
qed

text \<open>
  A flush always ends: whatever the outcome of its calls, when the calls under way have settled
  the recorder is free to flush again.
\<close>

theorem flush_always_ends:
  assumes "fr_run B A s" and "length oks = length (inflight s)"
  shows "let s' = foldl (\<lambda>x ok. settle x 0 ok) s oks in
    inflight s' = [] \<and> \<not> isFlushing s' \<and> (breadcrumbBuffer s \<noteq> [] \<longrightarrow> isFlushing (flush s') \<and> breadcrumbBuffer (flush s') = [])"
proof -
  let ?f = "foldl (\<lambda>x ok. settle x 0 ok)"
  have all: "fr_run B A (?f s oks) \<and> inflight (?f s oks) = drop (length oks) (inflight s) \<and> breadcrumbBuffer (?f s oks) = breadcrumbBuffer s"
    if "length oks \<le> length (inflight s)" "fr_run B A s" for s oks
    using that
  proof (induction oks arbitrary: s)
    case (Cons ok oks)
    have s1: "inflight (settle s 0 ok) = tl (inflight s)" "breadcrumbBuffer (settle s 0 ok) = breadcrumbBuffer s"
      using Cons.prems(1) by (auto simp: settle_def Let_def drop_Suc split: prod.splits)
    then show ?case using Cons.IH [of "settle s 0 ok"] Cons.prems fr_settle [OF Cons.prems(2)] by (simp add: drop_Suc)
  qed simp
  have s': "fr_run B A (?f s oks)" "inflight (?f s oks) = []" "breadcrumbBuffer (?f s oks) = breadcrumbBuffer s"
    using all [OF _ assms(1), of oks] assms(2) by simp_all
  then have "\<not> isFlushing (?f s oks)" using fr_run_inv [OF s'(1)] by (simp add: fr_inv_def)
  then show ?thesis using s' by (simp add: Let_def flush_def)
qed

theorem flush_always_ends_witness:
  "let s' = settle demo_recorder 0 True in inflight s' = [] \<and> \<not> isFlushing s' \<and> isFlushing (flush s')"
proof -
  have l: "length [True] = length (inflight demo_recorder)" by (simp add: recorder_eval)
  have b: "breadcrumbBuffer demo_recorder \<noteq> []" by (simp add: recorder_eval)
  from flush_always_ends [OF demo_recorder_run l] b show ?thesis by (simp add: Let_def)
qed

text \<open>
  A shutdown while a flush is under way abandons the buffers: its own flush returns at once, the
  timer is off, and however the calls under way settle, what was buffered stays there, nothing more is
  issued, and no timer flushes it.
\<close>

theorem shutdown_abandons_buffer:
  assumes "isFlushing s"
  shows "let s' = foldl (\<lambda>x (n, ok). settle x n ok) (recorder_shutdown s) outcomes in
    breadcrumbBuffer s' = breadcrumbBuffer s \<and> auditBuffer s' = auditBuffer s \<and> issued s' = issued s \<and> auto_flush s' = s'"
proof -
  let ?f = "foldl (\<lambda>x (n, ok). settle x n ok)"
  have "breadcrumbBuffer (?f x outcomes) = breadcrumbBuffer x \<and> auditBuffer (?f x outcomes) = auditBuffer x \<and>
      issued (?f x outcomes) = issued x \<and> flushTimer (?f x outcomes) = flushTimer x" for x
  proof (induction outcomes arbitrary: x)
    case (Cons e es)
    obtain n ok where e: "e = (n, ok)" by fastforce
    have "breadcrumbBuffer (settle x n ok) = breadcrumbBuffer x" "auditBuffer (settle x n ok) = auditBuffer x"
      "issued (settle x n ok) = issued x" "flushTimer (settle x n ok) = flushTimer x"
      by (auto simp: settle_def Let_def split: prod.splits)
    then show ?case using Cons.IH [of "settle x n ok"] by (simp add: e)
  qed simp
  then show ?thesis using assms by (simp add: recorder_shutdown_def flush_def auto_flush_def Let_def)
qed

theorem shutdown_abandons_buffer_witness:
  "let s' = settle (recorder_shutdown (flush (settle demo_recorder 0 True))) 0 True in
     breadcrumbBuffer s' = [] \<and>
   (let s2 = settle (recorder_shutdown (recordBreadcrumbs (flush (settle demo_recorder 0 True)) [((''d3'', 1, 2, Busy), None, None)] 1709208001000)) 0 True in
     map br_driverId (breadcrumbBuffer s2) = [''d3''] \<and> auto_flush s2 = s2)"
proof -
  let ?a = "recordBreadcrumbs (flush (settle demo_recorder 0 True)) [((''d3'', 1, 2, Busy), None, None)] 1709208001000"
  have f: "isFlushing ?a" by (simp add: recorder_eval)
  have "map br_driverId (breadcrumbBuffer ?a) = [''d3'']" by (simp add: recorder_eval)
  moreover have "breadcrumbBuffer (settle (recorder_shutdown (flush (settle demo_recorder 0 True))) 0 True) = []" by (simp add: recorder_eval)
  ultimately show ?thesis using shutdown_abandons_buffer [OF f, of "[(0, True)]"] by (simp add: Let_def)
qed

end
