(* ===== verification/StoreMirror.thy ===== *)
theory StoreMirror
  imports Observers StoredRides
begin

text \<open>
  The other half of the server's \<open>onTransition\<close>: every transition's trip is saved to the store.
  The text of the trip is made when the transition happens and the commands go out in order on one
  connection, so the saves reach the Redis server one after the other, at some later time each.
\<close>

section \<open>The handler\<close>

type_synonym report = "StateTransitionEvent \<times> Trip"

definition sync_trips :: "'s redis_api \<Rightarrow> 's \<Rightarrow> (ms \<times> report) list \<Rightarrow> 's" where
  "sync_trips R rs calls = foldl (\<lambda>rs (now, event, trip). saveTrip R rs now trip) rs calls"

section \<open>The last report of a trip\<close>

definition last_report :: "report list \<Rightarrow> string \<rightharpoonup> Trip" where
  "last_report ns = map_of (rev (map (\<lambda>(event, trip). (t_id trip, trip)) ns))"

lemma last_report_simps [simp]:
  "last_report [] = Map.empty" "last_report (ns @ [(ev, t)]) = (last_report ns)(t_id t \<mapsto> t)"
  by (simp_all add: last_report_def)

lemma last_report_dom: "c \<in> set ns \<Longrightarrow> t_id (snd c) \<in> dom (last_report ns)"
proof (induction ns rule: rev_induct)
  case (snoc x ns)
  then show ?case by (cases x) auto
qed simp

text \<open>
  The last report of a trip is how the trip is, unless it was evicted after its end; a trip without
  a report is as it was created.  Identifiers of trips have their form.
\<close>

definition told_at :: "string set \<Rightarrow> TSM \<Rightarrow> string \<Rightarrow> bool" where
  "told_at U m k =
    ((\<forall>t. jm_get (trips m) k = Some t \<longrightarrow>
        k \<in> U \<and> last_report (notices m) k = (if t_status t = Requested then None else Some t)) \<and>
     (\<forall>t. last_report (notices m) k = Some t \<longrightarrow>
        k \<in> U \<and> t_id t = k \<and> (jm_get (trips m) k = Some t \<or> jm_get (trips m) k = None \<and> terminal (t_status t))))"

definition told_as_is :: "string set \<Rightarrow> TSM \<Rightarrow> bool" where
  "told_as_is U m = (tsm_inv m \<and> (\<forall>k. told_at U m k))"

lemma told_atD:
  "told_at U m k \<Longrightarrow> getTrip m k = Some t \<Longrightarrow> last_report (notices m) k = (if t_status t = Requested then None else Some t)"
  "told_at U m k \<Longrightarrow> last_report (notices m) k = Some t \<Longrightarrow>
    k \<in> U \<and> t_id t = k \<and> (getTrip m k = Some t \<or> terminal (t_status t))"
  unfolding told_at_def getTrip_def by blast+

lemma told_as_is_transition:
  assumes "told_as_is U m" and t: "transition m now tid target by reason payload = (r, m')"
  shows "told_as_is U m'"
proof -
  have inv: "tsm_inv m" using assms(1) by (simp add: told_as_is_def)
  from t show ?thesis
  proof (cases rule: transition_cases)
    case (step t t1 s1 ev)
    let ?t = "t1\<lparr>t_status := target\<rparr>"
    have id: "t_id t1 = tid" "trips s1 = trips m"
      using milestone_frame [OF step(4)] tsm_invD(1) [OF inv step(1)] by (simp_all add: same_ids_def)
    have "target \<noteq> Requested" using step(2) by (cases "t_status t") auto
    moreover have "trips m' = jm_set (trips m) tid ?t" "notices m' = notices m @ [(ev, ?t)]"
      using step(11) id milestone_notices [OF step(4)] by (simp_all add: notifyTransition_def recordEvent_def)
    moreover have "tsm_inv m'" by (rule transition_inv [OF inv t])
    ultimately show ?thesis using assms(1) step(1) id unfolding told_as_is_def told_at_def by auto
  qed (use assms(1) in simp_all)
qed

lemma told_as_is_moves: "tsm_moves m m' \<Longrightarrow> told_as_is U m \<Longrightarrow> told_as_is U m'"
proof (induction rule: rtranclp_induct)
  case (step m1 m2)
  then show ?case using told_as_is_transition unfolding tsm_move_def by (metis prod.collapse)
qed simp

lemma told_as_is_create:
  assumes "told_as_is U m" and new: "''trip_'' @ uuid \<notin> U" and c: "createTrip m now uuid req rider pk dr = (r, m')"
  shows "told_as_is (insert (''trip_'' @ uuid) U) m'"
proof -
  have inv: "tsm_inv m" using assms(1) by (simp add: told_as_is_def)
  have fresh: "jm_get (trips m) (''trip_'' @ uuid) = None" and no_report: "last_report (notices m) (''trip_'' @ uuid) = None"
    using assms(1) new unfolding told_as_is_def told_at_def by (metis option.exhaust)+
  have inv': "tsm_inv m'" by (rule createTrip_inv [OF inv fresh(1) c])
  have n: "notices m' = notices m" using create_notices c by (metis snd_conv)
  from inv c show ?thesis
  proof (cases rule: createTrip_cases)
    case (fresh pk dr trip s1)
    have tr: "trips m' = jm_set (trips s1) (''trip_'' @ uuid) trip" "t_status trip = Requested"
      using fresh(6,8) by (simp_all add: newTrip_def recordEvent_def)
    have old: "jm_get (trips s1) k = jm_get (trips m) k \<or>
        jm_get (trips s1) k = None \<and> (\<exists>t. jm_get (trips m) k = Some t \<and> terminal (t_status t))" for k
      using inv by (cases rule: evict_cases) (auto simp: fresh(7) active_def)
    have "told_at (insert (''trip_'' @ uuid) U) m' k" for k
    proof (cases "k = ''trip_'' @ uuid")
      case True
      then show ?thesis using tr n no_report by (simp add: told_at_def)
    next
      case False
      then have g: "jm_get (trips m') k = jm_get (trips s1) k" using tr(1) by simp
      have m: "told_at U m k" using assms(1) by (simp add: told_as_is_def)
      from old [of k] show ?thesis
      proof (elim disjE conjE exE)
        assume "jm_get (trips s1) k = jm_get (trips m) k"
        with g have e: "jm_get (trips m') k = jm_get (trips m) k" by (rule trans)
        show ?thesis using m unfolding told_at_def e n by blast
      next
        fix t assume t: "jm_get (trips s1) k = None" "jm_get (trips m) k = Some t" "terminal (t_status t)"
        have e: "jm_get (trips m') k = None" using g t(1) by simp
        have "t_status t \<noteq> Requested" using t(3) by (auto simp: terminal_def)
        moreover have "last_report (notices m) k = (if t_status t = Requested then None else Some t)"
          using m t(2) unfolding told_at_def by blast
        ultimately have r: "last_report (notices m) k = Some t" by simp
        have "k \<in> U" "t_id t = k" using m r unfolding told_at_def by blast+
        then show ?thesis using t(3) unfolding told_at_def e n r by simp
      qed
    qed
    then show ?thesis using inv' by (simp add: told_as_is_def)
  qed (use assms(1) in \<open>auto simp: told_as_is_def told_at_def\<close>)
qed

lemma svc_exec_told: "svc_exec h s h' s' \<Longrightarrow> told_as_is (used_tids h) (stateMachine s) \<Longrightarrow> told_as_is (used_tids h') (stateMachine s')"
proof (induction rule: svc_exec.induct)
  case (exec_step h1 s1 c s2)
  note IH = exec_step.IH [OF exec_step.prems]
  from exec_step.hyps(2) show ?case
  proof (cases rule: svc_step_moves)
    case moves
    have "told_as_is (used_tids h1) (stateMachine s2)" by (rule told_as_is_moves [OF moves IH])
    then show ?thesis by (auto simp: told_as_is_def told_at_def)
  next
    case (create now uuid req rider pk dr r m1)
    have "told_as_is (insert (''trip_'' @ uuid) (used_tids h1)) m1"
      by (rule told_as_is_create [OF IH _ create(2)]) (use create(1) exec_step.hyps(3) in blast)
    then show ?thesis using told_as_is_moves [OF create(3)] create(1) by simp
  qed
qed simp

lemma used_tids_form: "k \<in> used_tids h \<Longrightarrow> \<exists>u. k = ''trip_'' @ u"
  by (auto simp: used_tids_def elim: new_tid.elims)

lemma server_told: "server_run U v \<Longrightarrow> \<exists>h. told_as_is (used_tids h) (stateMachine (service (gateway v)))"
proof -
  assume "server_run U v"
  then obtain h r where "svc_exec [] (service_new r tsm_new) h (service (gateway v))"
    using server_run_serves [of U v] unfolding serves_def svc_run_def by blast
  moreover have "told_as_is (used_tids []) (stateMachine (service_new r tsm_new))"
    using tsm_inv_new by (simp add: told_as_is_def told_at_def service_new_def) (simp add: tsm_new_def)
  ultimately show ?thesis using svc_exec_told by blast
qed

section \<open>The store\<close>

context redis_server
begin

lemma sync_get:
  assumes "\<forall>c\<in>set calls. fst c \<le> now"
  shows "rd_get R (sync_trips R rs calls) now (tripKey k) =
    (case last_report (map snd calls) k of Some t \<Rightarrow> Some (Json t) | None \<Rightarrow> rd_get R rs now (tripKey k))"
  using assms
proof (induction calls rule: rev_induct)
  case (snoc c calls)
  obtain w ev t where c: "c = (w, ev, t)" by (metis prod_cases3)
  have "rd_get R (saveTrip R s w t) now (tripKey k) = (if k = t_id t then Some (Json t) else rd_get R s now (tripKey k))" for s
    using save_get [of w now s t "tripKey k"] snoc.prems c by simp
  then show ?case using snoc c by (simp add: sync_trips_def)
qed (simp add: sync_trips_def)

lemma sync_members:
  assumes "\<forall>c\<in>set calls. fst c \<le> now" and "\<forall>c\<in>set calls. \<exists>u. t_id (snd (snd c)) = ''trip_'' @ u"
  shows "set (rd_smembers R (sync_trips R rs calls) now activeTripSetKey) =
    {k. case last_report (map snd calls) k of Some t \<Rightarrow> \<not> terminal (t_status t)
          | None \<Rightarrow> k \<in> set (rd_smembers R rs now activeTripSetKey)}"
  using assms
proof (induction calls rule: rev_induct)
  case (snoc c calls)
  obtain w ev t where c: "c = (w, ev, t)" by (metis prod_cases3)
  have "tripKey (t_id t) \<noteq> activeTripSetKey" using snoc.prems(2) c store_keys(14) by (metis in_set_conv_decomp snd_conv)
  then have "set (rd_smembers R (saveTrip R s w t) now activeTripSetKey) =
      (if terminal (t_status t) then set (rd_smembers R s now activeTripSetKey) - {t_id t}
       else insert (t_id t) (set (rd_smembers R s now activeTripSetKey)))" for s
    using save_members [of w now t s] snoc.prems c by simp
  then show ?case using snoc c by (simp add: sync_trips_def) (auto split: option.splits if_splits)
qed (simp add: sync_trips_def)

end

lemma parse_all_json: "parse_all (map (\<lambda>k. Some (Json (f k))) ks) = Inr (map f ks)"
  by (induction ks) simp_all

lemma told_reports:
  assumes "told_as_is U m"
  shows "getTrip m k = Some t \<Longrightarrow> t_status t \<noteq> Requested \<Longrightarrow> last_report (notices m) k = Some t"
    and "last_report (notices m) k = Some t \<Longrightarrow>
      k \<in> U \<and> t_id t = k \<and> t_status t \<noteq> Requested \<and> (getTrip m k = Some t \<or> terminal (t_status t))"
proof -
  have at: "told_at U m k" for k using assms by (simp add: told_as_is_def)
  show "last_report (notices m) k = Some t" if "getTrip m k = Some t" "t_status t \<noteq> Requested"
    using told_atD(1) [OF at that(1)] that(2) by simp
  show "k \<in> U \<and> t_id t = k \<and> t_status t \<noteq> Requested \<and> (getTrip m k = Some t \<or> terminal (t_status t))"
    if L: "last_report (notices m) k = Some t"
  proof -
    have "t_status t \<noteq> Requested" if "getTrip m k = Some t" using told_atD(1) [OF at that] L by (auto split: if_splits)
    then show ?thesis using told_atD(2) [OF at L] by (auto simp: terminal_def)
  qed
qed

lemma reported_active:
  assumes "told_as_is U m" and "set ks = {k. \<exists>t. last_report (notices m) k = Some t \<and> \<not> terminal (t_status t)}"
  shows "set (map (\<lambda>k. the (last_report (notices m) k)) ks) =
    {t. getTrip m (t_id t) = Some t \<and> t_status t \<noteq> Requested \<and> \<not> terminal (t_status t)}"
proof (intro equalityI subsetI)
  fix t assume "t \<in> set (map (\<lambda>k. the (last_report (notices m) k)) ks)"
  then obtain k where "last_report (notices m) k = Some t" "\<not> terminal (t_status t)" using assms(2) by auto
  then show "t \<in> {t. getTrip m (t_id t) = Some t \<and> t_status t \<noteq> Requested \<and> \<not> terminal (t_status t)}"
    using told_reports(2) [OF assms(1)] by blast
next
  fix t assume "t \<in> {t. getTrip m (t_id t) = Some t \<and> t_status t \<noteq> Requested \<and> \<not> terminal (t_status t)}"
  then have L: "last_report (notices m) (t_id t) = Some t" and "t_id t \<in> set ks" using told_reports(1) [OF assms(1)] assms(2) by auto
  from this(2) show "t \<in> set (map (\<lambda>k. the (last_report (notices m) k)) ks)"
    unfolding set_map by (rule rev_image_eqI) (simp add: L)
qed

section \<open>The mirror\<close>

text \<open>
  C33. The store mirrors the program: however requests, messages, timers and ticks interleave, once the
  saves of the transitions so far have been carried out, in their order, at whatever times, the store
  reads back every trip that has left the status \<open>requested\<close> exactly as the program has it,
  and its list of active trips is the program's.
\<close>

theorem store_mirrors_trips:
  assumes "redis_server R" and "server_run U v"
    and "map snd calls = notices (stateMachine (service (gateway v)))" and "\<forall>c\<in>set calls. fst c \<le> now"
    and "set (rd_smembers R rs now activeTripSetKey) = {}"
  shows "let m = stateMachine (service (gateway v)); rs1 = sync_trips R rs calls in
    (\<forall>k t. getTrip m k = Some t \<and> t_status t \<noteq> Requested \<longrightarrow> rs_getTrip R rs1 now k = Inr (Some t)) \<and>
    (\<exists>ts. rs_getActiveTrips R rs1 now = Inr ts \<and>
       set ts = {t. getTrip m (t_id t) = Some t \<and> t_status t \<noteq> Requested \<and> \<not> terminal (t_status t)})"
proof -
  define m where "m = stateMachine (service (gateway v))"
  define rs1 where "rs1 = sync_trips R rs calls"
  define L where "L = last_report (notices m)"
  obtain h where told: "told_as_is (used_tids h) m" using server_told [OF assms(2)] by (auto simp: m_def)
  note L = told_reports [OF told, folded L_def]
  have get: "rd_get R rs1 now (tripKey k) = (case L k of Some t \<Rightarrow> Some (Json t) | None \<Rightarrow> rd_get R rs now (tripKey k))" for k
    using redis_server.sync_get [OF assms(1,4), of rs k] assms(3) by (simp add: rs1_def L_def m_def)
  have ids: "\<forall>c\<in>set calls. \<exists>u. t_id (snd (snd c)) = ''trip_'' @ u"
  proof
    fix c assume "c \<in> set calls"
    then have "snd c \<in> set (notices m)" using assms(3) by (metis image_eqI m_def set_map)
    then have "t_id (snd (snd c)) \<in> dom L" unfolding L_def by (rule last_report_dom)
    then show "\<exists>u. t_id (snd (snd c)) = ''trip_'' @ u" using L(2) used_tids_form by blast
  qed
  have mem: "set (rd_smembers R rs1 now activeTripSetKey) = {k. \<exists>t. L k = Some t \<and> \<not> terminal (t_status t)}"
    using redis_server.sync_members [OF assms(1,4) ids, of rs] assms(3,5)
    by (auto simp: rs1_def L_def m_def split: option.splits)
  have read: "rs_getTrip R rs1 now k = Inr (Some t)" if "getTrip m k = Some t \<and> t_status t \<noteq> Requested" for k t
    using get [of k] L(1) that by (simp add: rs_getTrip_def)
  have "map (\<lambda>k. rd_get R rs1 now (tripKey k)) (rd_smembers R rs1 now activeTripSetKey) =
      map (\<lambda>k. Some (Json (the (L k)))) (rd_smembers R rs1 now activeTripSetKey)"
    using mem get by (intro map_cong) auto
  then have "rs_getActiveTrips R rs1 now = Inr (map (\<lambda>k. the (L k)) (rd_smembers R rs1 now activeTripSetKey))"
    unfolding rs_getActiveTrips_def by (simp only: parse_all_json)
  moreover note reported_active [OF told, folded L_def, OF mem]
  ultimately show ?thesis using read unfolding Let_def m_def [symmetric] rs1_def [symmetric]
    by (intro conjI allI impI exI [of _ "map (\<lambda>k. the (L k)) (rd_smembers R rs1 now activeTripSetKey)"])
qed

text \<open>A ride is requested from a fresh server, and the saves reach the store at time 5.\<close>

definition requested_ride :: Server where
  "requested_ride = snd (post_rides (server_new \<lparr>sc_host = ''localhost'', sc_token = None\<rparr> 0 (\<lambda>_. (1/2, 1/2, 0, 1))) 0 0 ''u1'' ''q1'' None
     (Some ''ann'') None (JObj [(''lat'', JNum (Fin 13)), (''lng'', JNum (Fin (155/2)))]) (JObj [(''lat'', JNum (Fin 13)), (''lng'', JNum (Fin 77))]) JUndefined)"

lemma requested_ride_run: "server_run {''trip_u1''} requested_ride"
proof -
  have "server_run {''trip_'' @ ''u1''} requested_ride" unfolding requested_ride_def using sv_step [OF sv_start sv_rides] by simp
  then show ?thesis by simp
qed

definition on_its_way :: "TSM \<Rightarrow> string \<Rightarrow> bool" where
  "on_its_way m k = (\<exists>t. getTrip m k = Some t \<and> t_status t \<noteq> Requested)"

lemma never_requested: "Requested \<notin> set (ALLOWED_TRANSITIONS st)"
  by (cases st) simp_all

lemma moves_on_its_way: "tsm_moves m m' \<Longrightarrow> on_its_way m k \<Longrightarrow> on_its_way m' k"
proof (induction rule: rtranclp_induct)
  case (step m1 m2)
  then obtain now tid target "by" reason payload where "m2 = snd (transition m1 now tid target by reason payload)"
    by (auto simp: tsm_move_def)
  then obtain r where "transition m1 now tid target by reason payload = (r, m2)" by (metis prod.collapse)
  from transition_get [OF this, of k] step.IH [OF step.prems] show ?case
    using never_requested by (elim disjE exE conjE) (auto simp: on_its_way_def getTrip_def)
qed simp

lemma first_request:
  assumes "stateMachine s = tsm_new" and "geo_point_of pickup = Some pk" "geo_point_of dropoff = Some dr"
  shows "on_its_way (stateMachine (snd (requestRide s now uuid req rider pickup dropoff cf))) (''trip_'' @ uuid) \<and>
    (\<exists>es. out (snd (requestRide s now uuid req rider pickup dropoff cf)) = out s @ es \<and> (\<nexists>tid i. TripMatched tid i \<in> set es))"
proof -
  let ?t = "newTrip now uuid req rider pk dr"
  obtain m1 where m1: "createTrip (stateMachine s) now uuid req rider pickup dropoff = (Inr ?t, m1)"
      "jm_get (trips m1) (''trip_'' @ uuid) = Some ?t"
    using createTrip_new [of "stateMachine s" req rider pickup pk dropoff dr now uuid] assms by (auto simp: tsm_new_def jm_has_def)
  obtain t2 ev m2 where m2: "startMatching m1 now (''trip_'' @ uuid) = (Inr (t2, ev), m2)"
    using startMatching_new [of m1 ?t now] m1(2) by (auto simp: newTrip_def)
  have "on_its_way m2 (''trip_'' @ uuid)"
    using m2 m1(2) by (auto simp: startMatching_def transition_def on_its_way_def getTrip_def newTrip_def Let_def notifyTransition_def recordEvent_def)
  moreover have "requestRide s now uuid req rider pickup dropoff cf =
      (Inr t2, dispatchOfferLoop (s\<lparr>stateMachine := m2, abortedRequests := abortedRequests s - {req}\<rparr>) now t2 cf)"
    using m1(1) m2 by (simp add: requestRide_def newTrip_def)
  ultimately show ?thesis
    using moves_on_its_way [OF dispatch_trips] dispatch_events [of "s\<lparr>stateMachine := m2, abortedRequests := abortedRequests s - {req}\<rparr>"] by simp
qed

lemma sim_events_service:
  "\<nexists>tid i. TripMatched tid i \<in> set es \<Longrightarrow> service (gateway (foldl (sim_event rnd now) v es)) = service (gateway v)"
proof (induction es arbitrary: v)
  case (Cons e es)
  then show ?case by (cases e) auto
qed simp

lemma requested_ride_trip: "on_its_way (stateMachine (service (gateway requested_ride))) ''trip_u1''"
proof -
  define v0 where "v0 = server_new \<lparr>sc_host = ''localhost'', sc_token = None\<rparr> 0 (\<lambda>_. (1/2, 1/2, 0, 1))"
  let ?pk = "JObj [(''lat'', JNum (Fin 13)), (''lng'', JNum (Fin (155/2)))]"
  let ?dr = "JObj [(''lat'', JNum (Fin 13)), (''lng'', JNum (Fin 77))]"
  obtain res s1 where r: "requestRide (service (gateway v0)) 0 ''u1'' (''req_'' @ ''q1'') ''ann'' ?pk ?dr (request_config JUndefined) = (res, s1)"
    by fastforce
  have new: "stateMachine (service (gateway v0)) = tsm_new"
    by (simp add: v0_def server_new_def ws_new_def service_new_def split: prod.split)
  have cfg: "config v0 = \<lparr>sc_host = ''localhost'', sc_token = None\<rparr>" by (simp add: v0_def server_new_def split: prod.split)
  have p: "geo_point_of ?pk = Some \<lparr>lat = 13, lng = 155/2\<rparr>" "geo_point_of ?dr = Some \<lparr>lat = 13, lng = 77\<rparr>"
    by (simp_all add: geo_point_of_def isValidGeoPoint_def isNaN_def)
  note f = first_request [OF new p, of 0 "''u1''" "''req_'' @ ''q1''" "''ann''" "request_config JUndefined", unfolded r snd_conv]
  obtain es where es: "out s1 = out (service (gateway v0)) @ es" "\<nexists>tid i. TripMatched tid i \<in> set es" using f by blast
  have "service (gateway requested_ride) = service (gateway (with_gateway 0 0 v0 (with_service (gateway v0) s1)))"
    using r unfolding requested_ride_def v0_def [symmetric]
    by (simp add: post_rides_def hasControlAccess_def cfg isLoopbackHost_def LOOPBACK_HOSTS_def truthy_def
        isValidGeoPoint_def isNaN_def Let_def split: sum.split)
  also have "\<dots> = s1" using sim_events_service [OF es(2)] es(1) by (simp add: with_gateway_def)
  finally show ?thesis using f by simp
qed

theorem store_mirrors_trips_witness:
  "let v = requested_ride; m = stateMachine (service (gateway v)); calls = map (\<lambda>e. (5, e)) (notices m)
   in \<exists>t. getTrip m ''trip_u1'' = Some t \<and> rs_getTrip mem_redis (sync_trips mem_redis mem_empty calls) 9 ''trip_u1'' = Inr (Some t)"
proof -
  let ?m = "stateMachine (service (gateway requested_ride))"
  let ?calls = "map (\<lambda>e. (5::ms, e)) (notices ?m)"
  have a: "map snd ?calls = notices ?m" "\<forall>c\<in>set ?calls. fst c \<le> 9" "set (rd_smembers mem_redis mem_empty 9 activeTripSetKey) = {}"
    by (simp_all add: comp_def) (simp add: mem_redis_def mem_empty_def mem_members_def)
  obtain t where "getTrip ?m ''trip_u1'' = Some t" "t_status t \<noteq> Requested" using requested_ride_trip by (auto simp: on_its_way_def)
  then show ?thesis using store_mirrors_trips [OF mem.redis_server_axioms requested_ride_run a] unfolding Let_def by blast
qed

end
