(* ===== verification/Operations.thy ===== *)
theory Operations
  imports EngineFeed StoreMirror RedisReconcile
begin

text \<open>
  Around the program: the start of the server with its Redis client, the pages and the status it
  serves, its shutdown (\<open>src/server.ts\<close>, \<open>src/infra/redis_client.ts\<close>), and the
  metrics it keeps (\<open>src/metrics/metrics.ts\<close>).  What the third-party clients answer is an
  argument.
\<close>

section \<open>Start and shutdown\<close>

text \<open>When the Redis client is told to connect and to quit, by its status, and how long it waits to try again.\<close>

definition connectRedis :: "string \<Rightarrow> bool" where
  "connectRedis status = (status = ''wait'')"

definition disconnectRedis :: "string \<Rightarrow> bool" where
  "disconnectRedis status = (status = ''ready'' \<or> status = ''connecting'')"

definition retryStrategy :: "nat \<Rightarrow> nat" where
  "retryStrategy attempt = min (attempt * 100) 2000"

text \<open>
  The start: the check of the configuration, then the reconciliation of the stored trips, with its
  default limit, then the server.  An error of the reconciliation ends the process.
\<close>

definition server_boot ::
    "'s redis_api \<Rightarrow> 's \<Rightarrow> ms \<Rightarrow> ServerConfig \<Rightarrow> (nat \<Rightarrow> randoms) \<Rightarrow> (nat \<times> Server) option \<times> 's" where
  "server_boot R rs now cfg rnd =
    (if \<not> may_start cfg then (None, rs)
     else
       (case reconcileOrphanedTrips R rs now 60000 of
          (Inl e, rs1) \<Rightarrow> (None, rs1)
        | (Inr cleaned, rs1) \<Rightarrow> (Some (cleaned, server_new cfg now rnd), rs1)))"

text \<open>
  The shutdown: the code the process exits with, and whether Redis was told to quit.  \<open>closes\<close> and
  \<open>quits\<close> say whether closing the web server and quitting Redis succeed.
\<close>

definition gracefulShutdown ::
    "bool \<Rightarrow> bool \<Rightarrow> string \<Rightarrow> Server \<Rightarrow> CppSpatialBridge \<Rightarrow> (nat \<times> bool) \<times> Server \<times> CppSpatialBridge" where
  "gracefulShutdown closes quits status v b =
    (if \<not> closes then (1, False)
     else if disconnectRedis status \<and> \<not> quits then (1, True)
     else (0, disconnectRedis status),
     v\<lparr>simulator := sim_stop (simulator v)\<rparr>, bridge_stop b)"

text \<open>A shutdown leaves no call to the engine waiting, but it neither ends a ride nor frees a driver.\<close>

lemma shutdown_settles:
  assumes "gracefulShutdown closes quits status v b = (res, v', b')"
  shows "pendingQueue b' = (if hasProcess b then [] else pendingQueue b) \<and> \<not> hasProcess b' \<and> service (gateway v') = service (gateway v)"
  using assms by (auto simp: gracefulShutdown_def bridge_stop_def drainPendingQueue_def write_line_def)

lemma boot_needs_token:
  "fst (server_boot R rs now cfg rnd) \<noteq> None \<Longrightarrow> isLoopbackHost cfg \<or> truthy (sc_token cfg)"
  by (auto simp: server_boot_def may_start_def split: if_splits)

section \<open>Pages and status\<close>

datatype page = Html string | StatusMessage | RedirectTo string

definition get_root :: "string option \<Rightarrow> page" where
  "get_root cachedIndexHtml = (if truthy cachedIndexHtml then Html (the cachedIndexHtml) else StatusMessage)"

definition get_dashboard :: "string option \<Rightarrow> page" where
  "get_dashboard cachedIndexHtml = (if truthy cachedIndexHtml then Html (the cachedIndexHtml) else RedirectTo ''/'')"

definition get_engine_status :: "Server \<Rightarrow> CppSpatialBridge \<Rightarrow> engine \<times> bool \<times> real \<times> nat" where
  "get_engine_status v b = (activeEngine v, isAvailable b, lastLatencyUs b, totalQueries b)"

section \<open>Metrics\<close>

text \<open>Gauges and counters by their label; the histograms are the values observed.\<close>

record Metrics =
  activeDriversGauge :: "string \<rightharpoonup> nat"
  activeTripsGauge :: "string \<rightharpoonup> nat"
  matchRequestsTotal :: "string \<Rightarrow> nat"
  lockCollisionsTotal :: nat
  doubleDispatchViolations :: nat
  telemetryUpdatesTotal :: nat
  matchDurationSeconds :: "real list"
  spatialQueryLatencyUs :: "(engine \<times> real) list"
  knnLatencySeconds :: "(engine \<times> real) list"

definition metrics_new :: Metrics where
  "metrics_new = \<lparr>activeDriversGauge = Map.empty, activeTripsGauge = Map.empty, matchRequestsTotal = (\<lambda>_. 0), lockCollisionsTotal = 0,
     doubleDispatchViolations = 0, telemetryUpdatesTotal = 0, matchDurationSeconds = [], spatialQueryLatencyUs = [], knnLatencySeconds = []\<rparr>"

definition metrics_tick :: "(string \<times> real \<times> real \<times> DriverStatus) list \<Rightarrow> Metrics \<Rightarrow> Metrics" where
  "metrics_tick updates mx =
    (let avail = length (filter (\<lambda>(i, la, lo, st). st = Available) updates)
     in mx\<lparr>telemetryUpdatesTotal := telemetryUpdatesTotal mx + length updates,
           activeDriversGauge := (activeDriversGauge mx)(''available'' \<mapsto> avail, ''busy'' \<mapsto> length updates - avail)\<rparr>)"

text \<open>After a ride has been requested: whether the request was accepted, and how long the call took.\<close>

definition metrics_ride :: "bool \<Rightarrow> real \<Rightarrow> Metrics \<Rightarrow> Metrics" where
  "metrics_ride success durationSec mx =
    (let label = (if success then ''success'' else ''exhausted'')
     in mx\<lparr>matchDurationSeconds := matchDurationSeconds mx @ [durationSec],
           matchRequestsTotal := (matchRequestsTotal mx)(label := matchRequestsTotal mx label + 1)\<rparr>)"

definition metrics_search :: "engine \<Rightarrow> real \<Rightarrow> Metrics \<Rightarrow> Metrics" where
  "metrics_search e latencyUs mx =
    mx\<lparr>spatialQueryLatencyUs := spatialQueryLatencyUs mx @ [(e, latencyUs)],
       knnLatencySeconds := knnLatencySeconds mx @ [(e, latencyUs / 1000000)]\<rparr>"

text \<open>The route for rides with its metrics; a request that is rejected before leaves none.\<close>

definition metered_rides ::
    "Server \<Rightarrow> Metrics \<Rightarrow> ms \<Rightarrow> real \<Rightarrow> string \<Rightarrow> string \<Rightarrow> string option \<Rightarrow> string option \<Rightarrow> string option \<Rightarrow> jsval \<Rightarrow> jsval \<Rightarrow> jsval \<Rightarrow> real \<Rightarrow>
     reply \<times> Server \<times> Metrics" where
  "metered_rides v mx now rnd uuid reqUuid authorization riderId requestId pickup dropoff tmo durationSec =
    (case post_rides v now rnd uuid reqUuid authorization riderId requestId pickup dropoff tmo of
       (rep, v') \<Rightarrow>
         (rep, v', case snd rep of
            RideResult (Inl _) \<Rightarrow> metrics_ride False durationSec mx
          | RideResult (Inr _) \<Rightarrow> metrics_ride True durationSec mx
          | _ \<Rightarrow> mx))"

definition metered_tick :: "Server \<Rightarrow> Metrics \<Rightarrow> ms \<Rightarrow> Server \<times> Metrics" where
  "metered_tick v mx now =
    (server_tick v now,
     metrics_tick (tick_updates (sim_tick now (simulator v, server_registry v, stateMachine (service (gateway v))))) mx)"

text \<open>All that ever happens to the metrics.\<close>

inductive metered :: "(bool \<times> real) list \<Rightarrow> nat \<Rightarrow> Metrics \<Rightarrow> bool" where
  metered_new: "metered [] 0 metrics_new"
| metered_ride: "metered rs n mx \<Longrightarrow> metered (rs @ [(ok, dur)]) n (metrics_ride ok dur mx)"
| metered_updates: "metered rs n mx \<Longrightarrow> metered rs (n + length us) (metrics_tick us mx)"
| metered_search: "metered rs n mx \<Longrightarrow> metered rs n (metrics_search e us mx)"

text \<open>
  What the metrics tell: a success is a request that was accepted, and its duration is that of the
  request; the counters of double dispatches and lock collisions are 0 whatever happens, and no trip is
  ever counted.
\<close>

lemma metrics_tell:
  assumes "metered rs n mx"
  shows "matchRequestsTotal mx ''success'' = length (filter fst rs) \<and> matchRequestsTotal mx ''exhausted'' = length (filter (\<lambda>r. \<not> fst r) rs) \<and>
    matchRequestsTotal mx ''cancelled'' = 0 \<and> matchDurationSeconds mx = map snd rs \<and> telemetryUpdatesTotal mx = n \<and>
    lockCollisionsTotal mx = 0 \<and> doubleDispatchViolations mx = 0 \<and> activeTripsGauge mx = Map.empty"
  using assms by induction (auto simp: metrics_new_def metrics_ride_def metrics_tick_def metrics_search_def Let_def)

lemma rides_metered:
  assumes "metered rs n mx" and "metered_rides v mx now rnd uuid rid auth rider req pk dr tmo dur = (rep, v', mx')"
  shows "\<exists>rs'. metered rs' n mx' \<and> length (filter fst rs') = length (filter fst rs) + (if fst rep = 202 then 1 else 0)"
  using assms metered_ride [OF assms(1)]
  by (fastforce simp: metered_rides_def post_rides_def reject_def Let_def split: if_splits sum.splits prod.splits)

end
