(* ===== verification/ClientQuadtree.thy ===== *)
theory ClientQuadtree
  imports Gateway
begin

text \<open>
  The quadtree the dashboard draws: \<open>frontend/src/utils/quadtree.ts\<close>.  A node's \<open>depth\<close>
  is represented by the levels that are left below it, \<open>maxDepth - depth\<close>.  The frontend's
  drivers are the positions the server broadcasts.
\<close>

section \<open>Data\<close>

datatype QuadTreeNodeData =
    ViewLeaf GeoBounds "driver_view list"
  | ViewNode GeoBounds QuadTreeNodeData QuadTreeNodeData QuadTreeNodeData QuadTreeNodeData

definition inBounds :: "real \<Rightarrow> real \<Rightarrow> GeoBounds \<Rightarrow> bool" where
  "inBounds la lo b = (la \<ge> minLat b \<and> la \<le> maxLat b \<and> lo \<ge> minLng b \<and> lo \<le> maxLng b)"

fun view_in :: "GeoBounds \<Rightarrow> driver_view \<Rightarrow> bool" where
  "view_in b (i, la, lo, st) = inBounds la lo b"

definition mid_lat :: "GeoBounds \<Rightarrow> real" where "mid_lat b = (minLat b + maxLat b) / 2"
definition mid_lng :: "GeoBounds \<Rightarrow> real" where "mid_lng b = (minLng b + maxLng b) / 2"

definition nw_box :: "GeoBounds \<Rightarrow> GeoBounds" where
  "nw_box b = \<lparr>minLat = mid_lat b, maxLat = maxLat b, minLng = minLng b, maxLng = mid_lng b\<rparr>"
definition ne_box :: "GeoBounds \<Rightarrow> GeoBounds" where
  "ne_box b = \<lparr>minLat = mid_lat b, maxLat = maxLat b, minLng = mid_lng b, maxLng = maxLng b\<rparr>"
definition sw_box :: "GeoBounds \<Rightarrow> GeoBounds" where
  "sw_box b = \<lparr>minLat = minLat b, maxLat = mid_lat b, minLng = minLng b, maxLng = mid_lng b\<rparr>"
definition se_box :: "GeoBounds \<Rightarrow> GeoBounds" where
  "se_box b = \<lparr>minLat = minLat b, maxLat = mid_lat b, minLng = mid_lng b, maxLng = maxLng b\<rparr>"

fun view_bounds :: "QuadTreeNodeData \<Rightarrow> GeoBounds" where
  "view_bounds (ViewLeaf b ps) = b"
| "view_bounds (ViewNode b nw ne sw se) = b"

section \<open>Building\<close>

text \<open>
  Insertion into a node with the given number of levels below it.  A driver is offered to all four
  children, and each child takes it when its closed box holds it.
\<close>

primrec view_insert :: "nat \<Rightarrow> nat \<Rightarrow> QuadTreeNodeData \<Rightarrow> driver_view \<Rightarrow> QuadTreeNodeData" where
  "view_insert 0 maxCapacity =
    (\<lambda>node d. if \<not> view_in (view_bounds node) d then node
       else (case node of ViewLeaf b ps \<Rightarrow> ViewLeaf b (ps @ [d]) | _ \<Rightarrow> node))"
| "view_insert (Suc levels) maxCapacity =
    (\<lambda>node d. if \<not> view_in (view_bounds node) d then node
       else (case node of
               ViewLeaf b ps \<Rightarrow>
                 if length ps < maxCapacity then ViewLeaf b (ps @ [d])
                 else
                   (let fill = (\<lambda>box. foldl (view_insert levels maxCapacity) (ViewLeaf box []) (ps @ [d]))
                    in ViewNode b (fill (nw_box b)) (fill (ne_box b)) (fill (sw_box b)) (fill (se_box b)))
             | ViewNode b nw ne sw se \<Rightarrow>
                 ViewNode b (view_insert levels maxCapacity nw d) (view_insert levels maxCapacity ne d)
                   (view_insert levels maxCapacity sw d) (view_insert levels maxCapacity se d)))"

fun is_available :: "driver_view \<Rightarrow> bool" where
  "is_available (i, la, lo, st) = (st = Available)"

definition buildClientQuadtree :: "driver_view list \<Rightarrow> GeoBounds \<Rightarrow> nat \<Rightarrow> nat \<Rightarrow> QuadTreeNodeData" where
  "buildClientQuadtree ds bounds maxCapacity levels =
    foldl (\<lambda>top d. if is_available d then view_insert levels maxCapacity top d else top) (ViewLeaf bounds []) ds"

fun countQuadtreeNodes :: "QuadTreeNodeData \<Rightarrow> nat" where
  "countQuadtreeNodes (ViewLeaf b ps) = 1"
| "countQuadtreeNodes (ViewNode b nw ne sw se) =
    1 + (countQuadtreeNodes nw + countQuadtreeNodes ne + countQuadtreeNodes sw + countQuadtreeNodes se)"

section \<open>Well-formed trees\<close>

fun view_points :: "QuadTreeNodeData \<Rightarrow> driver_view set" where
  "view_points (ViewLeaf b ps) = set ps"
| "view_points (ViewNode b nw ne sw se) = view_points nw \<union> view_points ne \<union> view_points sw \<union> view_points se"

text \<open>
  The boxes of the children are the quarters, a leaf holds only drivers of its box, each at most as
  often as it was reported, and at most \<open>cap\<close> of them unless it is on the last level.
\<close>

fun view_ok :: "nat \<Rightarrow> nat \<Rightarrow> QuadTreeNodeData \<Rightarrow> bool" where
  "view_ok cap lv (ViewLeaf b ps) = ((\<forall>d\<in>set ps. view_in b d) \<and> (lv = 0 \<or> length ps \<le> cap))"
| "view_ok cap 0 (ViewNode b nw ne sw se) = False"
| "view_ok cap (Suc lv) (ViewNode b nw ne sw se) =
    (view_bounds nw = nw_box b \<and> view_bounds ne = ne_box b \<and> view_bounds sw = sw_box b \<and> view_bounds se = se_box b \<and>
     view_ok cap lv nw \<and> view_ok cap lv ne \<and> view_ok cap lv sw \<and> view_ok cap lv se)"

lemma quarters: "view_in b d \<Longrightarrow> view_in (nw_box b) d \<or> view_in (ne_box b) d \<or> view_in (sw_box b) d \<or> view_in (se_box b) d"
  by (cases d) (auto simp: inBounds_def nw_box_def ne_box_def sw_box_def se_box_def mid_lat_def mid_lng_def)

lemma quarter_inside:
  assumes "minLat b \<le> maxLat b" "minLng b \<le> maxLng b"
  shows "view_in (nw_box b) d \<or> view_in (ne_box b) d \<or> view_in (sw_box b) d \<or> view_in (se_box b) d \<longleftrightarrow> view_in b d"
  using assms by (cases d) (auto simp: inBounds_def nw_box_def ne_box_def sw_box_def se_box_def mid_lat_def mid_lng_def)

lemma view_insert_bounds [simp]: "view_bounds (view_insert lv cap n d) = view_bounds n"
  by (cases lv) (auto simp: Let_def split: QuadTreeNodeData.split)

lemma view_fold_bounds [simp]: "view_bounds (foldl (view_insert lv cap) n ds) = view_bounds n"
  by (induction ds arbitrary: n) simp_all

lemma view_points_in: "view_ok cap lv n \<Longrightarrow> minLat (view_bounds n) \<le> maxLat (view_bounds n) \<Longrightarrow> minLng (view_bounds n) \<le> maxLng (view_bounds n) \<Longrightarrow>
    d \<in> view_points n \<Longrightarrow> view_in (view_bounds n) d"
proof (induction cap lv n rule: view_ok.induct)
  case (3 cap lv b nw ne sw se)
  have sides: "minLat (q b) \<le> maxLat (q b) \<and> minLng (q b) \<le> maxLng (q b)" if "q \<in> {nw_box, ne_box, sw_box, se_box}" for q
    using 3(6,7) that by (auto simp: nw_box_def ne_box_def sw_box_def se_box_def mid_lat_def mid_lng_def)
  show ?case using 3 sides quarter_inside [of b d] by auto
qed simp_all

text \<open>One insertion, and the insertions that fill a new child.\<close>

lemma view_insert_ok:
  "view_ok cap lv n \<Longrightarrow> view_ok cap lv (view_insert lv cap n d) \<and>
    view_points (view_insert lv cap n d) = (if view_in (view_bounds n) d then insert d (view_points n) else view_points n)"
proof (induction lv arbitrary: n d)
  case 0
  then show ?case by (cases n) auto
next
  case (Suc lv)
  have fill: "view_ok cap lv (foldl (view_insert lv cap) m ds) \<and>
      view_points (foldl (view_insert lv cap) m ds) = view_points m \<union> {x \<in> set ds. view_in (view_bounds m) x}"
    if "view_ok cap lv m" for m ds
    using that
  proof (induction ds arbitrary: m)
    case (Cons x ds)
    show ?case using Cons.IH [of "view_insert lv cap m x"] Suc.IH [OF Cons.prems, of x] by auto
  qed simp
  show ?case
  proof (cases n)
    case (ViewNode b nw ne sw se)
    then show ?thesis using Suc.prems Suc.IH [of nw d] Suc.IH [of ne d] Suc.IH [of sw d] Suc.IH [of se d] quarters [of b d] by auto
  next
    case (ViewLeaf b ps)
    show ?thesis
    proof (cases "view_in b d \<and> cap \<le> length ps")
      case False
      then show ?thesis using ViewLeaf Suc.prems by auto
    next
      case True
      have box: "view_ok cap lv (ViewLeaf q [])" for q by simp
      have eq: "{x \<in> set (ps @ [d]). view_in (nw_box b) x} \<union> {x \<in> set (ps @ [d]). view_in (ne_box b) x} \<union>
          {x \<in> set (ps @ [d]). view_in (sw_box b) x} \<union> {x \<in> set (ps @ [d]). view_in (se_box b) x} = insert d (set ps)"
      proof -
        have "view_in (nw_box b) x \<or> view_in (ne_box b) x \<or> view_in (sw_box b) x \<or> view_in (se_box b) x" if "x \<in> insert d (set ps)" for x
          using that True Suc.prems ViewLeaf by (intro quarters) auto
        then show ?thesis unfolding set_append list.set by blast
      qed
      show ?thesis using True ViewLeaf fill [OF box, of _ "ps @ [d]"] eq by (simp add: Let_def)
    qed
  qed
qed

lemma count_mod: "countQuadtreeNodes n mod 4 = 1"
proof (induction n)
  case (ViewNode b nw ne sw se)
  then show ?case unfolding countQuadtreeNodes.simps by presburger
qed simp

lemma count_bound: "view_ok cap lv n \<Longrightarrow> 3 * countQuadtreeNodes n + 1 \<le> 4 ^ Suc lv"
proof (induction cap lv n rule: view_ok.induct)
  case (1 cap lv b ps)
  have "(1::nat) \<le> 4 ^ lv" by simp
  then show ?case by simp
qed simp_all

end
