(* ===== verification/Dashboard.thy ===== *)
theory Dashboard
  imports ClientQuadtree
begin

text \<open>
  The dashboard's state and its handlers: \<open>frontend/src/hooks/useInstaRideSocket.ts\<close>.  The
  frames are those the gateway sends to observers; an action of the user updates the state, sends a
  request to the server (\<open>http_request\<close>) and goes on when the reply is there.  A log entry keeps
  its type and what it is about instead of its text; the clock and identifiers made from it are
  arguments.
\<close>

section \<open>Data\<close>

record Candidate =
  cd_id :: string
  cd_distanceMeters :: int
  cd_expiresAt :: ms

record ActiveTrip =
  at_id :: string
  at_requestId :: string
  at_riderId :: string
  at_driverId :: "string option"
  at_status :: TripStatus
  at_pickup :: GeoPoint
  at_dropoff :: GeoPoint
  at_distanceMeters :: "real option"
  at_offerTimeoutMs :: real
  at_activeCandidate :: "Candidate option"

record SystemStats =
  availableDrivers :: nat
  busyDrivers :: nat
  shownDrivers :: nat
  quadtreeNodes :: nat
  knnLatencyMs :: real
  activeTripsCount :: nat
  observersCount :: nat

record CityPreset =
  city_id :: string
  city_name :: string
  city_country :: string
  city_center :: GeoPoint
  city_zoom :: real
  city_bounds :: GeoBounds
  city_landmarks :: "(string \<times> GeoPoint) list"

datatype connection_status = Conn_connected | Conn_connecting | Conn_disconnected | Conn_standalone

datatype log_type = LogInfo | LogDispatch | LogLock | LogTransition | LogRevoke | LogError | LogConcurrency

datatype log_topic = AboutFrame ws_frame | AboutAction string

text \<open>
  What \<open>cancelActiveRide\<close> is called with: a text, or the event of a click, when it is the
  handler of a button itself.  The event is an object of React and of the browser; what
  \<open>JSON.stringify\<close> makes of it is a parameter, \<open>None\<close> when it throws.
\<close>

datatype cancel_reason = ReasonText string | ReasonEvent "string option"

datatype http_request =
    Post_reset GeoBounds string int
  | Post_rides string string GeoPoint GeoPoint real
  | Post_cancel string string cancel_reason
  | Post_race GeoPoint
  | Post_spawn real real "string option"
  | Post_driver_action string string string
  | Post_driver_response string string string
  | Get_engine
  | Post_engine bool

text \<open>
  The last two are the components' own: the status of the engine, and its selection, true for the
  native one.  The arguments of the others are those of the body.
\<close>

text \<open>What \<open>fetch\<close> gives: a reply with \<open>res.ok\<close>, or it throws.\<close>

datatype fetch_result = FetchOk | FetchRejected | FetchFailed

text \<open>
  The sockets and timers of the browser are part of the state: the sockets that are connecting or
  open, those that were told to close and have not reported it yet, and the timers that have not
  gone off.
\<close>

record Dashboard =
  activeCity :: CityPreset
  shownBounds :: GeoBounds
  connectionStatus :: connection_status
  shown :: "driver_view list"
  activeTrip :: "ActiveTrip option"
  raceResult :: "race_result option"
  systemStats :: SystemStats
  auditLogs :: "(log_type \<times> log_topic) list"
  socketRef :: "nat option"
  reconnectTimerRef :: "nat option"
  liveSockets :: "nat list"
  closingSockets :: "nat list"
  connectTimers :: "nat list"
  nextHandle :: nat

definition dashboard_new :: "CityPreset \<Rightarrow> Dashboard" where
  "dashboard_new city =
    \<lparr>activeCity = city, shownBounds = city_bounds city, connectionStatus = Conn_connecting, shown = [], activeTrip = None,
     raceResult = None, systemStats = \<lparr>availableDrivers = 40, busyDrivers = 0, shownDrivers = 40, quadtreeNodes = 17, knnLatencyMs = 8 / 100,
     activeTripsCount = 0, observersCount = 1\<rparr>, auditLogs = [],
     socketRef = None, reconnectTimerRef = None, liveSockets = [], closingSockets = [], connectTimers = [], nextHandle = 0\<rparr>"

text \<open>Only the latest 200 entries are kept.\<close>

definition addLog :: "log_type \<Rightarrow> log_topic \<Rightarrow> Dashboard \<Rightarrow> Dashboard" where
  "addLog ty topic d = d\<lparr>auditLogs := (ty, topic) # take 199 (auditLogs d)\<rparr>"

definition setActiveTrip :: "(ActiveTrip \<Rightarrow> ActiveTrip) \<Rightarrow> Dashboard \<Rightarrow> Dashboard" where
  "setActiveTrip f d = d\<lparr>activeTrip := map_option f (activeTrip d)\<rparr>"

section \<open>The connection\<close>

definition close_socket :: "nat option \<Rightarrow> Dashboard \<Rightarrow> Dashboard" where
  "close_socket so d =
    (case so of
       Some n \<Rightarrow>
         if n \<in> set (liveSockets d)
         then d\<lparr>liveSockets := remove1 n (liveSockets d), closingSockets := closingSockets d @ [n]\<rparr> else d
     | None \<Rightarrow> d)"

definition reconnect_later :: "Dashboard \<Rightarrow> Dashboard" where
  "reconnect_later d =
    d\<lparr>reconnectTimerRef := Some (nextHandle d), connectTimers := connectTimers d @ [nextHandle d], nextHandle := Suc (nextHandle d)\<rparr>"

text \<open>\<open>made\<close> is false when the constructor of the socket throws.\<close>

definition ws_connect :: "bool \<Rightarrow> Dashboard \<Rightarrow> Dashboard" where
  "ws_connect made d =
    (let d1 = (close_socket (socketRef d) d)\<lparr>connectionStatus := Conn_connecting\<rparr>
     in if made then d1\<lparr>socketRef := Some (nextHandle d1), liveSockets := liveSockets d1 @ [nextHandle d1], nextHandle := Suc (nextHandle d1)\<rparr>
        else reconnect_later (d1\<lparr>connectionStatus := Conn_disconnected\<rparr>))"

definition ws_onopen :: "Dashboard \<Rightarrow> Dashboard" where
  "ws_onopen d = addLog LogInfo (AboutAction ''connected'') (d\<lparr>connectionStatus := Conn_connected\<rparr>)"

text \<open>The socket \<open>n\<close> reports its end, be it the network's, the server's or the dashboard's doing.\<close>

definition ws_onclose :: "nat \<Rightarrow> Dashboard \<Rightarrow> Dashboard" where
  "ws_onclose n d =
    reconnect_later (addLog LogError (AboutAction ''disconnected'')
      (d\<lparr>liveSockets := remove1 n (liveSockets d), closingSockets := remove1 n (closingSockets d), connectionStatus := Conn_disconnected\<rparr>))"

definition reconnect_fires :: "nat \<Rightarrow> bool \<Rightarrow> Dashboard \<Rightarrow> Dashboard" where
  "reconnect_fires t made d = ws_connect made (d\<lparr>connectTimers := remove1 t (connectTimers d)\<rparr>)"

text \<open>The effect of the hook, and its cleanup.\<close>

definition mount :: "bool \<Rightarrow> CityPreset \<Rightarrow> Dashboard \<Rightarrow> http_request \<times> Dashboard" where
  "mount made city d = (Post_reset (city_bounds city) (city_name city) 40, ws_connect made d)"

definition unmount :: "Dashboard \<Rightarrow> Dashboard" where
  "unmount d =
    close_socket (socketRef d)
      (case reconnectTimerRef d of Some t \<Rightarrow> d\<lparr>connectTimers := remove1 t (connectTimers d)\<rparr> | None \<Rightarrow> d)"

section \<open>Frames\<close>

text \<open>The first entry of the driver is replaced, or a new one appended.\<close>

fun put_view :: "driver_view list \<Rightarrow> driver_view \<Rightarrow> driver_view list" where
  "put_view [] v = [v]"
| "put_view (u # us) v = (if fst u = fst v then v # us else u # put_view us v)"

definition show_batch :: "driver_view list \<Rightarrow> Dashboard \<Rightarrow> Dashboard" where
  "show_batch updates d =
    (let avail = length (filter is_available updates)
     in d\<lparr>shown := updates, systemStats := (systemStats d)\<lparr>availableDrivers := avail, busyDrivers := length updates - avail, shownDrivers := length updates\<rparr>\<rparr>)"

fun handle_frame :: "ws_frame \<Rightarrow> Dashboard \<Rightarrow> Dashboard" where
  "handle_frame (TelemetryBatch updates) d = show_batch updates d"
| "handle_frame (TelemetryUpdate driverId p status) d = d\<lparr>shown := put_view (shown d) (driverId, lat p, lng p, status)\<rparr>"
| "handle_frame (OfferDispatchedEvent offer) d =
    setActiveTrip (\<lambda>prev. prev\<lparr>at_driverId := Some (on_driverId offer), at_status := Matching,
        at_activeCandidate := Some \<lparr>cd_id = on_driverId offer, cd_distanceMeters = on_distanceMeters offer, cd_expiresAt = on_expiresAt offer\<rparr>\<rparr>)
      (addLog LogDispatch (AboutFrame (OfferDispatchedEvent offer)) d)"
| "handle_frame (OfferRevokedEvent driverId requestId reason) d =
    setActiveTrip (\<lambda>prev. if map_option cd_id (at_activeCandidate prev) \<noteq> Some driverId then prev else prev\<lparr>at_activeCandidate := None\<rparr>)
      (addLog LogRevoke (AboutFrame (OfferRevokedEvent driverId requestId reason)) d)"
| "handle_frame (TripMatchedEvent tripId requestId driverId riderId) d =
    setActiveTrip (\<lambda>prev. prev\<lparr>at_id := tripId, at_driverId := Some driverId, at_status := Matched, at_activeCandidate := None\<rparr>)
      (addLog LogTransition (AboutFrame (TripMatchedEvent tripId requestId driverId riderId)) d)"
| "handle_frame (TripEvent tripId status i j route) d =
    setActiveTrip (\<lambda>prev. prev\<lparr>at_status := status\<rparr>) (addLog LogTransition (AboutFrame (TripEvent tripId status i j route)) d)"
| "handle_frame (TransitionEvent tripId requestId status i riderId from) d =
    setActiveTrip (\<lambda>prev. prev\<lparr>at_status := status\<rparr>)
      (addLog LogTransition (AboutFrame (TransitionEvent tripId requestId status i riderId from)) d)"
| "handle_frame (DriversEvicted ds) d = addLog LogError (AboutFrame (DriversEvicted ds)) d"
| "handle_frame (RegionUpdated name b n) d = (addLog LogInfo (AboutFrame (RegionUpdated name b n)) d)\<lparr>shownBounds := b\<rparr>"
| "handle_frame (MatchFailedEvent requestId reason) d =
    setActiveTrip (\<lambda>prev. prev\<lparr>at_status := Cancelled\<rparr>) (addLog LogError (AboutFrame (MatchFailedEvent requestId reason)) d)"
| "handle_frame (RaceShown res) d = addLog LogConcurrency (AboutFrame (RaceShown res)) (d\<lparr>raceResult := Some res\<rparr>)"
| "handle_frame _ d = d"

section \<open>Actions\<close>

definition sendRideRequest ::
    "Dashboard \<Rightarrow> string \<Rightarrow> GeoPoint \<Rightarrow> GeoPoint \<Rightarrow> real \<Rightarrow> http_request \<times> Dashboard" where
  "sendRideRequest d reqId pickup dropoff timeoutMs =
    (Post_rides reqId ''rider_alice'' pickup dropoff timeoutMs,
     addLog LogInfo (AboutAction ''ride'')
       (d\<lparr>activeTrip := Some \<lparr>at_id = ''pending...'', at_requestId = reqId, at_riderId = ''rider_alice'', at_driverId = None,
            at_status = Requested, at_pickup = pickup, at_dropoff = dropoff, at_distanceMeters = None,
            at_offerTimeoutMs = timeoutMs, at_activeCandidate = None\<rparr>\<rparr>))"

text \<open>The replies that are only logged.\<close>

definition log_reply :: "log_type \<Rightarrow> string \<Rightarrow> fetch_result \<Rightarrow> Dashboard \<Rightarrow> Dashboard" where
  "log_reply ty what res d = addLog (if res = FetchOk then ty else LogError) (AboutAction what) d"

definition rideRequest_reply :: "fetch_result \<Rightarrow> Dashboard \<Rightarrow> Dashboard" where
  "rideRequest_reply = log_reply LogInfo ''ride''"

definition reseedRegion_reply :: "fetch_result \<Rightarrow> Dashboard \<Rightarrow> Dashboard" where
  "reseedRegion_reply = log_reply LogInfo ''region''"

definition spawnDriver_reply :: "fetch_result \<Rightarrow> Dashboard \<Rightarrow> Dashboard" where
  "spawnDriver_reply = log_reply LogInfo ''spawn''"

definition driverAction_reply :: "fetch_result \<Rightarrow> Dashboard \<Rightarrow> Dashboard" where
  "driverAction_reply = log_reply LogTransition ''action''"

datatype cancel_course = NothingToCancel | NoRequest | RequestSent http_request | RequestThrows

text \<open>
  The trip is the one the callback was made with; there is no request while the trip has no
  identifier from the server, and the reply is not looked at.
\<close>

definition cancelActiveRide :: "Dashboard \<Rightarrow> cancel_reason \<Rightarrow> cancel_course \<times> Dashboard" where
  "cancelActiveRide d reason =
    (case activeTrip d of
       None \<Rightarrow> (NothingToCancel, d)
     | Some trip \<Rightarrow>
         (if at_id trip \<noteq> [] \<and> at_id trip \<noteq> ''pending...''
          then (if reason = ReasonEvent None then RequestThrows else RequestSent (Post_cancel (at_id trip) (at_riderId trip) reason))
          else NoRequest,
          addLog LogRevoke (AboutAction ''cancel'') d))"

text \<open>The rest of the call; an exception ends it in the \<open>catch\<close> block, which only prints.\<close>

definition cancelActiveRide_reply :: "cancel_course \<Rightarrow> fetch_result \<Rightarrow> Dashboard \<Rightarrow> Dashboard" where
  "cancelActiveRide_reply course res d =
    (case course of
       NothingToCancel \<Rightarrow> d
     | RequestThrows \<Rightarrow> d
     | NoRequest \<Rightarrow> setActiveTrip (\<lambda>prev. prev\<lparr>at_status := Cancelled\<rparr>) d
     | RequestSent _ \<Rightarrow> if res = FetchFailed then d else setActiveTrip (\<lambda>prev. prev\<lparr>at_status := Cancelled\<rparr>) d)"

definition switchCity :: "Dashboard \<Rightarrow> CityPreset \<Rightarrow> int \<Rightarrow> http_request \<times> Dashboard" where
  "switchCity d preset driverCount =
    (Post_reset (city_bounds preset) (city_name preset) driverCount,
     addLog LogInfo (AboutAction ''city'') (d\<lparr>activeCity := preset, shownBounds := city_bounds preset\<rparr>))"

definition switchCity_reply :: "fetch_result \<Rightarrow> Dashboard \<Rightarrow> Dashboard" where
  "switchCity_reply res d =
    (case res of
       FetchOk \<Rightarrow> addLog LogInfo (AboutAction ''city'') d
     | FetchRejected \<Rightarrow> d
     | FetchFailed \<Rightarrow> addLog LogError (AboutAction ''city'') d)"

definition trigger2RiderRace :: "Dashboard \<Rightarrow> http_request \<times> Dashboard" where
  "trigger2RiderRace d = (Post_race (city_center (activeCity d)), addLog LogConcurrency (AboutAction ''race'') d)"

definition trigger2RiderRace_reply :: "fetch_result \<Rightarrow> race_result option \<Rightarrow> Dashboard \<Rightarrow> Dashboard" where
  "trigger2RiderRace_reply res data d =
    (case (res, data) of
       (FetchOk, Some result) \<Rightarrow> addLog LogConcurrency (AboutAction ''race'') (d\<lparr>raceResult := Some result\<rparr>)
     | _ \<Rightarrow> addLog LogError (AboutAction ''race'') d)"

definition reseedRegion :: "Dashboard \<Rightarrow> GeoBounds \<Rightarrow> string \<Rightarrow> int \<Rightarrow> http_request \<times> Dashboard" where
  "reseedRegion d bounds cityName driverCount =
    (Post_reset bounds cityName driverCount,
     addLog LogInfo (AboutAction ''region'')
       (d\<lparr>shownBounds := bounds,
          activeCity := (activeCity d)\<lparr>city_name := cityName, city_bounds := bounds,
            city_center := \<lparr>lat = (minLat bounds + maxLat bounds) / 2, lng = (minLng bounds + maxLng bounds) / 2\<rparr>\<rparr>\<rparr>))"

definition spawnDriver :: "Dashboard \<Rightarrow> real \<Rightarrow> real \<Rightarrow> string option \<Rightarrow> http_request \<times> Dashboard" where
  "spawnDriver d la lo i = (Post_spawn la lo i, addLog LogDispatch (AboutAction ''spawn'') d)"

definition sendDriverAction :: "Dashboard \<Rightarrow> string \<Rightarrow> string \<Rightarrow> string \<Rightarrow> http_request \<times> Dashboard" where
  "sendDriverAction d driverId tripId action =
    (Post_driver_action tripId driverId action, addLog LogTransition (AboutAction ''action'') d)"

definition sendDriverResponse :: "Dashboard \<Rightarrow> string \<Rightarrow> string \<Rightarrow> string \<Rightarrow> http_request \<times> Dashboard" where
  "sendDriverResponse d driverId requestId response =
    (Post_driver_response driverId requestId response, addLog LogDispatch (AboutAction ''response'') d)"

definition driverResponse_reply :: "fetch_result \<Rightarrow> Dashboard \<Rightarrow> Dashboard" where
  "driverResponse_reply res d = (if res = FetchOk then d else addLog LogError (AboutAction ''response'') d)"

definition clearRaceEvidence :: "Dashboard \<Rightarrow> Dashboard" where
  "clearRaceEvidence d = d\<lparr>raceResult := None\<rparr>"

definition clearAuditLogs :: "Dashboard \<Rightarrow> Dashboard" where
  "clearAuditLogs d = d\<lparr>auditLogs := []\<rparr>"

end
