(* ===== verification/DashboardProperties.thy ===== *)
theory DashboardProperties
  imports Dashboard Server
begin

text \<open>
  What the dashboard shows: the drawn quadtree, the positions it tracks, the life of its connection,
  and what a rider sees of a cancellation that the server refuses.
\<close>

section \<open>The drawn quadtree\<close>

lemma build_ok:
  "view_ok cap lv n \<Longrightarrow>
    view_ok cap lv (foldl (\<lambda>top d. if is_available d then view_insert lv cap top d else top) n ds) \<and>
    view_points (foldl (\<lambda>top d. if is_available d then view_insert lv cap top d else top) n ds) =
      view_points n \<union> {d \<in> set ds. is_available d \<and> view_in (view_bounds n) d}"
proof (induction ds arbitrary: n)
  case (Cons d ds)
  show ?case
  proof (cases "is_available d")
    case True
    then show ?thesis using Cons.IH [of "view_insert lv cap n d"] view_insert_ok [OF Cons.prems, of d] by auto
  next
    case False
    then show ?thesis using Cons.IH [OF Cons.prems] by auto
  qed
qed simp

text \<open>
  The quadtree that the dashboard draws holds exactly the available drivers inside the shown
  bounds, its leaves obey the capacity except on the last level, the boxes of its nodes are the
  quarters of their parents' boxes, and its number of nodes is 1 modulo 4 and at most that of the
  full tree of its depth.
\<close>

theorem client_tree_shows_all:
  "let t = buildClientQuadtree ds b cap lv
   in view_points t = {d \<in> set ds. is_available d \<and> view_in b d} \<and> view_ok cap lv t \<and> view_bounds t = b \<and>
      countQuadtreeNodes t mod 4 = 1 \<and> 3 * countQuadtreeNodes t + 1 \<le> 4 ^ Suc lv"
proof -
  have fold_bounds: "view_bounds (foldl (\<lambda>top d. if is_available d then view_insert lv cap top d else top) n ds) = view_bounds n" for n
    by (induction ds arbitrary: n) simp_all
  have "view_ok cap lv (buildClientQuadtree ds b cap lv) \<and>
      view_points (buildClientQuadtree ds b cap lv) = {d \<in> set ds. is_available d \<and> view_in b d}"
    using build_ok [of cap lv "ViewLeaf b []" ds] by (simp add: buildClientQuadtree_def)
  moreover from this have "3 * countQuadtreeNodes (buildClientQuadtree ds b cap lv) + 1 \<le> 4 ^ Suc lv" using count_bound by blast
  ultimately show ?thesis using fold_bounds count_mod unfolding Let_def
    by (simp add: buildClientQuadtree_def del: power_Suc)
qed

section \<open>Positions\<close>

definition view_map :: "driver_view list \<Rightarrow> string \<rightharpoonup> driver_view" where
  "view_map vs = map_of (map (\<lambda>v. (fst v, v)) vs)"

text \<open>What a frame says of where the drivers are.\<close>

fun latest :: "ws_frame \<Rightarrow> (string \<rightharpoonup> driver_view) \<Rightarrow> (string \<rightharpoonup> driver_view)" where
  "latest (TelemetryBatch us) m = view_map us"
| "latest (TelemetryUpdate i p st) m = m(i \<mapsto> (i, lat p, lng p, st))"
| "latest _ m = m"

lemma view_map_put [simp]: "view_map (put_view vs v) = (view_map vs)(fst v \<mapsto> v)"
  by (induction vs) (auto simp: view_map_def)

lemma put_view_ids [simp]: "set (map fst (put_view vs v)) = insert (fst v) (set (map fst vs))"
  by (induction vs) auto

lemma put_view_distinct: "distinct (map fst vs) \<Longrightarrow> distinct (map fst (put_view vs v))"
proof (induction vs)
  case (Cons u vs)
  then show ?case using put_view_ids [of vs v] by (cases "fst u = fst v") (simp_all del: set_map put_view_ids)
qed simp

lemma addLog_simps [simp]:
  "shown (addLog ty tp d) = shown d" "activeTrip (addLog ty tp d) = activeTrip d"
  "length (auditLogs d) \<le> 200 \<Longrightarrow> length (auditLogs (addLog ty tp d)) \<le> 200"
  by (simp_all add: addLog_def)

lemma setActiveTrip_simps [simp]:
  "shown (setActiveTrip f d) = shown d" "auditLogs (setActiveTrip f d) = auditLogs d"
  "activeTrip (setActiveTrip f d) = map_option f (activeTrip d)"
  by (simp_all add: setActiveTrip_def)

lemma show_batch_simps [simp]:
  "shown (show_batch us d) = us" "auditLogs (show_batch us d) = auditLogs d" "activeTrip (show_batch us d) = activeTrip d"
  by (simp_all add: show_batch_def Let_def)

lemma frame_shown: "view_map (shown (handle_frame f d)) = latest f (view_map (shown d))"
  by (cases f) simp_all

lemma frame_logs: "length (auditLogs d) \<le> 200 \<Longrightarrow> length (auditLogs (handle_frame f d)) \<le> 200"
  by (cases f) simp_all

lemma frame_distinct:
  "distinct (map fst (shown d)) \<Longrightarrow> (\<And>us. f = TelemetryBatch us \<Longrightarrow> distinct (map fst us)) \<Longrightarrow>
    distinct (map fst (shown (handle_frame f d)))"
  by (cases f) (simp_all add: put_view_distinct)

lemma frame_trip:
  "map_option at_requestId (activeTrip (handle_frame f d)) = map_option at_requestId (activeTrip d)"
  by (cases f) (simp_all add: option.map_comp comp_def if_distrib [of at_requestId] cong: if_cong)

text \<open>
  Whatever frames arrive, the drivers the dashboard shows are those of the last batch with the
  later updates applied, each driver once if no batch repeats one; the log keeps at most 200 entries,
  and no frame makes a trip, drops it or changes the request it belongs to.
\<close>

theorem dashboard_tracks_positions:
  assumes "distinct (map fst (shown d))" and "length (auditLogs d) \<le> 200"
    and "\<forall>us. TelemetryBatch us \<in> set fs \<longrightarrow> distinct (map fst us)"
  shows "view_map (shown (fold handle_frame fs d)) = fold latest fs (view_map (shown d)) \<and>
    distinct (map fst (shown (fold handle_frame fs d))) \<and>
    length (auditLogs (fold handle_frame fs d)) \<le> 200 \<and>
    map_option at_requestId (activeTrip (fold handle_frame fs d)) = map_option at_requestId (activeTrip d)"
  using assms
proof (induction fs arbitrary: d)
  case (Cons f fs)
  have "distinct (map fst (shown (handle_frame f d)))"
    using Cons.prems(3) by (intro frame_distinct [OF Cons.prems(1)]) simp
  from Cons.IH [OF this frame_logs [OF Cons.prems(2)]] Cons.prems(3)
  show ?case using frame_shown [of f d] frame_trip [of f d] by simp
qed simp

definition demo_preset :: CityPreset where
  "demo_preset = \<lparr>city_id = ''blr'', city_name = ''Bengaluru'', city_country = ''India'', city_center = \<lparr>lat = 13, lng = 78\<rparr>, city_zoom = 12,
     city_bounds = \<lparr>minLat = 12, maxLat = 14, minLng = 77, maxLng = 79\<rparr>, city_landmarks = []\<rparr>"

theorem dashboard_tracks_positions_witness:
  "let d = fold handle_frame [TelemetryBatch [(''a'', 13, 78, Available), (''b'', 12, 77, In_trip)],
                TelemetryUpdate ''a'' \<lparr>lat = 12, lng = 78\<rparr> Available, DriversEvicted [''b'']] (dashboard_new demo_preset)
   in view_map (shown d) ''a'' = Some (''a'', 12, 78, Available) \<and> view_map (shown d) ''b'' = Some (''b'', 12, 77, In_trip)"
proof -
  have d: "distinct (map fst (shown (dashboard_new demo_preset)))" "length (auditLogs (dashboard_new demo_preset)) \<le> 200"
    by (simp_all add: dashboard_new_def)
  show ?thesis unfolding Let_def
    by (subst (1 2) dashboard_tracks_positions [OF d, THEN conjunct1]) (auto simp: view_map_def)
qed

section \<open>The connection\<close>

text \<open>What the browser and the network do to a dashboard that stays on the page.\<close>

inductive link_run :: "Dashboard \<Rightarrow> Dashboard \<Rightarrow> bool" for d0 where
  link_refl: "link_run d0 d0"
| link_open: "link_run d0 d \<Longrightarrow> n \<in> set (liveSockets d) \<Longrightarrow> link_run d0 (ws_onopen d)"
| link_closed: "link_run d0 d \<Longrightarrow> n \<in> set (closingSockets d) \<Longrightarrow> link_run d0 (ws_onclose n d)"
| link_lost: "link_run d0 d \<Longrightarrow> n \<in> set (liveSockets d) \<Longrightarrow> link_run d0 (ws_onclose n d)"
| link_timer: "link_run d0 d \<Longrightarrow> t \<in> set (connectTimers d) \<Longrightarrow> link_run d0 (reconnect_fires t made d)"
| link_frame: "link_run d0 d \<Longrightarrow> link_run d0 (handle_frame f d)"

text \<open>The sockets about to report their end and the timers: each will tear the connection down or build it up.\<close>

definition outstanding :: "Dashboard \<Rightarrow> nat" where
  "outstanding d = length (closingSockets d) + length (connectTimers d)"

text \<open>Only the latest socket lives; handles are fresh.\<close>

definition link_ok :: "Dashboard \<Rightarrow> bool" where
  "link_ok d = ((liveSockets d = [] \<or> (\<exists>n. liveSockets d = [n] \<and> socketRef d = Some n)) \<and>
     (\<forall>n\<in>set (liveSockets d @ closingSockets d). n < nextHandle d) \<and> distinct (liveSockets d @ closingSockets d))"

text \<open>The tokens that a connection which settles would not have.\<close>

definition surplus :: "Dashboard \<Rightarrow> nat" where
  "surplus d = outstanding d + length (liveSockets d)"

definition same_link :: "Dashboard \<Rightarrow> Dashboard \<Rightarrow> bool" where
  "same_link d d' = (liveSockets d' = liveSockets d \<and> closingSockets d' = closingSockets d \<and> connectTimers d' = connectTimers d \<and>
     socketRef d' = socketRef d \<and> nextHandle d' = nextHandle d)"

lemma same_linkD: "same_link d d' \<Longrightarrow> link_ok d' = link_ok d \<and> surplus d' = surplus d"
  by (simp add: same_link_def link_ok_def surplus_def outstanding_def)

lemma frame_link: "same_link d (handle_frame f d)" "same_link d (ws_onopen d)"
  by (cases f) (simp_all add: same_link_def addLog_def setActiveTrip_def show_batch_def Let_def ws_onopen_def)

lemma onclose_link:
  assumes "link_ok d" and "n \<in> set (liveSockets d) \<union> set (closingSockets d)"
  shows "link_ok (ws_onclose n d) \<and> surplus (ws_onclose n d) = surplus d"
proof -
  have "length (remove1 n (liveSockets d)) + length (remove1 n (closingSockets d)) + 1 = length (liveSockets d) + length (closingSockets d)"
  proof (cases "n \<in> set (liveSockets d)")
    case True
    then have "n \<notin> set (closingSockets d)" using assms(1) by (auto simp: link_ok_def)
    then show ?thesis using True length_pos_if_in_set [OF True] by (simp add: length_remove1 remove1_idem)
  next
    case False
    then have "n \<in> set (closingSockets d)" using assms(2) by simp
    then show ?thesis using False length_pos_if_in_set [of n "closingSockets d"] by (simp add: length_remove1 remove1_idem)
  qed
  moreover have "set (remove1 n (liveSockets d) @ remove1 n (closingSockets d)) \<subseteq> set (liveSockets d @ closingSockets d)"
    using set_remove1_subset [of n "liveSockets d"] set_remove1_subset [of n "closingSockets d"] by auto
  moreover have "remove1 n (liveSockets d) = [] \<or> remove1 n (liveSockets d) = liveSockets d"
    using assms(1) by (auto simp: link_ok_def split: if_splits)
  ultimately show ?thesis using assms(1) distinct_remove1 [of "liveSockets d" n] distinct_remove1 [of "closingSockets d" n]
    by (simp add: ws_onclose_def reconnect_later_def addLog_def link_ok_def surplus_def outstanding_def) (auto simp: less_Suc_eq)
qed

lemma connect_link:
  assumes "link_ok d"
  shows "link_ok (ws_connect made d) \<and> surplus (ws_connect made d) = Suc (surplus d)"
  using assms
  by (cases "socketRef d"; cases made)
    (auto simp: ws_connect_def close_socket_def reconnect_later_def link_ok_def surplus_def outstanding_def Let_def less_Suc_eq)

lemma timer_link:
  assumes "link_ok d" and "t \<in> set (connectTimers d)"
  shows "link_ok (reconnect_fires t made d) \<and> surplus (reconnect_fires t made d) = surplus d"
proof -
  let ?d = "d\<lparr>connectTimers := remove1 t (connectTimers d)\<rparr>"
  have "link_ok ?d" using assms(1) by (simp add: link_ok_def)
  moreover have "Suc (surplus ?d) = surplus d"
    using assms(2) length_pos_if_in_set [OF assms(2)] by (simp add: surplus_def outstanding_def length_remove1)
  ultimately show ?thesis using connect_link [of ?d made] by (simp add: reconnect_fires_def)
qed

lemma link_run_surplus:
  assumes "link_run d0 d" and "link_ok d0"
  shows "link_ok d \<and> surplus d = surplus d0"
  using assms
proof (induction rule: link_run.induct)
  case (link_open d n)
  then show ?case using same_linkD [OF frame_link(2)] by simp
next
  case (link_closed d n)
  then show ?case using onclose_link [of d n] by simp
next
  case (link_lost d n)
  then show ?case using onclose_link [of d n] by simp
next
  case (link_timer d t made)
  then show ?case using timer_link [of d t made] by simp
next
  case (link_frame d f)
  then show ?case using same_linkD [OF frame_link(1)] by simp
qed simp

text \<open>Without surplus no socket is told to close.\<close>

lemma link_run_quiet:
  assumes "link_run d0 d" and "link_ok d0" "surplus d0 = 1" "closingSockets d0 = []"
  shows "closingSockets d = []"
  using assms
proof (induction rule: link_run.induct)
  case (link_open d n)
  then show ?case using frame_link(2) [of d] by (simp add: same_link_def)
next
  case (link_lost d n)
  then show ?case by (simp add: ws_onclose_def reconnect_later_def addLog_def)
next
  case (link_timer d t made)
  have "surplus d = 1" using link_run_surplus [OF link_timer.hyps(1) link_timer.prems(1)] link_timer.prems(2) by simp
  then have "liveSockets d = []" using link_timer.hyps(2)
    by (cases "connectTimers d"; cases "liveSockets d") (simp_all add: surplus_def outstanding_def)
  then show ?case using link_timer
    by (simp add: reconnect_fires_def ws_connect_def close_socket_def reconnect_later_def Let_def split: option.split)
next
  case (link_frame d f)
  then show ?case using frame_link(1) [of d f] by (simp add: same_link_def)
qed simp_all

lemma mounted_link:
  "closingSockets (snd (mount made city (dashboard_new city))) = [] \<and>
   link_ok (snd (mount made city (dashboard_new city))) \<and> surplus (snd (mount made city (dashboard_new city))) = 1"
  by (cases made) (simp_all add: mount_def ws_connect_def close_socket_def reconnect_later_def dashboard_new_def
      link_ok_def surplus_def outstanding_def Let_def)

lemma remounted_link:
  "link_ok (snd (mount made city (unmount (snd (mount True city (dashboard_new city)))))) \<and>
   surplus (snd (mount made city (unmount (snd (mount True city (dashboard_new city)))))) = 2"
  by (cases made) (simp_all add: mount_def unmount_def ws_connect_def close_socket_def reconnect_later_def dashboard_new_def
      link_ok_def surplus_def outstanding_def Let_def)

text \<open>
  C37. A dashboard that is mounted once keeps one connection alive: at every moment either its socket
  lives and nothing is pending that would end it, or the socket is gone and exactly one reconnection
  is on its way.  A dashboard whose effect has run twice, as React's strict mode does, never comes to
  rest: at every moment the end of an old socket or a reconnection is pending, also while the
  connection is up, and the reconnection closes the live socket.
\<close>

theorem remounted_dashboard_never_settles:
  "(link_run (snd (mount made city (dashboard_new city))) d \<longrightarrow>
      closingSockets d = [] \<and> length (liveSockets d) + length (connectTimers d) = 1) \<and>
   (link_run (snd (mount made city (unmount (snd (mount True city (dashboard_new city)))))) d \<longrightarrow>
      closingSockets d @ connectTimers d \<noteq> [] \<and>
      (\<forall>n t. liveSockets d = [n] \<longrightarrow> liveSockets (reconnect_fires t True d) = [nextHandle d] \<and> n \<in> set (closingSockets (reconnect_fires t True d))))"
proof (intro conjI impI allI)
  assume r: "link_run (snd (mount made city (dashboard_new city))) d"
  show "closingSockets d = []" using link_run_quiet [OF r] mounted_link by blast
  moreover have "surplus d = 1" using link_run_surplus [OF r] mounted_link by metis
  ultimately show "length (liveSockets d) + length (connectTimers d) = 1" by (simp add: surplus_def outstanding_def)
next
  assume r: "link_run (snd (mount made city (unmount (snd (mount True city (dashboard_new city)))))) d"
  from link_run_surplus [OF r] remounted_link have d: "link_ok d" "surplus d = 2" by auto
  then show "closingSockets d @ connectTimers d \<noteq> []" by (auto simp: link_ok_def surplus_def outstanding_def)
  fix n t
  assume n: "liveSockets d = [n]"
  show "liveSockets (reconnect_fires t True d) = [nextHandle d]" "n \<in> set (closingSockets (reconnect_fires t True d))"
    using n d(1) by (auto simp: reconnect_fires_def ws_connect_def close_socket_def link_ok_def Let_def)
qed

text \<open>Twice mounted, the first socket's end reported and its timer gone off: the second socket is to close.\<close>

theorem remounted_dashboard_never_settles_witness:
  "let d0 = snd (mount True demo_preset (unmount (snd (mount True demo_preset (dashboard_new demo_preset)))));
       d = reconnect_fires 2 True (ws_onclose 0 d0)
   in liveSockets (ws_onclose 0 d0) = [1] \<and> liveSockets d = [3] \<and> closingSockets d = [1] \<and> closingSockets d @ connectTimers d \<noteq> []"
proof -
  let ?d0 = "snd (mount True demo_preset (unmount (snd (mount True demo_preset (dashboard_new demo_preset)))))"
  have d0: "liveSockets ?d0 = [1]" "closingSockets ?d0 = [0]" "connectTimers ?d0 = []" "socketRef ?d0 = Some 1" "nextHandle ?d0 = 2"
    by (simp_all add: mount_def unmount_def ws_connect_def close_socket_def dashboard_new_def Let_def)
  have d1: "liveSockets (ws_onclose 0 ?d0) = [1]" "closingSockets (ws_onclose 0 ?d0) = []" "connectTimers (ws_onclose 0 ?d0) = [2]"
    "socketRef (ws_onclose 0 ?d0) = Some 1" "nextHandle (ws_onclose 0 ?d0) = 3"
    using d0 by (simp_all add: ws_onclose_def reconnect_later_def addLog_def)
  have "link_run ?d0 (ws_onclose 0 ?d0)" by (rule link_closed [OF link_refl]) (simp add: d0)
  then have "link_run ?d0 (reconnect_fires 2 True (ws_onclose 0 ?d0))" by (rule link_timer) (simp add: d1)
  then have "closingSockets (reconnect_fires 2 True (ws_onclose 0 ?d0)) @ connectTimers (reconnect_fires 2 True (ws_onclose 0 ?d0)) \<noteq> []"
    using remounted_dashboard_never_settles [of True demo_preset "reconnect_fires 2 True (ws_onclose 0 ?d0)"] by blast
  moreover have "liveSockets (reconnect_fires 2 True (ws_onclose 0 ?d0)) = [3]" "closingSockets (reconnect_fires 2 True (ws_onclose 0 ?d0)) = [1]"
    using d1 by (simp_all add: reconnect_fires_def ws_connect_def close_socket_def Let_def)
  ultimately show ?thesis using d1 unfolding Let_def by blast
qed

section \<open>Cancelling\<close>

lemma post_cancel_stranger:
  assumes "getTrip (stateMachine (service (gateway v))) tid = Some trip" and "rider \<noteq> t_riderId trip"
  shows "snd (post_cancel v now auth tid (Some rider) reason) = v \<and>
    (\<exists>code e. fst (post_cancel v now auth tid (Some rider) reason) = Some (code, Failure e) \<and> code \<in> {401, 403})"
  using assms by (simp add: post_cancel_def reject_def)

text \<open>
  The dashboard takes every match for that of its own rider: when another rider is matched while
  a ride is being requested, the dashboard puts that trip in its place, so cancelling the ride
  asks the server to cancel the stranger's trip; the server refuses with 401 or 403 and changes
  nothing, and the dashboard, which does not look at the answer, shows its ride as cancelled.
\<close>

theorem cancel_of_foreign_trip_is_hidden:
  assumes "activeTrip d = Some a" and "getTrip (stateMachine (service (gateway v))) tid = Some trip"
    and "t_id trip = tid" "tid \<noteq> []" "tid \<noteq> ''pending...''" and "at_riderId a \<noteq> t_riderId trip"
  shows "let d1 = handle_frame (TripMatchedEvent tid (t_requestId trip) drv (t_riderId trip)) d;
      (req, d2) = cancelActiveRide d1 (ReasonText reason);
      (answer, v') = post_cancel v now auth tid (Some (at_riderId a)) (Some reason);
      d3 = cancelActiveRide_reply req FetchRejected d2
    in req = RequestSent (Post_cancel tid (at_riderId a) (ReasonText reason)) \<and> v' = v \<and>
       (\<exists>code e. answer = Some (code, Failure e) \<and> code \<in> {401, 403}) \<and>
       map_option at_requestId (activeTrip d3) = Some (at_requestId a) \<and>
       map_option at_status (activeTrip d3) = Some Cancelled"
  using assms post_cancel_stranger [OF assms(2,6), of now auth "Some reason"]
  by (simp add: cancelActiveRide_def cancelActiveRide_reply_def Let_def split: prod.split) auto

definition other_trip :: Trip where
  "other_trip = newTrip 0 ''u1'' ''r1'' ''bob'' \<lparr>lat = 13, lng = 78\<rparr> \<lparr>lat = 13, lng = 78\<rparr>"

definition shared_server :: Server where
  "shared_server =
    \<lparr>config = \<lparr>sc_host = ''localhost'', sc_token = None\<rparr>,
     gateway = ws_new (service_new (registry_new (qt_new BLR_BOUNDS 8 7)) (tsm_new\<lparr>trips := [(''trip_u1'', other_trip)]\<rparr>)),
     simulator = sim_new BLR_BOUNDS, activeCityName = ''Bengaluru'', activeBounds = BLR_BOUNDS, activeEngine = TsEngine\<rparr>"

definition waiting_dashboard :: Dashboard where
  "waiting_dashboard =
    snd (sendRideRequest (dashboard_new demo_preset) ''req_7'' \<lparr>lat = 13, lng = 78\<rparr> \<lparr>lat = 13, lng = 78\<rparr> 15000)"

theorem cancel_of_foreign_trip_is_hidden_witness:
  "fst (cancelActiveRide (handle_frame (TripMatchedEvent ''trip_u1'' ''r1'' ''d1'' ''bob'') waiting_dashboard) (ReasonText ''changed my mind'')) =
    RequestSent (Post_cancel ''trip_u1'' ''rider_alice'' (ReasonText ''changed my mind''))"
proof -
  let ?a = "the (activeTrip waiting_dashboard)"
  have a: "activeTrip waiting_dashboard = Some ?a" and alice: "at_riderId ?a = ''rider_alice''"
    by (simp_all add: waiting_dashboard_def sendRideRequest_def addLog_def)
  have g: "getTrip (stateMachine (service (gateway shared_server))) ''trip_u1'' = Some other_trip"
    by (simp add: shared_server_def getTrip_def ws_new_def service_new_def)
  have t: "t_id other_trip = ''trip_u1''" "t_riderId other_trip = ''bob''" "t_requestId other_trip = ''r1''"
    by (simp_all add: other_trip_def newTrip_def)
  have n: "at_riderId ?a \<noteq> t_riderId other_trip" by (simp add: alice t)
  show ?thesis
    using cancel_of_foreign_trip_is_hidden [OF a g t(1) _ _ n, of "''d1''" "''changed my mind''"]
    by (simp add: Let_def case_prod_beta alice t(2,3))
qed

end
