(* ===== verification/Cities.thy ===== *)
theory Cities
  imports Dashboard
begin

text \<open>
  The cities the dashboard offers: \<open>frontend/src/utils/cities.ts\<close>, number by number.
\<close>

definition point_at :: "real \<Rightarrow> real \<Rightarrow> GeoPoint" where
  "point_at la lo = \<lparr>lat = la, lng = lo\<rparr>"

definition box_of :: "real \<Rightarrow> real \<Rightarrow> real \<Rightarrow> real \<Rightarrow> GeoBounds" where
  "box_of la1 la2 lo1 lo2 = \<lparr>minLat = la1, maxLat = la2, minLng = lo1, maxLng = lo2\<rparr>"

lemmas city_simps [simp] = point_at_def box_of_def

definition preset_bengaluru :: CityPreset where
  "preset_bengaluru = \<lparr>city_id = ''bengaluru'', city_name = ''Bengaluru'', city_country = ''India'', city_center = point_at 12.9716 77.5946, city_zoom = 13,
     city_bounds = box_of 12.86 13.06 77.5 77.72,
     city_landmarks =
      [(''Koramangala 5th Block'', point_at 12.9352 77.6245),
       (''Indiranagar 100ft Rd'', point_at 12.9784 77.6408),
       (''Electronic City Phase 1'', point_at 12.8399 77.677),
       (''HSR Layout Sector 1'', point_at 12.9121 77.6446),
       (''MG Road Metro'', point_at 12.9756 77.6066),
       (''Whitefield ITPL'', point_at 12.9854 77.7315)]\<rparr>"

definition preset_new_york :: CityPreset where
  "preset_new_york = \<lparr>city_id = ''new_york'', city_name = ''New York'', city_country = ''USA'', city_center = point_at 40.758 (- 73.9855), city_zoom = 13,
     city_bounds = box_of 40.7 40.82 (- 74.02) (- 73.91),
     city_landmarks =
      [(''Times Square'', point_at 40.758 (- 73.9855)),
       (''Wall Street'', point_at 40.7068 (- 74.009)),
       (''Central Park South'', point_at 40.7663 (- 73.9774)),
       (''Brooklyn Bridge'', point_at 40.7061 (- 73.9969)),
       (''Grand Central Terminal'', point_at 40.7527 (- 73.9772))]\<rparr>"

definition preset_london :: CityPreset where
  "preset_london = \<lparr>city_id = ''london'', city_name = ''London'', city_country = ''United Kingdom'', city_center = point_at 51.5074 (- 0.1278), city_zoom = 13,
     city_bounds = box_of 51.46 51.55 (- 0.2) 0.02,
     city_landmarks =
      [(''Piccadilly Circus'', point_at 51.5101 (- 0.134)),
       (''Canary Wharf'', point_at 51.5054 (- 0.0208)),
       (''Tower of London'', point_at 51.5081 (- 0.0759)),
       (''Covent Garden'', point_at 51.5117 (- 0.124)),
       (''Kings Cross Station'', point_at 51.5308 (- 0.1238))]\<rparr>"

definition preset_tokyo :: CityPreset where
  "preset_tokyo = \<lparr>city_id = ''tokyo'', city_name = ''Tokyo'', city_country = ''Japan'', city_center = point_at 35.6762 139.6503, city_zoom = 13,
     city_bounds = box_of 35.62 35.73 139.68 139.82,
     city_landmarks =
      [(''Shinjuku Crossing'', point_at 35.6909 139.7003),
       (''Shibuya Sky'', point_at 35.658 139.7016),
       (''Ginza Six'', point_at 35.6696 139.764),
       (''Tokyo Station'', point_at 35.6812 139.7671),
       (''Roppongi Hills'', point_at 35.6605 139.7292)]\<rparr>"

definition preset_san_francisco :: CityPreset where
  "preset_san_francisco = \<lparr>city_id = ''san_francisco'', city_name = ''San Francisco'', city_country = ''USA'', city_center = point_at 37.7749 (- 122.4194), city_zoom = 13,
     city_bounds = box_of 37.7081 37.8324 (- 122.527) (- 122.3482),
     city_landmarks =
      [(''Market & Montgomery (Financial)'', point_at 37.7891 (- 122.4014)),
       (''Mission Dolores Park'', point_at 37.7596 (- 122.4271)),
       (''Fisherman's Wharf'', point_at 37.808 (- 122.4177)),
       (''Civic Center / City Hall'', point_at 37.7793 (- 122.4192)),
       (''Oracle Park (Giants)'', point_at 37.7786 (- 122.3893))]\<rparr>"

definition preset_singapore :: CityPreset where
  "preset_singapore = \<lparr>city_id = ''singapore'', city_name = ''Singapore'', city_country = ''Singapore'', city_center = point_at 1.3521 103.8198, city_zoom = 13,
     city_bounds = box_of 1.25 1.44 103.7 103.95,
     city_landmarks =
      [(''Marina Bay Sands'', point_at 1.2838 103.8591),
       (''Orchard Road'', point_at 1.3048 103.8318),
       (''Changi Airport Jewel'', point_at 1.3602 103.9897),
       (''Clarke Quay'', point_at 1.2905 103.8465)]\<rparr>"

definition CITY_PRESETS :: "CityPreset list" where
  "CITY_PRESETS = [preset_bengaluru, preset_new_york, preset_london, preset_tokyo, preset_san_francisco, preset_singapore]"

text \<open>\<open>CITY_PRESETS.find\<close>, as both city menus use it.\<close>

definition find_city :: "string \<Rightarrow> CityPreset option" where
  "find_city i = find (\<lambda>c. city_id c = i) CITY_PRESETS"

end
