(* ===== verification/Cockpit.thy ===== *)
theory Cockpit
  imports Cities
begin

text \<open>
  The components of the dashboard (\<open>frontend/src/components\<close>), each as its local state, what
  it offers in a state (the buttons that are there and enabled, the figures shown), and what a click
  does.  The layout and the texts around the figures are left out.
\<close>

text \<open>The colours that tell states apart.\<close>

datatype log_color = Zinc | Amber | Emerald | Indigo | Rose | Cyan

section \<open>The rider's cockpit\<close>

text \<open>
  \<open>leaseInterval\<close> is the expiry of the offer whose countdown runs, as long as its interval
  has not been cleared.
\<close>

record RiderCockpit =
  offerTimeoutSec :: int
  leaseTimeRemaining :: int
  leaseInterval :: "ms option"

definition rider_new :: RiderCockpit where
  "rider_new = \<lparr>offerTimeoutSec = 15, leaseTimeRemaining = 0, leaseInterval = None\<rparr>"

text \<open>The effect, run when the candidate has changed; the interval goes off every 200 ms.\<close>

definition lease_effect :: "ActiveTrip option \<Rightarrow> RiderCockpit \<Rightarrow> RiderCockpit" where
  "lease_effect trip rc =
    (case Option.bind trip at_activeCandidate of
       None \<Rightarrow> rc\<lparr>leaseTimeRemaining := 0, leaseInterval := None\<rparr>
     | Some c \<Rightarrow> if cd_expiresAt c = 0 then rc\<lparr>leaseTimeRemaining := 0, leaseInterval := None\<rparr>
         else rc\<lparr>leaseInterval := Some (cd_expiresAt c)\<rparr>)"

definition lease_tick :: "ms \<Rightarrow> RiderCockpit \<Rightarrow> RiderCockpit" where
  "lease_tick now rc =
    (case leaseInterval rc of
       None \<Rightarrow> rc
     | Some expiresAt \<Rightarrow>
         let diff = max 0 \<lceil>(expiresAt - now) / 1000\<rceil>
         in rc\<lparr>leaseTimeRemaining := diff, leaseInterval := (if diff \<le> 0 then None else Some expiresAt)\<rparr>)"

text \<open>\<open>None\<close> is the status \<open>idle\<close>.\<close>

definition getStepIndex :: "TripStatus option \<Rightarrow> int" where
  "getStepIndex status =
    (case status of
       Some Requested \<Rightarrow> 0
     | Some Matching \<Rightarrow> 1
     | Some Matched \<Rightarrow> 2
     | Some En_route \<Rightarrow> 3
     | Some Arrived \<Rightarrow> 3
     | Some In_progress \<Rightarrow> 4
     | Some Completed \<Rightarrow> 5
     | _ \<Rightarrow> - 1)"

datatype step_mark = StepCurrent | StepDone | StepAhead

definition stepper :: "TripStatus option \<Rightarrow> step_mark list" where
  "stepper status =
    map (\<lambda>idx. if getStepIndex status = idx then StepCurrent else if getStepIndex status \<ge> idx then StepDone else StepAhead) [0..5]"

definition trip_pill_color :: "TripStatus option \<Rightarrow> log_color" where
  "trip_pill_color status =
    (if status = Some Matched \<or> status = Some Completed then Emerald
     else if status = Some Matching then Amber
     else if status = Some Cancelled then Rose
     else Zinc)"

text \<open>The countdown: the seconds that are left, and the width of the bar in percent of 15 seconds.\<close>

definition lease_bar :: "RiderCockpit \<Rightarrow> (int \<times> real) option" where
  "lease_bar rc =
    (if leaseTimeRemaining rc > 0 then Some (leaseTimeRemaining rc, real_of_int (leaseTimeRemaining rc) / 15 * 100) else None)"

text \<open>The slider goes from 5 to 30 and is locked while an offer may be out.\<close>

definition slider_enabled :: "TripStatus option \<Rightarrow> bool" where
  "slider_enabled status = (status \<noteq> Some Matching \<and> status \<noteq> Some Matched)"

definition slide :: "TripStatus option \<Rightarrow> int \<Rightarrow> RiderCockpit \<Rightarrow> RiderCockpit" where
  "slide status v rc = (if slider_enabled status \<and> 5 \<le> v \<and> v \<le> 30 then rc\<lparr>offerTimeoutSec := v\<rparr> else rc)"

text \<open>There is one button: it requests a ride, or cancels the one that is shown.\<close>

definition dispatch_offered :: "TripStatus option \<Rightarrow> bool" where
  "dispatch_offered status = (status = None \<or> status = Some Completed \<or> status = Some Cancelled)"

text \<open>The buttons of the city's first four landmarks set the pickup and the dropoff in turn.\<close>

definition landmark_click :: "CityPreset \<Rightarrow> nat \<Rightarrow> GeoPoint \<times> GeoPoint \<Rightarrow> GeoPoint \<times> GeoPoint" where
  "landmark_click city idx pins =
    (if idx < length (take 4 (city_landmarks city)) then
       (if idx mod 2 = 0 then (snd (city_landmarks city ! idx), snd pins) else (fst pins, snd (city_landmarks city ! idx)))
     else pins)"

section \<open>The driver's cockpit\<close>

text \<open>
  The driver of the active trip, once there has been an offer, or else the selected one; the first
  of the list when that one is not in it.
\<close>

definition target_driver :: "string \<Rightarrow> ActiveTrip option \<Rightarrow> string" where
  "target_driver selected trip =
    (case Option.bind trip at_driverId of Some i \<Rightarrow> if i = [] then selected else i | None \<Rightarrow> selected)"

definition current_driver :: "string \<Rightarrow> driver_view list \<Rightarrow> ActiveTrip option \<Rightarrow> driver_view option" where
  "current_driver selected ds trip =
    (case find (\<lambda>d. fst d = target_driver selected trip) ds of
       Some d \<Rightarrow> Some d
     | None \<Rightarrow> (case ds of [] \<Rightarrow> None | d # _ \<Rightarrow> Some d))"

text \<open>Two missing values are equal here, but \<open>driverId: null\<close> is no missing value.\<close>

definition is_candidate :: "driver_view option \<Rightarrow> ActiveTrip option \<Rightarrow> bool" where
  "is_candidate cur trip = (map_option cd_id (Option.bind trip at_activeCandidate) = map_option fst cur)"

definition is_assigned :: "driver_view option \<Rightarrow> ActiveTrip option \<Rightarrow> bool" where
  "is_assigned cur trip =
    (case trip of
       None \<Rightarrow> cur = None
     | Some t \<Rightarrow> cur \<noteq> None \<and> at_driverId t = map_option fst cur \<and> at_status t \<noteq> Matching)"

definition milestone_enabled :: "TripStatus \<Rightarrow> string \<Rightarrow> bool" where
  "milestone_enabled status action =
    (if action = ''arrived'' then status = En_route \<or> status = Matched
     else if action = ''start_trip'' then status = Arrived
     else if action = ''complete_trip'' then status = In_progress
     else False)"

definition milestone_actions :: "string list" where
  "milestone_actions = [''arrived'', ''start_trip'', ''complete_trip'']"

text \<open>The badge of a driver; the status \<open>locked\<close> has a colour too, but is never sent.\<close>

fun driver_badge_color :: "driver_view \<Rightarrow> log_color" where
  "driver_badge_color (i, la, lo, st) = (if st = Available then Emerald else Cyan)"

record DriverPanel =
  dp_options :: "driver_view list"
  dp_driver :: "driver_view option"
  dp_indexed :: bool
  dp_offer :: "int option"
  dp_actions :: "string list option"
  dp_idle :: bool

text \<open>
  What is rendered; \<open>None\<close> when rendering throws, since the banner of an offer reads the
  distance of a candidate that is not there.  \<open>dp_actions\<close> lists the enabled ones of the
  three milestone buttons.
\<close>

definition driver_cockpit :: "string \<Rightarrow> driver_view list \<Rightarrow> ActiveTrip option \<Rightarrow> DriverPanel option" where
  "driver_cockpit selected ds trip =
    (let cur = current_driver selected ds trip;
         panel = (\<lambda>offer.
           \<lparr>dp_options = take 25 ds, dp_driver = cur, dp_indexed = (case cur of Some d \<Rightarrow> is_available d | None \<Rightarrow> False), dp_offer = offer,
            dp_actions = (case trip of
                Some t \<Rightarrow> if is_assigned cur trip then Some (filter (milestone_enabled (at_status t)) milestone_actions) else None
              | None \<Rightarrow> None),
            dp_idle = (\<not> is_candidate cur trip \<and> \<not> is_assigned cur trip)\<rparr>)
     in if is_candidate cur trip \<and> trip \<noteq> None then
          (case Option.bind trip at_activeCandidate of None \<Rightarrow> None | Some c \<Rightarrow> Some (panel (Some (cd_distanceMeters c))))
        else Some (panel None))"

datatype driver_click = ClickAccept | ClickReject | ClickMilestone string

text \<open>What a click does, when its button is there and enabled.\<close>

definition driver_cockpit_click :: "string \<Rightarrow> Dashboard \<Rightarrow> driver_click \<Rightarrow> (http_request \<times> Dashboard) option" where
  "driver_cockpit_click selected d click =
    (case (driver_cockpit selected (shown d) (activeTrip d), activeTrip d) of
       (Some panel, Some trip) \<Rightarrow>
         (case dp_driver panel of
            None \<Rightarrow> None
          | Some cur \<Rightarrow>
              (case click of
                 ClickAccept \<Rightarrow>
                   if dp_offer panel \<noteq> None then Some (sendDriverResponse d (fst cur) (at_requestId trip) ''accepted'') else None
               | ClickReject \<Rightarrow>
                   if dp_offer panel \<noteq> None then Some (sendDriverResponse d (fst cur) (at_requestId trip) ''rejected'') else None
               | ClickMilestone action \<Rightarrow>
                   (case dp_actions panel of
                      None \<Rightarrow> None
                    | Some enabled \<Rightarrow>
                        if action \<in> set enabled then Some (sendDriverAction d (fst cur) (at_id trip) action) else None)))
     | _ \<Rightarrow> None)"

section \<open>The chaos panel\<close>

text \<open>\<open>raceTimers\<close> counts the timeouts of 800 ms that have not gone off.\<close>

record ChaosPanel =
  isRunning :: bool
  raceTimers :: nat

definition chaos_new :: ChaosPanel where
  "chaos_new = \<lparr>isRunning = False, raceTimers = 0\<rparr>"

definition handleRunRace :: "Dashboard \<Rightarrow> ChaosPanel \<Rightarrow> (http_request \<times> Dashboard) option \<times> ChaosPanel" where
  "handleRunRace d p = (if isRunning p then (None, p) else (Some (trigger2RiderRace d), p\<lparr>isRunning := True\<rparr>))"

definition race_settled :: "ChaosPanel \<Rightarrow> ChaosPanel" where
  "race_settled p = p\<lparr>raceTimers := Suc (raceTimers p)\<rparr>"

definition race_timer :: "ChaosPanel \<Rightarrow> ChaosPanel" where
  "race_timer p = (if raceTimers p = 0 then p else p\<lparr>isRunning := False, raceTimers := raceTimers p - 1\<rparr>)"

text \<open>
  The dossier of a race: the target and the two assigned drivers are the result's, everything else
  is written into the page.
\<close>

record RaceDossier =
  do_target :: string
  do_aliceGranted :: bool
  do_alice :: "string option"
  do_bobCollided :: bool
  do_bobFallback :: bool
  do_bob :: "string option"
  do_duplicates :: nat

definition race_dossier :: "race_result \<Rightarrow> RaceDossier" where
  "race_dossier res =
    \<lparr>do_target = rr_target res, do_aliceGranted = True, do_alice = rr_alice res, do_bobCollided = True, do_bobFallback = True,
     do_bob = rr_bob res, do_duplicates = 0\<rparr>"

section \<open>The event log\<close>

definition log_shown :: "string \<Rightarrow> log_type \<Rightarrow> bool" where
  "log_shown cat ty =
    (if cat = ''all'' then True
     else if cat = ''dispatch'' then ty = LogDispatch \<or> ty = LogLock
     else if cat = ''transition'' then ty = LogTransition
     else if cat = ''concurrency'' then ty = LogConcurrency
     else if cat = ''error'' then ty = LogError \<or> ty = LogRevoke
     else True)"

definition log_categories :: "string list" where
  "log_categories = [''all'', ''dispatch'', ''transition'', ''concurrency'', ''error'']"

definition filteredLogs :: "string \<Rightarrow> (log_type \<times> log_topic) list \<Rightarrow> (log_type \<times> log_topic) list" where
  "filteredLogs cat logs = filter (\<lambda>l. log_shown cat (fst l)) logs"

definition log_text_color :: "log_type \<Rightarrow> log_color" where
  "log_text_color ty =
    (if ty = LogDispatch \<or> ty = LogLock then Amber
     else if ty = LogTransition then Emerald
     else if ty = LogConcurrency then Indigo
     else if ty = LogError \<or> ty = LogRevoke then Rose
     else Zinc)"

definition log_badge_color :: "log_type \<Rightarrow> log_color" where
  "log_badge_color ty =
    (if ty = LogDispatch then Amber
     else if ty = LogTransition then Emerald
     else if ty = LogConcurrency then Indigo
     else if ty = LogError then Rose
     else Zinc)"

end
