(* ===== verification/MapView.thy ===== *)
theory MapView
  imports Cockpit Server
begin

text \<open>
  The map, the operations page and the header of the dashboard: \<open>DynamicSpatialMap.tsx\<close>,
  \<open>OperationsDashboard.tsx\<close>, \<open>HeaderMetrics.tsx\<close>.  What the map library draws is
  the list of the shapes it is given, and the part of the world that is visible is an argument.
\<close>

section \<open>The map's tools\<close>

datatype click_mode = PickupMode | DropoffMode | SpawnMode

record SpatialMap =
  clickMode :: click_mode
  showQuadtreeGrid :: bool
  showDriverLabels :: bool
  fleetSize :: int
  showBoundsModal :: bool
  customBoundsInput :: GeoBounds
  mapEngine :: engine
  cppShown :: bool
  lastLatencyUs :: real

definition map_new :: "GeoBounds \<Rightarrow> SpatialMap" where
  "map_new bounds =
    \<lparr>clickMode = PickupMode, showQuadtreeGrid = True, showDriverLabels = False, fleetSize = 40, showBoundsModal = False,
     customBoundsInput = bounds, mapEngine = TsEngine, cppShown = True, lastLatencyUs = 0\<rparr>"

text \<open>The reply to the status request of a new map, with the defaults for fields that are missing.\<close>

definition engine_status :: "engine option \<Rightarrow> bool option \<Rightarrow> real option \<Rightarrow> SpatialMap \<Rightarrow> SpatialMap" where
  "engine_status told cpp latency mp =
    (case told of
       None \<Rightarrow> mp
     | Some e \<Rightarrow> mp\<lparr>mapEngine := e, cppShown := (case cpp of Some c \<Rightarrow> c | None \<Rightarrow> True),
         lastLatencyUs := (case latency of Some l \<Rightarrow> l | None \<Rightarrow> 0)\<rparr>)"

text \<open>The reply to a switch: \<open>status\<close> is \<open>ok\<close> or not; a request that fails is only printed.\<close>

definition handleSwitchEngine_reply :: "engine \<Rightarrow> bool \<Rightarrow> SpatialMap \<Rightarrow> SpatialMap" where
  "handleSwitchEngine_reply target ok mp = (if ok then mp\<lparr>mapEngine := target\<rparr> else mp)"

datatype map_effect = SelectPickup GeoPoint | SelectDropoff GeoPoint | SpawnAt real real

definition map_click :: "SpatialMap \<Rightarrow> GeoPoint \<Rightarrow> map_effect" where
  "map_click mp p =
    (case clickMode mp of
       PickupMode \<Rightarrow> SelectPickup p
     | DropoffMode \<Rightarrow> SelectDropoff p
     | SpawnMode \<Rightarrow> SpawnAt (lat p) (lng p))"

definition map_contextmenu :: "GeoPoint \<Rightarrow> map_effect" where
  "map_contextmenu p = SelectDropoff p"

section \<open>The size of the fleet\<close>

text \<open>\<open>prev || 40\<close>\<close>

definition or_forty :: "int \<Rightarrow> int" where
  "or_forty n = (if n = 0 then 40 else n)"

definition fleet_decrease :: "SpatialMap \<Rightarrow> SpatialMap" where
  "fleet_decrease mp = mp\<lparr>fleetSize := max 1 (or_forty (fleetSize mp) - 5)\<rparr>"

definition fleet_increase :: "SpatialMap \<Rightarrow> SpatialMap" where
  "fleet_increase mp = mp\<lparr>fleetSize := min 500 (or_forty (fleetSize mp) + 5)\<rparr>"

text \<open>What is typed: nothing, a number, or what \<open>parseInt\<close> makes NaN of.\<close>

datatype fleet_text = EmptyText | NumberText int | OtherText

definition fleet_typed :: "fleet_text \<Rightarrow> SpatialMap \<Rightarrow> SpatialMap" where
  "fleet_typed t mp =
    (case t of EmptyText \<Rightarrow> mp\<lparr>fleetSize := 0\<rparr> | NumberText n \<Rightarrow> mp\<lparr>fleetSize := n\<rparr> | OtherText \<Rightarrow> mp)"

definition fleet_blur :: "SpatialMap \<Rightarrow> SpatialMap" where
  "fleet_blur mp =
    (if fleetSize mp = 0 \<or> fleetSize mp < 1 then mp\<lparr>fleetSize := 10\<rparr>
     else if fleetSize mp > 500 then mp\<lparr>fleetSize := 500\<rparr> else mp)"

text \<open>\<open>Number(x.toFixed(4))\<close>: the nearest multiple of a ten-thousandth, halves away from zero.\<close>

definition toFixed4 :: "real \<Rightarrow> real" where
  "toFixed4 x = sgn x * of_int \<lfloor>\<bar>x\<bar> * 10000 + 1 / 2\<rfloor> / 10000"

definition handleSeedVisibleView :: "Dashboard \<Rightarrow> SpatialMap \<Rightarrow> GeoBounds \<Rightarrow> http_request \<times> Dashboard" where
  "handleSeedVisibleView d mp view =
    reseedRegion d
      \<lparr>minLat = toFixed4 (minLat view), maxLat = toFixed4 (maxLat view), minLng = toFixed4 (minLng view), maxLng = toFixed4 (maxLng view)\<rparr>
      ''Custom Visible Viewport'' (max 1 (min 500 (or_forty (fleetSize mp))))"

definition apply_bounds :: "Dashboard \<Rightarrow> SpatialMap \<Rightarrow> (http_request \<times> Dashboard) \<times> SpatialMap" where
  "apply_bounds d mp =
    (reseedRegion d (customBoundsInput mp) ''Custom LatLng Zone'' (fleetSize mp), mp\<lparr>showBoundsModal := False\<rparr>)"

section \<open>What is drawn\<close>

record grid_rect =
  gr_bounds :: GeoBounds
  gr_weight :: nat
  gr_opacity :: real

definition rect_of :: "nat \<Rightarrow> GeoBounds \<Rightarrow> grid_rect" where
  "rect_of depth b = \<lparr>gr_bounds = b, gr_weight = (if depth = 0 then 2 else 1), gr_opacity = max 0.15 (0.4 - real depth * 0.05)\<rparr>"

fun drawNode :: "nat \<Rightarrow> QuadTreeNodeData \<Rightarrow> grid_rect list" where
  "drawNode depth (ViewLeaf b ps) = [rect_of depth b]"
| "drawNode depth (ViewNode b nw ne sw se) =
    rect_of depth b # drawNode (Suc depth) nw @ drawNode (Suc depth) ne @ drawNode (Suc depth) sw @ drawNode (Suc depth) se"

definition drawn_grid :: "SpatialMap \<Rightarrow> driver_view list \<Rightarrow> GeoBounds \<Rightarrow> grid_rect list" where
  "drawn_grid mp ds bounds = (if showQuadtreeGrid mp then drawNode 0 (buildClientQuadtree ds bounds 4 6) else [])"

datatype mark_color = MarkEmerald | MarkAmber | MarkSky | MarkRose

text \<open>
  The server's statuses are three; \<open>locked\<close>, \<open>en_route\<close> and \<open>in_progress\<close>, and
  the flag \<open>hasLock\<close>, are in no frame that the dashboard handles.
\<close>

fun marker_color :: "driver_view \<Rightarrow> mark_color" where
  "marker_color (i, la, lo, st) = (if st = Busy then MarkRose else MarkEmerald)"

definition view_point :: "driver_view \<Rightarrow> GeoPoint" where
  "view_point d = \<lparr>lat = fst (snd d), lng = fst (snd (snd d))\<rparr>"

definition driver_markers :: "driver_view list \<Rightarrow> (GeoPoint \<times> mark_color) list" where
  "driver_markers ds = map (\<lambda>d. (view_point d, marker_color d)) ds"

text \<open>The line from the trip's driver over the pickup pin to the dropoff pin.\<close>

definition route_line :: "ActiveTrip option \<Rightarrow> driver_view list \<Rightarrow> GeoPoint \<Rightarrow> GeoPoint \<Rightarrow> GeoPoint list option" where
  "route_line trip ds pickup dropoff =
    (case Option.bind trip at_driverId of
       None \<Rightarrow> None
     | Some i \<Rightarrow>
         if i = [] then None
         else map_option (\<lambda>d. [view_point d, pickup, dropoff]) (find (\<lambda>d. fst d = i) ds))"

text \<open>The line of one rider of a race to the driver it got.\<close>

definition race_line :: "string option \<Rightarrow> GeoPoint \<Rightarrow> driver_view list \<Rightarrow> GeoPoint list option" where
  "race_line assigned pickup ds =
    (case assigned of
       None \<Rightarrow> None
     | Some i \<Rightarrow> if i = [] then None else map_option (\<lambda>d. [pickup, view_point d]) (find (\<lambda>d. fst d = i) ds))"

section \<open>The operations page\<close>

record BurstResult =
  br_total :: nat
  br_successful :: nat
  br_durationMs :: real

record OpsDashboard =
  opsEngine :: engine
  isSwitchingEngine :: bool
  burstTesting :: bool
  burstResult :: "BurstResult option"

definition ops_new :: OpsDashboard where
  "ops_new = \<lparr>opsEngine = CppEngine, isSwitchingEngine = False, burstTesting = False, burstResult = None\<rparr>"

definition ops_status :: "engine option \<Rightarrow> OpsDashboard \<Rightarrow> OpsDashboard" where
  "ops_status told p = (case told of Some e \<Rightarrow> p\<lparr>opsEngine := e\<rparr> | None \<Rightarrow> p)"

definition handleEngineSelect :: "OpsDashboard \<Rightarrow> OpsDashboard" where
  "handleEngineSelect p = p\<lparr>isSwitchingEngine := True\<rparr>"

text \<open>\<open>res.ok\<close> and the engine of the answer, or \<open>None\<close> when the request threw.\<close>

definition handleEngineSelect_reply :: "(bool \<times> engine option) option \<Rightarrow> OpsDashboard \<Rightarrow> OpsDashboard" where
  "handleEngineSelect_reply res p =
    (case res of
       Some (True, Some e) \<Rightarrow> p\<lparr>opsEngine := e, isSwitchingEngine := False\<rparr>
     | _ \<Rightarrow> p\<lparr>isSwitchingEngine := False\<rparr>)"

text \<open>
  The fifty requests of a burst: \<open>stamp\<close> is the clock as text, \<open>rnd i\<close> the i-th random
  number.
\<close>

definition burst_request :: "GeoPoint \<Rightarrow> string \<Rightarrow> (nat \<Rightarrow> real) \<Rightarrow> nat \<Rightarrow> http_request" where
  "burst_request center stamp rnd i =
    (let offset = (rnd i - 1 / 2) * 0.04
     in Post_rides (''burst_'' @ stamp @ ''_'' @ show_nat i) (''rider_burst_'' @ show_nat i)
          \<lparr>lat = lat center + offset, lng = lng center + offset\<rparr>
          \<lparr>lat = lat center + offset + 0.01, lng = lng center + offset + 0.01\<rparr> 5000)"

definition handleRunBurstTest :: "CityPreset \<Rightarrow> string \<Rightarrow> (nat \<Rightarrow> real) \<Rightarrow> OpsDashboard \<Rightarrow> http_request list \<times> OpsDashboard" where
  "handleRunBurstTest city stamp rnd p =
    (if burstTesting p then ([], p)
     else (map (burst_request (city_center city) stamp rnd) [0..<50], p\<lparr>burstTesting := True, burstResult := None\<rparr>))"

text \<open>When every request has been answered or has failed.\<close>

definition burst_settled :: "fetch_result list \<Rightarrow> real \<Rightarrow> OpsDashboard \<Rightarrow> OpsDashboard" where
  "burst_settled replies durationMs p =
    p\<lparr>burstTesting := False,
      burstResult := Some \<lparr>br_total = 50, br_successful = length (filter (\<lambda>r. r = FetchOk) replies), br_durationMs = durationMs\<rparr>\<rparr>"

text \<open>The figures of the fleet: available, busy, and locked, of which no frame tells.\<close>

record fleet_counts =
  fc_total :: nat
  fc_available :: nat
  fc_busy :: nat
  fc_locked :: nat

definition count_fleet :: "driver_view list \<Rightarrow> fleet_counts" where
  "count_fleet ds =
    \<lparr>fc_total = length ds, fc_available = length (filter is_available ds),
     fc_busy = length (filter (\<lambda>(i, la, lo, st). st = Busy) ds), fc_locked = 0\<rparr>"

text \<open>The widths of the two bars, in percent.\<close>

definition fleet_bars :: "fleet_counts \<Rightarrow> real \<times> real" where
  "fleet_bars c =
    (if fc_total c = 0 then (0, 0)
     else (real (fc_available c) / real (fc_total c) * 100, real (fc_busy c) / real (fc_total c) * 100))"

text \<open>The latency that is shown, in microseconds: a constant for the native engine.\<close>

definition knn_latency_us :: "engine \<Rightarrow> SystemStats \<Rightarrow> real" where
  "knn_latency_us e st = (if e = CppEngine then 12.7 else of_int \<lfloor>knnLatencyMs st * 1000 + 1 / 2\<rfloor>)"

definition ops_log_color :: "log_type \<Rightarrow> log_color" where
  "ops_log_color ty =
    (if ty = LogDispatch then Emerald else if ty = LogLock then Amber else if ty = LogError then Rose else Zinc)"

definition shown_events :: "(log_type \<times> log_topic) list \<Rightarrow> (log_type \<times> log_topic) list" where
  "shown_events logs = take 30 logs"

definition reseed_choices :: "int list" where
  "reseed_choices = [20, 40, 80, 150]"

section \<open>The header\<close>

definition status_color :: "connection_status \<Rightarrow> log_color" where
  "status_color st = (if st = Conn_connected then Emerald else if st = Conn_connecting then Amber else Rose)"

end
