(* ===== verification/App.thy ===== *)
theory App
  imports MapView
begin

text \<open>
  The dashboard as a whole: \<open>App.tsx\<close>, which holds the hook's state, the two pins, the tab and
  the route, and shows the components.  A component that is shown anew starts with fresh local state
  (\<open>keep\<close>).  \<open>app_step\<close> is what one event does: a frame, a click, a timer, a reply;
  it returns the requests that are sent.
\<close>

section \<open>State\<close>

datatype tab = RiderTab | DriverTab | ChaosTab

datatype route = MapRoute | DashboardRoute

record App =
  hook :: Dashboard
  pickupPoint :: GeoPoint
  dropoffPoint :: GeoPoint
  activeTab :: tab
  currentRoute :: route
  riderPane :: "RiderCockpit option"
  driverPane :: "string option"
  chaosPane :: "ChaosPanel option"
  auditPane :: "string option"
  mapPane :: "SpatialMap option"
  opsPane :: "OpsDashboard option"
  crashed :: bool

text \<open>The pins: the city's first two landmarks, or its centre and a point beside it.\<close>

definition default_pins :: "CityPreset \<Rightarrow> GeoPoint \<times> GeoPoint" where
  "default_pins city =
    ((case city_landmarks city of [] \<Rightarrow> city_center city | l # _ \<Rightarrow> snd l),
     (case city_landmarks city of
        _ # l # _ \<Rightarrow> snd l
      | _ \<Rightarrow> \<lparr>lat = lat (city_center city) + 0.015, lng = lng (city_center city) + 0.015\<rparr>))"

definition str_includes :: "string \<Rightarrow> string \<Rightarrow> bool" where
  "str_includes s sub = list_ex (\<lambda>n. take (length sub) (drop n s) = sub) [0..<Suc (length s)]"

definition route_of :: "string \<Rightarrow> string \<Rightarrow> route" where
  "route_of pathname hash = (if str_includes pathname ''dashboard'' \<or> str_includes hash ''dashboard'' then DashboardRoute else MapRoute)"

section \<open>Rendering\<close>

definition keep :: "bool \<Rightarrow> 'a \<Rightarrow> 'a option \<Rightarrow> 'a option" where
  "keep wanted new old = (if wanted then Some (case old of Some p \<Rightarrow> p | None \<Rightarrow> new) else None)"

definition shown_candidate :: "Dashboard \<Rightarrow> Candidate option" where
  "shown_candidate d = Option.bind (activeTrip d) at_activeCandidate"

text \<open>
  After an event: the components that the route and the tab show, and the effects of the state that
  has changed since \<open>old\<close>: the countdown of a new candidate, the bounds in the map's form, the
  map made anew for another city.  When a component throws while it is rendered, React takes the whole
  page away, since no component catches it.
\<close>

definition render :: "App \<Rightarrow> App \<Rightarrow> App" where
  "render old a =
    (let on_map = (currentRoute a = MapRoute);
         fresh_rider = (riderPane a = None \<or> shown_candidate (hook a) \<noteq> shown_candidate (hook old));
         rider = keep (on_map \<and> activeTab a = RiderTab) rider_new (riderPane a);
         kept_map = (if city_id (activeCity (hook a)) = city_id (activeCity (hook old)) then mapPane a else None);
         mp = keep on_map (map_new (shownBounds (hook a))) kept_map;
         driver = keep (on_map \<and> activeTab a = DriverTab) ''sim_driver_1'' (driverPane a)
     in a\<lparr>riderPane := (if fresh_rider then map_option (lease_effect (activeTrip (hook a))) rider else rider),
          driverPane := driver,
          chaosPane := keep (on_map \<and> activeTab a = ChaosTab) chaos_new (chaosPane a),
          auditPane := keep on_map ''all'' (auditPane a),
          mapPane := (if shownBounds (hook a) = shownBounds (hook old) then mp
                      else map_option (\<lambda>m. m\<lparr>customBoundsInput := shownBounds (hook a)\<rparr>) mp),
          opsPane := keep (\<not> on_map) ops_new (opsPane a),
          crashed := (case driver of Some i \<Rightarrow> driver_cockpit i (shown (hook a)) (activeTrip (hook a)) = None | None \<Rightarrow> False)\<rparr>)"

text \<open>The components that ask for the status of the engine when they appear.\<close>

definition appearing :: "App \<Rightarrow> App \<Rightarrow> http_request list" where
  "appearing old a =
    (if mapPane a \<noteq> None \<and> (mapPane old = None \<or> city_id (activeCity (hook a)) \<noteq> city_id (activeCity (hook old))) \<or>
        opsPane a \<noteq> None \<and> opsPane old = None then [Get_engine] else [])"

text \<open>The page when it is opened; \<open>made\<close> is false when the constructor of the socket throws.\<close>

definition app_new :: "bool \<Rightarrow> string \<Rightarrow> string \<Rightarrow> http_request list \<times> App" where
  "app_new made pathname hash =
    (let (req, d) = mount made preset_bengaluru (dashboard_new preset_bengaluru);
         a = \<lparr>hook = d, pickupPoint = fst (default_pins preset_bengaluru),
              dropoffPoint = snd (default_pins preset_bengaluru), activeTab = RiderTab, currentRoute = route_of pathname hash,
              riderPane = None, driverPane = None, chaosPane = None, auditPane = None, mapPane = None, opsPane = None, crashed = False\<rparr>
     in (req # appearing a (render a a), render a a))"

section \<open>Handlers\<close>

definition handleNavigate :: "route \<Rightarrow> App \<Rightarrow> App" where
  "handleNavigate r a = a\<lparr>currentRoute := r\<rparr>"

definition handleCityChange :: "CityPreset \<Rightarrow> App \<Rightarrow> http_request list \<times> App" where
  "handleCityChange city a =
    (let (req, d) = switchCity (hook a) city 40
     in ([req], a\<lparr>hook := d, pickupPoint := fst (default_pins city), dropoffPoint := snd (default_pins city)\<rparr>))"

text \<open>The status that the rider's cockpit shows.\<close>

definition shown_trip_status :: "App \<Rightarrow> TripStatus option" where
  "shown_trip_status a = map_option at_status (activeTrip (hook a))"

text \<open>
  The button of the rider's cockpit.  \<open>onClick={onCancelRide}\<close> hands the event of the click to
  \<open>cancelActiveRide\<close> as its reason; \<open>json\<close> is what \<open>JSON.stringify\<close> makes of it.
\<close>

definition rider_button :: "string \<Rightarrow> string option \<Rightarrow> App \<Rightarrow> http_request list \<times> App" where
  "rider_button reqId json a =
    (case riderPane a of
       None \<Rightarrow> ([], a)
     | Some rc \<Rightarrow>
         if dispatch_offered (shown_trip_status a) then
           (let (req, d) = sendRideRequest (hook a) reqId (pickupPoint a) (dropoffPoint a) (real_of_int (offerTimeoutSec rc) * 1000)
            in ([req], a\<lparr>hook := d\<rparr>))
         else
           (case cancelActiveRide (hook a) (ReasonEvent json) of
              (RequestSent req, d) \<Rightarrow> ([req], a\<lparr>hook := d\<rparr>)
            | (course, d) \<Rightarrow> ([], a\<lparr>hook := cancelActiveRide_reply course FetchFailed d\<rparr>)))"

definition apply_map_effect :: "map_effect \<Rightarrow> App \<Rightarrow> http_request list \<times> App" where
  "apply_map_effect e a =
    (case e of
       SelectPickup p \<Rightarrow> ([], a\<lparr>pickupPoint := p\<rparr>)
     | SelectDropoff p \<Rightarrow> ([], a\<lparr>dropoffPoint := p\<rparr>)
     | SpawnAt la lo \<Rightarrow> (let (req, d) = spawnDriver (hook a) la lo None in ([req], a\<lparr>hook := d\<rparr>)))"

definition on_hook :: "App \<Rightarrow> http_request \<times> Dashboard \<Rightarrow> http_request list \<times> App" where
  "on_hook a r = (case r of (req, d) \<Rightarrow> ([req], a\<lparr>hook := d\<rparr>))"

section \<open>Events\<close>

datatype app_event =
    FrameArrives ws_frame
  | HookReplies "Dashboard \<Rightarrow> Dashboard"
  | Navigate route
  | PopState string string
  | SelectTab tab
  | ChooseCity string
  | Slide int
  | LeaseTick ms
  | ClickLandmark nat
  | RiderButton string "string option"
  | SelectDriver string
  | DriverClick driver_click
  | RunRace
  | RaceReturned bool fetch_result "race_result option"
  | RaceTimer
  | ResetDrivers
  | ClearRace
  | SetFilter string
  | ClearLogs
  | MapTool "SpatialMap \<Rightarrow> SpatialMap"
  | ClickMap GeoPoint
  | MenuMap GeoPoint
  | SeedView GeoBounds
  | ApplyBounds
  | SwitchMapEngine engine
  | OpsRace
  | OpsReseed int
  | OpsEngine engine
  | OpsReply "OpsDashboard \<Rightarrow> OpsDashboard"
  | OpsBurst string "nat \<Rightarrow> real"

text \<open>
  \<open>RaceReturned\<close> tells whether the race was started from the chaos panel.  The sets below are
  the functions that \<open>HookReplies\<close>, \<open>MapTool\<close> and \<open>OpsReply\<close> stand for: the
  replies to the hook and the events of its socket, which may arrive at any time, the map's tools, and
  the replies that the operations page waits for.
\<close>

definition hook_replies :: "(Dashboard \<Rightarrow> Dashboard) set" where
  "hook_replies =
    range rideRequest_reply \<union> range reseedRegion_reply \<union> range spawnDriver_reply \<union> range driverAction_reply \<union>
    range driverResponse_reply \<union> range switchCity_reply \<union> range ws_onclose \<union> {ws_onopen} \<union>
    (\<lambda>(q, res). cancelActiveRide_reply (RequestSent q) res) ` UNIV \<union> (\<lambda>(t, made). reconnect_fires t made) ` UNIV"

definition map_tools :: "(SpatialMap \<Rightarrow> SpatialMap) set" where
  "map_tools =
    range (\<lambda>c m. m\<lparr>clickMode := c\<rparr>) \<union> range fleet_typed \<union> {fleet_decrease, fleet_increase, fleet_blur} \<union>
    {\<lambda>m. m\<lparr>showQuadtreeGrid := \<not> showQuadtreeGrid m\<rparr>, \<lambda>m. m\<lparr>showDriverLabels := \<not> showDriverLabels m\<rparr>,
     \<lambda>m. m\<lparr>showBoundsModal := \<not> showBoundsModal m\<rparr>} \<union>
    range (\<lambda>b m. m\<lparr>customBoundsInput := b\<rparr>) \<union> (\<lambda>(e, ok). handleSwitchEngine_reply e ok) ` UNIV \<union>
    (\<lambda>(e, c, l). engine_status e c l) ` UNIV"

definition ops_replies :: "(OpsDashboard \<Rightarrow> OpsDashboard) set" where
  "ops_replies = range ops_status \<union> range handleEngineSelect_reply \<union> (\<lambda>(rs, ms). burst_settled rs ms) ` UNIV"

fun app_handle :: "app_event \<Rightarrow> App \<Rightarrow> http_request list \<times> App" where
  "app_handle (FrameArrives f) a = ([], a\<lparr>hook := handle_frame f (hook a)\<rparr>)"
| "app_handle (HookReplies g) a = ([], a\<lparr>hook := g (hook a)\<rparr>)"
| "app_handle (Navigate r) a = ([], handleNavigate r a)"
| "app_handle (PopState pathname hash) a = ([], handleNavigate (route_of pathname hash) a)"
| "app_handle (SelectTab t) a = ([], if currentRoute a = MapRoute then a\<lparr>activeTab := t\<rparr> else a)"
| "app_handle (ChooseCity i) a = (case find_city i of Some c \<Rightarrow> handleCityChange c a | None \<Rightarrow> ([], a))"
| "app_handle (Slide v) a = ([], a\<lparr>riderPane := map_option (slide (shown_trip_status a) v) (riderPane a)\<rparr>)"
| "app_handle (LeaseTick now) a = ([], a\<lparr>riderPane := map_option (lease_tick now) (riderPane a)\<rparr>)"
| "app_handle (ClickLandmark n) a =
    ([], if riderPane a = None then a
         else (let (p, q) = landmark_click (activeCity (hook a)) n (pickupPoint a, dropoffPoint a) in a\<lparr>pickupPoint := p, dropoffPoint := q\<rparr>))"
| "app_handle (RiderButton reqId json) a = rider_button reqId json a"
| "app_handle (SelectDriver i) a =
    ([], if i \<in> fst ` set (take 25 (shown (hook a))) then a\<lparr>driverPane := map_option (\<lambda>_. i) (driverPane a)\<rparr> else a)"
| "app_handle (DriverClick c) a =
    (case Option.bind (driverPane a) (\<lambda>i. driver_cockpit_click i (hook a) c) of Some r \<Rightarrow> on_hook a r | None \<Rightarrow> ([], a))"
| "app_handle RunRace a =
    (case chaosPane a of
       None \<Rightarrow> ([], a)
     | Some p \<Rightarrow>
         (case handleRunRace (hook a) p of
            (None, p1) \<Rightarrow> ([], a\<lparr>chaosPane := Some p1\<rparr>)
          | (Some r, p1) \<Rightarrow> on_hook (a\<lparr>chaosPane := Some p1\<rparr>) r))"
| "app_handle (RaceReturned panel res data) a =
    ([], a\<lparr>hook := trigger2RiderRace_reply res data (hook a), chaosPane := (if panel then map_option race_settled else id) (chaosPane a)\<rparr>)"
| "app_handle RaceTimer a = ([], a\<lparr>chaosPane := map_option race_timer (chaosPane a)\<rparr>)"
| "app_handle ResetDrivers a = (if chaosPane a = None then ([], a) else on_hook a (switchCity (hook a) (activeCity (hook a)) 40))"
| "app_handle ClearRace a = ([], a\<lparr>hook := clearRaceEvidence (hook a)\<rparr>)"
| "app_handle (SetFilter cat) a = ([], if cat \<in> set log_categories then a\<lparr>auditPane := map_option (\<lambda>_. cat) (auditPane a)\<rparr> else a)"
| "app_handle ClearLogs a = ([], a\<lparr>hook := clearAuditLogs (hook a)\<rparr>)"
| "app_handle (MapTool g) a = ([], a\<lparr>mapPane := map_option g (mapPane a)\<rparr>)"
| "app_handle (ClickMap p) a = (case mapPane a of Some m \<Rightarrow> apply_map_effect (map_click m p) a | None \<Rightarrow> ([], a))"
| "app_handle (MenuMap p) a = (if mapPane a = None then ([], a) else apply_map_effect (map_contextmenu p) a)"
| "app_handle (SeedView view) a =
    (case mapPane a of Some m \<Rightarrow> on_hook a (handleSeedVisibleView (hook a) m view) | None \<Rightarrow> ([], a))"
| "app_handle ApplyBounds a =
    (case mapPane a of
       Some m \<Rightarrow> if showBoundsModal m then (let (r, m1) = apply_bounds (hook a) m in on_hook (a\<lparr>mapPane := Some m1\<rparr>) r) else ([], a)
     | None \<Rightarrow> ([], a))"
| "app_handle (SwitchMapEngine e) a =
    (case mapPane a of
       Some m \<Rightarrow> (if e = CppEngine \<and> \<not> cppShown m then [] else [Post_engine (e = CppEngine)], a)
     | None \<Rightarrow> ([], a))"
| "app_handle OpsRace a = (if opsPane a = None then ([], a) else on_hook a (trigger2RiderRace (hook a)))"
| "app_handle (OpsReseed n) a =
    (if opsPane a = None \<or> n \<notin> set reseed_choices then ([], a)
     else on_hook a (reseedRegion (hook a) (city_bounds (activeCity (hook a))) (city_name (activeCity (hook a))) n))"
| "app_handle (OpsEngine e) a =
    (case opsPane a of
       Some p \<Rightarrow> if isSwitchingEngine p then ([], a) else ([Post_engine (e = CppEngine)], a\<lparr>opsPane := Some (handleEngineSelect p)\<rparr>)
     | None \<Rightarrow> ([], a))"
| "app_handle (OpsReply g) a = ([], a\<lparr>opsPane := map_option g (opsPane a)\<rparr>)"
| "app_handle (OpsBurst stamp rnd) a =
    (case opsPane a of
       Some p \<Rightarrow> (case handleRunBurstTest (activeCity (hook a)) stamp rnd p of (reqs, p1) \<Rightarrow> (reqs, a\<lparr>opsPane := Some p1\<rparr>))
     | None \<Rightarrow> ([], a))"

definition app_step :: "app_event \<Rightarrow> App \<Rightarrow> http_request list \<times> App" where
  "app_step e a =
    (if crashed a then ([], a)
     else (case app_handle e a of (reqs, a1) \<Rightarrow> (reqs @ appearing a (render a a1), render a a1)))"

text \<open>
  The events that can happen: the functions among them are those of the program, and the event of a
  click is written as \<open>js\<close>.
\<close>

fun real_event :: "string option \<Rightarrow> app_event \<Rightarrow> bool" where
  "real_event js (HookReplies g) = (g \<in> hook_replies)"
| "real_event js (MapTool g) = (g \<in> map_tools)"
| "real_event js (OpsReply g) = (g \<in> ops_replies)"
| "real_event js (RiderButton reqId json) = (json = js)"
| "real_event js _ = True"

text \<open>A run of the dashboard, with the requests sent on the way.\<close>

inductive app_run :: "string option \<Rightarrow> http_request list \<Rightarrow> App \<Rightarrow> bool" where
  app_start: "app_new made pathname hash = (reqs, a) \<Longrightarrow> app_run js reqs a"
| app_event: "app_run js reqs a \<Longrightarrow> real_event js e \<Longrightarrow> app_step e a = (new, a') \<Longrightarrow> app_run js (reqs @ new) a'"

end
