(* ===== verification/CockpitProperties.thy ===== *)
theory CockpitProperties
  imports App ServerProperties TripProperties
begin

text \<open>
  What a user of the dashboard can do: which requests it sends, when its buttons and the server's
  rules agree, and where a click has not the effect it announces.
\<close>

section \<open>The driver's buttons\<close>

lemma milestone_enabled_iff:
  "milestone_enabled st action \<longleftrightarrow>
    (\<exists>target. action_target action = Some target \<and> target \<in> set (ALLOWED_TRANSITIONS st) \<and> st \<noteq> target)"
  by (cases st) (auto simp: milestone_enabled_def action_target_def)

lemma milestone_call_transition:
  assumes "action_target action = Some target"
  shows "milestone_call m now k target = transition m now k target Driver None JUndefined"
  using assms by (auto simp: action_target_def milestone_call_def driverArrived_def startTrip_def tsm_completeTrip_def split: if_splits)

lemma driver_transition:
  assumes "getTrip m k = Some t" and "action_target action = Some target" and "t_id t = k"
  shows "case transition m now k target Driver None JUndefined of
      (res, m') \<Rightarrow>
        if milestone_enabled (t_status t) action then (\<exists>t' ev. res = Inr (t', ev) \<and> getTrip m' k = Some t' \<and> t_status t' = target \<and> t_status t \<noteq> target)
        else getTrip m' k = Some t"
proof -
  have target: "target \<in> {Arrived, In_progress, Completed}" using assms(2) by (auto simp: action_target_def split: if_splits)
  then show ?thesis using assms milestone_enabled_iff [of "t_status t" action]
    by (auto simp: transition_def getTrip_def Let_def notifyTransition_def recordEvent_def clearActiveIndices_def split: option.splits if_splits)
qed

lemma no_events [simp]: "out s = out (service (gateway v)) \<Longrightarrow> with_gateway rnd now v (with_service (gateway v) s) = v\<lparr>gateway := with_service (gateway v) s\<rparr>"
  by (simp add: with_gateway_def)

lemma post_action_trip:
  assumes "hasControlAccess (config v) auth" and "getTrip (stateMachine (service (gateway v))) k = Some t" "t_id t = k"
    and "t_driverId t = Some i" "i \<noteq> []" and "action \<in> set milestone_actions"
  shows "case post_driver_action v now auth k action (Some i) of
      (reply, v') \<Rightarrow>
        if milestone_enabled (t_status t) action
        then fst reply = 200 \<and> getTrip (stateMachine (service (gateway v'))) k \<noteq> Some t
        else getTrip (stateMachine (service (gateway v'))) k = Some t"
proof -
  obtain target where target: "action_target action = Some target"
    using assms(6) by (auto simp: milestone_actions_def action_target_def)
  obtain res m' where m': "transition (stateMachine (service (gateway v))) now k target Driver None JUndefined = (res, m')" by fastforce
  note tr = driver_transition [OF assms(2) target assms(3), of now, unfolded m' case_prod_conv]
  obtain res2 s1 where dm: "driver_milestone (service (gateway v)) now k i target = (res2, s1)" by fastforce
  have s1: "stateMachine s1 = m' \<and> out s1 = out (service (gateway v)) \<and> (res2 = (case res of Inl e \<Rightarrow> Inl e | Inr (t', ev) \<Rightarrow> Inr t'))"
    using dm by (auto simp: driver_milestone_def milestone_call_transition [OF target] m' split: sum.splits)
  have "post_driver_action v now auth k action (Some i) =
      ((case res2 of Inl _ \<Rightarrow> 400 | Inr _ \<Rightarrow> 200, ActionResult res2), v\<lparr>gateway := with_service (gateway v) s1\<rparr>)"
    using assms(1,2,4,5) target dm s1 by (simp add: post_driver_action_def truthy_def Let_def)
  then show ?thesis using tr s1 by (cases "milestone_enabled (t_status t) action") auto
qed

text \<open>
  C35. The driver's cockpit offers what the server accepts: while the trip that the cockpit shows is as the
  server has it, the enabled buttons are exactly the actions that move the trip on when they are
  sent, and the server answers them with 200; pressing any other one would leave the trip as it is.
  The state machine is in any state that a run of it reaches.
\<close>

theorem driver_buttons_match_the_server:
  assumes "tsm_run h (stateMachine (service (gateway v)))" and "hasControlAccess (config v) auth"
    and "getTrip (stateMachine (service (gateway v))) (at_id a) = Some t"
    and "at_status a = t_status t" "at_driverId a = t_driverId t"
    and "driver_cockpit sel ds (Some a) = Some panel" "dp_actions panel = Some enabled"
    and "action \<in> set milestone_actions"
  shows "let (reply, v') = post_driver_action v now auth (at_id a) action (at_driverId a) in
    (action \<in> set enabled \<longleftrightarrow> getTrip (stateMachine (service (gateway v'))) (at_id a) \<noteq> Some t) \<and>
    (action \<in> set enabled \<longrightarrow> fst reply = 200)"
proof -
  note inv = tsm_run_tsm_inv [OF assms(1)]
  have tk: "t_id t = at_id a" "driver_ok t" using tsm_invD [OF inv assms(3) [unfolded getTrip_def]] by simp_all
  have p: "is_assigned (current_driver sel ds (Some a)) (Some a) \<and> enabled = filter (milestone_enabled (at_status a)) milestone_actions"
    using assms(6,7) by (auto simp: driver_cockpit_def Let_def split: if_splits option.splits)
  then obtain i where i: "t_driverId t = Some i" using assms(5) by (auto simp: is_assigned_def)
  then have "i \<noteq> []" using tk(2) by (auto simp: driver_ok_def js_trim_def split: TripStatus.splits)
  from post_action_trip [OF assms(2,3) tk(1) i this assms(8), of now] show ?thesis
    using p assms(4,5,8) i by (auto simp: Let_def split: if_splits)
qed

text \<open>A matched trip; the cockpit shows its driver, who may report the arrival.\<close>

definition matched_server :: Server where
  "matched_server =
    \<lparr>config = \<lparr>sc_host = ''localhost'', sc_token = None\<rparr>, gateway = ws_new (service_new (registry_new (qt_new BLR_BOUNDS 8 7)) demo_matched),
     simulator = sim_new BLR_BOUNDS, activeCityName = ''Bengaluru'', activeBounds = BLR_BOUNDS, activeEngine = TsEngine\<rparr>"

definition matched_view :: ActiveTrip where
  "matched_view = \<lparr>at_id = ''trip_u1'', at_requestId = ''r1'', at_riderId = ''ann'', at_driverId = Some ''d1'', at_status = Matched,
     at_pickup = \<lparr>lat = 13, lng = 77.6\<rparr>, at_dropoff = \<lparr>lat = 13, lng = 77.6\<rparr>, at_distanceMeters = None, at_offerTimeoutMs = 15000,
     at_activeCandidate = None\<rparr>"

theorem driver_buttons_match_the_server_witness:
  "getTrip (stateMachine (service (gateway (snd (post_driver_action matched_server 9 None ''trip_u1'' ''arrived'' (Some ''d1'')))))) ''trip_u1'' \<noteq>
      getTrip demo_matched ''trip_u1'' \<and>
   getTrip (stateMachine (service (gateway (snd (post_driver_action matched_server 9 None ''trip_u1'' ''start_trip'' (Some ''d1'')))))) ''trip_u1'' =
      getTrip demo_matched ''trip_u1''"
proof -
  obtain h where h: "tsm_run h demo_matched" using demo_runs(3) by blast
  have m: "stateMachine (service (gateway matched_server)) = demo_matched" "hasControlAccess (config matched_server) None"
    by (simp_all add: matched_server_def ws_new_def service_new_def hasControlAccess_def isLoopbackHost_def LOOPBACK_HOSTS_def)
  obtain t where t: "getTrip demo_matched ''trip_u1'' = Some t" "t_status t = Matched" "t_driverId t = Some ''d1''" using demo_matched_trip by (auto simp: getTrip_def)
  obtain panel where panel: "driver_cockpit ''d1'' [(''d1'', 13, 77, Busy)] (Some matched_view) = Some panel" "dp_actions panel = Some [''arrived'']"
    by (simp add: driver_cockpit_def matched_view_def current_driver_def target_driver_def is_candidate_def is_assigned_def milestone_actions_def
        milestone_enabled_def Let_def)
  have v: "at_id matched_view = ''trip_u1''" "at_status matched_view = t_status t" "at_driverId matched_view = t_driverId t"
    using t by (simp_all add: matched_view_def)
  note p = driver_buttons_match_the_server [OF h [folded m(1)] m(2) _ v(2,3) panel, of _ 9, unfolded v(1) m(1), OF t(1), unfolded v(3) t(3)]
  show ?thesis using p [of "''arrived''"] p [of "''start_trip''"] t(1) by (simp add: milestone_actions_def Let_def case_prod_beta)
qed

section \<open>What the dashboard asks of the server\<close>

text \<open>Two pages: just opened, and after a click on the rider's button.\<close>

definition opened_app :: App where
  "opened_app = snd (app_new True [] [])"

definition asking_app :: App where
  "asking_app = snd (app_step (RiderButton ''req_1'' None) opened_app)"

lemma opened_app_facts:
  shows "riderPane opened_app = Some rider_new" "activeTrip (hook opened_app) = None" "\<not> crashed opened_app" "currentRoute opened_app = MapRoute"
    and "shown (hook opened_app) = []" "mapPane opened_app \<noteq> None" "opsPane opened_app = None" "activeTab opened_app = RiderTab" "app_run js (fst (app_new True [] [])) opened_app"
proof -
  have route: "route_of [] [] = MapRoute" by (simp add: route_of_def str_includes_def)
  show "riderPane opened_app = Some rider_new" "activeTrip (hook opened_app) = None" "\<not> crashed opened_app" "currentRoute opened_app = MapRoute"
      "shown (hook opened_app) = []" "mapPane opened_app \<noteq> None" "opsPane opened_app = None"
      "activeTab opened_app = RiderTab"
    by (simp_all add: opened_app_def app_new_def route render_def keep_def rider_new_def lease_effect_def mount_def ws_connect_def
        dashboard_new_def Let_def close_socket_def split: option.splits)
  show "app_run js (fst (app_new True [] [])) opened_app"
    unfolding opened_app_def by (rule app_start [of True "[]" "[]"]) simp
qed

lemma asking_step:
  "app_step (RiderButton ''req_1'' None) opened_app =
    ([Post_rides ''req_1'' ''rider_alice'' (pickupPoint opened_app) (dropoffPoint opened_app) 15000], asking_app)"
  and asking_app_facts: "\<exists>t. activeTrip (hook asking_app) = Some t \<and> at_id t = ''pending...'' \<and> at_status t = Requested \<and> at_activeCandidate t = None"
    "shown (hook asking_app) = []" "riderPane asking_app \<noteq> None" "\<not> crashed asking_app" "currentRoute asking_app = MapRoute"
proof -
  note eval = asking_app_def app_step_def rider_button_def shown_trip_status_def dispatch_offered_def sendRideRequest_def addLog_def
    appearing_def render_def keep_def rider_new_def lease_effect_def shown_candidate_def opened_app_facts Let_def
  show "app_step (RiderButton ''req_1'' None) opened_app =
      ([Post_rides ''req_1'' ''rider_alice'' (pickupPoint opened_app) (dropoffPoint opened_app) 15000], asking_app)"
    using opened_app_facts(6,7) by (auto simp: eval)
  show "\<exists>t. activeTrip (hook asking_app) = Some t \<and> at_id t = ''pending...'' \<and> at_status t = Requested \<and> at_activeCandidate t = None"
      "shown (hook asking_app) = []" "riderPane asking_app \<noteq> None" "\<not> crashed asking_app" "currentRoute asking_app = MapRoute"
    by (simp_all add: eval split: option.splits)
qed

lemma asking_app_run:
  "app_run None (fst (app_new True [] []) @ [Post_rides ''req_1'' ''rider_alice'' (pickupPoint opened_app) (dropoffPoint opened_app) 15000]) asking_app"
  by (rule app_event [OF opened_app_facts(9) _ asking_step(1)]) simp

text \<open>The slider's range, and the components that are shown together.\<close>

definition slider_ok :: "App \<Rightarrow> bool" where
  "slider_ok a = (\<forall>rc. riderPane a = Some rc \<longrightarrow> 5 \<le> offerTimeoutSec rc \<and> offerTimeoutSec rc \<le> 30)"

definition panes_ok :: "App \<Rightarrow> bool" where
  "panes_ok a =
    (slider_ok a \<and> (riderPane a \<noteq> None \<longrightarrow> currentRoute a = MapRoute \<and> activeTab a = RiderTab) \<and>
     (currentRoute a = MapRoute \<longrightarrow> mapPane a \<noteq> None \<and> opsPane a = None))"

lemma lease_slider [simp]: "offerTimeoutSec (lease_effect trip rc) = offerTimeoutSec rc" "offerTimeoutSec (lease_tick now rc) = offerTimeoutSec rc"
  by (simp_all add: lease_effect_def lease_tick_def Let_def split: option.split)

lemma slide_ok: "5 \<le> offerTimeoutSec rc \<Longrightarrow> offerTimeoutSec rc \<le> 30 \<Longrightarrow> 5 \<le> offerTimeoutSec (slide st v rc) \<and> offerTimeoutSec (slide st v rc) \<le> 30"
  by (simp add: slide_def)

lemma render_panes: "slider_ok a \<Longrightarrow> panes_ok (render old a)"
  by (cases "riderPane a"; cases "mapPane a") (auto simp: panes_ok_def slider_ok_def render_def keep_def rider_new_def Let_def)

lemma handle_slider:
  assumes "slider_ok a"
  shows "slider_ok (snd (app_handle e a))"
proof (cases e)
  case (RiderButton x json)
  then show ?thesis using assms
    by (auto simp: rider_button_def slider_ok_def Let_def split: option.splits cancel_course.splits prod.splits)
next
  case (Slide v)
  then show ?thesis using assms slide_ok by (auto simp: slider_ok_def)
qed (use assms in \<open>auto simp: slider_ok_def on_hook_def handleNavigate_def handleCityChange_def apply_map_effect_def handleRunRace_def Let_def
       split: option.splits prod.splits map_effect.splits\<close>)

text \<open>
  What the server has to be told to take a request as it is meant; a cancellation from the page
  carries the event of the click, so there is one only when that can be written.
\<close>

fun honoured :: "string option \<Rightarrow> http_request \<Rightarrow> bool" where
  "honoured js (Post_cancel tid rider reason) = (reason = ReasonEvent js \<and> js \<noteq> None)"
| "honoured js (Post_rides req rider p q tmo) = (5000 \<le> tmo \<and> tmo \<le> 30000)"
| "honoured js (Post_driver_action tid i action) = (action \<in> set milestone_actions)"
| "honoured js (Post_driver_response i req resp) = (resp \<in> {''accepted'', ''rejected''})"
| "honoured js _ = True"

lemma click_honoured: "driver_cockpit_click sel d c = Some (req, d') \<Longrightarrow> honoured js req"
  by (auto simp: driver_cockpit_click_def sendDriverResponse_def sendDriverAction_def driver_cockpit_def milestone_actions_def Let_def
      split: option.splits driver_click.splits if_splits)

lemma handle_honoured:
  assumes "slider_ok a" and "real_event js e" and "r \<in> set (fst (app_handle e a))"
  shows "honoured js r"
proof (cases e)
  case (RiderButton x json)
  then show ?thesis using assms
    by (auto simp: rider_button_def slider_ok_def sendRideRequest_def cancelActiveRide_def Let_def split: option.splits if_splits)
next
  case (DriverClick c)
  then show ?thesis using assms(3) click_honoured by (auto simp: on_hook_def bind_eq_Some_conv split: option.splits prod.splits)
next
  case (OpsBurst stamp rnd)
  then show ?thesis using assms(3)
    by (auto simp: handleRunBurstTest_def burst_request_def Let_def split: option.splits if_splits)
qed (use assms in \<open>auto simp: on_hook_def handleCityChange_def switchCity_def apply_map_effect_def spawnDriver_def handleRunRace_def
       trigger2RiderRace_def handleSeedVisibleView_def reseedRegion_def apply_bounds_def Let_def
       split: option.splits prod.splits map_effect.splits if_splits\<close>)

lemma app_run_honoured:
  assumes "app_run js reqs a"
  shows "panes_ok a \<and> (\<forall>r\<in>set reqs. honoured js r)"
  using assms
proof (induction rule: app_run.induct)
  case (app_start made pathname hash reqs a js)
  then show ?case using render_panes
    by (auto simp: app_new_def mount_def appearing_def slider_ok_def Let_def)
next
  case (app_event js reqs a e new a')
  have s: "slider_ok a" using app_event.IH by (simp add: panes_ok_def)
  show ?case
  proof (cases "crashed a")
    case True
    then show ?thesis using app_event by (simp add: app_step_def)
  next
    case False
    then have "a' = render a (snd (app_handle e a))" "set new \<subseteq> set (fst (app_handle e a)) \<union> {Get_engine}"
      using app_event.hyps(3) by (auto simp: app_step_def appearing_def split: prod.splits if_splits)
    then show ?thesis using render_panes [OF handle_slider [OF s]] handle_honoured [OF s app_event.hyps(2)] app_event.IH by auto
  qed
qed

text \<open>
  The requests for rides and of drivers: the time a driver has to answer, which the rider chose
  between 5 and 30 seconds, is not changed by the server's limits, and the actions and answers of
  drivers are ones that the server knows; nothing is said of the values in the other requests, some
  of which the server refuses.  A request that cancels a ride is sent only where the event of a click
  can be written as JSON.
\<close>

theorem ride_and_driver_requests_fit:
  assumes "app_run js reqs a"
  shows "(\<forall>req rider p q tmo. Post_rides req rider p q tmo \<in> set reqs \<longrightarrow> cf_offerTimeoutMs (request_config (JNum (Fin tmo))) = tmo) \<and>
    (\<forall>tid i action. Post_driver_action tid i action \<in> set reqs \<longrightarrow> action_target action \<noteq> None) \<and>
    (\<forall>i req resp. Post_driver_response i req resp \<in> set reqs \<longrightarrow> response_of (JStr resp) \<noteq> None) \<and>
    (\<forall>tid rider reason. Post_cancel tid rider reason \<in> set reqs \<longrightarrow> js \<noteq> None) \<and> panes_ok a"
proof (intro conjI allI impI)
  note run = app_run_honoured [OF assms]
  show "panes_ok a" using run by blast
  fix x y z action p q tmo reason
  show "cf_offerTimeoutMs (request_config (JNum (Fin tmo))) = tmo" if "Post_rides x y p q tmo \<in> set reqs"
    using run that by (force simp: request_config_def clampTimeout_default_def clampTimeout_def)
  show "action_target action \<noteq> None" if "Post_driver_action x y action \<in> set reqs"
    using run that by (force simp: milestone_actions_def action_target_def)
  show "response_of (JStr action) \<noteq> None" if "Post_driver_response x y action \<in> set reqs"
    using run that by force
  show "js \<noteq> None" if "Post_cancel x y reason \<in> set reqs" using run that by force
qed

theorem ride_and_driver_requests_fit_witness:
  "\<exists>reqs a p q. app_run None reqs a \<and> Post_rides ''req_1'' ''rider_alice'' p q 15000 \<in> set reqs \<and>
    cf_offerTimeoutMs (request_config (JNum (Fin 15000))) = 15000 \<and> panes_ok a"
proof -
  define reqs where "reqs = fst (app_new True [] []) @ [Post_rides ''req_1'' ''rider_alice'' (pickupPoint opened_app) (dropoffPoint opened_app) 15000]"
  have run: "app_run None reqs asking_app" unfolding reqs_def by (rule asking_app_run)
  have sent: "Post_rides ''req_1'' ''rider_alice'' (pickupPoint opened_app) (dropoffPoint opened_app) 15000 \<in> set reqs" by (simp add: reqs_def)
  show ?thesis using ride_and_driver_requests_fit [OF run] run sent by blast
qed

text \<open>
  The button that is to cancel a ride hands over the click's event.  Where \<open>JSON.stringify\<close> throws
  on such an event (React's refers to the page's elements, which refer back to React's own tree), no
  dashboard ever sends the request that cancels a ride, whatever is clicked: while the ride has no
  identifier from the server, the button only shows it as cancelled, and the server goes on looking
  for a driver; once it has one, the body cannot be written, and the ride stays as it is.
\<close>

theorem cancel_button_never_cancels:
  assumes throws: "js = None"
    and "app_run js reqs a" and "\<not> crashed a" and "riderPane a \<noteq> None" and "activeTrip (hook a) = Some t"
    and "\<not> dispatch_offered (Some (at_status t))" and "app_step (RiderButton x js) a = (new, a')"
  shows "new = [] \<and> (\<nexists>tid rider reason. Post_cancel tid rider reason \<in> set reqs) \<and>
    activeTrip (hook a') = (if at_id t \<in> {[], ''pending...''} then Some (t\<lparr>at_status := Cancelled\<rparr>) else Some t)"
proof -
  note run = app_run_honoured [OF assms(2)]
  let ?c = "cancelActiveRide (hook a) (ReasonEvent js)"
  have handle: "app_handle (RiderButton x js) a = ([], a\<lparr>hook := cancelActiveRide_reply (fst ?c) FetchFailed (snd ?c)\<rparr>)"
    using assms(1,4,5,6) by (auto simp: rider_button_def shown_trip_status_def cancelActiveRide_def split: option.splits)
  have hook: "hook (render a b) = hook b" for b by (simp add: render_def Let_def)
  have city: "activeCity (cancelActiveRide_reply c f d) = activeCity d" "activeCity (snd (cancelActiveRide d r)) = activeCity d" for c f d r
    by (simp_all add: cancelActiveRide_reply_def cancelActiveRide_def setActiveTrip_def addLog_def split: cancel_course.split option.split)
  have "mapPane a \<noteq> None" "currentRoute a = MapRoute" "opsPane a = None" using run assms(4) by (auto simp: panes_ok_def)
  then have "new = []" using assms(3,7) handle hook city by (auto simp: app_step_def appearing_def render_def keep_def Let_def)
  moreover have "activeTrip (hook a') = (if at_id t \<in> {[], ''pending...''} then Some (t\<lparr>at_status := Cancelled\<rparr>) else Some t)"
    using assms(1,3,5,7) handle hook
    by (auto simp: app_step_def cancelActiveRide_def cancelActiveRide_reply_def setActiveTrip_def addLog_def)
  moreover have "\<nexists>tid rider reason. Post_cancel tid rider reason \<in> set reqs" using run throws by force
  ultimately show ?thesis by blast
qed

theorem cancel_button_never_cancels_witness:
  "\<exists>reqs. app_run None reqs asking_app \<and> fst (app_step (RiderButton ''req_2'' None) asking_app) = [] \<and>
    (\<nexists>tid rider reason. Post_cancel tid rider reason \<in> set reqs) \<and>
    map_option at_status (activeTrip (hook (snd (app_step (RiderButton ''req_2'' None) asking_app)))) = Some Cancelled"
proof -
  obtain t where t: "activeTrip (hook asking_app) = Some t" "at_id t = ''pending...''" "at_status t = Requested" using asking_app_facts(1) by blast
  have offered: "\<not> dispatch_offered (Some (at_status t))" by (simp add: dispatch_offered_def t(3))
  show ?thesis
    using cancel_button_never_cancels [OF refl asking_app_run asking_app_facts(4,3) t(1) offered prod.collapse [symmetric], of "''req_2''"]
      asking_app_run t(2) by auto
qed

text \<open>
  The driver's tab takes the page away exactly when there is a ride without an offer and the
  dashboard has no positions, as at the start, while the server cannot be reached, and in an empty
  region.
\<close>

theorem driver_tab_needs_drivers:
  assumes "\<not> crashed a" and "currentRoute a = MapRoute"
  shows "crashed (snd (app_step (SelectTab DriverTab) a)) \<longleftrightarrow>
    activeTrip (hook a) \<noteq> None \<and> shown_candidate (hook a) = None \<and> shown (hook a) = []"
proof -
  have throws: "driver_cockpit i ds trip = None \<longleftrightarrow> trip \<noteq> None \<and> Option.bind trip at_activeCandidate = None \<and> ds = []" for i ds trip
  proof -
    have "current_driver i ds trip = None \<longleftrightarrow> ds = []"
      by (cases ds) (auto simp: current_driver_def split: option.splits)
    then show ?thesis by (auto simp: driver_cockpit_def is_candidate_def Let_def split: option.split)
  qed
  show ?thesis using assms
    by (simp add: app_step_def render_def keep_def Let_def throws shown_candidate_def)
qed

theorem driver_tab_needs_drivers_witness:
  "crashed (snd (app_step (SelectTab DriverTab) asking_app)) \<and> \<not> crashed (snd (app_step (SelectTab DriverTab) opened_app))"
proof
  show "crashed (snd (app_step (SelectTab DriverTab) asking_app))"
    using driver_tab_needs_drivers [OF asking_app_facts(4,5)] asking_app_facts(1,2) by (auto simp: shown_candidate_def)
  show "\<not> crashed (snd (app_step (SelectTab DriverTab) opened_app))"
    using driver_tab_needs_drivers [OF opened_app_facts(3,4)] opened_app_facts(2) by blast
qed

section \<open>The cities\<close>

definition bounds_json :: "GeoBounds \<Rightarrow> jsval" where
  "bounds_json b =
    JObj [(''minLat'', JNum (Fin (minLat b))), (''maxLat'', JNum (Fin (maxLat b))), (''minLng'', JNum (Fin (minLng b))), (''maxLng'', JNum (Fin (maxLng b)))]"

lemma bounds_json_of: "geo_bounds_of (bounds_json b) = Some b' \<Longrightarrow> b' = b"
  by (cases b) (auto simp: geo_bounds_of_def bounds_json_def split: if_splits)

lemma centre_in_region:
  assumes "city \<in> set CITY_PRESETS"
  shows "in_region (city_bounds city) (Fin (lat (city_center city))) (Fin (lng (city_center city))) \<longleftrightarrow> city \<noteq> preset_tokyo"
proof -
  have eq: "city = preset_tokyo \<longleftrightarrow> city_id city = ''tokyo''"
    using assms unfolding CITY_PRESETS_def
    by (simp, elim disjE)
      (simp_all add: preset_bengaluru_def preset_new_york_def preset_london_def preset_tokyo_def preset_san_francisco_def preset_singapore_def)
  show ?thesis using assms unfolding CITY_PRESETS_def eq
    by (simp, elim disjE)
      (simp_all add: in_box_def preset_bengaluru_def preset_new_york_def preset_london_def preset_tokyo_def preset_san_francisco_def preset_singapore_def)
qed

text \<open>
  The race of two riders in each city of the menu: once the server has taken over the region of a
  city, it refuses the race that the dashboard asks for exactly when the city is Tokyo, whose centre
  is outside of its own bounds; in the other five cities the race is not refused.
\<close>

theorem race_in_every_city_but_tokyo:
  assumes "city \<in> set CITY_PRESETS" and "switchCity d city n = (Post_reset b name cnt, d1)" and "trigger2RiderRace d1 = (Post_race c, d2)"
    and "unit_randoms rnds" and "post_reset v now rnds auth (bounds_json b) (Some name) (JNum (Fin (of_int cnt))) = ((200, body), v1)"
    and "hasControlAccess (config v1) auth1"
    and "post_race v1 now1 stamp cpp cands auth1 (JNum (Fin (lat c))) (JNum (Fin (lng c))) = (reply, v2)"
  shows "reply = Some (400, Failure OutsideOperatingRegion) \<longleftrightarrow> city = preset_tokyo"
proof -
  have b: "b = city_bounds city" using assms(2) by (auto simp: switchCity_def addLog_def)
  have c: "c = city_center city" using assms(2,3) by (auto simp: switchCity_def trigger2RiderRace_def addLog_def)
  have "geo_bounds_of (bounds_json b) = Some (activeBounds v1)" "reg_region (server_registry v1) = activeBounds v1"
    using post_reset_seeded [OF assms(4,5)] by (auto simp: bounds_json_def seeded_def)
  then have region: "reg_region (server_registry v1) = city_bounds city" using bounds_json_of b by metis
  show ?thesis using assms(6,7) centre_in_region [OF assms(1)]
    by (auto simp: post_race_def center_coord_def region c reject_def Let_def case_prod_beta split: list.splits prod.splits if_splits)
qed

lemma sim_event_config [simp]: "config (sim_event rnd now v e) = config v"
  by (cases e) (simp_all add: Let_def put_registry_def split: prod.split option.split)

lemma sim_events_config [simp]: "config (foldl (sim_event rnd now) v es) = config v"
  by (induction es arbitrary: v) simp_all

theorem race_in_every_city_but_tokyo_witness:
  "\<exists>v1. activeBounds v1 = city_bounds preset_tokyo \<and>
    fst (post_race v1 0 [] False [] (Some ''Bearer secret'') (JNum (Fin (lat (city_center preset_tokyo)))) (JNum (Fin (lng (city_center preset_tokyo))))) =
      Some (400, Failure OutsideOperatingRegion)"
proof -
  let ?rnds = "\<lambda>_. (1/2, 1/2, 0, 0) :: randoms" and ?d = "dashboard_new preset_london" and ?b = "city_bounds preset_tokyo"
  let ?p = "post_reset demo_server 0 ?rnds (Some ''Bearer secret'') (bounds_json ?b) (Some (city_name preset_tokyo)) (JNum (Fin (of_int 40)))"
  have rnd: "unit_randoms ?rnds" by (simp add: unit_randoms_def)
  have acc: "hasControlAccess (config demo_server) (Some ''Bearer secret'')" by (simp add: hasControlAccess_def demo_server_def)
  have cnt: "driver_count (JNum (Fin 40)) = Some 40" "js_truthy (bounds_json ?b)" by (simp_all add: driver_count_def bounds_json_def)
  have bnd: "geo_bounds_of (bounds_json ?b) = Some ?b"
    by (simp add: geo_bounds_of_def bounds_json_def isValidGeoBounds_def preset_tokyo_def)
  have "fst (fst ?p) = 200" by (simp add: post_reset_def acc cnt bnd Let_def split: prod.split)
  then obtain body v1 where p: "?p = ((200, body), v1)" by (metis prod.collapse)
  have v1: "config v1 = config demo_server" "activeBounds v1 = ?b"
    using p by (auto simp: post_reset_def acc cnt bnd Let_def case_prod_beta with_gateway_def put_registry_def broadcast_def)
  obtain d1 where d1: "switchCity ?d preset_tokyo 40 = (Post_reset ?b (city_name preset_tokyo) 40, d1)" by (simp add: switchCity_def Let_def)
  obtain c d2 where d2: "trigger2RiderRace d1 = (Post_race c, d2)" by (simp add: trigger2RiderRace_def)
  have c: "c = city_center preset_tokyo" using d1 d2 by (auto simp: switchCity_def trigger2RiderRace_def addLog_def)
  have tokyo: "preset_tokyo \<in> set CITY_PRESETS" by (simp add: CITY_PRESETS_def)
  show ?thesis
    using race_in_every_city_but_tokyo [OF tokyo d1 d2 rnd p acc [folded v1(1)] prod.collapse [symmetric], of 0 "[]" False "[]"] v1(2) unfolding c by blast
qed

end
